(* ===== verification/Prelude.thy ===== *)
theory Prelude
  imports Complex_Main "HOL-Library.Word" "HOL-Library.AList"
begin

unbundle bit_operations_syntax

text \<open>
  Shared vocabulary of the C-Bus development.

  \<^item> Python \<open>bytes\<close> and \<open>bytearray\<close> values are lists of 8-bit words
    (\<open>bytes\<close>); Python integers are \<open>int\<close>.
  \<^item> An exception is a value of \<open>exn\<close>, one constructor per exception class the
    sources raise or let escape; a fallible computation returns \<open>'a result\<close>, a sum
    whose left side is the exception. \<open>rbind\<close> sequences such computations.
  \<^item> \<open>py_get\<close>, \<open>py_byte\<close>, \<open>py_bytes\<close>, \<open>py_last\<close> and \<open>find_sub\<close> are the
    Python primitives \<open>xs[i]\<close>, the range check of \<open>bytes([x])\<close>,
    \<open>bytes([...])\<close>, \<open>xs[-1]\<close> and \<open>bytes.find\<close>.
  \<^item> A Python dict, whose iteration order is observable, is an association list under
    \<open>AList.update\<close> (in place for a known key, at the end for a new one).

  The lemmas are about these primitives only; the collections \<open>result_simps\<close>,
  \<open>wire_simps\<close> and \<open>inv_intros\<close> gather what the components' proofs share.
\<close>

named_theorems result_simps "elimination of fallible computations"
named_theorems wire_simps "evaluation of byte-level encoders"
named_theorems inv_intros "preservation of component invariants"

section \<open>Bytes, exceptions and results\<close>

type_synonym byte = "8 word"
type_synonym bytes = "byte list"

datatype exn =
    ValueError
  | IndexError
  | KeyError
  | TypeError
  | NotImplementedError
  | StructError
  | BinasciiError
  | OSError
  | AttributeError
  | OverflowError
  | RuntimeError
  | TransportError
  | ConnectionTimeoutError
  | CancelledError
  | UnboundLocalError
  | SystemExit
  | CBZException

type_synonym 'a result = "exn + 'a"

fun rbind :: "'e + 'a \<Rightarrow> ('a \<Rightarrow> 'e + 'b) \<Rightarrow> 'e + 'b" where
  "rbind (Inl e) f = Inl e"
| "rbind (Inr x) f = f x"

definition rmap :: "('a \<Rightarrow> 'b) \<Rightarrow> 'e + 'a \<Rightarrow> 'e + 'b" where
  "rmap f m = rbind m (\<lambda>x. Inr (f x))"

lemma rbind_cong [fundef_cong]:
  assumes "m = m'" and "\<And>x. m' = Inr x \<Longrightarrow> f x = g x"
  shows "rbind m f = rbind m' g"
  using assms by (cases m') auto

lemma rbind_eq_Inr [result_simps]:
  "rbind m f = Inr y \<longleftrightarrow> (\<exists>x. m = Inr x \<and> f x = Inr y)"
  by (cases m) auto

lemma rbind_eq_Inl [result_simps]:
  "rbind m f = Inl e \<longleftrightarrow> m = Inl e \<or> (\<exists>x. m = Inr x \<and> f x = Inl e)"
  by (cases m) auto

lemma rmap_simps [simp]:
  "rmap f (Inl e) = Inl e"
  "rmap f (Inr x) = Inr (f x)"
  by (simp_all add: rmap_def)

lemma rmap_eq_Inr [result_simps]: "rmap f m = Inr y \<longleftrightarrow> (\<exists>x. m = Inr x \<and> y = f x)"
  by (cases m) auto

lemma rmap_eq_Inl [result_simps]: "rmap f m = Inl e \<longleftrightarrow> m = Inl e"
  by (cases m) auto

lemma rbind_assoc: "rbind (rbind m f) g = rbind m (\<lambda>x. rbind (f x) g)"
  by (cases m) auto

section \<open>Actions on a state\<close>

text \<open>
  Code that updates an object and may raise: a function of the object's state to its result and
  the new state. An exception keeps what was done before it. \<open>foreach\<close> is a loop over a list
  that the first exception ends.
\<close>

type_synonym ('s, 'a) act = "'s \<Rightarrow> 'a result \<times> 's"

definition areturn :: "'a \<Rightarrow> ('s, 'a) act" where
  "areturn x s = (Inr x, s)"

definition araise :: "exn \<Rightarrow> ('s, 'a) act" where
  "araise e s = (Inl e, s)"

definition amodify :: "('s \<Rightarrow> 's) \<Rightarrow> ('s, unit) act" where
  "amodify f s = (Inr (), f s)"

definition abind :: "('s, 'a) act \<Rightarrow> ('a \<Rightarrow> ('s, 'b) act) \<Rightarrow> ('s, 'b) act" where
  "abind m f s = (case m s of (Inl e, s') \<Rightarrow> (Inl e, s') | (Inr x, s') \<Rightarrow> f x s')"

definition athen :: "('s, 'a) act \<Rightarrow> ('s, 'b) act \<Rightarrow> ('s, 'b) act" where
  "athen m k = abind m (\<lambda>_. k)"

definition awhen :: "bool \<Rightarrow> ('s, unit) act \<Rightarrow> ('s, unit) act" where
  "awhen b m = (if b then m else areturn ())"

definition alift :: "'a result \<Rightarrow> ('s, 'a) act" where
  "alift r s = (r, s)"

fun foreach :: "('a \<Rightarrow> ('s, unit) act) \<Rightarrow> 'a list \<Rightarrow> ('s, unit) act" where
  "foreach f [] = areturn ()"
| "foreach f (x # xs) = athen (f x) (foreach f xs)"

named_theorems act_simps "running actions"

lemmas act_defs [act_simps] = areturn_def araise_def amodify_def abind_def athen_def awhen_def

text \<open>
  \<open>triple P m Q E\<close>: from a state with \<open>P\<close>, the action ends either normally with
  \<open>Q\<close> of its result and the new state, or by an exception with \<open>E\<close> of the new state.
\<close>

definition triple :: "('s \<Rightarrow> bool) \<Rightarrow> ('s, 'a) act \<Rightarrow> ('a \<Rightarrow> 's \<Rightarrow> bool) \<Rightarrow> ('s \<Rightarrow> bool) \<Rightarrow> bool" where
  "triple P m Q E \<longleftrightarrow> (\<forall>s. P s \<longrightarrow> (case m s of (Inl e, s') \<Rightarrow> E s' | (Inr x, s') \<Rightarrow> Q x s'))"

named_theorems triple_intros "rules for triples"

lemma tripleD:
  assumes "triple P m Q E" "P s" "m s = (r, s')"
  shows "case r of Inl e \<Rightarrow> E s' | Inr x \<Rightarrow> Q x s'"
  using assms by (auto simp: triple_def split: sum.splits)

lemma triple_weaken:
  assumes "triple P m Q E" "\<And>s. P' s \<Longrightarrow> P s" "\<And>x s. Q x s \<Longrightarrow> Q' x s" "\<And>s. E s \<Longrightarrow> E' s"
  shows "triple P' m Q' E'"
  using assms by (fastforce simp: triple_def split: sum.splits prod.splits)

lemma triple_return [triple_intros]: "(\<And>s. P s \<Longrightarrow> Q x s) \<Longrightarrow> triple P (areturn x) Q E"
  by (simp add: triple_def areturn_def)

lemma triple_modify [triple_intros]: "(\<And>s. P s \<Longrightarrow> Q () (f s)) \<Longrightarrow> triple P (amodify f) Q E"
  by (simp add: triple_def amodify_def)

lemma triple_bind [triple_intros]:
  assumes "triple P m R E" "\<And>x. triple (R x) (k x) Q E"
  shows "triple P (abind m k) Q E"
  using assms by (fastforce simp: triple_def abind_def split: sum.splits prod.splits)

lemma triple_then [triple_intros]:
  assumes "triple P m (\<lambda>_. R) E" "triple R k Q E"
  shows "triple P (athen m k) Q E"
  unfolding athen_def using assms by (rule triple_bind)

lemma triple_when [triple_intros]:
  assumes "b \<Longrightarrow> triple P m Q E" "\<And>s. \<not> b \<Longrightarrow> P s \<Longrightarrow> Q () s"
  shows "triple P (awhen b m) Q E"
  using assms by (auto simp: triple_def awhen_def areturn_def)

lemma triple_foreach:
  assumes "\<And>x. x \<in> set xs \<Longrightarrow> triple I (f x) (\<lambda>_. I) I"
  shows "triple I (foreach f xs) (\<lambda>_. I) I"
  using assms
proof (induction xs)
  case (Cons x xs)
  have "triple I (f x) (\<lambda>_. I) I" "triple I (foreach f xs) (\<lambda>_. I) I" using Cons by simp_all
  then show ?case by (simp add: triple_then)
qed (simp add: triple_intros)

lemma foreach_total:
  assumes "\<And>x s. x \<in> set xs \<Longrightarrow> f x s = (Inr (), g x s)"
  shows "foreach f xs s = (Inr (), fold g xs s)"
  using assms by (induction xs arbitrary: s) (simp_all add: act_simps)

text \<open>\<open>keeps I m\<close>: the invariant \<open>I\<close> survives the action, whether it returns or raises.\<close>

abbreviation (input) keeps :: "('s \<Rightarrow> bool) \<Rightarrow> ('s, 'a) act \<Rightarrow> bool" where
  "keeps I m \<equiv> triple I m (\<lambda>_. I) I"

lemma keeps_iff: "keeps I m \<longleftrightarrow> (\<forall>e. I e \<longrightarrow> I (snd (m e)))"
proof -
  have "(case m e of (Inl x, e') \<Rightarrow> I e' | (Inr x, e') \<Rightarrow> I e') = I (snd (m e))" for e
    by (cases "m e"; cases "fst (m e)") auto
  then show ?thesis by (simp add: triple_def)
qed

lemma keeps_modify: "(\<And>e. I e \<Longrightarrow> I (f e)) \<Longrightarrow> keeps I (amodify f)"
  by (rule triple_modify)

lemma keeps_lift [intro]: "keeps I (alift r)"
  by (cases r) (simp_all add: triple_def alift_def)

lemma keeps_return [intro]: "keeps I (areturn x)"
  by (rule triple_return)

lemma keeps_bind [intro]: "keeps I m \<Longrightarrow> (\<And>x. keeps I (k x)) \<Longrightarrow> keeps I (abind m k)"
  by (rule triple_bind)

lemma keeps_then [intro]: "keeps I m \<Longrightarrow> keeps I k \<Longrightarrow> keeps I (athen m k)"
  by (rule triple_then)

lemma keeps_catch:
  assumes "keeps I m" "keeps I h"
  shows "keeps I (\<lambda>e. case m e of (Inl _, e) \<Rightarrow> h e | r \<Rightarrow> r)"
  using assms by (auto simp: triple_def split: prod.split sum.split) fastforce+

lemma keeps_when [intro]: "keeps I m \<Longrightarrow> keeps I (awhen b m)"
  by (rule triple_when)

lemma keeps_get: "(\<And>s. I s \<Longrightarrow> keeps I (m s)) \<Longrightarrow> keeps I (\<lambda>s. m s s)"
  by (auto simp: keeps_iff)

section \<open>Python primitives\<close>

definition py_get :: "'a list \<Rightarrow> nat \<Rightarrow> 'a result" where
  "py_get xs i = (if i < length xs then Inr (xs ! i) else Inl IndexError)"

definition py_last :: "'a list \<Rightarrow> 'a result" where
  "py_last xs = (if xs = [] then Inl IndexError else Inr (last xs))"

definition byte_of :: "int \<Rightarrow> byte" where
  "byte_of x = word_of_int x"

definition py_byte :: "int \<Rightarrow> byte result" where
  "py_byte x = (if 0 \<le> x \<and> x < 256 then Inr (byte_of x) else Inl ValueError)"

fun py_bytes :: "int list \<Rightarrow> bytes result" where
  "py_bytes [] = Inr []"
| "py_bytes (x # xs) = rbind (py_byte x) (\<lambda>b. rmap ((#) b) (py_bytes xs))"

text \<open>
  \<open>find_sub pat xs\<close> is the position of the first occurrence of \<open>pat\<close>, with
  \<open>None\<close> for Python's -1.
\<close>

fun find_sub :: "'a list \<Rightarrow> 'a list \<Rightarrow> nat option" where
  "find_sub pat [] = (if pat = [] then Some 0 else None)"
| "find_sub pat (x # xs) =
     (if take (length pat) (x # xs) = pat then Some 0
      else map_option Suc (find_sub pat xs))"

definition starts_with :: "'a list \<Rightarrow> 'a list \<Rightarrow> bool" where
  "starts_with pat xs \<longleftrightarrow> take (length pat) xs = pat"

text \<open>\<open>ascii\<close> reads a bytes literal off a string.\<close>

definition ascii :: "string \<Rightarrow> bytes" where
  "ascii s = map of_char s"

text \<open>\<open>str.encode('ascii')\<close>.\<close>

definition encode_ascii :: "string \<Rightarrow> bytes result" where
  "encode_ascii s = (if list_all (\<lambda>c. of_char c < (128 :: nat)) s then Inr (ascii s) else Inl ValueError)"

text \<open>
  \<open>rconcat enc xs\<close> is the loop \<open>for x in xs: o += x.encode()\<close> over a fallible
  encoder.
\<close>

fun rconcat :: "('a \<Rightarrow> 'b list result) \<Rightarrow> 'a list \<Rightarrow> 'b list result" where
  "rconcat enc [] = Inr []"
| "rconcat enc (x # xs) = rbind (enc x) (\<lambda>b. rmap ((@) b) (rconcat enc xs))"

text \<open>\<open>[f(x) for x in xs]\<close> with a function that may raise.\<close>

fun rmapM :: "('a \<Rightarrow> 'b result) \<Rightarrow> 'a list \<Rightarrow> 'b list result" where
  "rmapM f [] = Inr []"
| "rmapM f (x # xs) = rbind (f x) (\<lambda>y. rmap ((#) y) (rmapM f xs))"

lemma rmapM_inverse:
  assumes "\<And>x. x \<in> set xs \<Longrightarrow> \<exists>y. f x = Inr y \<and> g y = Inr x"
  shows "\<exists>ys. rmapM f xs = Inr ys \<and> rmapM g ys = Inr xs"
  using assms
proof (induction xs)
  case (Cons x xs)
  then obtain y ys where "f x = Inr y" "g y = Inr x" "rmapM f xs = Inr ys" "rmapM g ys = Inr xs"
    by fastforce
  then show ?case by simp
qed simp

lemma rmapM_all:
  assumes "rmapM f xs = Inr ys" and "\<And>x y. x \<in> set xs \<Longrightarrow> f x = Inr y \<Longrightarrow> P y"
  shows "list_all P ys"
  using assms
proof (induction xs arbitrary: ys)
  case (Cons x xs)
  then obtain z zs where "f x = Inr z" "rmapM f xs = Inr zs" "ys = z # zs"
    by (auto simp: result_simps)
  moreover from this have "list_all P zs" by (intro Cons.IH [OF _ Cons.prems(2)]) simp_all
  ultimately show ?case using Cons.prems(2) [of x z] by simp
qed simp

lemma rmapM_map: "rmapM f (map g xs) = rmapM (\<lambda>x. f (g x)) xs"
  by (induction xs) simp_all

lemma rmapM_Inr: "(\<And>x. x \<in> set xs \<Longrightarrow> f x = Inr (g x)) \<Longrightarrow> rmapM f xs = Inr (map g xs)"
  by (induction xs) simp_all

lemma py_get_simps [simp]:
  "py_get [] i = Inl IndexError"
  "py_get (x # xs) 0 = Inr x"
  "py_get (x # xs) (Suc i) = py_get xs i"
  by (simp_all add: py_get_def)

lemma py_get_numeral [simp]:
  "py_get (x # xs) (numeral k) = py_get xs (pred_numeral k)"
  by (simp add: numeral_eq_Suc)

lemma py_get_one [simp]: "py_get (x # xs) 1 = py_get xs 0"
  unfolding One_nat_def by simp

lemma py_get_eq_Inr: "py_get xs i = Inr x \<longleftrightarrow> i < length xs \<and> xs ! i = x"
  by (auto simp: py_get_def)

lemma py_last_append [simp]: "py_last (xs @ [x]) = Inr x"
  by (simp add: py_last_def)

lemma py_last_Nil [simp]: "py_last [] = Inl IndexError"
  by (simp add: py_last_def)

lemma byte_of_simps [simp]:
  "byte_of 0 = 0" "byte_of 1 = 1" "byte_of (numeral k) = numeral k" "byte_of (uint b) = b"
  by (simp_all add: byte_of_def)

lemma uint_of_byte: "0 \<le> x \<Longrightarrow> x < 256 \<Longrightarrow> uint (byte_of x) = x"
  by (simp add: byte_of_def uint_word_of_int take_bit_eq_mod)

lemma uint_byte_of_mod: "uint (byte_of x) = x mod 256"
  by (simp add: byte_of_def uint_word_of_int take_bit_eq_mod)

lemma byte_of_eqI: "x mod 256 = y mod 256 \<Longrightarrow> byte_of x = byte_of y"
  by (metis byte_of_simps(4) uint_byte_of_mod)

lemma py_byte_in_range [simp]: "0 \<le> x \<Longrightarrow> x < 256 \<Longrightarrow> py_byte x = Inr (byte_of x)"
  by (simp add: py_byte_def)

lemma py_byte_uint [simp]: "py_byte (uint (b :: byte)) = Inr b"
  using uint_lt2p [of b] by (simp add: py_byte_def)

lemma byte_of_mod [simp]: "byte_of (x mod 256) = byte_of x"
  by (rule byte_of_eqI) simp

lemma py_byte_mask [simp]: "py_byte (x AND 255) = Inr (byte_of x)"
proof -
  have m: "x AND 255 = x mod 256"
    using take_bit_eq_mask [of 8 x] by (simp add: mask_eq_exp_minus_1 take_bit_eq_mod)
  show ?thesis by (simp add: m)
qed

lemma py_bytes_length: "py_bytes xs = Inr bs \<Longrightarrow> length bs = length xs"
  by (induction xs arbitrary: bs) (auto simp: result_simps)

lemma py_bytes_range: "py_bytes xs = Inr bs \<Longrightarrow> \<forall>x \<in> set xs. 0 \<le> x \<and> x < 256"
  by (induction xs arbitrary: bs) (auto simp: result_simps py_byte_def split: if_splits)

lemma py_bytes_uint: "py_bytes (map uint bs) = Inr (bs :: bytes)"
  by (induction bs) auto

section \<open>Searching\<close>

lemma find_sub_Some_bound: "find_sub pat xs = Some i \<Longrightarrow> i + length pat \<le> length xs"
proof (induction xs arbitrary: i)
  case Nil
  then show ?case by (simp split: if_splits)
next
  case (Cons x xs)
  show ?case
  proof (cases "take (length pat) (x # xs) = pat")
    case True
    then have "min (length (x # xs)) (length pat) = length pat"
      by (metis length_take)
    with True Cons.prems show ?thesis by auto
  next
    case False
    with Cons show ?thesis by auto
  qed
qed

lemma find_sub_append:
  "find_sub pat xs = Some i \<Longrightarrow> find_sub pat (xs @ ys) = Some i"
proof (induction xs arbitrary: i)
  case Nil
  then show ?case by (cases ys) (auto split: if_splits)
next
  case (Cons x xs)
  show ?case
  proof (cases "take (length pat) (x # xs) = pat")
    case True
    then have "length pat \<le> length (x # xs)"
      by (metis length_take min.cobounded1)
    then have "take (length pat) (x # xs @ ys) = take (length pat) (x # xs)"
      by (cases "length pat") auto
    with True Cons.prems show ?thesis by simp
  next
    case False
    with Cons.prems obtain j where j: "find_sub pat xs = Some j" and i: "i = Suc j"
      by auto
    from find_sub_Some_bound [OF j] have "length pat \<le> length (x # xs)" by simp
    then have "take (length pat) (x # xs @ ys) = take (length pat) (x # xs)"
      by (cases "length pat") auto
    with False Cons.IH [OF j] i show ?thesis by simp
  qed
qed

lemma find_sub_skip:
  assumes "c \<notin> set xs"
  shows "find_sub (c # pat) (xs @ c # pat @ ys) = Some (length xs)"
  using assms by (induction xs) auto

lemma find_sub_notin: "c \<notin> set xs \<Longrightarrow> find_sub (c # pat) xs = None"
  by (induction xs) auto

lemma find_sub_single: "find_sub [c] xs = (if c \<in> set xs then Some (length (takeWhile (\<lambda>x. x \<noteq> c) xs)) else None)"
  by (induction xs) auto

lemma starts_with_append: "starts_with pat xs \<Longrightarrow> starts_with pat (xs @ ys)"
proof -
  assume p: "starts_with pat xs"
  then have "length pat \<le> length xs"
    unfolding starts_with_def by (metis length_take min.cobounded1)
  with p show ?thesis by (simp add: starts_with_def)
qed

lemma starts_with_simps [simp]:
  "starts_with [] xs"
  "starts_with (p # pat) [] = False"
  "starts_with (p # pat) (x # xs) = (p = x \<and> starts_with pat xs)"
  by (auto simp: starts_with_def)

section \<open>Bits of a byte\<close>

lemma byte_eq_iff:
  "(a :: byte) = b \<longleftrightarrow>
     bit a 0 = bit b 0 \<and> bit a 1 = bit b 1 \<and> bit a 2 = bit b 2 \<and> bit a 3 = bit b 3 \<and>
     bit a 4 = bit b 4 \<and> bit a 5 = bit b 5 \<and> bit a 6 = bit b 6 \<and> bit a 7 = bit b 7"
proof -
  have all8: "(\<forall>n < 8. P n) \<longleftrightarrow> P 0 \<and> P 1 \<and> P 2 \<and> P 3 \<and> P 4 \<and> P 5 \<and> P 6 \<and> P (7 :: nat)" for P
    by (simp add: numeral_eq_Suc All_less_Suc conj_ac)
  have "a = b \<longleftrightarrow> (\<forall>n < 8. bit a n = bit b n)"
    by (simp add: bit_eq_iff [of a b])
  then show ?thesis by (simp only: all8)
qed

lemma byte_cases:
  assumes "\<And>n. n < 256 \<Longrightarrow> P (word_of_nat n)"
  shows "P (b :: byte)"
  using assms [of "unat b"] unsigned_less [of b] by simp

lemma uint_byte_bounds [simp]: "0 \<le> uint (b :: byte)" "uint (b :: byte) < 256" "uint (b :: byte) \<le> 255"
  using uint_lt2p [of b] by simp_all

section \<open>Masks and shifts of unbounded integers\<close>

lemma int_mask_mod:
  "(x :: int) AND 255 = x mod 256" "x AND 1 = x mod 2" "x AND 3 = x mod 4" "x AND 7 = x mod 8"
  "x AND 15 = x mod 16" "x AND 31 = x mod 32"
  using take_bit_eq_mask [of 8 x] take_bit_eq_mask [of 1 x] take_bit_eq_mask [of 2 x]
    take_bit_eq_mask [of 3 x] take_bit_eq_mask [of 4 x] take_bit_eq_mask [of 5 x]
  by (simp_all add: mask_eq_exp_minus_1 take_bit_eq_mod)

lemma or_push_add:
  fixes a b :: int
  assumes "0 \<le> a" and "a < 2 ^ n"
  shows "a OR push_bit n b = a + b * 2 ^ n" "push_bit n b OR a = a + b * 2 ^ n"
proof -
  have "take_bit n a = a" using assms by (simp add: take_bit_int_eq_self)
  then have "\<not> bit a k \<or> \<not> bit (push_bit n b) k" for k
    by (metis bit_push_bit_iff bit_take_bit_iff linorder_not_less)
  then show "a OR push_bit n b = a + b * 2 ^ n"
    by (simp add: disjunctive_add [symmetric] push_bit_eq_mult)
  then show "push_bit n b OR a = a + b * 2 ^ n" by (simp add: or.commute)
qed

lemma or_push_simps:
  "0 \<le> a \<Longrightarrow> a < 4 \<Longrightarrow> a OR push_bit 2 b = a + 4 * b"
  "0 \<le> a \<Longrightarrow> a < 8 \<Longrightarrow> a OR push_bit 3 b = a + 8 * b"
  "0 \<le> a \<Longrightarrow> a < 16 \<Longrightarrow> a OR push_bit 4 b = a + 16 * b"
  "0 \<le> a \<Longrightarrow> a < 64 \<Longrightarrow> a OR push_bit 6 b = a + 64 * b" for a b :: int
  using or_push_add [of a 2 b] or_push_add [of a 3 b] or_push_add [of a 4 b] or_push_add [of a 6 b] by simp_all

lemma int_drop_bit:
  "drop_bit 2 (x :: int) = x div 4" "drop_bit 3 (x :: int) = x div 8" "drop_bit 4 (x :: int) = x div 16"
  "drop_bit 5 (x :: int) = x div 32" "drop_bit 6 (x :: int) = x div 64"
  by (simp_all add: drop_bit_eq_div)

lemma and_push: "x AND push_bit n m = push_bit n (drop_bit n x AND m)" for x m :: int
  by (rule bit_eqI) (auto simp: bit_simps)

lemma int_mask_E0: "x AND 0xE0 = 32 * (x div 32 mod 8)" for x :: int
  using and_push [of x 5 7] by (simp add: int_drop_bit int_mask_mod push_bit_eq_mult)

section \<open>Byte-sized integers\<close>

definition is_byte :: "int \<Rightarrow> bool" where
  "is_byte x \<longleftrightarrow> 0 \<le> x \<and> x < 256"

lemma is_byte_uint [simp]: "is_byte (uint (b :: byte))"
  by (simp add: is_byte_def)

lemma is_byte_simps [simp]:
  "is_byte x \<Longrightarrow> uint (byte_of x) = x"
  "is_byte x \<Longrightarrow> py_byte x = Inr (byte_of x)"
  "is_byte 0" "is_byte 1" "is_byte (numeral k) \<longleftrightarrow> numeral k < (256 :: int)"
  by (simp_all add: is_byte_def uint_of_byte)

section \<open>Four base-4 digits of a byte\<close>

lemma base4_step:
  fixes a y :: int
  assumes "0 \<le> a" "a < 4"
  shows "(a + 4 * y) mod 4 = a" "(a + 4 * y) div 4 = y"
  using assms by simp_all

lemma int_div_4: "x div 16 = x div 4 div 4" "x div 64 = x div 4 div 4 div 4" for x :: int
  using zdiv_zmult2_eq [of 4 x 4] zdiv_zmult2_eq [of 16 x 4] zdiv_zmult2_eq [of 4 "x" 16] zdiv_zmult2_eq [of 4 "x div 4" 4]
  by simp_all

lemma base4_digits:
  fixes a b c d :: int
  assumes "0 \<le> a" "a < 4" "0 \<le> b" "b < 4" "0 \<le> c" "c < 4" "0 \<le> d" "d < 4"
  shows "(a + 4 * b + 16 * c + 64 * d) mod 4 = a"
    "(a + 4 * b + 16 * c + 64 * d) div 4 mod 4 = b"
    "(a + 4 * b + 16 * c + 64 * d) div 16 mod 4 = c"
    "(a + 4 * b + 16 * c + 64 * d) div 64 mod 4 = d"
    "0 \<le> a + 4 * b + 16 * c + 64 * d" "a + 4 * b + 16 * c + 64 * d < 256"
proof -
  have e: "a + 4 * b + 16 * c + 64 * d = a + 4 * (b + 4 * (c + 4 * d))" by simp
  show "(a + 4 * b + 16 * c + 64 * d) mod 4 = a"
    "(a + 4 * b + 16 * c + 64 * d) div 4 mod 4 = b"
    "(a + 4 * b + 16 * c + 64 * d) div 16 mod 4 = c"
    "(a + 4 * b + 16 * c + 64 * d) div 64 mod 4 = d"
    unfolding e int_div_4 using assms by (simp_all only: base4_step mod_pos_pos_trivial)
  show "0 \<le> a + 4 * b + 16 * c + 64 * d" "a + 4 * b + 16 * c + 64 * d < 256"
    using assms by linarith+
qed

lemma base4_join:
  fixes x :: int
  assumes "0 \<le> x" "x < 256"
  shows "x mod 4 + 4 * (x div 4 mod 4) + 16 * (x div 16 mod 4) + 64 * (x div 64 mod 4) = x"
proof -
  define y z w where "y = x div 4" and "z = y div 4" and "w = z div 4"
  have "x = 4 * y + x mod 4" "y = 4 * z + y mod 4" "z = 4 * w + z mod 4"
    by (simp_all add: y_def z_def w_def)
  moreover have "w mod 4 = w" using assms by (simp add: w_def z_def y_def)
  ultimately show ?thesis unfolding int_div_4 y_def [symmetric] z_def [symmetric] w_def [symmetric]
    by linarith
qed

section \<open>Decoding loops\<close>

text \<open>
  The decoders of the C-Bus applications all run one loop: read an item off the front of
  the data, go on with what is left, stop at the end. \<open>stream_codec\<close> is the contract
  between such a loop and the encoder of its items; every component that has such a loop
  interprets it.
\<close>

locale stream_codec =
  fixes enc :: "'a \<Rightarrow> bytes result"
    and loop :: "bytes \<Rightarrow> 'a list result"
    and ok :: "'a \<Rightarrow> bool"
  assumes loop_Nil: "loop [] = Inr []"
    and enc_ok: "ok x \<Longrightarrow> \<exists>b. enc x = Inr b"
    and loop_step: "ok x \<Longrightarrow> enc x = Inr b \<Longrightarrow> loop (b @ rest) = rmap ((#) x) (loop rest)"
begin

lemma stream_encodes: "\<forall>x \<in> set xs. ok x \<Longrightarrow> \<exists>bs. rconcat enc xs = Inr bs"
  using enc_ok by (induction xs) (fastforce simp: result_simps)+

lemma stream_prefix:
  "\<forall>x \<in> set xs. ok x \<Longrightarrow> rconcat enc xs = Inr bs \<Longrightarrow> loop (bs @ rest) = rmap ((@) xs) (loop rest)"
proof (induction xs arbitrary: bs)
  case Nil
  then show ?case by (cases "loop rest") simp_all
next
  case (Cons x xs)
  then obtain b bs' where b: "enc x = Inr b" and bs': "rconcat enc xs = Inr bs'" and bs: "bs = b @ bs'"
    by (auto simp: result_simps)
  have "loop (bs @ rest) = rmap ((#) x) (loop (bs' @ rest))"
    using Cons.prems(1) b by (simp add: bs loop_step)
  also have "loop (bs' @ rest) = rmap ((@) xs) (loop rest)"
    using Cons.IH Cons.prems(1) bs' by simp
  finally show ?case by (cases "loop rest") simp_all
qed

lemma stream_roundtrip:
  assumes "\<forall>x \<in> set xs. ok x"
  shows "\<exists>bs. rconcat enc xs = Inr bs \<and> loop bs = Inr xs"
proof -
  obtain bs where "rconcat enc xs = Inr bs" using stream_encodes [OF assms] by blast
  with stream_prefix [OF assms this, of "[]"] show ?thesis by (simp add: loop_Nil)
qed

end

end
