(* ===== verification/Base16.thy ===== *)
theory Base16
  imports Prelude
begin

text \<open>
  Base16 as the standard library's \<open>base64.b16encode\<close> and \<open>base64.b16decode\<close>
  compute it (upper-case digits only, no case folding): what \<open>BasePacket.encode_packet\<close>
  and \<open>decode_packet\<close> put on and take off the serial line. The two functions are
  mutually inverse on their domains. \<open>bytes.hex\<close> and the lenient \<open>bytes.fromhex\<close>, which
  the emulator, the proxy and the harness use, are below them.
\<close>

definition hex_char :: "byte \<Rightarrow> byte" where
  "hex_char n = (if n < 10 then 0x30 + n else 0x37 + n)"

definition hex_val :: "byte \<Rightarrow> byte option" where
  "hex_val c =
     (if 0x30 \<le> c \<and> c \<le> 0x39 then Some (c - 0x30)
      else if 0x41 \<le> c \<and> c \<le> 0x46 then Some (c - 0x37)
      else None)"

definition HEX_CHARS :: bytes where
  "HEX_CHARS = [0x30, 0x31, 0x32, 0x33, 0x34, 0x35, 0x36, 0x37, 0x38, 0x39,
                0x41, 0x42, 0x43, 0x44, 0x45, 0x46]"

fun b16encode :: "bytes \<Rightarrow> bytes" where
  "b16encode [] = []"
| "b16encode (b # bs) = hex_char (drop_bit 4 b) # hex_char (b AND 0x0F) # b16encode bs"

fun b16decode :: "bytes \<Rightarrow> bytes result" where
  "b16decode [] = Inr []"
| "b16decode [c] = Inl BinasciiError"
| "b16decode (c # d # cs) =
     (case (hex_val c, hex_val d) of
        (Some h, Some l) \<Rightarrow> rmap ((#) (push_bit 4 h OR l)) (b16decode cs)
      | _ \<Rightarrow> Inl BinasciiError)"

section \<open>Digits\<close>

lemma nibble_cases:
  assumes "(n :: byte) < 16"
    and "P 0" "P 1" "P 2" "P 3" "P 4" "P 5" "P 6" "P 7" "P 8" "P 9"
    and "P 10" "P 11" "P 12" "P 13" "P 14" "P 15"
  shows "P n"
proof -
  have "unat n < 16" using assms(1) by (simp add: word_less_nat_alt)
  then have "unat n \<in> set [0..<16]" by simp
  then have "unat n \<in> {0, 1, 2, 3, 4, 5, 6, 7, 8, 9, 10, 11, 12, 13, 14, 15}"
    by (simp add: upt_rec numeral_eq_Suc)
  then have "n \<in> {0, 1, 2, 3, 4, 5, 6, 7, 8, 9, 10, 11, 12, 13, 14, 15}"
    by (auto simp: word_unat_eq_iff)
  with assms(2-) show ?thesis by auto
qed

lemma drop4_less: "drop_bit 4 (b :: byte) < 16"
proof -
  have "unat (drop_bit 4 b) = unat b div 16"
    by (simp add: drop_bit_eq_div unat_div)
  then show ?thesis using unsigned_less [of b, where 'a = nat] by (simp add: word_less_nat_alt)
qed

lemma and15_less: "(b :: byte) AND 0x0F < 16"
  using word_and_le1 [of b "0x0F"] by (simp add: order_le_less_trans [of _ 15])

lemma hex_val_char: "n < 16 \<Longrightarrow> hex_val (hex_char n) = Some n"
  by (erule nibble_cases) (simp_all add: hex_val_def hex_char_def)

lemma hex_char_in: "n < 16 \<Longrightarrow> hex_char n \<in> set HEX_CHARS"
  by (erule nibble_cases) (simp_all add: HEX_CHARS_def hex_char_def)

lemma hex_in_cases:
  assumes "c \<in> set HEX_CHARS"
  shows "\<exists>n. n < 16 \<and> c = hex_char n"
proof -
  have "map hex_char [0, 1, 2, 3, 4, 5, 6, 7, 8, 9, 10, 11, 12, 13, 14, 15] = HEX_CHARS"
    by (simp add: HEX_CHARS_def hex_char_def)
  with assms have "c \<in> hex_char ` set [0, 1, 2, 3, 4, 5, 6, 7, 8, 9, 10, 11, 12, 13, 14, 15]"
    by (metis set_map)
  then obtain n where n: "n \<in> set [0, 1, 2, 3, 4, 5, 6, 7, 8, 9, 10, 11, 12, 13, 14, 15 :: byte]"
    and c: "c = hex_char n" by (rule imageE)
  from n have "n < 16" by auto
  with c show ?thesis by blast
qed

lemma nibbles_join: "push_bit 4 (drop_bit 4 b) OR (b AND 0x0F) = (b :: byte)"
  by (simp add: byte_eq_iff bit_simps)

lemma nibble_bits:
  assumes "(n :: byte) < 16" and "4 \<le> k"
  shows "\<not> bit n k"
proof -
  from assms have "unat n < 2 ^ 4" by (simp add: word_less_nat_alt)
  then have "take_bit 4 n = n"
    by (simp add: word_unat_eq_iff unsigned_take_bit_eq take_bit_nat_eq_self)
  with assms(2) show ?thesis by (metis bit_take_bit_iff linorder_not_less)
qed

lemma nibbles_high: "h < 16 \<Longrightarrow> l < 16 \<Longrightarrow> drop_bit 4 (push_bit 4 h OR l :: byte) = h"
  by (simp add: byte_eq_iff bit_simps nibble_bits)

lemma nibbles_low: "h < 16 \<Longrightarrow> l < 16 \<Longrightarrow> (push_bit 4 h OR l) AND 0x0F = (l :: byte)"
  by (simp add: byte_eq_iff bit_simps nibble_bits)

section \<open>The two directions\<close>

lemma b16encode_append [simp]: "b16encode (xs @ ys) = b16encode xs @ b16encode ys"
  by (induction xs) auto

lemma length_b16encode [simp]: "length (b16encode bs) = 2 * length bs"
  by (induction bs) auto

lemma b16encode_Nil_iff [simp]: "b16encode bs = [] \<longleftrightarrow> bs = []"
  by (cases bs) auto

lemma b16encode_hex: "set (b16encode bs) \<subseteq> set HEX_CHARS"
  by (induction bs) (auto simp: hex_char_in drop4_less and15_less)

lemma b16decode_encode [simp]: "b16decode (b16encode bs) = Inr bs"
  by (induction bs) (simp_all add: hex_val_char drop4_less and15_less nibbles_join)

lemma hex_val_SomeE:
  assumes "hex_val c = Some n"
  shows "n < 16 \<and> hex_char n = c"
proof -
  have *: "unat (a - k) = unat a - unat k" if "k \<le> a" for a k :: byte
    using that by (simp add: unat_sub)
  from assms consider "0x30 \<le> c" "c \<le> 0x39" "n = c - 0x30" | "0x41 \<le> c" "c \<le> 0x46" "n = c - 0x37"
    by (auto simp: hex_val_def split: if_splits)
  then show ?thesis
  proof cases
    case 1
    then have "unat n = unat c - 0x30" and "unat c \<le> 0x39"
      using * [of "0x30" c] by (simp_all add: word_le_nat_alt)
    with 1 show ?thesis by (simp add: word_less_nat_alt hex_char_def)
  next
    case 2
    then have "0x37 \<le> c" by (simp add: word_le_nat_alt)
    with 2 have "unat n = unat c - 0x37" and "unat c \<le> 0x46" and "0x41 \<le> unat c"
      using * [of "0x37" c] by (simp_all add: word_le_nat_alt)
    then have "unat n < 16" and "\<not> unat n < 10" by linarith+
    with 2 show ?thesis by (simp add: word_less_nat_alt hex_char_def)
  qed
qed

lemma b16encode_decode: "b16decode cs = Inr bs \<Longrightarrow> b16encode bs = cs"
proof (induction cs arbitrary: bs rule: b16decode.induct)
  case (3 c d cs)
  from "3.prems" obtain h l bs' where hl: "hex_val c = Some h" "hex_val d = Some l"
    and bs': "b16decode cs = Inr bs'" and bs: "bs = (push_bit 4 h OR l) # bs'"
    by (auto simp: result_simps split: option.splits)
  from hl have n: "h < 16" "l < 16" and c: "hex_char h = c" "hex_char l = d"
    by (auto dest: hex_val_SomeE)
  have "b16encode bs' = cs" using "3.IH" hl bs' by simp
  then show ?case
    by (simp only: bs b16encode.simps nibbles_high [OF n] nibbles_low [OF n] c)
qed auto

lemma b16decode_total:
  assumes "set cs \<subseteq> set HEX_CHARS"
  shows "(\<exists>bs. b16decode cs = Inr bs) \<longleftrightarrow> even (length cs)"
  using assms
proof (induction cs rule: b16decode.induct)
  case (3 c d cs)
  then obtain h l where "hex_val c = Some h" "hex_val d = Some l"
    by (auto dest!: hex_in_cases simp: hex_val_char)
  with 3 show ?case by (auto simp: result_simps)
qed auto

lemma b16decode_odd:
  assumes "set cs \<subseteq> set HEX_CHARS" and "odd (length cs)"
  shows "b16decode cs = Inl BinasciiError"
  using assms
proof (induction cs rule: b16decode.induct)
  case (3 c d cs)
  then obtain h l where "hex_val c = Some h" "hex_val d = Some l"
    by (auto dest!: hex_in_cases simp: hex_val_char)
  with 3 show ?case by simp
qed auto

section \<open>Base16 is lossless\<close>

text \<open>
  Base16 is lossless in both directions: decoding inverts encoding on every byte string, and
  whatever decodes is the encoding of its result; encoded text consists of the sixteen digits only.
\<close>

lemma base16_inverse:
  "b16decode (b16encode bs) = Inr bs \<and> set (b16encode bs) \<subseteq> set HEX_CHARS \<and>
   (b16decode cs = Inr ds) = (b16encode ds = cs)"
  using b16encode_hex b16encode_decode by auto

section \<open>Lenient hex\<close>

text \<open>\<open>bytes.fromhex\<close>, which skips white space between digit pairs and takes either case;
  \<open>None\<close> is its \<open>ValueError\<close>. \<open>hex_lower\<close> is \<open>bytes.hex\<close>.\<close>

definition hex_digit :: "byte \<Rightarrow> byte option" where
  "hex_digit c = (if 0x61 \<le> c \<and> c \<le> 0x66 then Some (c - 0x57) else hex_val c)"

definition hex_space :: "byte \<Rightarrow> bool" where
  "hex_space c \<longleftrightarrow> 9 \<le> c \<and> c \<le> 13 \<or> c = 32"

fun fromhex :: "bytes \<Rightarrow> bytes option" where
  "fromhex [] = Some []"
| "fromhex (c # cs) =
     (if hex_space c then fromhex cs
      else case cs of
        [] \<Rightarrow> None
      | d # ds \<Rightarrow>
          (case (hex_digit c, hex_digit d) of
             (Some h, Some l) \<Rightarrow> map_option ((#) (push_bit 4 h OR l)) (fromhex ds)
           | _ \<Rightarrow> None))"

definition lower_char :: "byte \<Rightarrow> byte" where
  "lower_char n = (if n < 10 then 0x30 + n else 0x57 + n)"

fun hex_lower :: "bytes \<Rightarrow> bytes" where
  "hex_lower [] = []"
| "hex_lower (b # bs) = lower_char (drop_bit 4 b) # lower_char (b AND 0x0F) # hex_lower bs"

lemma hex_digit_char: "n < 16 \<Longrightarrow> hex_digit (hex_char n) = Some n \<and> \<not> hex_space (hex_char n)"
  by (erule nibble_cases) (simp_all add: hex_digit_def hex_space_def hex_val_def hex_char_def)

lemma fromhex_b16encode [simp]: "fromhex (b16encode bs) = Some bs"
  by (induction bs) (simp_all add: hex_digit_char drop4_less and15_less nibbles_join)

lemma hex_digit_lower: "n < 16 \<Longrightarrow> hex_digit (lower_char n) = Some n \<and> \<not> hex_space (lower_char n)"
  by (erule nibble_cases) (simp_all add: hex_digit_def hex_space_def hex_val_def lower_char_def)

lemma fromhex_lower [simp]: "fromhex (hex_lower bs) = Some bs"
  by (induction bs) (simp_all add: hex_digit_lower drop4_less and15_less nibbles_join)

end
