(* ===== verification/Cbus_Common.thy ===== *)
theory Cbus_Common
  imports Base16
begin

text \<open>
  The constants and helper functions of \<open>cbus/common.py\<close>: the enumerations that name
  wire values, the lighting ramp tables, the packet checksum and the group address check.

  An \<open>IntEnum\<close> is a datatype with a value function (\<open>dat_value\<close>,
  \<open>priority_value\<close>, \<open>light_value\<close>, ...) and, where the code calls the class on
  an integer, a partial inverse that fails with \<open>ValueError\<close>.

  The lemmas show that \<open>add_cbus_checksum\<close> always produces a message that
  \<open>validate_cbus_checksum\<close> accepts, that the sum of such a message is zero modulo 256,
  and that any change confined to one byte is detected; that
  \<open>duration_to_ramp_rate\<close> picks the smallest tabulated duration that is long enough; and
  that the ramp tables are inverse to each other.
\<close>

section \<open>Framing constants\<close>

definition END_COMMAND :: bytes where "END_COMMAND = [0x0D]"
definition END_RESPONSE :: bytes where "END_RESPONSE = [0x0D, 0x0A]"
definition MIN_MESSAGE_SIZE :: nat where "MIN_MESSAGE_SIZE = 2"
definition MAX_BUFFER_SIZE :: nat where "MAX_BUFFER_SIZE = 256"

text \<open>The twenty confirmation codes \<open>h\<close> to \<open>z\<close> and then \<open>g\<close>.\<close>

definition CONFIRMATION_CODES :: bytes where
  "CONFIRMATION_CODES =
     [0x68, 0x69, 0x6A, 0x6B, 0x6C, 0x6D, 0x6E, 0x6F, 0x70, 0x71,
      0x72, 0x73, 0x74, 0x75, 0x76, 0x77, 0x78, 0x79, 0x7A, 0x67]"

definition BRIDGE_LENGTHS :: "(int \<times> nat) list" where
  "BRIDGE_LENGTHS = [(0x09, 0), (0x12, 1), (0x1B, 2), (0x24, 3), (0x2D, 4), (0x36, 5)]"

section \<open>Enumerations\<close>

datatype destination_address_type =
    UNSET | POINT_TO_POINT_SHORT | DEVICE_MANAGEMENT_REPLY | POINT_TO_POINT_TO_MULTIPOINT
  | RESERVED_4 | POINT_TO_MULTIPOINT | POINT_TO_POINT | POINT_TO_POINT_EXTENDED

fun dat_value :: "destination_address_type \<Rightarrow> int" where
  "dat_value UNSET = 0x00"
| "dat_value POINT_TO_POINT_SHORT = 0x01"
| "dat_value DEVICE_MANAGEMENT_REPLY = 0x02"
| "dat_value POINT_TO_POINT_TO_MULTIPOINT = 0x03"
| "dat_value RESERVED_4 = 0x04"
| "dat_value POINT_TO_MULTIPOINT = 0x05"
| "dat_value POINT_TO_POINT = 0x06"
| "dat_value POINT_TO_POINT_EXTENDED = 0x07"

definition DestinationAddressType :: "int \<Rightarrow> destination_address_type result" where
  "DestinationAddressType v =
     (if v = 0 then Inr UNSET
      else if v = 1 then Inr POINT_TO_POINT_SHORT
      else if v = 2 then Inr DEVICE_MANAGEMENT_REPLY
      else if v = 3 then Inr POINT_TO_POINT_TO_MULTIPOINT
      else if v = 4 then Inr RESERVED_4
      else if v = 5 then Inr POINT_TO_MULTIPOINT
      else if v = 6 then Inr POINT_TO_POINT
      else if v = 7 then Inr POINT_TO_POINT_EXTENDED
      else Inl ValueError)"

datatype priority_class = CLASS_4 | CLASS_3 | CLASS_2 | CLASS_1

fun priority_value :: "priority_class \<Rightarrow> int" where
  "priority_value CLASS_4 = 0"
| "priority_value CLASS_3 = 1"
| "priority_value CLASS_2 = 2"
| "priority_value CLASS_1 = 3"

definition PriorityClass :: "int \<Rightarrow> priority_class result" where
  "PriorityClass v =
     (if v = 0 then Inr CLASS_4
      else if v = 1 then Inr CLASS_3
      else if v = 2 then Inr CLASS_2
      else if v = 3 then Inr CLASS_1
      else Inl ValueError)"

datatype group_state = MISSING | ON | OFF | ERROR

fun group_state_value :: "group_state \<Rightarrow> int" where
  "group_state_value MISSING = 0"
| "group_state_value ON = 1"
| "group_state_value OFF = 2"
| "group_state_value ERROR = 3"

definition GroupState :: "int \<Rightarrow> group_state result" where
  "GroupState v =
     (if v = 0 then Inr MISSING
      else if v = 1 then Inr ON
      else if v = 2 then Inr OFF
      else if v = 3 then Inr ERROR
      else Inl ValueError)"

text \<open>The enumerations are ordered by value, as \<open>IntEnum\<close> members are.\<close>

instantiation priority_class :: linorder
begin

definition less_eq_priority_class :: "priority_class \<Rightarrow> priority_class \<Rightarrow> bool" where
  "less_eq_priority_class p q \<longleftrightarrow> priority_value p \<le> priority_value q"

definition less_priority_class :: "priority_class \<Rightarrow> priority_class \<Rightarrow> bool" where
  "less_priority_class p q \<longleftrightarrow> priority_value p < priority_value q"

instance
proof
  fix p q :: priority_class
  show "p \<le> q \<Longrightarrow> q \<le> p \<Longrightarrow> p = q"
    by (cases p; cases q) (simp_all add: less_eq_priority_class_def)
qed (auto simp: less_eq_priority_class_def less_priority_class_def)

end

instantiation group_state :: linorder
begin

definition less_eq_group_state :: "group_state \<Rightarrow> group_state \<Rightarrow> bool" where
  "less_eq_group_state p q \<longleftrightarrow> group_state_value p \<le> group_state_value q"

definition less_group_state :: "group_state \<Rightarrow> group_state \<Rightarrow> bool" where
  "less_group_state p q \<longleftrightarrow> group_state_value p < group_state_value q"

instance
proof
  fix p q :: group_state
  show "p \<le> q \<Longrightarrow> q \<le> p \<Longrightarrow> p = q"
    by (cases p; cases q) (simp_all add: less_eq_group_state_def)
qed (auto simp: less_eq_group_state_def less_group_state_def)

end

section \<open>Applications\<close>

abbreviation (input) TEMPERATURE :: int where "TEMPERATURE \<equiv> 0x19"
abbreviation (input) LIGHTING_FIRST :: int where "LIGHTING_FIRST \<equiv> 0x30"
abbreviation (input) LIGHTING :: int where "LIGHTING \<equiv> 0x38"
abbreviation (input) LIGHTING_LAST :: int where "LIGHTING_LAST \<equiv> 0x5F"
abbreviation (input) HVAC :: int where "HVAC \<equiv> 0xCA"
abbreviation (input) ENABLE :: int where "ENABLE \<equiv> 0xCB"
abbreviation (input) CLOCK :: int where "CLOCK \<equiv> 0xDF"
abbreviation (input) MASTER_APPLICATION :: int where "MASTER_APPLICATION \<equiv> 0xFF"
abbreviation (input) STATUS_REQUEST :: int where "STATUS_REQUEST \<equiv> 0xFF"

definition Application :: "int \<Rightarrow> int result" where
  "Application v =
     (if v \<in> set [TEMPERATURE, 0x73, 0x74, HVAC, CLOCK, ENABLE, MASTER_APPLICATION]
         \<or> LIGHTING_FIRST \<le> v \<and> v \<le> LIGHTING_LAST
      then Inr v else Inl ValueError)"

section \<open>Command codes\<close>

text \<open>The \<open>CAL\<close>, \<open>ExtendedCALType\<close>, clock, enable and temperature codes.\<close>

abbreviation (input) CAL_RESET :: int where "CAL_RESET \<equiv> 0x08"
abbreviation (input) CAL_RECALL :: int where "CAL_RECALL \<equiv> 0x1A"
abbreviation (input) CAL_IDENTIFY :: int where "CAL_IDENTIFY \<equiv> 0x21"
abbreviation (input) CAL_GET_STATUS :: int where "CAL_GET_STATUS \<equiv> 0x2A"
abbreviation (input) CAL_ACKNOWLEDGE :: int where "CAL_ACKNOWLEDGE \<equiv> 0x32"
abbreviation (input) CAL_REPLY :: int where "CAL_REPLY \<equiv> 0x80"
abbreviation (input) CAL_STANDARD_STATUS :: int where "CAL_STANDARD_STATUS \<equiv> 0xC0"
abbreviation (input) CAL_EXTENDED_STATUS :: int where "CAL_EXTENDED_STATUS \<equiv> 0xE0"

datatype extended_cal_type = BINARY | LEVEL

fun extended_cal_value :: "extended_cal_type \<Rightarrow> int" where
  "extended_cal_value BINARY = 0x00"
| "extended_cal_value LEVEL = 0x07"

definition ExtendedCALType :: "int \<Rightarrow> extended_cal_type result" where
  "ExtendedCALType v =
     (if v = 0x00 then Inr BINARY else if v = 0x07 then Inr LEVEL else Inl ValueError)"

abbreviation (input) SET_NETWORK_VARIABLE :: int where "SET_NETWORK_VARIABLE \<equiv> 0x02"
abbreviation (input) TEMPERATURE_BROADCAST :: int where "TEMPERATURE_BROADCAST \<equiv> 0x02"
abbreviation (input) CLOCK_TIME :: int where "CLOCK_TIME \<equiv> 0x01"
abbreviation (input) CLOCK_DATE :: int where "CLOCK_DATE \<equiv> 0x02"
abbreviation (input) UPDATE_NETWORK_VARIABLE :: int where "UPDATE_NETWORK_VARIABLE \<equiv> 0x08"
abbreviation (input) REQUEST_REFRESH :: int where "REQUEST_REFRESH \<equiv> 0x11"

section \<open>Lighting commands and ramp rates\<close>

datatype light_command =
    LIGHT_ON | LIGHT_OFF
  | RAMP_FASTEST | RAMP_00_04 | RAMP_00_08 | RAMP_00_12 | RAMP_00_20 | RAMP_00_30 | RAMP_00_40
  | RAMP_01_00 | RAMP_01_30 | RAMP_02_00 | RAMP_03_00 | RAMP_05_00 | RAMP_07_00 | RAMP_10_00
  | RAMP_15_00 | RAMP_SLOWEST
  | TERMINATE_RAMP | LIGHT_LABEL

fun light_value :: "light_command \<Rightarrow> int" where
  "light_value LIGHT_ON = 0x79"
| "light_value LIGHT_OFF = 0x01"
| "light_value RAMP_FASTEST = 0x02"
| "light_value RAMP_00_04 = 0x0A"
| "light_value RAMP_00_08 = 0x12"
| "light_value RAMP_00_12 = 0x1A"
| "light_value RAMP_00_20 = 0x22"
| "light_value RAMP_00_30 = 0x2A"
| "light_value RAMP_00_40 = 0x32"
| "light_value RAMP_01_00 = 0x3A"
| "light_value RAMP_01_30 = 0x42"
| "light_value RAMP_02_00 = 0x4A"
| "light_value RAMP_03_00 = 0x52"
| "light_value RAMP_05_00 = 0x5A"
| "light_value RAMP_07_00 = 0x62"
| "light_value RAMP_10_00 = 0x6A"
| "light_value RAMP_15_00 = 0x72"
| "light_value RAMP_SLOWEST = 0x7A"
| "light_value TERMINATE_RAMP = 0x09"
| "light_value LIGHT_LABEL = 0xA0"

definition LIGHT_RAMP_RATES :: "(light_command \<times> int) list" where
  "LIGHT_RAMP_RATES =
     [(RAMP_FASTEST, 0), (RAMP_00_04, 4), (RAMP_00_08, 8), (RAMP_00_12, 12),
      (RAMP_00_20, 20), (RAMP_00_30, 30), (RAMP_00_40, 40), (RAMP_01_00, 60),
      (RAMP_01_30, 90), (RAMP_02_00, 120), (RAMP_03_00, 180), (RAMP_05_00, 300),
      (RAMP_07_00, 420), (RAMP_10_00, 600), (RAMP_15_00, 900), (RAMP_SLOWEST, 1020)]"

definition LIGHT_RAMP_DURATION_TO_RATE :: "(int \<times> light_command) list" where
  "LIGHT_RAMP_DURATION_TO_RATE = map (\<lambda>(c, d). (d, c)) (sort_key snd LIGHT_RAMP_RATES)"

definition LIGHT_RAMP_COMMANDS :: "int set" where
  "LIGHT_RAMP_COMMANDS = set (map (light_value \<circ> fst) LIGHT_RAMP_RATES)"

fun first_duration :: "(int \<times> light_command) list \<Rightarrow> int \<Rightarrow> light_command" where
  "first_duration [] seconds = RAMP_SLOWEST"
| "first_duration ((d, cmd) # rest) seconds =
     (if seconds \<le> d then cmd else first_duration rest seconds)"

definition duration_to_ramp_rate :: "int \<Rightarrow> light_command" where
  "duration_to_ramp_rate seconds = first_duration LIGHT_RAMP_DURATION_TO_RATE seconds"

definition ramp_rate_to_duration :: "int \<Rightarrow> int result" where
  "ramp_rate_to_duration rate =
     (case map_of (map (\<lambda>(c, d). (light_value c, d)) LIGHT_RAMP_RATES) rate of
        Some d \<Rightarrow> Inr d
      | None \<Rightarrow> Inl KeyError)"

section \<open>Checksum\<close>

definition cbus_checksum :: "bytes \<Rightarrow> int" where
  "cbus_checksum i = (((NOT (sum_list (map uint i))) AND 0xFF) + 1) AND 0xFF"

definition add_cbus_checksum :: "bytes \<Rightarrow> bytes result" where
  "add_cbus_checksum i = rmap (\<lambda>c. i @ c) (py_bytes [cbus_checksum i])"

definition validate_cbus_checksum :: "bytes \<Rightarrow> bool result" where
  "validate_cbus_checksum i = rmap (\<lambda>c. uint c = cbus_checksum (butlast i)) (py_last i)"

definition get_real_cbus_checksum :: "bytes \<Rightarrow> int" where
  "get_real_cbus_checksum i = cbus_checksum (butlast i)"

section \<open>Group addresses\<close>

abbreviation (input) MIN_GROUP_ADDR :: int where "MIN_GROUP_ADDR \<equiv> 0"
abbreviation (input) MAX_GROUP_ADDR :: int where "MAX_GROUP_ADDR \<equiv> 255"

definition validate_ga :: "int \<Rightarrow> bool" where
  "validate_ga group_addr \<longleftrightarrow> MIN_GROUP_ADDR \<le> group_addr \<and> group_addr \<le> MAX_GROUP_ADDR"

definition check_ga :: "int \<Rightarrow> unit result" where
  "check_ga group_addr = (if validate_ga group_addr then Inr () else Inl ValueError)"

section \<open>Lemmas: enumerations\<close>

lemma DestinationAddressType_value [simp]: "DestinationAddressType (dat_value t) = Inr t"
  by (cases t) (simp_all add: DestinationAddressType_def)

lemma PriorityClass_value [simp]: "PriorityClass (priority_value p) = Inr p"
  by (cases p) (simp_all add: PriorityClass_def)

lemma GroupState_value [simp]: "GroupState (group_state_value s) = Inr s"
  by (cases s) (simp_all add: GroupState_def)

lemma ExtendedCALType_value [simp]: "ExtendedCALType (extended_cal_value t) = Inr t"
  by (cases t) (simp_all add: ExtendedCALType_def)

lemma GroupState_eq: "GroupState v = Inr s \<longleftrightarrow> v = group_state_value s"
  by (cases s) (auto simp: GroupState_def split: if_splits)

lemma GroupState_total: "\<exists>s. GroupState (x mod 4) = Inr s"
proof -
  have "0 \<le> x mod 4 \<and> x mod 4 < 4" by simp
  then show ?thesis unfolding GroupState_def by auto
qed

lemma DestinationAddressType_total: "\<exists>t. DestinationAddressType (x AND 7) = Inr t"
proof -
  have "0 \<le> x mod 8 \<and> x mod 8 < 8" by simp
  then show ?thesis unfolding int_mask_mod DestinationAddressType_def by auto
qed

lemma PriorityClass_total: "0 \<le> v \<Longrightarrow> v < 4 \<Longrightarrow> \<exists>p. PriorityClass v = Inr p"
  unfolding PriorityClass_def by auto

lemma check_ga_simps:
  "check_ga g = Inr u \<longleftrightarrow> 0 \<le> g \<and> g < 256"
  "check_ga g = Inl e \<longleftrightarrow> \<not> (0 \<le> g \<and> g < 256) \<and> e = ValueError"
  by (auto simp: check_ga_def validate_ga_def)

lemma check_ga_ok [simp]: "0 \<le> g \<Longrightarrow> g < 256 \<Longrightarrow> check_ga g = Inr ()"
  by (simp add: check_ga_def validate_ga_def)

lemma check_ga_uint [simp]: "check_ga (uint (b :: byte)) = Inr ()"
  by simp

section \<open>Lemmas: the checksum is the two's complement of the byte sum\<close>

lemma cbus_checksum_mod: "cbus_checksum i = (- sum_list (map uint i)) mod 256"
proof -
  have "cbus_checksum i = ((- sum_list (map uint i) - 1) mod 256 + 1) mod 256"
    by (simp add: cbus_checksum_def not_int_def int_mask_mod)
  also have "\<dots> = (- sum_list (map uint i)) mod 256"
    by (simp add: mod_add_left_eq)
  finally show ?thesis .
qed

lemma sum_list_uint: "word_of_int (sum_list (map uint i)) = (sum_list i :: byte)"
  by (induction i) simp_all

lemma cbus_checksum_word: "cbus_checksum i = uint (- sum_list i :: byte)"
proof -
  have "uint (- sum_list i :: byte) = uint (word_of_int (- sum_list (map uint i)) :: byte)"
    by (simp add: sum_list_uint)
  also have "\<dots> = (- sum_list (map uint i)) mod 256"
    by (simp only: uint_word_of_int take_bit_eq_mod) simp
  finally show ?thesis by (simp add: cbus_checksum_mod)
qed

lemma add_cbus_checksum_word [simp]: "add_cbus_checksum i = Inr (i @ [- sum_list i])"
  by (simp add: add_cbus_checksum_def cbus_checksum_word)

lemma validate_cbus_checksum_sum:
  "i \<noteq> [] \<Longrightarrow> validate_cbus_checksum i = Inr (sum_list i = 0)"
proof -
  assume "i \<noteq> []"
  then obtain ys y where i: "i = ys @ [y]" by (metis append_butlast_last_id)
  have "uint y = uint (- sum_list ys) \<longleftrightarrow> y = - sum_list ys" by (simp add: word_uint_eq_iff)
  also have "\<dots> \<longleftrightarrow> sum_list ys + y = 0" by (metis add.commute eq_neg_iff_add_eq_0)
  finally show ?thesis
    by (simp add: i validate_cbus_checksum_def cbus_checksum_word)
qed

lemma validate_cbus_checksum_Nil [simp]: "validate_cbus_checksum [] = Inl IndexError"
  by (simp add: validate_cbus_checksum_def)

lemma validate_appended [simp]: "validate_cbus_checksum (i @ [- sum_list i]) = Inr True"
  by (simp add: validate_cbus_checksum_sum)

lemma get_real_cbus_checksum_appended: "get_real_cbus_checksum (i @ [c]) = cbus_checksum i"
  by (simp add: get_real_cbus_checksum_def)

lemma checksum_corruption:
  assumes "validate_cbus_checksum (xs @ b # ys) = Inr True" and "b \<noteq> b'"
  shows "validate_cbus_checksum (xs @ b' # ys) = Inr False"
proof -
  have "sum_list (xs @ b # ys) = 0" using assms(1) by (simp add: validate_cbus_checksum_sum)
  moreover have "sum_list (xs @ b' # ys) = sum_list (xs @ b # ys) + (b' - b)" by simp
  ultimately have "sum_list (xs @ b' # ys) = b' - b" by (simp only: add_0)
  then have "sum_list (xs @ b' # ys) \<noteq> 0" using assms(2) by (metis right_minus_eq)
  then show ?thesis by (simp add: validate_cbus_checksum_sum)
qed

section \<open>Lemmas: ramp rates\<close>

lemma first_duration_least:
  assumes "sorted (map fst tbl)" and "\<exists>(d, c) \<in> set tbl. seconds \<le> d"
  shows "\<exists>d. (d, first_duration tbl seconds) \<in> set tbl \<and> seconds \<le> d \<and>
    (\<forall>(d', c) \<in> set tbl. seconds \<le> d' \<longrightarrow> d \<le> d')"
  using assms
proof (induction tbl seconds rule: first_duration.induct)
  case (2 d cmd rest seconds)
  show ?case
  proof (cases "seconds \<le> d")
    case True
    with "2.prems"(1) show ?thesis by (intro exI [of _ d]) (auto simp: case_prod_beta)
  next
    case False
    with 2 obtain d' where "(d', first_duration rest seconds) \<in> set rest" "seconds \<le> d'"
      "\<forall>(d'', c) \<in> set rest. seconds \<le> d'' \<longrightarrow> d' \<le> d''" by auto
    with False show ?thesis by (intro exI [of _ d']) auto
  qed
qed simp

lemma first_duration_default: "\<forall>(d, c) \<in> set tbl. d < seconds \<Longrightarrow> first_duration tbl seconds = RAMP_SLOWEST"
  by (induction tbl seconds rule: first_duration.induct) auto

lemma set_duration_table: "(d, c) \<in> set LIGHT_RAMP_DURATION_TO_RATE \<longleftrightarrow> (c, d) \<in> set LIGHT_RAMP_RATES"
  by (auto simp: LIGHT_RAMP_DURATION_TO_RATE_def)

lemma sorted_duration_table: "sorted (map fst LIGHT_RAMP_DURATION_TO_RATE)"
proof -
  have "map fst LIGHT_RAMP_DURATION_TO_RATE = map snd (sort_key snd LIGHT_RAMP_RATES)"
    by (simp add: LIGHT_RAMP_DURATION_TO_RATE_def case_prod_beta comp_def)
  then show ?thesis by simp
qed

lemma light_value_inj: "light_value c = light_value d \<longleftrightarrow> c = d"
  by (cases c; cases d) simp_all

lemma map_of_light_value:
  "map_of (map (\<lambda>(c, d). (light_value c, d)) tbl) (light_value c) = map_of tbl c"
  by (induction tbl) (auto simp: light_value_inj)

lemma ramp_rate_to_duration_iff:
  "ramp_rate_to_duration (light_value c) = Inr d \<longleftrightarrow> (c, d) \<in> set LIGHT_RAMP_RATES"
proof -
  have "distinct (map fst LIGHT_RAMP_RATES)" by (simp add: LIGHT_RAMP_RATES_def)
  then have "map_of LIGHT_RAMP_RATES c = Some d \<longleftrightarrow> (c, d) \<in> set LIGHT_RAMP_RATES"
    by (rule map_of_eq_Some_iff)
  then show ?thesis by (auto simp: ramp_rate_to_duration_def map_of_light_value split: option.splits)
qed

lemma ramp_durations_inj:
  "(c, d) \<in> set LIGHT_RAMP_RATES \<Longrightarrow> (c', d) \<in> set LIGHT_RAMP_RATES \<Longrightarrow> c = c'"
  by (auto simp: LIGHT_RAMP_RATES_def)

lemma duration_to_ramp_rate_spec:
  assumes "(c0, d0) \<in> set LIGHT_RAMP_RATES" and "seconds \<le> d0"
  shows "\<exists>d. (duration_to_ramp_rate seconds, d) \<in> set LIGHT_RAMP_RATES \<and> seconds \<le> d \<and>
    (\<forall>(c, d') \<in> set LIGHT_RAMP_RATES. seconds \<le> d' \<longrightarrow> d \<le> d')"
proof -
  have "\<exists>(d, c) \<in> set LIGHT_RAMP_DURATION_TO_RATE. seconds \<le> d"
    using assms by (intro bexI [of _ "(d0, c0)"]) (auto simp: set_duration_table)
  from first_duration_least [OF sorted_duration_table this] show ?thesis
    by (fastforce simp: duration_to_ramp_rate_def set_duration_table)
qed

lemma duration_roundtrip:
  assumes "(c, d) \<in> set LIGHT_RAMP_RATES"
  shows "duration_to_ramp_rate d = c"
proof -
  obtain d' where "(duration_to_ramp_rate d, d') \<in> set LIGHT_RAMP_RATES" "d \<le> d'" "d' \<le> d"
    using duration_to_ramp_rate_spec [OF assms order_refl] assms by fastforce
  then have "d' = d" and "(duration_to_ramp_rate d, d) \<in> set LIGHT_RAMP_RATES" by simp_all
  with assms show ?thesis by (auto intro: ramp_durations_inj)
qed

lemma duration_clamped: "1020 < seconds \<Longrightarrow> duration_to_ramp_rate seconds = RAMP_SLOWEST"
  unfolding duration_to_ramp_rate_def
  by (rule first_duration_default) (auto simp: set_duration_table LIGHT_RAMP_RATES_def)

lemma duration_is_ramp: "light_value (duration_to_ramp_rate seconds) \<in> LIGHT_RAMP_COMMANDS"
proof -
  have slow: "(RAMP_SLOWEST, 1020) \<in> set LIGHT_RAMP_RATES" by (simp add: LIGHT_RAMP_RATES_def)
  have "\<exists>d. (duration_to_ramp_rate seconds, d) \<in> set LIGHT_RAMP_RATES"
  proof (cases "seconds \<le> 1020")
    case True
    with duration_to_ramp_rate_spec [OF slow] show ?thesis by blast
  next
    case False
    with slow show ?thesis by (auto simp: duration_clamped)
  qed
  then show ?thesis unfolding LIGHT_RAMP_COMMANDS_def by force
qed

lemma ramp_command_rate: "r \<in> LIGHT_RAMP_COMMANDS \<longleftrightarrow> (\<exists>d. ramp_rate_to_duration r = Inr d)"
proof -
  have "LIGHT_RAMP_COMMANDS = fst ` set (map (\<lambda>(c, d). (light_value c, d)) LIGHT_RAMP_RATES)"
    by (force simp: LIGHT_RAMP_COMMANDS_def)
  also have "\<dots> = dom (map_of (map (\<lambda>(c, d). (light_value c, d)) LIGHT_RAMP_RATES))"
    by (simp only: dom_map_of_conv_image_fst)
  finally show ?thesis
    by (auto simp: ramp_rate_to_duration_def split: option.splits)
qed

section \<open>Properties\<close>

text \<open>
  Appending the checksum always gives a message that validates, and the checksum of such a
  message is the two's complement of the byte sum, recomputed by \<open>get_real_cbus_checksum\<close>.
\<close>

lemma checksum_validates:
  "rbind (add_cbus_checksum i) validate_cbus_checksum = Inr True \<and>
   rmap get_real_cbus_checksum (add_cbus_checksum i) = Inr (uint (- sum_list i :: byte))"
  by (simp add: get_real_cbus_checksum_appended cbus_checksum_word)

text \<open>
  Changing any single byte of a message with a valid checksum, the checksum byte included,
  makes validation fail.
\<close>

lemma checksum_detects_change:
  assumes "validate_cbus_checksum (xs @ b # ys) = Inr True" and "b \<noteq> b'"
  shows "validate_cbus_checksum (xs @ b' # ys) = Inr False"
  using assms by (rule checksum_corruption)

text \<open>
  The ramp rate chosen for a duration of up to 1020 seconds lasts at least that long and no
  other ramp rate that is long enough is shorter; a longer duration gets the slowest rate, which
  lasts 1020 seconds.
\<close>

lemma ramp_rate_is_least:
  "\<exists>d. ramp_rate_to_duration (light_value (duration_to_ramp_rate s)) = Inr d \<and>
     (if s \<le> 1020
      then s \<le> d \<and> (\<forall>c d'. ramp_rate_to_duration (light_value c) = Inr d' \<longrightarrow> s \<le> d' \<longrightarrow> d \<le> d')
      else d = 1020)"
proof (cases "s \<le> 1020")
  case True
  have "(RAMP_SLOWEST, 1020) \<in> set LIGHT_RAMP_RATES" by (simp add: LIGHT_RAMP_RATES_def)
  from duration_to_ramp_rate_spec [OF this True] True show ?thesis
    by (fastforce simp: ramp_rate_to_duration_iff)
next
  case False
  have "(RAMP_SLOWEST, 1020) \<in> set LIGHT_RAMP_RATES" by (simp add: LIGHT_RAMP_RATES_def)
  with False show ?thesis by (simp add: duration_clamped ramp_rate_to_duration_iff del: light_value.simps)
qed

end
