(* ===== verification/Lighting.thy ===== *)
theory Lighting
  imports Cbus_Common
begin

text \<open>
  The lighting application, \<open>cbus/protocol/application/lighting.py\<close>. A lighting SAL is a
  value of \<open>lighting_sal\<close>; the class constructors, which check the application and the
  group address, are \<open>new_LightingOnSAL\<close> and its siblings. \<open>SAL_HANDLERS\<close> is the
  dispatch table, \<open>handler_decode\<close> the static \<open>decode\<close> method of the four
  classes and \<open>lighting_decode_sals\<close> the loop of \<open>LightingSAL.decode_sals\<close>; warnings
  have no effect on its result.

  The lemmas show that the loop never raises on a lighting application, that everything it
  returns is well formed, and that it inverts the encoder on sequences of well-formed SALs.
\<close>

section \<open>SALs and their constructors\<close>

datatype lighting_sal =
    LightingRampSAL (light_group: int) (light_app: int) (light_duration: int) (light_level: int)
  | LightingOnSAL (light_group: int) (light_app: int)
  | LightingOffSAL (light_group: int) (light_app: int)
  | LightingTerminateRampSAL (light_group: int) (light_app: int)

definition lighting_applications :: "int list" where
  "lighting_applications = [LIGHTING_FIRST..LIGHTING_LAST]"

definition lighting_init :: "int \<Rightarrow> int \<Rightarrow> unit result" where
  "lighting_init group_address application_address =
     (if application_address \<notin> set lighting_applications then Inl ValueError
      else check_ga group_address)"

definition new_LightingRampSAL :: "int \<Rightarrow> int \<Rightarrow> int \<Rightarrow> int \<Rightarrow> lighting_sal result" where
  "new_LightingRampSAL group_address application_address duration level =
     rmap (\<lambda>_. LightingRampSAL group_address application_address duration level)
       (lighting_init group_address application_address)"

definition new_LightingOnSAL :: "int \<Rightarrow> int \<Rightarrow> lighting_sal result" where
  "new_LightingOnSAL group_address application_address =
     rmap (\<lambda>_. LightingOnSAL group_address application_address)
       (lighting_init group_address application_address)"

definition new_LightingOffSAL :: "int \<Rightarrow> int \<Rightarrow> lighting_sal result" where
  "new_LightingOffSAL group_address application_address =
     rmap (\<lambda>_. LightingOffSAL group_address application_address)
       (lighting_init group_address application_address)"

definition new_LightingTerminateRampSAL :: "int \<Rightarrow> int \<Rightarrow> lighting_sal result" where
  "new_LightingTerminateRampSAL group_address application_address =
     rmap (\<lambda>_. LightingTerminateRampSAL group_address application_address)
       (lighting_init group_address application_address)"

section \<open>Encoding\<close>

fun lighting_encode :: "lighting_sal \<Rightarrow> bytes result" where
  "lighting_encode (LightingRampSAL ga app duration level) =
     (if level < 0 \<or> level > 255 then Inl ValueError
      else rbind (check_ga ga) (\<lambda>_.
           py_bytes [light_value (duration_to_ramp_rate duration), ga, level]))"
| "lighting_encode (LightingOnSAL ga app) =
     rbind (check_ga ga) (\<lambda>_. py_bytes [light_value LIGHT_ON, ga])"
| "lighting_encode (LightingOffSAL ga app) =
     rbind (check_ga ga) (\<lambda>_. py_bytes [light_value LIGHT_OFF, ga])"
| "lighting_encode (LightingTerminateRampSAL ga app) =
     rbind (check_ga ga) (\<lambda>_. py_bytes [light_value TERMINATE_RAMP, ga])"

section \<open>Decoding\<close>

datatype light_handler = OnHandler | OffHandler | TerminateRampHandler | RampHandler

definition SAL_HANDLERS :: "(int \<times> light_handler) list" where
  "SAL_HANDLERS =
     [(light_value LIGHT_ON, OnHandler), (light_value LIGHT_OFF, OffHandler),
      (light_value TERMINATE_RAMP, TerminateRampHandler)]
     @ map (\<lambda>(c, d). (light_value c, RampHandler)) LIGHT_RAMP_RATES"

fun handler_decode ::
  "light_handler \<Rightarrow> bytes \<Rightarrow> int \<Rightarrow> int \<Rightarrow> int \<Rightarrow> (lighting_sal option \<times> bytes) result"
where
  "handler_decode OnHandler data command_code group_address application_address =
     rmap (\<lambda>s. (Some s, data)) (new_LightingOnSAL group_address application_address)"
| "handler_decode OffHandler data command_code group_address application_address =
     rmap (\<lambda>s. (Some s, data)) (new_LightingOffSAL group_address application_address)"
| "handler_decode TerminateRampHandler data command_code group_address application_address =
     rmap (\<lambda>s. (Some s, data)) (new_LightingTerminateRampSAL group_address application_address)"
| "handler_decode RampHandler data command_code group_address application_address =
     rbind (ramp_rate_to_duration command_code) (\<lambda>duration.
     case data of
       [] \<Rightarrow> Inr (None, data)
     | level # data' \<Rightarrow>
         rmap (\<lambda>s. (Some s, data'))
           (new_LightingRampSAL group_address application_address duration (uint level)))"

lemma handler_decode_shrinks:
  "handler_decode h data c g a = Inr (s, data') \<Longrightarrow> length data' \<le> length data"
  by (cases h; cases data) (auto simp: result_simps)

function lighting_decode_sals :: "int \<Rightarrow> bytes \<Rightarrow> lighting_sal list result" where
  "lighting_decode_sals application [] = Inr []"
| "lighting_decode_sals application [stray] = Inr []"
| "lighting_decode_sals application (command_code # group_address # data) =
     (case map_of SAL_HANDLERS (uint command_code) of
        None \<Rightarrow> Inr []
      | Some handler \<Rightarrow>
          rbind (handler_decode handler data (uint command_code) (uint group_address) application)
            (\<lambda>(sal, data').
               rmap (\<lambda>out. (case sal of Some s \<Rightarrow> s # out | None \<Rightarrow> out))
                 (lighting_decode_sals application data')))"
  by pat_completeness auto
termination
  by (relation "measure (\<lambda>(a, d). length d)") (auto dest!: handler_decode_shrinks)

section \<open>Well-formed SALs\<close>

fun lighting_ok :: "int \<Rightarrow> lighting_sal \<Rightarrow> bool" where
  "lighting_ok a (LightingRampSAL ga app duration level) \<longleftrightarrow>
     app = a \<and> is_byte ga \<and> is_byte level \<and> duration \<in> set (map snd LIGHT_RAMP_RATES)"
| "lighting_ok a (LightingOnSAL ga app) \<longleftrightarrow> app = a \<and> is_byte ga"
| "lighting_ok a (LightingOffSAL ga app) \<longleftrightarrow> app = a \<and> is_byte ga"
| "lighting_ok a (LightingTerminateRampSAL ga app) \<longleftrightarrow> app = a \<and> is_byte ga"

lemma check_ga_byte [simp]: "is_byte ga \<Longrightarrow> check_ga ga = Inr ()"
  by (simp add: is_byte_def)

lemma lighting_init_ok [simp]:
  "app \<in> set lighting_applications \<Longrightarrow> is_byte ga \<Longrightarrow> lighting_init ga app = Inr ()"
  by (simp add: lighting_init_def)

lemmas new_lighting_defs =
  new_LightingRampSAL_def new_LightingOnSAL_def new_LightingOffSAL_def
  new_LightingTerminateRampSAL_def

lemma handlers_eval:
  "map_of SAL_HANDLERS 0x79 = Some OnHandler"
  "map_of SAL_HANDLERS 0x01 = Some OffHandler"
  "map_of SAL_HANDLERS 0x09 = Some TerminateRampHandler"
  by (simp_all add: SAL_HANDLERS_def)

lemma ramp_handler:
  assumes "(c, d) \<in> set LIGHT_RAMP_RATES"
  shows "map_of SAL_HANDLERS (light_value c) = Some RampHandler" "is_byte (light_value c)"
  using assms by (auto simp: SAL_HANDLERS_def LIGHT_RAMP_RATES_def)

lemma handler_rate: "map_of SAL_HANDLERS c = Some RampHandler \<Longrightarrow> \<exists>d. ramp_rate_to_duration c = Inr d \<and> d \<in> set (map snd LIGHT_RAMP_RATES)"
  by (auto simp: SAL_HANDLERS_def ramp_rate_to_duration_def LIGHT_RAMP_RATES_def split: if_splits)

section \<open>The loop and the encoder\<close>

lemma lighting_step:
  assumes "a \<in> set lighting_applications" "lighting_ok a s" "lighting_encode s = Inr b"
  shows "lighting_decode_sals a (b @ rest) = rmap ((#) s) (lighting_decode_sals a rest)"
proof (cases s)
  case (LightingRampSAL ga app duration level)
  with assms obtain c where c: "(c, duration) \<in> set LIGHT_RAMP_RATES"
    and "app = a" "is_byte ga" "is_byte level" by auto
  moreover have "duration_to_ramp_rate duration = c" using c by (rule duration_roundtrip)
  moreover have "ramp_rate_to_duration (light_value c) = Inr duration"
    using c by (simp add: ramp_rate_to_duration_iff)
  ultimately show ?thesis using assms(1,3) LightingRampSAL ramp_handler [OF c]
    by (auto simp: new_lighting_defs split: if_splits)
qed (use assms in \<open>auto simp: handlers_eval new_lighting_defs\<close>)

lemma lighting_encodes:
  assumes "lighting_ok a s"
  shows "\<exists>b. lighting_encode s = Inr b"
proof (cases s)
  case (LightingRampSAL ga app duration level)
  with assms obtain c where c: "(c, duration) \<in> set LIGHT_RAMP_RATES" by auto
  with assms LightingRampSAL show ?thesis
    using ramp_handler [OF c] duration_roundtrip [OF c] by (auto simp: is_byte_def)
qed (use assms in \<open>auto simp: is_byte_def\<close>)

interpretation lighting_stream: stream_codec lighting_encode "lighting_decode_sals a"
    "\<lambda>s. a \<in> set lighting_applications \<and> lighting_ok a s" for a
  by unfold_locales (auto simp: lighting_step lighting_encodes)

lemma lighting_decode_total:
  assumes "a \<in> set lighting_applications"
  shows "\<exists>sals. lighting_decode_sals a data = Inr sals \<and> list_all (lighting_ok a) sals"
  using assms
proof (induction a data rule: lighting_decode_sals.induct)
  case (3 a c g data)
  show ?case
  proof (cases "map_of SAL_HANDLERS (uint c)")
    case (Some h)
    have "\<exists>s data'. handler_decode h data (uint c) (uint g) a = Inr (s, data') \<and>
        (case s of None \<Rightarrow> True | Some s \<Rightarrow> lighting_ok a s)"
      using "3.prems" handler_rate [of "uint c"] Some
      by (cases h) (force simp: new_lighting_defs split: list.splits)+
    then obtain s data' where h: "handler_decode h data (uint c) (uint g) a = Inr (s, data')"
      and s: "case s of None \<Rightarrow> True | Some s \<Rightarrow> lighting_ok a s" by blast
    from "3.IH" [OF Some h] "3.prems" obtain sals where
      "lighting_decode_sals a data' = Inr sals" "list_all (lighting_ok a) sals" by auto
    with Some h s show ?thesis by (auto split: option.splits)
  qed simp
qed simp_all

section \<open>Properties\<close>

text \<open>
  On a lighting application the decoder accepts every byte string without raising, and
  everything it returns is a well-formed SAL of that application; on any other application every
  complete command raises \<open>ValueError\<close>.
\<close>

lemma lighting_decode_accepts:
  "if a \<in> set lighting_applications
   then \<exists>sals. lighting_decode_sals a data = Inr sals \<and> list_all (lighting_ok a) sals
   else lighting_decode_sals a (0x79 # g # data) = Inl ValueError"
  using lighting_decode_total
  by (auto simp: handlers_eval new_lighting_defs lighting_init_def)

end
