(* ===== verification/Clock.thy ===== *)
theory Clock
  imports Cbus_Common
begin

text \<open>
  The clock and timekeeping application, \<open>cbus/protocol/application/clock.py\<close>, with what
  it uses of the standard library: the range checks of \<open>datetime.date\<close> and
  \<open>datetime.time\<close>, \<open>date.weekday\<close> by way of the proleptic Gregorian ordinal, and the
  \<open>struct\<close> formats \<open>>HBBB\<close> and \<open>>BBBB\<close>.

  The lemmas show that an encoded update or request is decoded back, alone and in a
  sequence, that everything the decoder returns is a valid date or time with no fraction of a
  second, and that the only exceptions it can raise are \<open>IndexError\<close>,
  \<open>StructError\<close> and \<open>ValueError\<close>.
\<close>

section \<open>Dates and times\<close>

record py_date =
  year :: int
  month :: int
  day :: int

record py_time =
  hour :: int
  minute :: int
  second :: int
  microsecond :: int

definition is_leap :: "int \<Rightarrow> bool" where
  "is_leap y \<longleftrightarrow> y mod 4 = 0 \<and> (y mod 100 \<noteq> 0 \<or> y mod 400 = 0)"

definition DAYS_IN_MONTH :: "int list" where
  "DAYS_IN_MONTH = [31, 28, 31, 30, 31, 30, 31, 31, 30, 31, 30, 31]"

definition days_in_month :: "int \<Rightarrow> int \<Rightarrow> int" where
  "days_in_month y m = (if m = 2 \<and> is_leap y then 29 else DAYS_IN_MONTH ! nat (m - 1))"

definition date_valid :: "py_date \<Rightarrow> bool" where
  "date_valid d \<longleftrightarrow>
     1 \<le> year d \<and> year d \<le> 9999 \<and> 1 \<le> month d \<and> month d \<le> 12 \<and>
     1 \<le> day d \<and> day d \<le> days_in_month (year d) (month d)"

definition time_valid :: "py_time \<Rightarrow> bool" where
  "time_valid t \<longleftrightarrow>
     0 \<le> hour t \<and> hour t \<le> 23 \<and> 0 \<le> minute t \<and> minute t \<le> 59 \<and>
     0 \<le> second t \<and> second t \<le> 59 \<and> 0 \<le> microsecond t \<and> microsecond t \<le> 999999"

definition new_date :: "int \<Rightarrow> int \<Rightarrow> int \<Rightarrow> py_date result" where
  "new_date y m d =
     (let v = \<lparr>year = y, month = m, day = d\<rparr> in if date_valid v then Inr v else Inl ValueError)"

definition new_time :: "int \<Rightarrow> int \<Rightarrow> int \<Rightarrow> py_time result" where
  "new_time h m s =
     (let v = \<lparr>hour = h, minute = m, second = s, microsecond = 0\<rparr> in
      if time_valid v then Inr v else Inl ValueError)"

definition days_before_year :: "int \<Rightarrow> int" where
  "days_before_year y = (let p = y - 1 in p * 365 + p div 4 - p div 100 + p div 400)"

definition days_before_month :: "int \<Rightarrow> int \<Rightarrow> int" where
  "days_before_month y m =
     sum_list (take (nat (m - 1)) DAYS_IN_MONTH) + (if m > 2 \<and> is_leap y then 1 else 0)"

definition toordinal :: "py_date \<Rightarrow> int" where
  "toordinal d = days_before_year (year d) + days_before_month (year d) (month d) + day d"

definition weekday :: "py_date \<Rightarrow> int" where
  "weekday d = (toordinal d + 6) mod 7"

section \<open>struct\<close>

definition pack_B :: "int \<Rightarrow> bytes result" where
  "pack_B x = (if is_byte x then Inr [byte_of x] else Inl StructError)"

definition pack_H :: "int \<Rightarrow> bytes result" where
  "pack_H x =
     (if 0 \<le> x \<and> x < 65536 then Inr [byte_of (x div 256), byte_of (x mod 256)]
      else Inl StructError)"

definition pack_HBBB :: "int \<Rightarrow> int \<Rightarrow> int \<Rightarrow> int \<Rightarrow> bytes result" where
  "pack_HBBB w a b c =
     rbind (pack_H w) (\<lambda>h. rmap ((@) h) (rconcat pack_B [a, b, c]))"

definition pack_BBBB :: "int \<Rightarrow> int \<Rightarrow> int \<Rightarrow> int \<Rightarrow> bytes result" where
  "pack_BBBB a b c d = rconcat pack_B [a, b, c, d]"

fun unpack_HBBB :: "bytes \<Rightarrow> (int \<times> int \<times> int \<times> int) result" where
  "unpack_HBBB [h, l, a, b, c] = Inr (uint h * 256 + uint l, uint a, uint b, uint c)"
| "unpack_HBBB _ = Inl StructError"

fun unpack_BBBB :: "bytes \<Rightarrow> (int \<times> int \<times> int \<times> int) result" where
  "unpack_BBBB [a, b, c, d] = Inr (uint a, uint b, uint c, uint d)"
| "unpack_BBBB _ = Inl StructError"

section \<open>SALs\<close>

datatype clock_val = DateVal py_date | TimeVal py_time | OtherVal

datatype clock_sal = ClockUpdateSAL clock_val | ClockRequestSAL

definition is_date :: "clock_val \<Rightarrow> bool" where
  "is_date v \<longleftrightarrow> (case v of DateVal _ \<Rightarrow> True | _ \<Rightarrow> False)"

definition is_time :: "clock_val \<Rightarrow> bool" where
  "is_time v \<longleftrightarrow> (case v of TimeVal _ \<Rightarrow> True | _ \<Rightarrow> False)"

fun clock_encode :: "clock_sal \<Rightarrow> bytes result" where
  "clock_encode (ClockUpdateSAL v) =
     rbind
       (case v of
          TimeVal t \<Rightarrow> rmap (\<lambda>val. (val, CLOCK_TIME)) (pack_BBBB (hour t) (minute t) (second t) 255)
        | DateVal d \<Rightarrow> rmap (\<lambda>val. (val, CLOCK_DATE)) (pack_HBBB (year d) (month d) (day d) (weekday d))
        | OtherVal \<Rightarrow> Inl TypeError)
       (\<lambda>(val, attr). rmap (\<lambda>h. h @ val) (py_bytes [0x08 OR (int (length val) + 1), attr]))"
| "clock_encode ClockRequestSAL = py_bytes [REQUEST_REFRESH, 0x03]"

definition ClockUpdateSAL_decode :: "bytes \<Rightarrow> int \<Rightarrow> (clock_sal option \<times> bytes) result" where
  "ClockUpdateSAL_decode data command_code =
     rbind (py_get data 0) (\<lambda>v.
     let variable = uint v;
         data_length = nat (command_code AND 0x07);
         val = drop 1 (take data_length data);
         data = drop data_length data in
     if variable = CLOCK_DATE then
       (if data_length \<noteq> 6 then Inr (None, data)
        else rbind (unpack_HBBB val) (\<lambda>(y, m, d, dow).
             rmap (\<lambda>v. (Some (ClockUpdateSAL (DateVal v)), data)) (new_date y m d)))
     else if variable = CLOCK_TIME then
       (if data_length \<noteq> 5 then Inr (None, data)
        else rbind (unpack_BBBB val) (\<lambda>(h, m, s, dst).
             rmap (\<lambda>v. (Some (ClockUpdateSAL (TimeVal v)), data)) (new_time h m s)))
     else Inr (None, drop data_length data))"

definition ClockRequestSAL_decode :: "bytes \<Rightarrow> (clock_sal option \<times> bytes) result" where
  "ClockRequestSAL_decode data =
     rbind (py_get data 0) (\<lambda>argument.
     let data = drop 1 data in
     if uint argument \<noteq> 0x03 then Inr (None, data) else Inr (Some ClockRequestSAL, data))"

lemma clock_decode_shrinks:
  "ClockUpdateSAL_decode data c = Inr (s, data') \<Longrightarrow> length data' \<le> length data"
  "ClockRequestSAL_decode data = Inr (s, data') \<Longrightarrow> length data' \<le> length data"
  by (auto simp: ClockUpdateSAL_decode_def ClockRequestSAL_decode_def Let_def result_simps
      split: if_splits)

function clock_decode_sals :: "bytes \<Rightarrow> clock_sal list result" where
  "clock_decode_sals [] = Inr []"
| "clock_decode_sals (c # data) =
     (let command_code = uint c in
      if command_code AND 0x80 = 0x80 then Inr []
      else if command_code AND 0xE0 \<noteq> 0 then Inr []
      else if command_code AND 0xF8 = UPDATE_NETWORK_VARIABLE then
        rbind (ClockUpdateSAL_decode data command_code) (\<lambda>(sal, data').
        rmap (\<lambda>out. (case sal of Some s \<Rightarrow> s # out | None \<Rightarrow> out)) (clock_decode_sals data'))
      else if command_code = REQUEST_REFRESH then
        rbind (ClockRequestSAL_decode data) (\<lambda>(sal, data').
        rmap (\<lambda>out. (case sal of Some s \<Rightarrow> s # out | None \<Rightarrow> out)) (clock_decode_sals data'))
      else Inr [])"
  by pat_completeness auto
termination
  by (relation "measure length") (auto dest!: clock_decode_shrinks)

text \<open>\<open>clock_update_sal\<close> accepts a datetime, a date or a time.\<close>

datatype py_moment = Datetime py_date py_time | Date py_date | Time py_time | OtherMoment

fun clock_update_sal :: "py_moment \<Rightarrow> clock_sal list result" where
  "clock_update_sal (Datetime d t) = Inr [ClockUpdateSAL (DateVal d), ClockUpdateSAL (TimeVal t)]"
| "clock_update_sal (Date d) = Inr [ClockUpdateSAL (DateVal d)]"
| "clock_update_sal (Time t) = Inr [ClockUpdateSAL (TimeVal t)]"
| "clock_update_sal OtherMoment = Inl TypeError"

section \<open>Round trip\<close>

fun clock_ok :: "clock_sal \<Rightarrow> bool" where
  "clock_ok (ClockUpdateSAL (DateVal d)) \<longleftrightarrow> date_valid d"
| "clock_ok (ClockUpdateSAL (TimeVal t)) \<longleftrightarrow> time_valid t \<and> microsecond t = 0"
| "clock_ok (ClockUpdateSAL OtherVal) \<longleftrightarrow> False"
| "clock_ok ClockRequestSAL \<longleftrightarrow> True"

lemma days_in_month_bound: "1 \<le> m \<Longrightarrow> m \<le> 12 \<Longrightarrow> days_in_month y m \<le> 31"
proof -
  assume m: "1 \<le> m" "m \<le> 12"
  then have "nat (m - 1) < length DAYS_IN_MONTH" by (simp add: DAYS_IN_MONTH_def)
  then have "DAYS_IN_MONTH ! nat (m - 1) \<in> set DAYS_IN_MONTH" by simp
  then have "DAYS_IN_MONTH ! nat (m - 1) \<le> 31" by (auto simp: DAYS_IN_MONTH_def)
  then show ?thesis by (simp add: days_in_month_def)
qed

lemma date_bytes:
  assumes "date_valid d"
  shows "pack_HBBB (year d) (month d) (day d) (weekday d) =
      Inr [byte_of (year d div 256), byte_of (year d mod 256), byte_of (month d), byte_of (day d), byte_of (weekday d)]"
    and "is_byte (month d)" "is_byte (day d)" "is_byte (year d div 256)" "is_byte (year d mod 256)"
proof -
  have "0 \<le> weekday d" "weekday d < 7" by (simp_all add: weekday_def)
  moreover have "day d \<le> 31"
    using assms days_in_month_bound [of "month d" "year d"] by (simp add: date_valid_def)
  moreover have "0 \<le> year d div 256" "year d div 256 < 256"
    using assms zdiv_mono1 [of "year d" 9999 256]
    by (simp_all add: date_valid_def pos_imp_zdiv_nonneg_iff)
  ultimately show "pack_HBBB (year d) (month d) (day d) (weekday d) =
      Inr [byte_of (year d div 256), byte_of (year d mod 256), byte_of (month d), byte_of (day d), byte_of (weekday d)]"
    and "is_byte (month d)" "is_byte (day d)" "is_byte (year d div 256)" "is_byte (year d mod 256)"
    using assms by (simp_all add: pack_HBBB_def pack_H_def pack_B_def is_byte_def date_valid_def)
qed

lemma time_bytes:
  assumes "time_valid t"
  shows "pack_BBBB (hour t) (minute t) (second t) 255 =
      Inr [byte_of (hour t), byte_of (minute t), byte_of (second t), 255]"
    and "is_byte (hour t)" "is_byte (minute t)" "is_byte (second t)"
  using assms by (simp_all add: pack_BBBB_def pack_B_def is_byte_def time_valid_def)

lemma clock_encode_ok:
  "date_valid d \<Longrightarrow> clock_encode (ClockUpdateSAL (DateVal d)) =
     Inr [0x0E, 0x02, byte_of (year d div 256), byte_of (year d mod 256), byte_of (month d),
          byte_of (day d), byte_of (weekday d)]"
  "time_valid t \<Longrightarrow> clock_encode (ClockUpdateSAL (TimeVal t)) =
     Inr [0x0D, 0x01, byte_of (hour t), byte_of (minute t), byte_of (second t), 255]"
  "clock_encode ClockRequestSAL = Inr [0x11, 0x03]"
  by (simp_all add: date_bytes time_bytes)

lemma new_date_valid: "date_valid d \<Longrightarrow> new_date (year d) (month d) (day d) = Inr d"
  by (cases d) (simp add: new_date_def)

lemma new_time_valid:
  "time_valid t \<Longrightarrow> microsecond t = 0 \<Longrightarrow> new_time (hour t) (minute t) (second t) = Inr t"
  by (cases t) (simp add: new_time_def)

lemma clock_step:
  assumes "clock_ok s" "clock_encode s = Inr b"
  shows "clock_decode_sals (b @ rest) = rmap ((#) s) (clock_decode_sals rest)"
proof (cases s)
  case (ClockUpdateSAL v)
  show ?thesis
  proof (cases v)
    case (DateVal d)
    with ClockUpdateSAL assms(1) have v: "date_valid d" by simp
    have "b = [0x0E, 0x02, byte_of (year d div 256), byte_of (year d mod 256), byte_of (month d),
          byte_of (day d), byte_of (weekday d)]"
      using assms(2) clock_encode_ok(1) [OF v] ClockUpdateSAL DateVal by simp
    with ClockUpdateSAL DateVal show ?thesis using date_bytes [OF v] new_date_valid [OF v]
      by (simp add: ClockUpdateSAL_decode_def uint_byte_of_mod [of "year d"])
  next
    case (TimeVal t)
    with ClockUpdateSAL assms(1) have v: "time_valid t" "microsecond t = 0" by simp_all
    have "b = [0x0D, 0x01, byte_of (hour t), byte_of (minute t), byte_of (second t), 255]"
      using assms(2) clock_encode_ok(2) [OF v(1)] ClockUpdateSAL TimeVal by simp
    with ClockUpdateSAL TimeVal show ?thesis using time_bytes [OF v(1)] new_time_valid [OF v]
      by (simp add: ClockUpdateSAL_decode_def)
  qed (use ClockUpdateSAL assms in simp)
next
  case ClockRequestSAL
  with assms show ?thesis by (auto simp: ClockRequestSAL_decode_def)
qed

lemma clock_encodes: "clock_ok s \<Longrightarrow> \<exists>b. clock_encode s = Inr b"
  by (cases s rule: clock_ok.cases) (simp_all add: clock_encode_ok del: clock_encode.simps)

interpretation clock_stream: stream_codec clock_encode clock_decode_sals clock_ok
  by unfold_locales (auto simp: clock_step clock_encodes)

section \<open>What the decoder returns\<close>

lemma unpack_errors:
  "unpack_HBBB v = Inl e \<Longrightarrow> e = StructError" "unpack_BBBB v = Inl e \<Longrightarrow> e = StructError"
  by (cases v rule: unpack_HBBB.cases; simp) (cases v rule: unpack_BBBB.cases; simp)

lemma ClockUpdateSAL_decode_cases:
  "ClockUpdateSAL_decode data c = Inr (Some s, data') \<Longrightarrow> clock_ok s"
  "ClockUpdateSAL_decode data c = Inl e \<Longrightarrow> e \<in> {IndexError, StructError, ValueError}"
  by (auto simp: ClockUpdateSAL_decode_def Let_def result_simps new_date_def new_time_def py_get_def
      split: if_splits dest: unpack_errors)

lemma ClockRequestSAL_decode_cases:
  "ClockRequestSAL_decode data = Inr (Some s, data') \<Longrightarrow> clock_ok s"
  "ClockRequestSAL_decode data = Inl e \<Longrightarrow> e = IndexError"
  by (auto simp: ClockRequestSAL_decode_def Let_def result_simps py_get_def split: if_splits)

lemma clock_decode_ok:
  "clock_decode_sals data = Inr sals \<Longrightarrow> list_all clock_ok sals"
proof (induction data arbitrary: sals rule: clock_decode_sals.induct)
  case (2 c data)
  then show ?case
    by (auto simp: Let_def result_simps split: if_splits option.splits
        dest: ClockUpdateSAL_decode_cases ClockRequestSAL_decode_cases)
qed simp

lemma clock_decode_errors:
  "clock_decode_sals data = Inl e \<Longrightarrow> e \<in> {IndexError, StructError, ValueError}"
proof (induction data rule: clock_decode_sals.induct)
  case (2 c data)
  then show ?case
    by (auto simp: Let_def result_simps split: if_splits
        dest: ClockUpdateSAL_decode_cases(2) ClockRequestSAL_decode_cases(2))
qed simp

section \<open>Properties\<close>

text \<open>
  Whatever clock data arrives, the decoder either returns SALs that all carry a valid date or
  a valid time, or raises one of \<open>IndexError\<close>, \<open>StructError\<close> and
  \<open>ValueError\<close>.
\<close>

lemma clock_decode_outcomes:
  "case clock_decode_sals data of
     Inr sals \<Rightarrow> list_all clock_ok sals
   | Inl e \<Rightarrow> e \<in> {IndexError, StructError, ValueError}"
  by (cases "clock_decode_sals data") (simp_all add: clock_decode_ok clock_decode_errors [simplified])

end
