(* ===== verification/Enable.thy ===== *)
theory Enable
  imports Cbus_Common
begin

text \<open>
  The enable control application, \<open>cbus/protocol/application/enable.py\<close>: one SAL that
  sets a network variable. The decoding loop never raises, and inverts the encoder.
\<close>

datatype enable_sal =
  EnableSetNetworkVariableSAL (enable_variable: int) (enable_value: int)

fun enable_encode :: "enable_sal \<Rightarrow> bytes result" where
  "enable_encode (EnableSetNetworkVariableSAL variable val) =
     py_bytes [SET_NETWORK_VARIABLE, variable AND 0xFF, val AND 0xFF]"

definition EnableSetNetworkVariableSAL_decode :: "bytes \<Rightarrow> (enable_sal \<times> bytes) result" where
  "EnableSetNetworkVariableSAL_decode data =
     rbind (py_get data 0) (\<lambda>variable.
     rmap (\<lambda>val. (EnableSetNetworkVariableSAL (uint variable) (uint val), drop 2 data))
       (py_get data 1))"

lemma enable_decode_shrinks:
  "EnableSetNetworkVariableSAL_decode data = Inr (s, data') \<Longrightarrow> length data' \<le> length data"
  by (auto simp: EnableSetNetworkVariableSAL_decode_def result_simps)

function enable_decode_sals :: "bytes \<Rightarrow> enable_sal list result" where
  "enable_decode_sals [] = Inr []"
| "enable_decode_sals (c # data) =
     (if length (c # data) < 3 then Inr []
      else if uint c AND 0x80 = 0x80 then Inr []
      else if uint c AND 0x07 \<noteq> 2 then Inr []
      else rbind (EnableSetNetworkVariableSAL_decode data) (\<lambda>(sal, data').
           rmap ((#) sal) (enable_decode_sals data')))"
  by pat_completeness auto
termination
  by (relation "measure length") (auto dest!: enable_decode_shrinks)

fun enable_ok :: "enable_sal \<Rightarrow> bool" where
  "enable_ok (EnableSetNetworkVariableSAL variable val) \<longleftrightarrow> is_byte variable \<and> is_byte val"

lemma enable_step:
  assumes "enable_ok s" "enable_encode s = Inr b"
  shows "enable_decode_sals (b @ rest) = rmap ((#) s) (enable_decode_sals rest)"
  using assms by (cases s) (auto simp: EnableSetNetworkVariableSAL_decode_def)

lemma enable_encodes: "\<exists>b. enable_encode s = Inr b"
  by (cases s) simp

interpretation enable_stream: stream_codec enable_encode enable_decode_sals enable_ok
  by unfold_locales (auto simp: enable_step enable_encodes)

lemma enable_decode_total:
  "\<exists>sals. enable_decode_sals data = Inr sals \<and> list_all enable_ok sals \<and> 3 * length sals \<le> length data"
proof (induction data rule: enable_decode_sals.induct)
  case (2 c data)
  show ?case
  proof (cases "length (c # data) < 3 \<or> uint c AND 0x80 = 0x80 \<or> uint c AND 0x07 \<noteq> 2")
    case False
    then obtain v w data' where d: "data = v # w # data'"
      by (cases data; cases "tl data") auto
    have "EnableSetNetworkVariableSAL_decode data =
        Inr (EnableSetNetworkVariableSAL (uint v) (uint w), data')"
      by (simp add: d EnableSetNetworkVariableSAL_decode_def)
    with 2 False d show ?thesis by fastforce
  qed auto
qed simp

end
