(* ===== verification/Temperature.thy ===== *)
theory Temperature
  imports Cbus_Common
begin

text \<open>
  The temperature broadcast application, \<open>cbus/protocol/application/temperature.py\<close>. A
  temperature is a rational: the code divides a byte by four, compares, multiplies by four and
  truncates, all of which a binary float does exactly for every value in the accepted range.

  The decoding loop never raises, inverts the encoder on multiples of a quarter degree, and
  encoding rounds any other temperature in range down to the quarter degree below it.
\<close>

datatype temperature_sal =
  TemperatureBroadcastSAL (temperature_group: int) (temperature: rat)

fun temperature_encode :: "temperature_sal \<Rightarrow> bytes result" where
  "temperature_encode (TemperatureBroadcastSAL group_address t) =
     (if \<not> (0 \<le> t \<and> t \<le> 255 / 4) then Inl ValueError
      else rbind (check_ga group_address) (\<lambda>_.
           py_bytes [TEMPERATURE_BROADCAST, group_address, \<lfloor>t * 4\<rfloor>]))"

definition TemperatureBroadcastSAL_decode :: "bytes \<Rightarrow> int \<Rightarrow> (temperature_sal \<times> bytes) result" where
  "TemperatureBroadcastSAL_decode data group_address =
     rmap (\<lambda>t. (TemperatureBroadcastSAL group_address (of_int (uint t) / 4), drop 1 data))
       (py_get data 0)"

lemma temperature_decode_shrinks:
  "TemperatureBroadcastSAL_decode data g = Inr (s, data') \<Longrightarrow> length data' \<le> length data"
  by (auto simp: TemperatureBroadcastSAL_decode_def result_simps)

function temperature_decode_sals :: "bytes \<Rightarrow> temperature_sal list result" where
  "temperature_decode_sals [] = Inr []"
| "temperature_decode_sals [c] = Inr []"
| "temperature_decode_sals (c # g # data) =
     (if length (c # g # data) < 3 then Inr []
      else if uint c AND 0x80 = 0x80 then Inr []
      else if uint c AND 0x07 \<noteq> 2 then Inr []
      else rbind (TemperatureBroadcastSAL_decode data (uint g)) (\<lambda>(sal, data').
           rmap ((#) sal) (temperature_decode_sals data')))"
  by pat_completeness auto
termination
  by (relation "measure length") (auto dest!: temperature_decode_shrinks)

fun temperature_ok :: "temperature_sal \<Rightarrow> bool" where
  "temperature_ok (TemperatureBroadcastSAL g t) \<longleftrightarrow>
     is_byte g \<and> 0 \<le> t \<and> t \<le> 255 / 4 \<and> of_int \<lfloor>t * 4\<rfloor> = t * 4"

lemma temperature_floor:
  fixes t :: rat
  assumes "0 \<le> t" "t \<le> 255 / 4"
  shows "is_byte \<lfloor>t * 4\<rfloor>"
  using assms by (simp add: is_byte_def floor_less_iff)

lemma temperature_encode_in_range:
  assumes "is_byte g" "0 \<le> t" "t \<le> 255 / 4"
  shows "temperature_encode (TemperatureBroadcastSAL g t) = Inr [0x02, byte_of g, byte_of \<lfloor>t * 4\<rfloor>]"
  using assms temperature_floor [of t] by (simp add: check_ga_def validate_ga_def is_byte_def)

lemma unsigned_byte_of: "is_byte x \<Longrightarrow> (unsigned (byte_of x) :: rat) = of_int x"
  by (metis is_byte_simps(1) of_int_uint)

lemma temperature_step:
  assumes "temperature_ok s" "temperature_encode s = Inr b"
  shows "temperature_decode_sals (b @ rest) = rmap ((#) s) (temperature_decode_sals rest)"
proof (cases s)
  case (TemperatureBroadcastSAL g t)
  with assms(1) have t: "is_byte g" "0 \<le> t" "t \<le> 255 / 4" "of_int \<lfloor>t * 4\<rfloor> = t * 4" by auto
  define n where "n = \<lfloor>t * 4\<rfloor>"
  have n: "is_byte n" using temperature_floor [OF t(2,3)] by (simp add: n_def)
  have "b = [0x02, byte_of g, byte_of n]"
    using assms(2) temperature_encode_in_range [OF t(1-3)] TemperatureBroadcastSAL
    by (simp add: n_def)
  moreover have "of_int n / 4 = t" using t(4) unfolding n_def by linarith
  ultimately show ?thesis using TemperatureBroadcastSAL t(1) n
    by (simp add: TemperatureBroadcastSAL_decode_def unsigned_byte_of del: divide_eq_eq_numeral1)
qed

lemma temperature_encodes: "temperature_ok s \<Longrightarrow> \<exists>b. temperature_encode s = Inr b"
  using temperature_encode_in_range by (cases s) fastforce

interpretation temperature_stream:
  stream_codec temperature_encode temperature_decode_sals temperature_ok
  by unfold_locales (auto simp: temperature_step temperature_encodes)

lemma temperature_decode_total:
  "\<exists>sals. temperature_decode_sals data = Inr sals \<and> list_all temperature_ok sals"
proof (induction data rule: temperature_decode_sals.induct)
  case (3 c g data)
  show ?case
  proof (cases "length (c # g # data) < 3 \<or> uint c AND 0x80 = 0x80 \<or> uint c AND 0x07 \<noteq> 2")
    case False
    then obtain t data' where d: "data = t # data'" by (cases data) auto
    have "(of_int (uint t) :: rat) \<le> of_int 255"
      unfolding of_int_le_iff by (rule uint_byte_bounds)
    moreover have "(of_int (uint t) :: rat) / 4 * 4 = of_int (uint t)" by simp
    ultimately have ok: "temperature_ok (TemperatureBroadcastSAL (uint g) (of_int (uint t) / 4))"
      unfolding temperature_ok.simps by (simp del: of_int_uint)
    have dec: "TemperatureBroadcastSAL_decode data (uint g) =
        Inr (TemperatureBroadcastSAL (uint g) (of_int (uint t) / 4), data')"
      by (simp add: d TemperatureBroadcastSAL_decode_def)
    from "3.IH" [OF _ _ _ dec refl] False obtain sals where
      "temperature_decode_sals data' = Inr sals" "list_all temperature_ok sals" by auto
    with False ok dec show ?thesis by (simp del: of_int_uint)
  qed auto
qed simp_all

section \<open>Properties\<close>

text \<open>
  Temperatures in range that are multiples of a quarter degree survive encoding and decoding,
  in any sequence; any other temperature in range is encoded as the quarter degree below it, and
  one out of range raises \<open>ValueError\<close>.
\<close>

lemma temperature_roundtrip:
  assumes "\<forall>s \<in> set sals. temperature_ok s" and "is_byte g"
  shows "(\<exists>bs. rconcat temperature_encode sals = Inr bs \<and> temperature_decode_sals bs = Inr sals) \<and>
    temperature_encode (TemperatureBroadcastSAL g t) =
      (if 0 \<le> t \<and> t \<le> 255 / 4 then Inr [0x02, byte_of g, byte_of \<lfloor>t * 4\<rfloor>] else Inl ValueError)"
  using temperature_stream.stream_roundtrip [OF assms(1)] temperature_encode_in_range [OF assms(2), of t]
  by auto

end
