(* ===== verification/Status_Request.thy ===== *)
theory Status_Request
  imports Cbus_Common
begin

text \<open>
  The status request application, \<open>cbus/protocol/application/status_request.py\<close>: requests
  for binary (\<open>7A\<close>, or the deprecated \<open>FA\<close>) or level (\<open>73 07\<close>) status of a
  block of 32 groups of a child application.

  The encoder forces the block to a multiple of 32 and the decoder rejects any other; the loop
  inverts the encoder on well-formed requests and can only raise \<open>NotImplementedError\<close>,
  \<open>IndexError\<close> or \<open>ValueError\<close>.
\<close>

record status_request_sal =
  sr_level_request :: bool
  sr_group_address :: int
  sr_child_application :: int

definition LEVEL_REQUEST :: bytes where "LEVEL_REQUEST = [0x73, 0x07]"

definition status_encode :: "status_request_sal \<Rightarrow> bytes result" where
  "status_encode s =
     (let child_application = sr_child_application s AND 0xFF;
          group_address = sr_group_address s AND 0xE0 in
      if sr_level_request s
      then rmap ((@) LEVEL_REQUEST) (py_bytes [child_application, group_address])
      else py_bytes [0x7A, child_application, group_address])"

fun status_body :: "bool \<Rightarrow> bytes \<Rightarrow> (status_request_sal \<times> bytes) result" where
  "status_body level_request (a # g # data) =
     (if uint g AND 0x1F \<noteq> 0 then Inl ValueError
      else Inr (\<lparr>sr_level_request = level_request, sr_group_address = uint g,
                 sr_child_application = uint a\<rparr>, data))"
| "status_body level_request _ = Inl IndexError"

definition status_head :: "bytes \<Rightarrow> (bool \<times> bytes) result" where
  "status_head data =
     rbind (py_get data 0) (\<lambda>c.
     if uint c \<in> set [0x7A, 0xFA] then Inr (False, drop 1 data)
     else if starts_with LEVEL_REQUEST data then Inr (True, drop 2 data)
     else Inl NotImplementedError)"

lemma status_head_shrinks: "status_head data = Inr (l, data') \<Longrightarrow> length data' < length data"
  by (cases data) (auto simp: status_head_def result_simps split: if_splits)

lemma status_body_shrinks: "status_body l data = Inr (s, data') \<Longrightarrow> length data' < length data"
  by (cases "(l, data)" rule: status_body.cases) (auto split: if_splits)

function status_decode_sals :: "bytes \<Rightarrow> status_request_sal list result" where
  "status_decode_sals data =
     (if data = [] then Inr []
      else rbind (status_head data) (\<lambda>(level_request, data1).
           rbind (status_body level_request data1) (\<lambda>(sal, data2).
           rmap ((#) sal) (status_decode_sals data2))))"
  by pat_completeness auto
termination
  by (relation "measure length") (auto dest!: status_head_shrinks status_body_shrinks)

declare status_decode_sals.simps [simp del]

definition status_ok :: "status_request_sal \<Rightarrow> bool" where
  "status_ok s \<longleftrightarrow> is_byte (sr_child_application s) \<and> is_byte (sr_group_address s) \<and>
     sr_group_address s mod 32 = 0"

lemma status_decode_Nil [simp]: "status_decode_sals [] = Inr []"
  by (simp add: status_decode_sals.simps)

lemma mask_E0_block:
  assumes "is_byte g" "g mod 32 = 0"
  shows "g AND 0xE0 = g"
proof -
  from assms obtain k where k: "g = 32 * k" "0 \<le> k" "k < 8"
    by (auto simp: is_byte_def zmod_eq_0_iff)
  then show ?thesis by (simp add: int_mask_E0)
qed

lemma status_encode_ok:
  assumes "status_ok s"
  shows "status_encode s =
    Inr ((if sr_level_request s then [0x73, 0x07] else [0x7A])
      @ [byte_of (sr_child_application s), byte_of (sr_group_address s)])"
  using assms
  by (simp add: status_ok_def status_encode_def Let_def mask_E0_block LEVEL_REQUEST_def)

lemma status_step:
  assumes "status_ok s" "status_encode s = Inr b"
  shows "status_decode_sals (b @ rest) = rmap ((#) s) (status_decode_sals rest)"
  using assms status_encode_ok [OF assms(1)]
  by (cases s, subst status_decode_sals.simps)
    (auto simp: status_head_def LEVEL_REQUEST_def status_ok_def int_mask_mod split: if_splits)

interpretation status_stream: stream_codec status_encode status_decode_sals status_ok
  by unfold_locales (auto simp: status_step status_encode_ok)

lemma status_decode_errors:
  "status_decode_sals data = Inl e \<Longrightarrow> e \<in> {NotImplementedError, IndexError, ValueError}"
proof (induction data rule: status_decode_sals.induct)
  case (1 data)
  have "e \<in> {IndexError, ValueError}" if "status_body l d = Inl e" for l d
    using that by (cases "(l, d)" rule: status_body.cases) (auto split: if_splits)
  moreover have "e \<in> {NotImplementedError, IndexError}" if "status_head data = Inl e"
    using that by (auto simp: status_head_def result_simps py_get_def split: if_splits)
  ultimately show ?case using 1
    by (subst (asm) (2) status_decode_sals.simps) (fastforce simp: result_simps split: if_splits)
qed

lemma status_decode_ok:
  "status_decode_sals data = Inr sals \<Longrightarrow> list_all status_ok sals"
proof (induction data arbitrary: sals rule: status_decode_sals.induct)
  case (1 data)
  have "status_ok s" if "status_body l d = Inr (s, d')" for l d s d'
    using that by (cases "(l, d)" rule: status_body.cases)
      (auto simp: status_ok_def int_mask_mod split: if_splits)
  with 1 show ?case
    by (subst (asm) (2) status_decode_sals.simps) (fastforce simp: result_simps split: if_splits)
qed

section \<open>Properties\<close>

text \<open>
  Status requests for blocks of 32 groups survive encoding and decoding in any sequence, and
  the decoder only ever returns such requests or raises \<open>NotImplementedError\<close>,
  \<open>IndexError\<close> or \<open>ValueError\<close>.
\<close>

lemma status_request_roundtrip:
  assumes "\<forall>s \<in> set sals. status_ok s"
  shows "(\<exists>bs. rconcat status_encode sals = Inr bs \<and> status_decode_sals bs = Inr sals) \<and>
    (case status_decode_sals data of
       Inr out \<Rightarrow> list_all status_ok out
     | Inl e \<Rightarrow> e \<in> {NotImplementedError, IndexError, ValueError})"
  using status_stream.stream_roundtrip [OF assms] status_decode_ok [of data] status_decode_errors [of data]
  by (auto split: sum.split)

end
