(* ===== verification/Applications.thy ===== *)
theory Applications
  imports Lighting Clock Enable Temperature Status_Request
begin

text \<open>
  The application registry, \<open>cbus/protocol/application/__init__.py\<close>, and the common
  interface of the SALs (\<open>cbus/protocol/application/sal.py\<close>): \<open>sal\<close> is the union of
  the five applications' messages, with the \<open>application\<close> property and the
  \<open>encode\<close> method dispatched over it.

  The registry is filled from a frozenset of classes, whose iteration order Python does not
  fix: \<open>register_all\<close> takes the order as an argument. The lemmas show that registration
  succeeds in every order and always gives the same table.
\<close>

section \<open>The union of SALs\<close>

datatype sal =
    Lighting lighting_sal
  | Clock clock_sal
  | Enable enable_sal
  | Temperature temperature_sal
  | StatusRequest status_request_sal

fun sal_application :: "sal \<Rightarrow> int" where
  "sal_application (Lighting s) = light_app s"
| "sal_application (Clock s) = CLOCK"
| "sal_application (Enable s) = ENABLE"
| "sal_application (Temperature s) = TEMPERATURE"
| "sal_application (StatusRequest s) = STATUS_REQUEST"

fun sal_encode :: "sal \<Rightarrow> bytes result" where
  "sal_encode (Lighting s) = lighting_encode s"
| "sal_encode (Clock s) = clock_encode s"
| "sal_encode (Enable s) = enable_encode s"
| "sal_encode (Temperature s) = temperature_encode s"
| "sal_encode (StatusRequest s) = status_encode s"

section \<open>Application classes\<close>

datatype application_class =
    StatusRequestApplication | ClockApplication | EnableApplication
  | LightingApplication | TemperatureApplication

fun supported_applications :: "application_class \<Rightarrow> int list" where
  "supported_applications StatusRequestApplication = [STATUS_REQUEST]"
| "supported_applications ClockApplication = [CLOCK]"
| "supported_applications EnableApplication = [ENABLE]"
| "supported_applications LightingApplication = lighting_applications"
| "supported_applications TemperatureApplication = [TEMPERATURE]"

fun application_decode_sals :: "application_class \<Rightarrow> bytes \<Rightarrow> int \<Rightarrow> sal list result" where
  "application_decode_sals StatusRequestApplication data application =
     rmap (map StatusRequest) (status_decode_sals data)"
| "application_decode_sals ClockApplication data application =
     rmap (map Clock) (clock_decode_sals data)"
| "application_decode_sals EnableApplication data application =
     rmap (map Enable) (enable_decode_sals data)"
| "application_decode_sals LightingApplication data application =
     rmap (map Lighting) (lighting_decode_sals application data)"
| "application_decode_sals TemperatureApplication data application =
     rmap (map Temperature) (temperature_decode_sals data)"

section \<open>Registration\<close>

type_synonym registry = "int \<rightharpoonup> application_class"

fun register_ids :: "application_class \<Rightarrow> int list \<Rightarrow> registry \<Rightarrow> registry result" where
  "register_ids app [] new_apps_dict = Inr new_apps_dict"
| "register_ids app (app_id # app_ids) new_apps_dict =
     (case new_apps_dict app_id of
        Some existing_app \<Rightarrow>
          if existing_app \<noteq> app then Inl ValueError
          else register_ids app app_ids (new_apps_dict(app_id \<mapsto> app))
      | None \<Rightarrow> register_ids app app_ids (new_apps_dict(app_id \<mapsto> app)))"

definition register_application :: "application_class \<Rightarrow> registry \<Rightarrow> registry result" where
  "register_application app dict =
     (let app_ids = supported_applications app in
      if \<not> list_all (\<lambda>i. 0 \<le> i \<and> i \<le> 0xFF) app_ids then Inl ValueError
      else rmap (\<lambda>new_apps_dict. dict ++ new_apps_dict) (register_ids app app_ids dict))"

fun register_all :: "application_class list \<Rightarrow> registry \<Rightarrow> registry result" where
  "register_all [] dict = Inr dict"
| "register_all (app # apps) dict = rbind (register_application app dict) (register_all apps)"

definition APPLICATIONS :: "application_class list" where
  "APPLICATIONS = [StatusRequestApplication, ClockApplication, EnableApplication,
     LightingApplication, TemperatureApplication]"

definition APPLICATIONS_DICT :: registry where
  "APPLICATIONS_DICT =
     (case register_all APPLICATIONS Map.empty of Inr dict \<Rightarrow> dict | Inl _ \<Rightarrow> Map.empty)"

definition get_application :: "int \<Rightarrow> application_class result" where
  "get_application app_id =
     (case APPLICATIONS_DICT app_id of Some app \<Rightarrow> Inr app | None \<Rightarrow> Inl KeyError)"

section \<open>Registration in any order\<close>

lemma supported_disjoint:
  "i \<in> set (supported_applications a) \<Longrightarrow> i \<in> set (supported_applications b) \<Longrightarrow> a = b"
  by (cases a; cases b) (auto simp: lighting_applications_def)

lemma supported_bytes: "list_all (\<lambda>i. 0 \<le> i \<and> i \<le> 0xFF) (supported_applications a)"
  by (cases a) (auto simp: list_all_iff lighting_applications_def)

text \<open>The registry that holds exactly the ids of the classes \<open>A\<close>.\<close>

definition registry_of :: "application_class set \<Rightarrow> registry \<Rightarrow> bool" where
  "registry_of A dict \<longleftrightarrow>
     (\<forall>i a. dict i = Some a \<longleftrightarrow> a \<in> A \<and> i \<in> set (supported_applications a))"

lemma register_ids_fresh:
  assumes "\<forall>i \<in> set ids. dict i = None \<or> dict i = Some a"
  shows "\<exists>d. register_ids a ids dict = Inr d \<and>
    (\<forall>i. d i = (if i \<in> set ids then Some a else dict i))"
  using assms
proof (induction ids arbitrary: dict)
  case (Cons i ids)
  have "\<forall>j \<in> set ids. (dict(i \<mapsto> a)) j = None \<or> (dict(i \<mapsto> a)) j = Some a"
    using Cons.prems by auto
  from Cons.IH [OF this] obtain d where d: "register_ids a ids (dict(i \<mapsto> a)) = Inr d"
    and "\<forall>j. d j = (if j \<in> set ids then Some a else (dict(i \<mapsto> a)) j)" by blast
  then have "\<forall>j. d j = (if j \<in> set (i # ids) then Some a else dict j)" by auto
  moreover have "register_ids a (i # ids) dict = Inr d"
    using d Cons.prems by (auto split: option.splits)
  ultimately show ?case by blast
qed simp

lemma register_application_registry:
  assumes "registry_of A dict" and "a \<notin> A"
  shows "\<exists>d. register_application a dict = Inr d \<and> registry_of (insert a A) d"
proof -
  have fresh: "dict i = None" if "i \<in> set (supported_applications a)" for i
  proof (cases "dict i")
    case (Some b)
    then have "b \<in> A" "i \<in> set (supported_applications b)"
      using assms(1) by (auto simp: registry_of_def)
    with that assms(2) show ?thesis using supported_disjoint by blast
  qed
  then obtain d where d: "register_ids a (supported_applications a) dict = Inr d"
    "\<forall>i. d i = (if i \<in> set (supported_applications a) then Some a else dict i)"
    using register_ids_fresh [of "supported_applications a" dict a] by blast
  have "(dict ++ d) i = d i" for i using d(2) by (auto simp: map_add_def split: option.splits)
  then have eq: "dict ++ d = d" by blast
  have "registry_of (insert a A) d"
    using assms(1) d(2) supported_disjoint unfolding registry_of_def by auto
  with d(1) eq show ?thesis by (simp add: register_application_def supported_bytes)
qed

lemma register_all_registry:
  assumes "registry_of A dict" "distinct apps" "set apps \<inter> A = {}"
  shows "\<exists>d. register_all apps dict = Inr d \<and> registry_of (set apps \<union> A) d"
  using assms
proof (induction apps arbitrary: A dict)
  case (Cons a apps)
  then obtain d where d: "register_application a dict = Inr d" "registry_of (insert a A) d"
    using register_application_registry [of A dict a] by auto
  from Cons.IH [OF d(2)] Cons.prems obtain d' where
    "register_all apps d = Inr d'" "registry_of (set apps \<union> insert a A) d'" by auto
  with d(1) show ?case by auto
qed simp

lemma registry_of_unique: "registry_of A d \<Longrightarrow> registry_of A d' \<Longrightarrow> d = d'"
  unfolding registry_of_def by (rule ext) (metis not_None_eq)

lemma set_APPLICATIONS: "set APPLICATIONS = UNIV"
proof -
  have "a \<in> set APPLICATIONS" for a by (cases a) (simp_all add: APPLICATIONS_def)
  then show ?thesis by blast
qed

lemma registry_any_order:
  assumes "distinct apps" "set apps = UNIV"
  shows "register_all apps Map.empty = Inr APPLICATIONS_DICT" and "registry_of UNIV APPLICATIONS_DICT"
proof -
  have e: "registry_of {} Map.empty" by (simp add: registry_of_def)
  from register_all_registry [OF e assms(1)] assms(2) obtain d where
    d: "register_all apps Map.empty = Inr d" "registry_of UNIV d" by auto
  have "distinct APPLICATIONS" by (simp add: APPLICATIONS_def)
  from register_all_registry [OF e this] set_APPLICATIONS obtain d' where
    d': "register_all APPLICATIONS Map.empty = Inr d'" "registry_of UNIV d'" by auto
  then have "APPLICATIONS_DICT = d'" by (simp add: APPLICATIONS_DICT_def)
  with d d' show "register_all apps Map.empty = Inr APPLICATIONS_DICT"
    and "registry_of UNIV APPLICATIONS_DICT" by (auto dest: registry_of_unique)
qed

lemma APPLICATIONS_DICT_eq:
  "APPLICATIONS_DICT i = Some a \<longleftrightarrow> i \<in> set (supported_applications a)"
  using registry_any_order(2) [of APPLICATIONS] set_APPLICATIONS
  by (simp add: registry_of_def APPLICATIONS_def)

lemma get_application_iff:
  "get_application i = Inr a \<longleftrightarrow> i \<in> set (supported_applications a)"
  by (auto simp: get_application_def APPLICATIONS_DICT_eq [symmetric] split: option.splits)

lemma get_application_error: "get_application i = Inl e \<Longrightarrow> e = KeyError"
  by (auto simp: get_application_def split: option.splits)

section \<open>SALs of one application\<close>

text \<open>
  The well-formed SALs of application \<open>a\<close>, the ones its decoder can return.
\<close>

fun sal_ok :: "int \<Rightarrow> sal \<Rightarrow> bool" where
  "sal_ok a (Lighting s) \<longleftrightarrow> a \<in> set lighting_applications \<and> lighting_ok a s"
| "sal_ok a (Clock s) \<longleftrightarrow> a = CLOCK \<and> clock_ok s"
| "sal_ok a (Enable s) \<longleftrightarrow> a = ENABLE \<and> enable_ok s"
| "sal_ok a (Temperature s) \<longleftrightarrow> a = TEMPERATURE \<and> temperature_ok s"
| "sal_ok a (StatusRequest s) \<longleftrightarrow> a = STATUS_REQUEST \<and> status_ok s"

lemma sal_ok_application: "sal_ok a s \<Longrightarrow> sal_application s = a"
  by (cases s) (auto elim: lighting_ok.elims)

lemma application_ids:
  "a \<in> set lighting_applications \<longleftrightarrow> get_application a = Inr LightingApplication"
  "get_application CLOCK = Inr ClockApplication" "get_application ENABLE = Inr EnableApplication"
  "get_application TEMPERATURE = Inr TemperatureApplication"
  "get_application STATUS_REQUEST = Inr StatusRequestApplication"
  by (simp_all add: get_application_iff)

fun sal_class :: "sal \<Rightarrow> application_class" where
  "sal_class (Lighting s) = LightingApplication"
| "sal_class (Clock s) = ClockApplication"
| "sal_class (Enable s) = EnableApplication"
| "sal_class (Temperature s) = TemperatureApplication"
| "sal_class (StatusRequest s) = StatusRequestApplication"

lemma sal_ok_class: "sal_ok a s \<Longrightarrow> get_application a = Inr (sal_class s)"
  by (cases s) (auto simp: application_ids)

lemma rmap_map_Cons:
  "rmap (map f) (rmap ((#) x) m) = rmap ((#) (f x)) (rmap (map f) m)"
  by (cases m) simp_all

lemma sal_step:
  assumes "sal_ok a s" "sal_encode s = Inr b"
  shows "application_decode_sals (sal_class s) (b @ rest) a =
    rmap ((#) s) (application_decode_sals (sal_class s) rest a)"
proof (cases s)
  case (Lighting t)
  with assms lighting_step [of a t b rest] show ?thesis by (simp add: rmap_map_Cons)
next
  case (Clock t)
  with assms clock_step [of t b rest] show ?thesis by (simp add: rmap_map_Cons)
next
  case (Enable t)
  with assms enable_step [of t b rest] show ?thesis by (simp add: rmap_map_Cons)
next
  case (Temperature t)
  with assms temperature_step [of t b rest] show ?thesis by (simp add: rmap_map_Cons)
next
  case (StatusRequest t)
  with assms status_step [of t b rest] show ?thesis by (simp add: rmap_map_Cons)
qed

lemma sal_encodes:
  assumes "sal_ok a s"
  shows "\<exists>b. sal_encode s = Inr b"
proof (cases s)
  case (Lighting t)
  with assms lighting_encodes [of a t] show ?thesis by simp
qed (use assms in \<open>simp_all add: clock_encodes enable_encodes temperature_encodes status_encode_ok\<close>)

interpretation sal_stream: stream_codec sal_encode "\<lambda>data. application_decode_sals app data a"
    "\<lambda>s. get_application a = Inr app \<and> sal_ok a s" for app a
proof
  show "application_decode_sals app [] a = Inr []"
    by (cases app) simp_all
next
  fix s
  assume "get_application a = Inr app \<and> sal_ok a s"
  then show "\<exists>b. sal_encode s = Inr b" by (blast intro: sal_encodes)
next
  fix s b rest
  assume s: "get_application a = Inr app \<and> sal_ok a s" and b: "sal_encode s = Inr b"
  then have "app = sal_class s" using sal_ok_class [of a s] by simp
  with s b show "application_decode_sals app (b @ rest) a = rmap ((#) s) (application_decode_sals app rest a)"
    by (simp add: sal_step)
qed

lemma application_decode_ok:
  assumes "get_application a = Inr app" "application_decode_sals app data a = Inr sals"
  shows "list_all (sal_ok a) sals"
proof (cases app)
  case LightingApplication
  with assms have "a \<in> set lighting_applications" by (simp add: application_ids)
  from lighting_decode_total [OF this, of data] this LightingApplication assms(2) show ?thesis
    by (auto simp: result_simps list_all_iff)
next
  case ClockApplication
  with assms show ?thesis using clock_decode_ok [of data]
    by (auto simp: get_application_iff result_simps list_all_iff)
next
  case EnableApplication
  with assms show ?thesis using enable_decode_total [of data]
    by (auto simp: get_application_iff result_simps list_all_iff)
next
  case TemperatureApplication
  with assms show ?thesis using temperature_decode_total [of data]
    by (auto simp: get_application_iff result_simps list_all_iff)
next
  case StatusRequestApplication
  with assms show ?thesis using status_decode_ok [of data]
    by (auto simp: get_application_iff result_simps list_all_iff)
qed

section \<open>Properties\<close>

text \<open>
  C36: Any sequence of well-formed SALs of one registered application, whichever class serves it,
  encodes, and the decoder the registry gives for that application reads the same sequence back.
  What a decoder accepts is in turn such a sequence.
\<close>

theorem sal_sequence_roundtrip:
  assumes "get_application a = Inr app"
  shows "(list_all (sal_ok a) sals \<longrightarrow>
      (\<exists>bs. rconcat sal_encode sals = Inr bs \<and> application_decode_sals app bs a = Inr sals)) \<and>
    (application_decode_sals app data a = Inr sals' \<longrightarrow> list_all (sal_ok a) sals')"
  using sal_stream.stream_roundtrip [of sals a app] application_decode_ok [OF assms, of data sals'] assms
  by (auto simp: list_all_iff)

theorem sal_sequence_roundtrip_witness:
  "\<exists>bs. rconcat sal_encode [Lighting (LightingOnSAL 1 0x38), Lighting (LightingRampSAL 2 0x38 30 128)] = Inr bs \<and>
     application_decode_sals LightingApplication bs 0x38 =
       Inr [Lighting (LightingOnSAL 1 0x38), Lighting (LightingRampSAL 2 0x38 30 128)]"
proof -
  have "get_application 0x38 = Inr LightingApplication"
    unfolding application_ids(1) [symmetric] by (simp add: lighting_applications_def)
  from sal_sequence_roundtrip [OF this, of "[Lighting (LightingOnSAL 1 0x38), Lighting (LightingRampSAL 2 0x38 30 128)]"]
  show ?thesis by (simp add: lighting_applications_def LIGHT_RAMP_RATES_def)
qed

text \<open>
  Filling the registry succeeds in whatever order the application classes are registered, and
  the result is always the same: an application id is served by the class that supports it, and
  any other id raises \<open>KeyError\<close>.
\<close>

lemma registry_order_irrelevant:
  assumes "distinct apps" and "set apps = UNIV"
  shows "register_all apps Map.empty = Inr APPLICATIONS_DICT \<and>
    (get_application i = Inr a \<longleftrightarrow> i \<in> set (supported_applications a)) \<and>
    ((\<forall>a. i \<notin> set (supported_applications a)) \<longleftrightarrow> get_application i = Inl KeyError)"
proof (intro conjI)
  show "register_all apps Map.empty = Inr APPLICATIONS_DICT" using assms by (rule registry_any_order)
  show "get_application i = Inr a \<longleftrightarrow> i \<in> set (supported_applications a)" by (rule get_application_iff)
  show "(\<forall>a. i \<notin> set (supported_applications a)) \<longleftrightarrow> get_application i = Inl KeyError"
    unfolding get_application_iff [symmetric] using get_application_error
    by (cases "get_application i") auto
qed

end
