(* ===== verification/Status_Report.thy ===== *)
theory Status_Report
  imports Cbus_Common
begin

text \<open>
  Status reports, \<open>cbus/protocol/cal/report.py\<close>: the Manchester-style coding of one
  level in two bytes (\<open>manchester_decode\<close>, \<open>manchester_encode\<close>), the binary status
  report (four two-bit group states per byte) and the level status report.

  A level is Python's \<open>Optional[int]\<close>. The lemmas give both round trips of each report
  and the exact failure conditions of the decoders.
\<close>

section \<open>Manchester coding\<close>

definition MANCHESTER_NIBBLES :: "int list" where
  "MANCHESTER_NIBBLES = [0xA, 0x9, 0x6, 0x5]"

fun tuple_index :: "int list \<Rightarrow> int \<Rightarrow> int result" where
  "tuple_index [] x = Inl ValueError"
| "tuple_index (y # ys) x = (if y = x then Inr 0 else rmap (\<lambda>i. i + 1) (tuple_index ys x))"

definition manchester_decode :: "bytes \<Rightarrow> int option result" where
  "manchester_decode b =
     (case
        rbind (py_get b 0) (\<lambda>b0.
        rbind (tuple_index MANCHESTER_NIBBLES (uint b0 AND 0xF)) (\<lambda>n0.
        rbind (tuple_index MANCHESTER_NIBBLES (drop_bit 4 (uint b0))) (\<lambda>n1.
        rbind (py_get b 1) (\<lambda>b1.
        rbind (tuple_index MANCHESTER_NIBBLES (uint b1 AND 0xF)) (\<lambda>n2.
        rbind (tuple_index MANCHESTER_NIBBLES (drop_bit 4 (uint b1))) (\<lambda>n3.
        Inr (n0 OR push_bit 2 n1 OR push_bit 4 n2 OR push_bit 6 n3)))))))
      of
        Inr n \<Rightarrow> Inr (Some n)
      | Inl e \<Rightarrow> if e = ValueError then Inr None else Inl e)"

definition manchester_encode :: "int option \<Rightarrow> bytes option \<Rightarrow> nat \<Rightarrow> bytes result" where
  "manchester_encode value buf off =
     (let buf = (case buf of None \<Rightarrow> replicate 2 0 | Some b \<Rightarrow> b) in
      if length buf < off + 2 then Inl IndexError
      else case value of
        None \<Rightarrow> Inr buf
      | Some value \<Rightarrow>
          (let value = value AND 0xFF in
           rbind (py_get MANCHESTER_NIBBLES (nat (value AND 0x3))) (\<lambda>n0.
           rbind (py_get MANCHESTER_NIBBLES (nat (drop_bit 2 value AND 0x3))) (\<lambda>n1.
           rbind (py_byte (n0 OR push_bit 4 n1)) (\<lambda>lo.
           rbind (py_get MANCHESTER_NIBBLES (nat (drop_bit 4 value AND 0x3))) (\<lambda>n2.
           rbind (py_get MANCHESTER_NIBBLES (nat (drop_bit 6 value AND 0x3))) (\<lambda>n3.
           rbind (py_byte (n2 OR push_bit 4 n3)) (\<lambda>hi.
           Inr (buf[off := lo, off + 1 := hi]))))))))) "

section \<open>Reports\<close>

datatype status_report =
    BinaryStatusReport "group_state list"
  | LevelStatusReport "int option list"

fun block_type :: "status_report \<Rightarrow> extended_cal_type" where
  "block_type (BinaryStatusReport _) = BINARY"
| "block_type (LevelStatusReport _) = LEVEL"

fun binary_decode :: "bytes \<Rightarrow> group_state list result" where
  "binary_decode [] = Inr []"
| "binary_decode (c # data) =
     rbind (GroupState (uint c AND 0x3)) (\<lambda>s0.
     rbind (GroupState (drop_bit 2 (uint c) AND 0x3)) (\<lambda>s1.
     rbind (GroupState (drop_bit 4 (uint c) AND 0x3)) (\<lambda>s2.
     rbind (GroupState (drop_bit 6 (uint c) AND 0x3)) (\<lambda>s3.
     rmap (\<lambda>states. [s0, s1, s2, s3] @ states) (binary_decode data)))))"

definition BinaryStatusReport_decode :: "bytes \<Rightarrow> status_report result" where
  "BinaryStatusReport_decode data = rmap BinaryStatusReport (binary_decode data)"

fun pack_groups :: "group_state list \<Rightarrow> int list result" where
  "pack_groups [] = Inr []"
| "pack_groups (a # b # c # d # rest) =
     rmap ((#) (group_state_value a OR push_bit 2 (group_state_value b)
                 OR push_bit 4 (group_state_value c) OR push_bit 6 (group_state_value d)))
       (pack_groups rest)"
| "pack_groups _ = Inl IndexError"

definition pad_groups :: "group_state list \<Rightarrow> group_state list" where
  "pad_groups group_states =
     (let r = length group_states mod 4 in
      if r \<noteq> 0 then group_states @ replicate (4 - r) MISSING else group_states)"

definition binary_encode :: "group_state list \<Rightarrow> bytes result" where
  "binary_encode group_states = rbind (pack_groups (pad_groups group_states)) py_bytes"

text \<open>\<open>level_decode\<close> walks \<open>range(0, len(data), 2)\<close> after the parity check.\<close>

fun level_pairs :: "bytes \<Rightarrow> int option list result" where
  "level_pairs [] = Inr []"
| "level_pairs [b] = rmap (\<lambda>v. [v]) (manchester_decode [b])"
| "level_pairs (b # c # data) =
     rbind (manchester_decode [b, c]) (\<lambda>v. rmap ((#) v) (level_pairs data))"

definition level_decode :: "bytes \<Rightarrow> int option list result" where
  "level_decode data = (if length data mod 2 \<noteq> 0 then Inl ValueError else level_pairs data)"

definition LevelStatusReport_decode :: "bytes \<Rightarrow> status_report result" where
  "LevelStatusReport_decode data = rmap LevelStatusReport (level_decode data)"

fun level_fill :: "nat \<Rightarrow> int option list \<Rightarrow> bytes \<Rightarrow> bytes result" where
  "level_fill i [] buf = Inr buf"
| "level_fill i (state # states) buf =
     rbind (manchester_encode state (Some buf) (i * 2)) (\<lambda>buf'. level_fill (Suc i) states buf')"

definition level_encode :: "int option list \<Rightarrow> bytes result" where
  "level_encode group_states = level_fill 0 group_states (replicate (length group_states * 2) 0)"

fun report_encode :: "status_report \<Rightarrow> bytes result" where
  "report_encode (BinaryStatusReport group_states) = binary_encode group_states"
| "report_encode (LevelStatusReport group_states) = level_encode group_states"

section \<open>Binary reports\<close>

lemma group_value_bounds [simp]: "0 \<le> group_state_value s" "group_state_value s < 4"
  by (cases s; simp)+

lemma base4_pack:
  fixes a b c d :: int
  assumes "0 \<le> a" "a < 4" "0 \<le> b" "b < 4" "0 \<le> c" "c < 4"
  shows "a OR push_bit 2 b OR push_bit 4 c OR push_bit 6 d = a + 4 * b + 16 * c + 64 * d"
  using assms by (simp add: or.assoc [symmetric] or_push_simps)

lemma pack_group_value:
  "group_state_value a OR push_bit 2 (group_state_value b)
     OR push_bit 4 (group_state_value c) OR push_bit 6 (group_state_value d) =
   group_state_value a + 4 * group_state_value b + 16 * group_state_value c + 64 * group_state_value d"
  by (rule base4_pack) simp_all

lemma pack_group_byte:
  fixes a b c d
  defines "v \<equiv> group_state_value a + 4 * group_state_value b + 16 * group_state_value c
    + 64 * group_state_value d"
  shows "py_byte v = Inr (byte_of v)" and "uint (byte_of v) = v"
  using base4_digits(5,6) [of "group_state_value a" "group_state_value b"
      "group_state_value c" "group_state_value d"]
  by (simp_all add: v_def uint_of_byte)

lemma binary_decode_pack:
  assumes "length xs mod 4 = 0"
  shows "\<exists>bs. rbind (pack_groups xs) py_bytes = Inr bs \<and> binary_decode bs = Inr xs"
  using assms
proof (induction xs rule: pack_groups.induct)
  case (2 a b c d rest)
  then obtain vs bs where "pack_groups rest = Inr vs" "py_bytes vs = Inr bs" "binary_decode bs = Inr rest"
    by (auto simp: result_simps)
  moreover define v where "v = group_state_value a + 4 * group_state_value b
    + 16 * group_state_value c + 64 * group_state_value d"
  moreover have "v mod 4 = group_state_value a" "v div 4 mod 4 = group_state_value b"
    "v div 16 mod 4 = group_state_value c" "v div 64 mod 4 = group_state_value d"
    unfolding v_def by (rule base4_digits; simp)+
  ultimately show ?case
    using pack_group_byte [of a b c d, folded v_def]
    by (simp add: pack_group_value int_mask_mod int_drop_bit flip: v_def)
qed simp_all

lemma pad_groups_mod: "length (pad_groups xs) mod 4 = 0"
proof (cases "length xs mod 4 = 0")
  case False
  have "(length xs + (4 - length xs mod 4)) mod 4 = 0" by presburger
  with False show ?thesis by (simp add: pad_groups_def Let_def)
qed (simp add: pad_groups_def)

lemma binary_encode_decode:
  "\<exists>bs. binary_encode xs = Inr bs \<and> binary_decode bs = Inr (pad_groups xs)"
  unfolding binary_encode_def by (rule binary_decode_pack) (rule pad_groups_mod)

lemma binary_decode_encode:
  "\<exists>xs. binary_decode bs = Inr xs \<and> length xs = 4 * length bs \<and> rbind (pack_groups xs) py_bytes = Inr bs"
proof (induction bs)
  case (Cons c bs)
  then obtain xs vs where ih: "binary_decode bs = Inr xs" "length xs = 4 * length bs"
    "pack_groups xs = Inr vs" "py_bytes vs = Inr bs" by (auto simp: result_simps)
  obtain s0 s1 s2 s3 where "GroupState (uint c mod 4) = Inr s0"
    "GroupState (uint c div 4 mod 4) = Inr s1" "GroupState (uint c div 16 mod 4) = Inr s2"
    "GroupState (uint c div 64 mod 4) = Inr s3"
    using GroupState_total by meson
  moreover from this have "group_state_value s0 + 4 * group_state_value s1 + 16 * group_state_value s2
      + 64 * group_state_value s3 = uint c"
    unfolding GroupState_eq using base4_join [of "uint c"] by simp
  ultimately show ?case
    by (simp add: ih int_mask_mod int_drop_bit pack_group_value)
qed simp

lemma pad_groups_id: "length xs mod 4 = 0 \<Longrightarrow> pad_groups xs = xs"
  by (simp add: pad_groups_def)

section \<open>Level reports\<close>

lemma manchester_nibble:
  assumes "0 \<le> k" "k < 4"
  shows "\<exists>n. py_get MANCHESTER_NIBBLES (nat k) = Inr n \<and> 0 \<le> n \<and> n < 16 \<and>
    tuple_index MANCHESTER_NIBBLES n = Inr k"
proof -
  consider "k = 0" | "k = 1" | "k = 2" | "k = 3" using assms by linarith
  then show ?thesis
    by cases (rule exI [of _ 10] exI [of _ 9] exI [of _ 6] exI [of _ 5],
        simp add: MANCHESTER_NIBBLES_def; fail)+
qed

lemma manchester_decode_nibbles:
  assumes "0 \<le> n0" "n0 < 16" "0 \<le> n1" "n1 < 16" "0 \<le> n2" "n2 < 16" "0 \<le> n3" "n3 < 16"
    and "tuple_index MANCHESTER_NIBBLES n0 = Inr a" "tuple_index MANCHESTER_NIBBLES n1 = Inr b"
    and "tuple_index MANCHESTER_NIBBLES n2 = Inr c" "tuple_index MANCHESTER_NIBBLES n3 = Inr d"
  shows "manchester_decode [byte_of (n0 + 16 * n1), byte_of (n2 + 16 * n3)] =
    Inr (Some (a OR push_bit 2 b OR push_bit 4 c OR push_bit 6 d))"
proof -
  have u: "uint (byte_of (n + 16 * m)) = n + 16 * m"
    if "0 \<le> n" "n < 16" "0 \<le> m" "m < 16" for n m
    using that by (simp add: uint_of_byte)
  show ?thesis using assms
    by (simp add: manchester_decode_def u int_mask_mod int_drop_bit)
qed

lemma manchester_encode_Some:
  "\<exists>lo hi. manchester_decode [lo, hi] = Inr (Some (v mod 256)) \<and>
    (\<forall>buf off. off + 2 \<le> length buf \<longrightarrow>
       manchester_encode (Some v) (Some buf) off = Inr (buf[off := lo, off + 1 := hi]))"
proof -
  define x where "x = v mod 256"
  have x: "0 \<le> x" "x < 256" by (simp_all add: x_def)
  have d: "0 \<le> y mod 4" "y mod 4 < 4" for y :: int by simp_all
  obtain n0 n1 n2 n3 where
    g: "py_get MANCHESTER_NIBBLES (nat (x mod 4)) = Inr n0"
      "py_get MANCHESTER_NIBBLES (nat (x div 4 mod 4)) = Inr n1"
      "py_get MANCHESTER_NIBBLES (nat (x div 16 mod 4)) = Inr n2"
      "py_get MANCHESTER_NIBBLES (nat (x div 64 mod 4)) = Inr n3"
    and r: "0 \<le> n0" "n0 < 16" "0 \<le> n1" "n1 < 16" "0 \<le> n2" "n2 < 16" "0 \<le> n3" "n3 < 16"
    and t: "tuple_index MANCHESTER_NIBBLES n0 = Inr (x mod 4)"
      "tuple_index MANCHESTER_NIBBLES n1 = Inr (x div 4 mod 4)"
      "tuple_index MANCHESTER_NIBBLES n2 = Inr (x div 16 mod 4)"
      "tuple_index MANCHESTER_NIBBLES n3 = Inr (x div 64 mod 4)"
    using manchester_nibble [OF d] by metis
  have "x mod 4 OR push_bit 2 (x div 4 mod 4) OR push_bit 4 (x div 16 mod 4)
      OR push_bit 6 (x div 64 mod 4) = x"
    using base4_join [OF x] by (simp only: base4_pack d)
  with manchester_decode_nibbles [OF r t]
  have "manchester_decode [byte_of (n0 + 16 * n1), byte_of (n2 + 16 * n3)] = Inr (Some x)"
    by simp
  moreover have "n0 OR push_bit 4 n1 = n0 + 16 * n1" "n2 OR push_bit 4 n3 = n2 + 16 * n3"
    using r by (simp_all only: or_push_simps)
  then have "manchester_encode (Some v) (Some buf) off =
      Inr (buf[off := byte_of (n0 + 16 * n1), off + 1 := byte_of (n2 + 16 * n3)])"
    if "off + 2 \<le> length buf" for buf off
    using that g r
    by (simp add: manchester_encode_def Let_def int_mask_mod int_drop_bit flip: x_def)
  ultimately show ?thesis unfolding x_def by blast
qed

definition level_bytes :: "int option \<Rightarrow> bytes" where
  "level_bytes v = (case manchester_encode v None 0 of Inr bs \<Rightarrow> bs | Inl _ \<Rightarrow> [])"

lemma manchester_encode_at:
  "manchester_encode v (Some (pre @ 0 # 0 # post)) (length pre) = Inr (pre @ level_bytes v @ post)"
  "length (level_bytes v) = 2"
  "manchester_decode (level_bytes v) = Inr (map_option (\<lambda>x. x mod 256) v)"
proof -
  have "manchester_encode v (Some (pre @ 0 # 0 # post)) (length pre) = Inr (pre @ level_bytes v @ post)
    \<and> length (level_bytes v) = 2 \<and> manchester_decode (level_bytes v) = Inr (map_option (\<lambda>x. x mod 256) v)"
  proof (cases v)
    case None
    then show ?thesis
      by (simp add: level_bytes_def manchester_encode_def manchester_decode_def numeral_2_eq_2
          MANCHESTER_NIBBLES_def)
  next
    case (Some x)
    obtain lo hi where d: "manchester_decode [lo, hi] = Inr (Some (x mod 256))"
      and e: "\<And>buf off. off + 2 \<le> length buf \<Longrightarrow>
        manchester_encode (Some x) (Some buf) off = Inr (buf[off := lo, off + 1 := hi])"
      using manchester_encode_Some [of x] by blast
    have "manchester_encode (Some x) None 0 = manchester_encode (Some x) (Some (replicate 2 0)) 0"
      by (simp add: manchester_encode_def)
    then have "level_bytes v = [lo, hi]" by (simp add: Some level_bytes_def e numeral_2_eq_2)
    then show ?thesis by (simp add: Some d e list_update_append)
  qed
  then show "manchester_encode v (Some (pre @ 0 # 0 # post)) (length pre) = Inr (pre @ level_bytes v @ post)"
    "length (level_bytes v) = 2"
    "manchester_decode (level_bytes v) = Inr (map_option (\<lambda>x. x mod 256) v)" by blast+
qed

lemma level_fill_bytes:
  "length pre = i * 2 \<Longrightarrow>
   level_fill i xs (pre @ replicate (length xs * 2) 0) = Inr (pre @ concat (map level_bytes xs))"
proof (induction xs arbitrary: i pre)
  case (Cons v xs)
  have "level_fill (Suc i) xs ((pre @ level_bytes v) @ replicate (length xs * 2) 0) =
      Inr ((pre @ level_bytes v) @ concat (map level_bytes xs))"
    by (rule Cons.IH) (simp add: manchester_encode_at(2) Cons.prems)
  with manchester_encode_at(1) [of v pre "replicate (length xs * 2) 0"] show ?case
    by (simp add: Cons.prems)
qed simp

lemma level_encode_bytes: "level_encode xs = Inr (concat (map level_bytes xs))"
  using level_fill_bytes [of "[]" 0 xs] by (simp add: level_encode_def)

lemma level_pairs_bytes:
  "level_pairs (concat (map level_bytes xs)) = Inr (map (map_option (\<lambda>x. x mod 256)) xs)"
proof (induction xs)
  case (Cons v xs)
  obtain lo hi where "level_bytes v = [lo, hi]"
    using manchester_encode_at(2) [of v] by (auto simp: length_Suc_conv numeral_2_eq_2)
  with Cons show ?case using manchester_encode_at(3) [of v] by simp
qed simp

lemma length_level_bytes: "length (concat (map level_bytes xs)) = 2 * length xs"
  by (induction xs) (simp_all add: manchester_encode_at(2))

lemma level_decode_encode:
  "level_decode (concat (map level_bytes xs)) = Inr (map (map_option (\<lambda>x. x mod 256)) xs)"
  by (simp add: level_decode_def level_pairs_bytes length_level_bytes)

lemma tuple_index_fail: "tuple_index ns x = Inl e \<Longrightarrow> e = ValueError"
  by (induction ns) (auto simp: result_simps split: if_splits)

lemma manchester_decode_total: "\<exists>v. manchester_decode [b, c] = Inr v"
proof -
  have "e = ValueError" if "manchester_decode [b, c] = Inl e" for e
    using that by (auto simp: manchester_decode_def result_simps split: sum.splits if_splits
        dest: tuple_index_fail)
  then show ?thesis
    by (cases "manchester_decode [b, c]")
      (auto simp: manchester_decode_def split: sum.splits if_splits)
qed

lemma level_pairs_total:
  "even (length data) \<Longrightarrow> \<exists>xs. level_pairs data = Inr xs \<and> length data = 2 * length xs"
proof (induction data rule: level_pairs.induct)
  case (3 b c data)
  obtain v where "manchester_decode [b, c] = Inr v" using manchester_decode_total by blast
  with 3 show ?case by auto
qed simp_all

lemma level_decode_cases:
  "odd (length data) \<Longrightarrow> level_decode data = Inl ValueError"
  "even (length data) \<Longrightarrow> \<exists>xs. level_decode data = Inr xs \<and> length data = 2 * length xs"
  by (auto simp: level_decode_def level_pairs_total odd_iff_mod_2_eq_one)

section \<open>Properties\<close>

text \<open>
  A binary status report decodes to the group states that were encoded, padded with MISSING
  to a multiple of four; and encoding what any byte string decodes to gives those bytes back.
\<close>

lemma binary_report_roundtrip:
  "(\<exists>bs. binary_encode gs = Inr bs \<and> binary_decode bs = Inr (pad_groups gs)) \<and>
   rbind (binary_decode data) binary_encode = Inr data"
proof
  show "\<exists>bs. binary_encode gs = Inr bs \<and> binary_decode bs = Inr (pad_groups gs)"
    by (rule binary_encode_decode)
  obtain xs where "binary_decode data = Inr xs" "length xs = 4 * length data"
    "rbind (pack_groups xs) py_bytes = Inr data" using binary_decode_encode by blast
  then show "rbind (binary_decode data) binary_encode = Inr data"
    by (simp add: binary_encode_def pad_groups_id)
qed

text \<open>
  A level status report of any levels encodes to two bytes per group and decodes back to the
  levels modulo 256, an unassigned group staying unassigned; decoding raises \<open>ValueError\<close>
  exactly on data of odd length.
\<close>

lemma level_report_roundtrip:
  "(\<exists>bs. level_encode ls = Inr bs \<and> length bs = 2 * length ls \<and>
     level_decode bs = Inr (map (map_option (\<lambda>x. x mod 256)) ls)) \<and>
   (level_decode data = Inl ValueError) = odd (length data)"
proof
  show "\<exists>bs. level_encode ls = Inr bs \<and> length bs = 2 * length ls \<and>
     level_decode bs = Inr (map (map_option (\<lambda>x. x mod 256)) ls)"
    by (simp add: level_encode_bytes length_level_bytes level_decode_encode)
  show "(level_decode data = Inl ValueError) = odd (length data)"
    using level_decode_cases [of data] by (cases "even (length data)") auto
qed

end
