(* ===== verification/Cal.thy ===== *)
theory Cal
  imports Status_Report
begin

text \<open>
  Device management messages (CALs): \<open>cbus/protocol/cal/\<close> and the CAL decoder of
  \<open>cbus/protocol/pp_packet.py\<close>. \<open>cal\<close> is the union \<open>AnyCAL\<close>; an
  \<open>IdentifyAttribute\<close> is carried as its integer value, to which it compares equal. The
  standard status CAL, which is only ever sent by itself, is the record
  \<open>standard_cal\<close>.

  \<open>decode_cal\<close> reads one CAL off the front of the data and returns how many bytes it
  took; \<open>decode_cals\<close> is the \<open>while data\<close> loop of
  \<open>PointToPointPacket.decode_packet\<close>, which ends because every CAL has at least one byte.
  The lemmas bound the consumed length and show that encoding is inverted by decoding for
  every well-formed CAL (\<open>cal_ok\<close>), alone and in a sequence.
\<close>

section \<open>CALs\<close>

datatype cal =
    IdentifyCAL int
  | RecallCAL int int
  | ReplyCAL int bytes
  | ExtendedCAL bool int int status_report

record standard_cal =
  sc_child_application :: int
  sc_block_start :: int
  sc_report :: "group_state list"
  sc_checksum :: bool

definition coding_byte :: "bool \<Rightarrow> status_report \<Rightarrow> int" where
  "coding_byte externally_initated report =
     (if externally_initated then 0x40 else 0) OR (extended_cal_value (block_type report) AND 0x7)"

fun cal_encode :: "cal \<Rightarrow> bytes result" where
  "cal_encode (IdentifyCAL attribute) = py_bytes [CAL_IDENTIFY, attribute AND 0xFF]"
| "cal_encode (RecallCAL param count) = py_bytes [CAL_RECALL, param AND 0xFF, count AND 0xFF]"
| "cal_encode (ReplyCAL parameter data) =
     (let parameter = parameter AND 0xFF; data = take 0x1E data in
      rmap (\<lambda>h. h @ data) (py_bytes [CAL_REPLY OR (int (length data) + 1), parameter]))"
| "cal_encode (ExtendedCAL externally_initated child_application block_start report) =
     rbind (report_encode report) (\<lambda>r.
     rmap (\<lambda>h. h @ r)
       (py_bytes [CAL_EXTENDED_STATUS OR (int (length r) + 3),
                  coding_byte externally_initated report,
                  child_application AND 0xFF,
                  block_start AND 0xFF]))"

definition IdentifyCAL_decode :: "bytes \<Rightarrow> (cal \<times> nat) result" where
  "IdentifyCAL_decode data = rmap (\<lambda>attr_val. (IdentifyCAL (uint attr_val), 2)) (py_get data 1)"

definition RecallCAL_decode :: "bytes \<Rightarrow> (cal \<times> nat) result" where
  "RecallCAL_decode data =
     rbind (py_get data 1) (\<lambda>param.
     rmap (\<lambda>count. (RecallCAL (uint param) (uint count), 3)) (py_get data 2))"

definition ReplyCAL_decode :: "bytes \<Rightarrow> cal result" where
  "ReplyCAL_decode data = rmap (\<lambda>p. ReplyCAL (uint p) (drop 1 data)) (py_get data 0)"

definition ExtendedCAL_decode :: "bytes \<Rightarrow> cal result" where
  "ExtendedCAL_decode data =
     rbind (py_get data 0) (\<lambda>coding.
     let externally_initiated = (uint coding AND 0x40) > 0;
         block = uint coding AND 0x7 in
     rbind (py_get data 1) (\<lambda>child_application.
     rbind (py_get data 2) (\<lambda>block_start.
     let payload = drop 3 data in
     rmap (ExtendedCAL externally_initiated (uint child_application) (uint block_start))
       (if block = extended_cal_value BINARY then BinaryStatusReport_decode payload
        else if block = extended_cal_value LEVEL then LevelStatusReport_decode payload
        else Inl NotImplementedError))))"

definition decode_cal :: "bytes \<Rightarrow> (cal \<times> nat) result" where
  "decode_cal data =
     rbind (py_get data 0) (\<lambda>c.
     let cmd = uint c; cal_end = nat (cmd AND 0x1F) + 1 in
     if cmd AND 0xE0 = CAL_REPLY then
       (if length data < cal_end then Inl ValueError
        else rmap (\<lambda>r. (r, cal_end)) (ReplyCAL_decode (drop 1 (take cal_end data))))
     else if cmd AND 0xE0 = CAL_STANDARD_STATUS then Inl NotImplementedError
     else if cmd AND 0xE0 = CAL_EXTENDED_STATUS then
       (if length data < cal_end then Inl ValueError
        else rmap (\<lambda>r. (r, cal_end)) (ExtendedCAL_decode (drop 1 (take cal_end data))))
     else if cmd = CAL_IDENTIFY then IdentifyCAL_decode data
     else if cmd = CAL_RECALL then RecallCAL_decode data
     else Inl KeyError)"

lemma decode_cal_progress: "decode_cal data = Inr (c, n) \<Longrightarrow> 0 < n \<and> data \<noteq> []"
  by (cases data)
    (auto simp: decode_cal_def Let_def IdentifyCAL_decode_def RecallCAL_decode_def result_simps
      split: if_splits)

function decode_cals :: "bytes \<Rightarrow> cal list result" where
  "decode_cals data =
     (if data = [] then Inr []
      else rbind (decode_cal data) (\<lambda>(c, cal_len). rmap ((#) c) (decode_cals (drop cal_len data))))"
  by pat_completeness auto
termination
  by (relation "measure length") (auto dest!: decode_cal_progress)

declare decode_cals.simps [simp del]

section \<open>Standard status\<close>

definition standard_encode :: "standard_cal \<Rightarrow> bytes result" where
  "standard_encode s =
     rbind (binary_encode (sc_report s)) (\<lambda>r.
     rmap (\<lambda>h. h @ r)
       (py_bytes [CAL_STANDARD_STATUS OR (int (length r) + 3),
                  sc_child_application s AND 0xFF,
                  sc_block_start s AND 0xFF]))"

definition standard_encode_packet :: "standard_cal \<Rightarrow> bytes result" where
  "standard_encode_packet s =
     rbind (standard_encode s) (\<lambda>p.
     rmap b16encode (if sc_checksum s then add_cbus_checksum p else Inr p))"

definition standard_decode_cal :: "bytes \<Rightarrow> standard_cal result" where
  "standard_decode_cal data =
     rbind (py_get data 0) (\<lambda>child_application.
     rbind (py_get data 1) (\<lambda>block_start.
     rmap (\<lambda>r. \<lparr>sc_child_application = uint child_application, sc_block_start = uint block_start,
                 sc_report = r, sc_checksum = True\<rparr>)
       (binary_decode (drop 2 data))))"

section \<open>Well-formed CALs\<close>

text \<open>
  The CALs that fit their wire format: every field is a byte, a reply carries at most 30
  bytes of data and an extended status report at most 28, so that the length fits the low
  five bits of the first byte.
\<close>

fun report_ok :: "status_report \<Rightarrow> bool" where
  "report_ok (BinaryStatusReport gs) \<longleftrightarrow> length gs mod 4 = 0 \<and> length gs \<le> 112"
| "report_ok (LevelStatusReport ls) \<longleftrightarrow> length ls \<le> 14 \<and> list_all (\<lambda>l. case l of None \<Rightarrow> True | Some v \<Rightarrow> is_byte v) ls"

fun cal_ok :: "cal \<Rightarrow> bool" where
  "cal_ok (IdentifyCAL a) \<longleftrightarrow> is_byte a"
| "cal_ok (RecallCAL p c) \<longleftrightarrow> is_byte p \<and> is_byte c"
| "cal_ok (ReplyCAL p d) \<longleftrightarrow> is_byte p \<and> length d \<le> 30"
| "cal_ok (ExtendedCAL x a b r) \<longleftrightarrow> is_byte a \<and> is_byte b \<and> report_ok r"

section \<open>Round trips\<close>

lemma length_binary_decode: "binary_decode bs = Inr xs \<Longrightarrow> length xs = 4 * length bs"
  using binary_decode_encode [of bs] by auto

lemma levels_normal:
  "list_all (\<lambda>l. case l of None \<Rightarrow> True | Some v \<Rightarrow> is_byte v) ls \<Longrightarrow>
   map (map_option (\<lambda>x. x mod 256)) ls = ls"
  by (induction ls) (auto simp: is_byte_def split: option.splits)

lemma report_roundtrip:
  assumes "report_ok r"
  shows "\<exists>bs. report_encode r = Inr bs \<and> length bs \<le> 28 \<and>
    (if block_type r = BINARY then BinaryStatusReport_decode bs else LevelStatusReport_decode bs) = Inr r"
proof (cases r)
  case (BinaryStatusReport gs)
  with assms obtain bs where "binary_encode gs = Inr bs" "binary_decode bs = Inr gs"
    using binary_encode_decode [of gs] by (auto simp: pad_groups_id)
  with BinaryStatusReport assms show ?thesis
    using length_binary_decode [of bs gs] by (simp add: BinaryStatusReport_decode_def)
next
  case (LevelStatusReport ls)
  with assms show ?thesis
    by (simp add: level_encode_bytes LevelStatusReport_decode_def level_decode_encode
        levels_normal length_level_bytes)
qed

lemma coding_byte_cases:
  "coding_byte x r = (if x then 64 else 0) + (if block_type r = BINARY then 0 else 7)"
  by (cases r) (simp_all add: coding_byte_def)

lemma cal_header:
  fixes n k :: int
  assumes "0 \<le> n" "n < 32" "0 \<le> k" "k < 8"
  shows "n + 32 * k AND 0xE0 = 32 * k" "n + 32 * k AND 0x1F = n" "0 \<le> n + 32 * k" "n + 32 * k < 256"
proof -
  show "n + 32 * k AND 0xE0 = 32 * k" "n + 32 * k AND 0x1F = n"
    using assms by (simp_all add: int_mask_mod int_mask_E0)
  show "0 \<le> n + 32 * k" "n + 32 * k < 256" using assms by linarith+
qed

lemma cal_header_or:
  fixes n :: int
  assumes "0 \<le> n" "n < 32"
  shows "0x80 OR n = n + 32 * 4" "0xC0 OR n = n + 32 * 6" "0xE0 OR n = n + 32 * 7"
  using or_push_add(2) [of n 5 4] or_push_add(2) [of n 5 6] or_push_add(2) [of n 5 7] assms
  by simp_all

lemma Reply_decode_encode:
  assumes "is_byte p" "length d \<le> 30"
  shows "\<exists>bs. cal_encode (ReplyCAL p d) = Inr bs \<and>
    (\<forall>rest. decode_cal (bs @ rest) = Inr (ReplyCAL p d, length bs))"
proof -
  define n where "n = int (length d) + 1"
  have n: "0 \<le> n" "n < 32" "nat n = Suc (length d)" using assms by (simp_all add: n_def)
  have e: "cal_encode (ReplyCAL p d) = Inr (byte_of (n + 32 * 4) # byte_of p # d)"
    using n cal_header [OF n(1,2), of 4] assms
    by (simp add: cal_header_or flip: n_def)
  show ?thesis unfolding e
    using n cal_header [OF n(1,2), of 4] assms
    by (simp add: decode_cal_def Let_def uint_of_byte ReplyCAL_decode_def)
qed

lemma Extended_decode_encode:
  assumes "is_byte a" "is_byte b" "report_ok r"
  shows "\<exists>bs. cal_encode (ExtendedCAL x a b r) = Inr bs \<and>
    (\<forall>rest. decode_cal (bs @ rest) = Inr (ExtendedCAL x a b r, length bs))"
proof -
  obtain rb where rb: "report_encode r = Inr rb" "length rb \<le> 28"
    and dec: "(if block_type r = BINARY then BinaryStatusReport_decode rb else LevelStatusReport_decode rb) = Inr r"
    using report_roundtrip [OF assms(3)] by blast
  define n where "n = int (length rb) + 3"
  have n: "0 \<le> n" "n < 32" "nat n = Suc (Suc (Suc (length rb)))"
    using rb by (simp_all add: n_def)
  have e: "cal_encode (ExtendedCAL x a b r) =
      Inr (byte_of (n + 32 * 7) # byte_of (coding_byte x r) # byte_of a # byte_of b # rb)"
    using n cal_header [OF n(1,2), of 7] assms rb
    by (simp add: cal_header_or coding_byte_cases flip: n_def)
  show ?thesis unfolding e
    using n cal_header [OF n(1,2), of 7] assms dec
    by (cases r) (simp_all add: decode_cal_def Let_def uint_of_byte ExtendedCAL_decode_def
        coding_byte_cases)
qed

lemma cal_roundtrip:
  assumes "cal_ok c"
  shows "\<exists>bs. cal_encode c = Inr bs \<and> (\<forall>rest. decode_cal (bs @ rest) = Inr (c, length bs))"
proof (cases c)
  case (IdentifyCAL a)
  with assms show ?thesis by (simp add: decode_cal_def Let_def IdentifyCAL_decode_def)
next
  case (RecallCAL p n)
  with assms show ?thesis by (simp add: decode_cal_def Let_def RecallCAL_decode_def)
next
  case (ReplyCAL p d)
  with assms Reply_decode_encode show ?thesis by simp
next
  case (ExtendedCAL x a b r)
  with assms Extended_decode_encode show ?thesis by simp
qed

lemma decode_cals_Nil [simp]: "decode_cals [] = Inr []"
  by (simp add: decode_cals.simps)

lemma decode_cals_step:
  assumes "cal_ok c" and "cal_encode c = Inr bs"
  shows "decode_cals (bs @ rest) = rmap ((#) c) (decode_cals rest)"
proof -
  have "decode_cal (bs @ rest) = Inr (c, length bs)"
    using cal_roundtrip [OF assms(1)] assms(2) by auto
  moreover from this have "bs @ rest \<noteq> []" by (auto dest: decode_cal_progress)
  ultimately show ?thesis by (subst decode_cals.simps) simp
qed

interpretation cal_stream: stream_codec cal_encode decode_cals cal_ok
  by unfold_locales (auto simp: decode_cals_step dest: cal_roundtrip)

section \<open>What the decoder returns\<close>

lemma decode_cal_ok: "decode_cal data = Inr (c, n) \<Longrightarrow> n \<le> length data"
  by (cases data)
    (auto simp: decode_cal_def Let_def IdentifyCAL_decode_def RecallCAL_decode_def result_simps
      py_get_eq_Inr Suc_le_eq split: if_splits)

section \<open>Properties\<close>

text \<open>
  Any sequence of well-formed CALs encodes, and the decoding loop of a point-to-point packet
  gives exactly that sequence back.
\<close>

lemma cal_sequence_roundtrip:
  assumes "\<forall>c \<in> set cals. cal_ok c"
  shows "\<exists>bs. rconcat cal_encode cals = Inr bs \<and> decode_cals bs = Inr cals"
  using assms by (rule cal_stream.stream_roundtrip)

text \<open>
  The CAL decoder never claims more bytes than there are and always claims at least one, so
  the loop over a packet's CALs ends.
\<close>

lemma decode_cal_bounds:
  assumes "decode_cal data = Inr (c, n)"
  shows "0 < n \<and> n \<le> length data"
  using decode_cal_progress [OF assms] decode_cal_ok [OF assms] by simp

end
