(* ===== verification/Packets.thy ===== *)
theory Packets
  imports Applications Cal
begin

text \<open>
  The packet classes of \<open>cbus/protocol/\<close>: \<open>base_packet\<close> holds the fields of
  \<open>BasePacket\<close>, and the three addressed packets extend it
  (\<open>pm_packet\<close>, \<open>pp_packet\<close>, \<open>dm_packet\<close>); the packets with no header
  (confirmation, error, power on, reset, SMART + CONNECT, invalid) are constructors of the union
  \<open>packet\<close>. Each constructor function carries the checks of its class's \<open>__init__\<close>,
  each \<open>*_encode\<close> is the \<open>encode\<close> method and \<open>*_decode_packet\<close> the class
  method of that name.

  The lemmas give the bit layout of the flags byte and show that the three bodies are decoded
  back to what was encoded.
\<close>

section \<open>Base packet\<close>

record base_packet =
  p_checksum :: bool
  p_dat :: destination_address_type
  p_rc :: int
  p_dp :: bool
  p_priority :: priority_class
  p_confirmation :: "bytes option"
  p_source :: "int option"

definition flags :: "'a base_packet_scheme \<Rightarrow> int" where
  "flags p =
     (dat_value (p_dat p) AND 0x07) OR
     push_bit 3 (p_rc p AND 0x02) OR
     (if p_dp p then 0x20 else 0) OR
     push_bit 6 (priority_value (p_priority p) AND 0x03)"

definition base_encode :: "'a base_packet_scheme \<Rightarrow> bytes result" where
  "base_encode p =
     (case p_source p of
        None \<Rightarrow> py_bytes [flags p]
      | Some source_address \<Rightarrow> py_bytes [flags p, source_address AND 0xFF])"

definition add_checksum_if :: "bool \<Rightarrow> bytes \<Rightarrow> bytes result" where
  "add_checksum_if c p = (if c then add_cbus_checksum p else Inr p)"

section \<open>Point to multipoint\<close>

record pm_packet = base_packet +
  pm_application :: "int option"
  pm_sals :: "sal list"

definition append_sal :: "sal \<Rightarrow> pm_packet \<Rightarrow> pm_packet result" where
  "append_sal s p =
     (case pm_application p of
        None \<Rightarrow> Inr (p\<lparr>pm_application := Some (sal_application s), pm_sals := pm_sals p @ [s]\<rparr>)
      | Some a \<Rightarrow>
          if a \<noteq> sal_application s then Inl ValueError
          else Inr (p\<lparr>pm_sals := pm_sals p @ [s]\<rparr>))"

definition clear_sal :: "pm_packet \<Rightarrow> pm_packet" where
  "clear_sal p = p\<lparr>pm_sals := [], pm_application := None\<rparr>"

fun append_sals :: "sal list \<Rightarrow> pm_packet \<Rightarrow> pm_packet result" where
  "append_sals [] p = Inr p"
| "append_sals (s # sals) p = rbind (append_sal s p) (append_sals sals)"

definition new_PointToMultipointPacket ::
  "bool \<Rightarrow> priority_class \<Rightarrow> int option \<Rightarrow> sal list \<Rightarrow> pm_packet result" where
  "new_PointToMultipointPacket checksum priority_class application sals =
     append_sals sals
       \<lparr>p_checksum = checksum, p_dat = POINT_TO_MULTIPOINT, p_rc = 0, p_dp = False,
        p_priority = priority_class, p_confirmation = None, p_source = None,
        pm_application = application, pm_sals = []\<rparr>"

definition pm_encode :: "pm_packet \<Rightarrow> bytes result" where
  "pm_encode p =
     (case pm_application p of
        None \<Rightarrow> Inl ValueError
      | Some a \<Rightarrow>
          if a < 0 \<or> a > 0xFF then Inl ValueError
          else rbind (py_bytes [a, 0]) (\<lambda>o1.
               rbind (rconcat sal_encode (pm_sals p)) (\<lambda>o2.
               rbind (base_encode p) (\<lambda>h. add_checksum_if (p_checksum p) (h @ o1 @ o2)))))"

definition pm_decode_packet :: "bytes \<Rightarrow> bool \<Rightarrow> priority_class \<Rightarrow> pm_packet result" where
  "pm_decode_packet data checksum priority_class =
     rbind (py_get data 0) (\<lambda>a.
     rbind (Application (uint a)) (\<lambda>application.
     rbind (py_get data 1) (\<lambda>r.
     if r \<noteq> 0 then Inl ValueError
     else rbind (get_application application) (\<lambda>handler.
          rbind (application_decode_sals handler (drop 2 data) application) (\<lambda>sals.
          new_PointToMultipointPacket checksum priority_class (Some application) sals)))))"

section \<open>Point to point\<close>

record pp_packet = base_packet +
  pp_unit_address :: int
  pp_bridged :: bool
  pp_hops :: "int list"
  pp_cals :: "cal list"

definition new_PointToPointPacket ::
  "bool \<Rightarrow> priority_class \<Rightarrow> int \<Rightarrow> int \<Rightarrow> int list option \<Rightarrow> cal list \<Rightarrow> pp_packet result" where
  "new_PointToPointPacket checksum priority_class unit_address bridge_address hops cals =
     (let mk = (\<lambda>hs bridged.
            \<lparr>p_checksum = checksum, p_dat = POINT_TO_POINT, p_rc = 0, p_dp = False,
             p_priority = priority_class, p_confirmation = None, p_source = None,
             pp_unit_address = unit_address, pp_bridged = bridged, pp_hops = hs, pp_cals = cals\<rparr>) in
      case hops of
        None \<Rightarrow> if bridge_address \<noteq> 0 then Inl ValueError else Inr (mk [] False)
      | Some hs \<Rightarrow> if bridge_address \<le> 0 then Inl ValueError else Inr (mk hs True))"

definition pp_encode :: "pp_packet \<Rightarrow> bytes result" where
  "pp_encode p =
     (if pp_bridged p then Inl NotImplementedError
      else rbind (py_bytes [pp_unit_address p, 0]) (\<lambda>o1.
           rbind (rconcat cal_encode (pp_cals p)) (\<lambda>o2.
           rbind (base_encode p) (\<lambda>h. add_checksum_if (p_checksum p) (h @ o1 @ o2)))))"

text \<open>\<open>take_hops n data\<close> reads \<open>n\<close> hop addresses off the data.\<close>

fun take_hops :: "nat \<Rightarrow> bytes \<Rightarrow> (int list \<times> bytes) result" where
  "take_hops 0 data = Inr ([], data)"
| "take_hops (Suc n) data =
     rbind (py_get data 0) (\<lambda>h.
     rmap (\<lambda>(hs, rest). (uint h # hs, rest)) (take_hops n (drop 1 data)))"

definition pp_decode_packet :: "bytes \<Rightarrow> bool \<Rightarrow> priority_class \<Rightarrow> pp_packet result" where
  "pp_decode_packet data checksum priority_class =
     rbind (py_get data 1) (\<lambda>d1.
     if d1 = 0 then
       rbind (py_get data 0) (\<lambda>u.
       rbind (decode_cals (drop 2 data)) (\<lambda>cals.
       new_PointToPointPacket checksum priority_class (uint u) 0 None cals))
     else
       rbind (py_get data 0) (\<lambda>bridge_address.
       rbind (case map_of BRIDGE_LENGTHS (uint d1) of Some n \<Rightarrow> Inr n | None \<Rightarrow> Inl KeyError) (\<lambda>n.
       rbind (take_hops n (drop 2 data)) (\<lambda>(hops, data2).
       rbind (py_get data2 0) (\<lambda>u.
       rbind (decode_cals (drop 1 data2)) (\<lambda>cals.
       new_PointToPointPacket checksum priority_class (uint u) (uint bridge_address) (Some hops) cals))))))"

section \<open>Device management\<close>

record dm_packet = base_packet +
  dm_parameter :: int
  dm_value :: int

definition new_DeviceManagementPacket ::
  "bool \<Rightarrow> priority_class \<Rightarrow> int \<Rightarrow> int \<Rightarrow> dm_packet" where
  "new_DeviceManagementPacket checksum priority_class parameter val =
     \<lparr>p_checksum = checksum, p_dat = POINT_TO_POINT_TO_MULTIPOINT, p_rc = 0, p_dp = True,
      p_priority = priority_class, p_confirmation = None, p_source = None,
      dm_parameter = parameter, dm_value = val\<rparr>"

definition dm_encode :: "dm_packet \<Rightarrow> bytes result" where
  "dm_encode p =
     rbind (base_encode p) (\<lambda>h.
     rbind (py_bytes [dm_parameter p AND 0xFF, 0, dm_value p AND 0xFF]) (\<lambda>b.
     add_checksum_if (p_checksum p) (h @ b)))"

definition dm_decode_packet :: "bytes \<Rightarrow> bool \<Rightarrow> priority_class \<Rightarrow> dm_packet result" where
  "dm_decode_packet data checksum priority_class =
     rbind (py_get data 0) (\<lambda>parameter.
     rbind (py_get data 1) (\<lambda>z.
     if z \<noteq> 0 then Inl ValueError
     else rbind (py_get data 2) (\<lambda>val.
          if length data \<noteq> 3 then Inl ValueError
          else Inr (new_DeviceManagementPacket checksum priority_class (uint parameter) (uint val)))))"

section \<open>The union of packets\<close>

datatype packet =
    PointToMultipointPacket pm_packet
  | PointToPointPacket pp_packet
  | DeviceManagementPacket dm_packet
  | PowerOnPacket
  | PCIErrorPacket
  | ConfirmationPacket bytes bool
  | ResetPacket
  | SmartConnectShortcutPacket
  | InvalidPacket bytes "exn option"

definition new_ConfirmationPacket :: "bytes \<Rightarrow> bool \<Rightarrow> packet result" where
  "new_ConfirmationPacket code success =
     (let c = take 1 code in
      if find_sub c CONFIRMATION_CODES = None then Inl ValueError
      else Inr (ConfirmationPacket c success))"

fun packet_encode :: "packet \<Rightarrow> bytes result" where
  "packet_encode (PointToMultipointPacket p) = pm_encode p"
| "packet_encode (PointToPointPacket p) = pp_encode p"
| "packet_encode (DeviceManagementPacket p) = dm_encode p"
| "packet_encode PowerOnPacket = Inr [0x2B, 0x2B]"
| "packet_encode PCIErrorPacket = Inr [0x21]"
| "packet_encode (ConfirmationPacket code success) = Inr (code @ [if success then 0x2E else 0x23])"
| "packet_encode ResetPacket = Inr [0x7E]"
| "packet_encode SmartConnectShortcutPacket = Inr [0x7C]"
| "packet_encode (InvalidPacket payload e) = Inr payload"

fun encode_packet :: "packet \<Rightarrow> bytes result" where
  "encode_packet (PointToMultipointPacket p) = rmap b16encode (pm_encode p)"
| "encode_packet (PointToPointPacket p) = rmap b16encode (pp_encode p)"
| "encode_packet (DeviceManagementPacket p) = rmap b16encode (dm_encode p)"
| "encode_packet p = packet_encode p"

section \<open>The flags byte\<close>

lemma dat_value_bounds [simp]: "0 \<le> dat_value t" "dat_value t < 8"
  by (cases t; simp)+

lemma priority_value_bounds [simp]: "0 \<le> priority_value p" "priority_value p < 4"
  by (cases p; simp)+

lemma flags_cases:
  "p_rc p = 0 \<Longrightarrow>
   flags p = dat_value (p_dat p) + (if p_dp p then 32 else 0) + 64 * priority_value (p_priority p)"
  unfolding flags_def by (cases "p_dat p"; cases "p_priority p") simp_all

lemma flags_byte:
  assumes "p_rc p = 0"
  shows "is_byte (flags p)"
  unfolding flags_cases [OF assms] by (cases "p_dat p"; cases "p_priority p") simp_all

lemma flags_fields:
  assumes "p_rc p = 0"
  shows "DestinationAddressType (flags p AND 0x07) = Inr (p_dat p)"
    and "(flags p AND 0x20 = 0x20) = p_dp p"
    and "PriorityClass (drop_bit 6 (flags p) AND 0x03) = Inr (p_priority p)"
  unfolding flags_cases [OF assms]
  by (cases "p_dat p"; cases "p_priority p"; simp add: DestinationAddressType_def PriorityClass_def)+

lemma base_encode_eq:
  "p_rc p = 0 \<Longrightarrow> base_encode p =
     Inr (byte_of (flags p) # (case p_source p of None \<Rightarrow> [] | Some s \<Rightarrow> [byte_of s]))"
  by (simp add: base_encode_def flags_byte split: option.splits)

section \<open>Bodies\<close>

definition pm_wf :: "pm_packet \<Rightarrow> bool" where
  "pm_wf p \<longleftrightarrow> p_dat p = POINT_TO_MULTIPOINT \<and> p_rc p = 0 \<and> \<not> p_dp p \<and>
     (case pm_application p of
        None \<Rightarrow> False
      | Some a \<Rightarrow> (case get_application a of Inl _ \<Rightarrow> False | Inr _ \<Rightarrow> True) \<and>
                  list_all (sal_ok a) (pm_sals p))"

definition pp_wf :: "pp_packet \<Rightarrow> bool" where
  "pp_wf p \<longleftrightarrow> p_dat p = POINT_TO_POINT \<and> p_rc p = 0 \<and> \<not> p_dp p \<and>
     \<not> pp_bridged p \<and> pp_hops p = [] \<and> is_byte (pp_unit_address p) \<and> list_all cal_ok (pp_cals p)"

definition dm_wf :: "dm_packet \<Rightarrow> bool" where
  "dm_wf p \<longleftrightarrow> p_dat p = POINT_TO_POINT_TO_MULTIPOINT \<and> p_rc p = 0 \<and> p_dp p \<and>
     is_byte (dm_parameter p) \<and> is_byte (dm_value p)"

lemma get_application_byte:
  assumes "get_application a = Inr app"
  shows "is_byte a" and "Application a = Inr a"
  using assms unfolding get_application_iff
  by (cases app; auto simp: is_byte_def Application_def lighting_applications_def)+

lemma append_sals_ok:
  assumes "pm_application p = Some a" "list_all (sal_ok a) sals"
  shows "append_sals sals p = Inr (p\<lparr>pm_sals := pm_sals p @ sals\<rparr>)"
  using assms
proof (induction sals arbitrary: p)
  case (Cons s sals)
  then have "sal_application s = a" by (simp add: sal_ok_application)
  with Cons show ?case by (simp add: append_sal_def)
qed simp

lemma pm_body:
  assumes "pm_wf p"
  shows "\<exists>a bs. pm_application p = Some a \<and> is_byte a \<and> rconcat sal_encode (pm_sals p) = Inr bs \<and>
    pm_decode_packet (byte_of a # 0 # bs) (p_checksum p) (p_priority p) =
      Inr (p\<lparr>p_confirmation := None, p_source := None\<rparr>)"
proof -
  from assms obtain a app where a: "pm_application p = Some a" "get_application a = Inr app"
    "list_all (sal_ok a) (pm_sals p)"
    by (auto simp: pm_wf_def split: option.splits sum.splits)
  from a have "\<forall>s \<in> set (pm_sals p). get_application a = Inr app \<and> sal_ok a s"
    by (simp add: list_all_iff)
  from sal_stream.stream_roundtrip [OF this] obtain bs where
    "rconcat sal_encode (pm_sals p) = Inr bs" "application_decode_sals app bs a = Inr (pm_sals p)"
    by blast
  moreover have "new_PointToMultipointPacket (p_checksum p) (p_priority p) (Some a) (pm_sals p) =
      Inr (p\<lparr>p_confirmation := None, p_source := None\<rparr>)"
    using assms a unfolding new_PointToMultipointPacket_def
    by (subst append_sals_ok [where a = a]) (cases p, simp_all add: pm_wf_def)
  ultimately show ?thesis using a get_application_byte [OF a(2)] by (simp add: pm_decode_packet_def)
qed

lemma pp_body:
  assumes "pp_wf p"
  shows "\<exists>bs. rconcat cal_encode (pp_cals p) = Inr bs \<and>
    pp_decode_packet (byte_of (pp_unit_address p) # 0 # bs) (p_checksum p) (p_priority p) =
      Inr (p\<lparr>p_confirmation := None, p_source := None\<rparr>)"
proof -
  have "\<forall>c \<in> set (pp_cals p). cal_ok c" using assms by (simp add: pp_wf_def list_all_iff)
  from cal_stream.stream_roundtrip [OF this] obtain bs where
    "rconcat cal_encode (pp_cals p) = Inr bs" "decode_cals bs = Inr (pp_cals p)" by blast
  moreover have "new_PointToPointPacket (p_checksum p) (p_priority p) (pp_unit_address p) 0 None (pp_cals p) =
      Inr (p\<lparr>p_confirmation := None, p_source := None\<rparr>)"
    using assms by (cases p) (simp add: new_PointToPointPacket_def pp_wf_def)
  ultimately show ?thesis using assms by (simp add: pp_decode_packet_def pp_wf_def)
qed

lemma dm_body:
  assumes "dm_wf p"
  shows "dm_decode_packet [byte_of (dm_parameter p), 0, byte_of (dm_value p)] (p_checksum p) (p_priority p) =
      Inr (p\<lparr>p_confirmation := None, p_source := None\<rparr>)"
  using assms by (cases p) (simp add: dm_decode_packet_def new_DeviceManagementPacket_def dm_wf_def)

lemma pm_decode_wf:
  assumes "pm_decode_packet data c prio = Inr p"
  shows "pm_wf p" "p_checksum p = c" "p_priority p = prio" "p_source p = None" "p_confirmation p = None"
proof -
  from assms obtain a app sals where a: "get_application a = Inr app"
    "application_decode_sals app (drop 2 data) a = Inr sals"
    and p: "new_PointToMultipointPacket c prio (Some a) sals = Inr p"
    by (auto simp: pm_decode_packet_def Application_def result_simps split: if_splits)
  have ok: "list_all (sal_ok a) sals" using a by (rule application_decode_ok)
  with p have "p = \<lparr>p_checksum = c, p_dat = POINT_TO_MULTIPOINT, p_rc = 0, p_dp = False,
        p_priority = prio, p_confirmation = None, p_source = None,
        pm_application = Some a, pm_sals = sals\<rparr>"
    by (simp add: new_PointToMultipointPacket_def append_sals_ok [where a = a])
  with ok a show "pm_wf p" "p_checksum p = c" "p_priority p = prio" "p_source p = None"
    "p_confirmation p = None" by (simp_all add: pm_wf_def)
qed

section \<open>Properties\<close>

text \<open>
  The flags byte always fits a byte, and its three fields are read back as the destination
  address type, the device management flag and the priority class it was built from.
\<close>

lemma flags_roundtrip:
  assumes "p_rc p = 0"
  shows "is_byte (flags p) \<and> DestinationAddressType (flags p AND 0x07) = Inr (p_dat p) \<and>
    (flags p AND 0x20 = 0x20) = p_dp p \<and>
    PriorityClass (drop_bit 6 (flags p) AND 0x03) = Inr (p_priority p)"
  using flags_byte [OF assms] flags_fields [OF assms] by simp

text \<open>
  C40: A decoded point-to-multipoint packet is well formed: its application is registered, all its
  SALs belong to that application and are well formed, and it carries the checksum flag and the
  priority it was decoded with.
\<close>

theorem pm_decode_well_formed:
  assumes "pm_decode_packet data c prio = Inr p"
  shows "pm_wf p \<and> p_checksum p = c \<and> p_priority p = prio \<and> p_source p = None \<and> p_confirmation p = None"
  using pm_decode_wf [OF assms] by simp

theorem pm_decode_well_formed_witness:
  "\<exists>p. pm_decode_packet [0xCB, 0, 0x02, 1, 2] True CLASS_4 = Inr p \<and> pm_wf p"
proof -
  have g: "get_application 0xCB = Inr EnableApplication" by (simp add: get_application_iff)
  have "pm_decode_packet [0xCB, 0, 0x02, 1, 2] True CLASS_4 =
      Inr \<lparr>p_checksum = True, p_dat = POINT_TO_MULTIPOINT, p_rc = 0, p_dp = False,
        p_priority = CLASS_4, p_confirmation = None, p_source = None, pm_application = Some 0xCB,
        pm_sals = [Enable (EnableSetNetworkVariableSAL 1 2)]\<rparr>"
    by (simp add: pm_decode_packet_def Application_def g EnableSetNetworkVariableSAL_decode_def
        new_PointToMultipointPacket_def append_sal_def)
  from this pm_decode_well_formed [OF this] show ?thesis by blast
qed

end
