(* ===== verification/Decode.thy ===== *)
theory Decode
  imports Packets
begin

text \<open>
  \<open>decode_packet\<close> of \<open>cbus/protocol/packet.py\<close>: one packet off the front of a serial
  buffer, and the number of bytes consumed. The function is cut at the places where the code
  changes what it works on: the transport prefixes (\<open>special_prefix\<close>), the line ending
  (\<open>decode_packet\<close>), the command prefix and the confirmation code
  (\<open>strip_prefix\<close>, \<open>take_confirmation\<close>), base16 and checksum
  (\<open>decode_command\<close>) and the body inside the \<open>try\<close> block (\<open>decode_body\<close>).

  The result is a sum: an exception on the left is one that escapes \<open>decode_packet\<close>
  because it is raised outside the \<open>try\<close>; inside it every exception becomes an
  \<open>InvalidPacket\<close> that carries the data as it stood. Warnings are not modelled.
\<close>

section \<open>Results\<close>

datatype decoded = Packet packet | DirectCAL cal

type_synonym decode_out = "decoded option \<times> nat"

section \<open>Transport prefixes\<close>

definition special_prefix :: "bool \<Rightarrow> bytes \<Rightarrow> decode_out option" where
  "special_prefix from_pci data =
     (if from_pci then
        if starts_with [0x2B] data then Some (Some (Packet PowerOnPacket), 1)
        else if starts_with [0x21] data then Some (Some (Packet PCIErrorPacket), 1)
        else if length data < MIN_MESSAGE_SIZE then Some (None, 0)
        else if data ! 0 \<in> set CONFIRMATION_CODES
        then Some (Some (Packet (ConfirmationPacket (take 1 data) (data ! 1 = 0x2E))), 2)
        else None
      else
        if starts_with [0x7E] data then Some (Some (Packet ResetPacket), 1)
        else if starts_with [0x6E, 0x75, 0x6C, 0x6C] data then Some (None, 4)
        else if starts_with ([0x7C] @ END_COMMAND) data \<or> starts_with ([0x7C, 0x7C] @ END_COMMAND) data
        then Some (Some (Packet SmartConnectShortcutPacket),
                   (case find_sub END_COMMAND data of Some i \<Rightarrow> i + 1 | None \<Rightarrow> 0))
        else case (find_sub [0x3F] data, find_sub END_COMMAND data) of
               (Some qp, Some nlp) \<Rightarrow> if qp < nlp then Some (None, qp + 1) else None
             | _ \<Rightarrow> None)"

section \<open>Command prefix and confirmation code\<close>

text \<open>Checksum flag, whether the command is a bare CAL, and the data that is left.\<close>

definition strip_prefix :: "bool \<Rightarrow> bytes \<Rightarrow> bool \<times> bool \<times> bytes" where
  "strip_prefix checksum data =
     (if starts_with [0x40] data then (False, True, drop 1 data)
      else if starts_with [0x5C] data then (checksum, False, drop 1 data)
      else (checksum, True, data))"

text \<open>\<open>None\<close> stands for the early return of an \<open>InvalidPacket\<close>.\<close>

definition take_confirmation :: "bool \<Rightarrow> bytes \<Rightarrow> (bytes option \<times> bytes) option result" where
  "take_confirmation strict data =
     rbind (py_last data) (\<lambda>c.
     if c \<in> set HEX_CHARS then Inr (Some (None, data))
     else if c \<notin> set CONFIRMATION_CODES \<and> strict then Inr None
     else Inr (Some (Some [c], butlast data)))"

section \<open>The body\<close>

definition guard :: "bytes \<Rightarrow> 'a result \<Rightarrow> (exn \<times> bytes) + 'a" where
  "guard data m = (case m of Inl e \<Rightarrow> Inl (e, data) | Inr x \<Rightarrow> Inr x)"

definition set_addresses ::
  "bool \<Rightarrow> bytes option \<Rightarrow> int option \<Rightarrow> 'a base_packet_scheme \<Rightarrow> 'a base_packet_scheme" where
  "set_addresses from_pci confirmation source_addr p =
     (if \<not> from_pci then p\<lparr>p_confirmation := confirmation, p_source := None\<rparr>
      else case source_addr of
             Some s \<Rightarrow> if s \<noteq> 0 then p\<lparr>p_source := Some s, p_confirmation := None\<rparr> else p
           | None \<Rightarrow> p)"

definition decode_addressed ::
  "bool \<Rightarrow> bool \<Rightarrow> bool \<Rightarrow> bytes option \<Rightarrow> int option \<Rightarrow> bool \<Rightarrow> destination_address_type
     \<Rightarrow> priority_class \<Rightarrow> bytes \<Rightarrow> (decoded \<times> nat) result" where
  "decode_addressed checksum from_pci device_managment_cal confirmation source_addr dp address_type
     priority_class data =
     (if dp then
        rmap (\<lambda>p. (Packet (DeviceManagementPacket (set_addresses from_pci confirmation source_addr p)), 0))
          (dm_decode_packet data checksum priority_class)
      else if device_managment_cal then
        rmap (\<lambda>(cal, cal_len). (DirectCAL cal, cal_len)) (decode_cal data)
      else if address_type = POINT_TO_POINT then
        rmap (\<lambda>p. (Packet (PointToPointPacket (set_addresses from_pci confirmation source_addr p)), 0))
          (pp_decode_packet data checksum priority_class)
      else if address_type = POINT_TO_MULTIPOINT then
        rmap (\<lambda>p. (Packet (PointToMultipointPacket (set_addresses from_pci confirmation source_addr p)), 0))
          (pm_decode_packet data checksum priority_class)
      else Inl NotImplementedError)"

definition decode_body ::
  "bool \<Rightarrow> bool \<Rightarrow> bool \<Rightarrow> bytes option \<Rightarrow> int \<Rightarrow> bytes \<Rightarrow> (exn \<times> bytes) + (decoded \<times> nat)" where
  "decode_body checksum from_pci device_managment_cal confirmation fl data =
     rbind (guard data (DestinationAddressType (fl AND 0x07))) (\<lambda>address_type.
     let dp = (fl AND 0x20 = 0x20) in
     rbind (guard data (PriorityClass (drop_bit 6 fl AND 0x03))) (\<lambda>priority_class.
     if from_pci \<and> address_type \<notin> set [POINT_TO_POINT_TO_MULTIPOINT, POINT_TO_MULTIPOINT, POINT_TO_POINT]
        \<and> \<not> dp
     then guard data
            (rbind (decode_cals data) (\<lambda>cals.
             rmap (\<lambda>p. (Packet (PointToPointPacket p), 0))
               (new_PointToPointPacket checksum priority_class 0 0 None cals)))
     else
       let data = drop 1 data in
       rbind (if from_pci then guard data (rmap (\<lambda>s. (Some (uint s), drop 1 data)) (py_get data 0))
              else Inr (None, data)) (\<lambda>(source_addr, data).
       guard data
         (decode_addressed checksum from_pci device_managment_cal confirmation source_addr dp
            address_type priority_class data))))"

definition finish_body :: "(exn \<times> bytes) + (decoded \<times> nat) \<Rightarrow> nat \<Rightarrow> decode_out" where
  "finish_body r consumed =
     (case r of
        Inr (d, extra) \<Rightarrow> (Some d, consumed + extra)
      | Inl (e, data) \<Rightarrow> (Some (Packet (InvalidPacket data (Some e))), consumed))"

section \<open>Base16 and checksum\<close>

definition decode_hex ::
  "bool \<Rightarrow> bool \<Rightarrow> bool \<Rightarrow> bool \<Rightarrow> bytes option \<Rightarrow> bytes \<Rightarrow> nat \<Rightarrow> decode_out result" where
  "decode_hex checksum strict from_pci device_managment_cal confirmation data consumed =
     (if \<not> list_all (\<lambda>c. c \<in> set HEX_CHARS) data
      then Inr (Some (Packet (InvalidPacket data (Some ValueError))), consumed)
      else
        rbind (b16decode data) (\<lambda>raw.
        rbind (if checksum then rmap Some (validate_cbus_checksum raw) else Inr None) (\<lambda>valid.
        if valid = Some False \<and> strict
        then Inr (Some (Packet (InvalidPacket raw (Some ValueError))), consumed)
        else
          let body = (if checksum then butlast raw else raw) in
          rmap (\<lambda>fl. finish_body
                  (decode_body checksum from_pci device_managment_cal confirmation (uint fl) body) consumed)
            (py_get body 0))))"

definition decode_command :: "bool \<Rightarrow> bool \<Rightarrow> bool \<Rightarrow> bytes \<Rightarrow> nat \<Rightarrow> decode_out result" where
  "decode_command checksum strict from_pci data consumed =
     (if from_pci then decode_hex checksum strict True False None data consumed
      else
        let (checksum, device_managment_cal, data) = strip_prefix checksum data in
        rbind (take_confirmation strict data) (\<lambda>r.
        case r of
          None \<Rightarrow> Inr (Some (Packet (InvalidPacket data (Some ValueError))), consumed)
        | Some (confirmation, data) \<Rightarrow>
            decode_hex checksum strict False device_managment_cal confirmation data consumed))"

section \<open>Framing\<close>

definition line_end :: "bool \<Rightarrow> bytes" where
  "line_end from_pci = (if from_pci then END_RESPONSE else END_COMMAND)"

definition decode_packet :: "bool \<Rightarrow> bool \<Rightarrow> bool \<Rightarrow> bytes \<Rightarrow> decode_out result" where
  "decode_packet checksum strict from_pci data =
     (if data = [] then Inr (None, 0)
      else case special_prefix from_pci data of
        Some out \<Rightarrow> Inr out
      | None \<Rightarrow>
          (case find_sub (line_end from_pci) data of
             None \<Rightarrow> Inr (None, 0)
           | Some e \<Rightarrow>
               let consumed = e + length (line_end from_pci); data = take e data in
               if data = [] then Inr (None, consumed)
               else decode_command checksum strict from_pci data consumed))"

section \<open>Well-formed addressed packets\<close>

fun packet_base :: "packet \<Rightarrow> base_packet option" where
  "packet_base (PointToMultipointPacket p) = Some (base_packet.truncate p)"
| "packet_base (PointToPointPacket p) = Some (base_packet.truncate p)"
| "packet_base (DeviceManagementPacket p) = Some (base_packet.truncate p)"
| "packet_base _ = None"

fun packet_wf :: "packet \<Rightarrow> bool" where
  "packet_wf (PointToMultipointPacket p) = pm_wf p"
| "packet_wf (PointToPointPacket p) = pp_wf p"
| "packet_wf (DeviceManagementPacket p) = dm_wf p"
| "packet_wf _ = False"

text \<open>
  A packet as a PCI sends it carries a non-zero source address and no confirmation code; one as
  a client sends it has no source address and possibly a confirmation code.
\<close>

definition sent_by_pci :: "base_packet \<Rightarrow> int option \<Rightarrow> bool" where
  "sent_by_pci b src \<longleftrightarrow> p_source b = src \<and> p_confirmation b = None \<and>
     (case src of None \<Rightarrow> False | Some s \<Rightarrow> is_byte s \<and> s \<noteq> 0)"

definition sent_by_client :: "base_packet \<Rightarrow> bytes option \<Rightarrow> bool" where
  "sent_by_client b conf \<longleftrightarrow> p_source b = None \<and> p_confirmation b = conf"

definition with_checksum :: "bool \<Rightarrow> bytes \<Rightarrow> bytes" where
  "with_checksum c raw = (if c then raw @ [- sum_list raw] else raw)"

definition header :: "base_packet \<Rightarrow> bytes" where
  "header b = byte_of (flags b) # (case p_source b of None \<Rightarrow> [] | Some s \<Rightarrow> [byte_of s])"

lemma add_checksum_if_eq: "add_checksum_if c raw = Inr (with_checksum c raw)"
  by (simp add: add_checksum_if_def with_checksum_def)

lemma truncate_fields [simp]:
  "flags (base_packet.truncate p) = flags p"
  "p_source (base_packet.truncate p) = p_source p" "p_rc (base_packet.truncate p) = p_rc p"
  "p_dp (base_packet.truncate p) = p_dp p" "p_dat (base_packet.truncate p) = p_dat p"
  "p_priority (base_packet.truncate p) = p_priority p"
  "p_checksum (base_packet.truncate p) = p_checksum p"
  "p_confirmation (base_packet.truncate p) = p_confirmation p"
  by (cases p, simp add: base_packet.defs flags_def)+

lemma base_encode_header: "p_rc p = 0 \<Longrightarrow> base_encode p = Inr (header (base_packet.truncate p))"
  by (simp add: base_encode_eq header_def)

lemma set_addresses_pci:
  fixes p :: "'a base_packet_scheme"
  assumes "sent_by_pci (base_packet.truncate p) src"
  shows "set_addresses True conf src (p\<lparr>p_confirmation := None, p_source := None\<rparr>) = p"
  using assms by (cases p) (auto simp: set_addresses_def sent_by_pci_def split: option.splits)

lemma set_addresses_client:
  fixes p :: "'a base_packet_scheme"
  assumes "sent_by_client (base_packet.truncate p) conf"
  shows "set_addresses False conf src (p\<lparr>p_confirmation := None, p_source := None\<rparr>) = p"
  using assms by (cases p) (auto simp: set_addresses_def sent_by_client_def)

lemma addressed_roundtrip:
  assumes "packet_wf P" and "packet_base P = Some b"
  shows "\<exists>body. packet_encode P = Inr (with_checksum (p_checksum b) (header b @ body)) \<and>
    (\<forall>src. sent_by_pci b src \<longrightarrow>
       decode_addressed (p_checksum b) True False None src (p_dp b) (p_dat b) (p_priority b) body =
         Inr (Packet P, 0)) \<and>
    (\<forall>conf. sent_by_client b conf \<longrightarrow>
       decode_addressed (p_checksum b) False False conf None (p_dp b) (p_dat b) (p_priority b) body =
         Inr (Packet P, 0))"
proof (cases P)
  case (PointToMultipointPacket p)
  with assms obtain a bs where "pm_application p = Some a" "is_byte a"
    "rconcat sal_encode (pm_sals p) = Inr bs"
    "pm_decode_packet (byte_of a # 0 # bs) (p_checksum p) (p_priority p) =
      Inr (p\<lparr>p_confirmation := None, p_source := None\<rparr>)"
    using pm_body [of p] by auto
  with PointToMultipointPacket assms show ?thesis
    by (intro exI [of _ "byte_of a # 0 # bs"])
      (auto simp: pm_wf_def pm_encode_def is_byte_def base_encode_header add_checksum_if_eq
        decode_addressed_def set_addresses_pci set_addresses_client)
next
  case (PointToPointPacket p)
  with assms obtain bs where "rconcat cal_encode (pp_cals p) = Inr bs"
    "pp_decode_packet (byte_of (pp_unit_address p) # 0 # bs) (p_checksum p) (p_priority p) =
      Inr (p\<lparr>p_confirmation := None, p_source := None\<rparr>)"
    using pp_body [of p] by auto
  with PointToPointPacket assms show ?thesis
    by (intro exI [of _ "byte_of (pp_unit_address p) # 0 # bs"])
      (auto simp: pp_wf_def pp_encode_def base_encode_header add_checksum_if_eq
        decode_addressed_def set_addresses_pci set_addresses_client)
next
  case (DeviceManagementPacket p)
  with assms dm_body [of p] show ?thesis
    by (intro exI [of _ "[byte_of (dm_parameter p), 0, byte_of (dm_value p)]"])
      (auto simp: dm_wf_def dm_encode_def base_encode_header add_checksum_if_eq
        decode_addressed_def set_addresses_pci set_addresses_client)
qed (use assms in auto)

lemma packet_wf_base:
  assumes "packet_wf P"
  shows "\<exists>b. packet_base P = Some b \<and> p_rc b = 0 \<and>
    p_dat b \<in> set [POINT_TO_POINT_TO_MULTIPOINT, POINT_TO_MULTIPOINT, POINT_TO_POINT]"
  using assms by (cases P) (auto simp: pm_wf_def pp_wf_def dm_wf_def)

section \<open>Round trips through the serial framing\<close>

lemma hex_chars_plain:
  "0x0D \<notin> set HEX_CHARS" "0x2B \<notin> set HEX_CHARS" "0x21 \<notin> set HEX_CHARS" "0x3F \<notin> set HEX_CHARS"
  "set HEX_CHARS \<inter> set CONFIRMATION_CODES = {}"
  by (simp_all add: HEX_CHARS_def CONFIRMATION_CODES_def)

lemma b16encode_all_hex: "list_all (\<lambda>c. c \<in> set HEX_CHARS) (b16encode bs)"
  using b16encode_hex [of bs] by (auto simp: list_all_iff)

lemma decode_hex_valid:
  assumes "raw = h # body"
  shows "decode_hex c strict fp dmc conf (b16encode (with_checksum c raw)) consumed =
    Inr (finish_body (decode_body c fp dmc conf (uint h) raw) consumed)"
  using assms
  by (simp add: decode_hex_def b16encode_all_hex with_checksum_def validate_cbus_checksum_sum
      del: b16encode.simps b16encode_append)

lemma decode_body_pci:
  assumes "p_rc b = 0" "p_dat b \<in> set [POINT_TO_POINT_TO_MULTIPOINT, POINT_TO_MULTIPOINT, POINT_TO_POINT]"
    and "sent_by_pci b src"
    and "decode_addressed c True dmc conf src (p_dp b) (p_dat b) (p_priority b) body = Inr r"
  shows "decode_body c True dmc conf (flags b) (header b @ body) = Inr r"
proof -
  from assms(3) obtain s where s: "src = Some s" "is_byte s" "p_source b = Some s"
    by (auto simp: sent_by_pci_def split: option.splits)
  show ?thesis using assms s flags_fields [OF assms(1)]
    by (auto simp: decode_body_def guard_def header_def Let_def)
qed

lemma decode_body_client:
  assumes "p_rc b = 0" "sent_by_client b conf"
    and "decode_addressed c False dmc conf None (p_dp b) (p_dat b) (p_priority b) body = Inr r"
  shows "decode_body c False dmc conf (flags b) (header b @ body) = Inr r"
  using assms flags_fields [OF assms(1)]
  by (simp add: decode_body_def guard_def header_def sent_by_client_def)

lemma uint_flags: "p_rc b = 0 \<Longrightarrow> uint (byte_of (flags b)) = flags b"
  by (simp add: flags_byte)

lemma wire_start:
  "\<exists>c1 c2 w. b16encode (with_checksum c (header b @ body)) = c1 # c2 # w \<and> c1 \<in> set HEX_CHARS"
proof -
  have "\<exists>t. with_checksum c (header b @ body) = byte_of (flags b) # t"
    by (cases c) (simp_all add: with_checksum_def header_def)
  then obtain t where "with_checksum c (header b @ body) = byte_of (flags b) # t" by blast
  then show ?thesis by (simp add: hex_char_in drop4_less)
qed

lemma hex_line_decode:
  assumes "set line \<subseteq> set HEX_CHARS" and "line \<noteq> []"
  shows "decode_packet c strict True (line @ END_RESPONSE @ rest) =
    decode_hex c strict True False None line (length line + 2)"
proof -
  obtain h l where l: "line = h # l" using assms(2) by (cases line) auto
  then have h: "h \<noteq> 0x2B" "h \<noteq> 0x21" "h \<notin> set CONFIRMATION_CODES"
    using assms(1) hex_chars_plain by auto
  then have "special_prefix True (line @ END_RESPONSE @ rest) = None"
    using l by (simp add: special_prefix_def MIN_MESSAGE_SIZE_def END_RESPONSE_def)
  moreover have "find_sub END_RESPONSE (line @ END_RESPONSE @ rest) = Some (length line)"
    using find_sub_skip [of "0x0D" line "[0x0A]" rest] assms(1) hex_chars_plain(1)
    by (auto simp: END_RESPONSE_def)
  ultimately show ?thesis
    using assms(2) by (simp add: decode_packet_def line_end_def decode_command_def Let_def)
      (simp add: END_RESPONSE_def)
qed

lemma from_pci_roundtrip:
  assumes "packet_wf P" and "packet_base P = Some b" and "sent_by_pci b src"
  shows "\<exists>wire. encode_packet P = Inr wire \<and>
    (\<forall>strict rest. decode_packet (p_checksum b) strict True (wire @ END_RESPONSE @ rest) =
       Inr (Some (Packet P), length wire + 2))"
proof -
  from packet_wf_base [OF assms(1)] assms(2) have b: "p_rc b = 0"
    "p_dat b \<in> set [POINT_TO_POINT_TO_MULTIPOINT, POINT_TO_MULTIPOINT, POINT_TO_POINT]" by auto
  obtain body where enc: "packet_encode P = Inr (with_checksum (p_checksum b) (header b @ body))"
    and dec: "decode_addressed (p_checksum b) True False None src (p_dp b) (p_dat b) (p_priority b) body =
      Inr (Packet P, 0)"
    using addressed_roundtrip [OF assms(1,2)] assms(3) by blast
  define wire where "wire = b16encode (with_checksum (p_checksum b) (header b @ body))"
  have w: "encode_packet P = Inr wire"
    using enc assms(1) by (cases P) (simp_all add: wire_def)
  have body: "decode_body (p_checksum b) True False None (flags b) (header b @ body) = Inr (Packet P, 0)"
    using b assms(3) dec by (rule decode_body_pci)
  have "decode_hex (p_checksum b) strict True False None wire n = Inr (Some (Packet P), n)" for strict n
    using decode_hex_valid [of "header b @ body" "byte_of (flags b)" _ "p_checksum b" strict True False None n]
      body uint_flags [OF b(1)]
    by (simp add: wire_def header_def finish_body_def)
  moreover have "set wire \<subseteq> set HEX_CHARS" unfolding wire_def by (rule b16encode_hex)
  moreover have "wire \<noteq> []" unfolding wire_def by (metis wire_start list.distinct(1))
  ultimately show ?thesis using w hex_line_decode by auto
qed

text \<open>
  A client's command: a backslash, the packet, the confirmation code if there is one, and a
  carriage return.
\<close>

definition conf_suffix :: "bytes option \<Rightarrow> bytes" where
  "conf_suffix conf = (case conf of None \<Rightarrow> [] | Some c \<Rightarrow> c)"

definition conf_ok :: "bytes option \<Rightarrow> bool" where
  "conf_ok conf \<longleftrightarrow> (case conf of None \<Rightarrow> True | Some c \<Rightarrow> length c = 1 \<and> set c \<subseteq> set CONFIRMATION_CODES)"

lemma find_before:
  assumes "q \<notin> set xs" "q \<noteq> c" "find_sub [q] (xs @ c # ys) = Some i"
  shows "length xs < i"
  using assms
proof (induction xs arbitrary: i)
  case (Cons x xs)
  then obtain j where "find_sub [q] (xs @ c # ys) = Some j" "i = Suc j" by auto
  with Cons show ?case by auto
qed auto

lemma take_confirmation_suffix:
  assumes "set w \<subseteq> set HEX_CHARS" "w \<noteq> []" "conf_ok conf"
  shows "take_confirmation strict (w @ conf_suffix conf) = Inr (Some (conf, w))"
proof (cases conf)
  case None
  with assms show ?thesis
    by (auto simp: conf_suffix_def take_confirmation_def py_last_def)
next
  case (Some cs)
  with assms(3) obtain c where "cs = [c]" "c \<in> set CONFIRMATION_CODES"
    by (auto simp: conf_ok_def length_Suc_conv)
  with Some hex_chars_plain(5) show ?thesis
    by (auto simp: conf_suffix_def take_confirmation_def)
qed

lemma client_line:
  assumes "set w \<subseteq> set HEX_CHARS" "w \<noteq> []" "conf_ok conf"
  shows "decode_packet c strict False (0x5C # w @ conf_suffix conf @ END_COMMAND @ rest) =
    decode_hex c strict False False conf w (length w + length (conf_suffix conf) + 2)"
proof -
  define line where "line = 0x5C # w @ conf_suffix conf"
  have sub: "set (conf_suffix conf) \<subseteq> set CONFIRMATION_CODES"
    using assms(3) by (auto simp: conf_suffix_def conf_ok_def split: option.splits)
  have cr: "0x0D \<notin> set line" and qm: "0x3F \<notin> set line"
    using assms(1) sub hex_chars_plain by (auto simp: line_def CONFIRMATION_CODES_def)
  have e: "find_sub END_COMMAND (line @ END_COMMAND @ rest) = Some (length line)"
    using find_sub_skip [OF cr, of "[]" rest] by (simp add: END_COMMAND_def)
  have q: "length line < i" if "find_sub [0x3F] (line @ END_COMMAND @ rest) = Some i" for i
    using find_before [OF qm, of "0x0D" rest i] that by (simp add: END_COMMAND_def)
  have "special_prefix False (line @ END_COMMAND @ rest) = None"
    using e q by (auto simp: special_prefix_def line_def split: option.splits)
  moreover have "take_confirmation strict (w @ conf_suffix conf) = Inr (Some (conf, w))"
    using assms by (rule take_confirmation_suffix)
  ultimately have "decode_packet c strict False (line @ END_COMMAND @ rest) =
      decode_hex c strict False False conf w (length line + 1)"
    using e by (simp add: decode_packet_def line_end_def decode_command_def strip_prefix_def line_def)
      (simp add: END_COMMAND_def)
  then show ?thesis by (simp add: line_def add.assoc)
qed

lemma special_prefix_command:
  assumes "find_sub END_COMMAND d = Some j" "\<And>i. find_sub [0x3F] d = Some i \<Longrightarrow> j < i"
    and "d = h # d'" "h \<noteq> 0x7E" "h \<noteq> 0x6E" "h \<noteq> 0x7C"
  shows "special_prefix False d = None"
proof (cases "find_sub [0x3F] d")
  case None
  then show ?thesis unfolding special_prefix_def None assms(1) using assms(3-) by simp
next
  case (Some i)
  then show ?thesis unfolding special_prefix_def Some assms(1)
    using assms(3-) assms(2) [OF Some] by simp
qed

lemma hex_first:
  "0x7E \<notin> set HEX_CHARS" "0x6E \<notin> set HEX_CHARS" "0x7C \<notin> set HEX_CHARS" "0x40 \<notin> set HEX_CHARS"
  "0x5C \<notin> set HEX_CHARS"
  by (simp_all add: HEX_CHARS_def)

text \<open>A command in basic mode is the same line without the backslash.\<close>

lemma basic_line:
  assumes "set w \<subseteq> set HEX_CHARS" "w \<noteq> []" "conf_ok conf"
  shows "decode_packet c strict False (w @ conf_suffix conf @ END_COMMAND @ rest) =
    decode_hex c strict False True conf w (length w + length (conf_suffix conf) + 1)"
proof -
  define line where "line = w @ conf_suffix conf"
  obtain h w' where w: "w = h # w'" "h \<in> set HEX_CHARS" using assms(1,2) by (cases w) auto
  have h: "h \<noteq> 0x7E" "h \<noteq> 0x6E" "h \<noteq> 0x7C" "h \<noteq> 0x40" "h \<noteq> 0x5C" using w(2) hex_first by blast+
  have sub: "set (conf_suffix conf) \<subseteq> set CONFIRMATION_CODES"
    using assms(3) by (auto simp: conf_suffix_def conf_ok_def split: option.splits)
  have cr: "0x0D \<notin> set line" and qm: "0x3F \<notin> set line"
    using assms(1) sub hex_chars_plain by (auto simp: line_def CONFIRMATION_CODES_def)
  have e: "find_sub END_COMMAND (line @ END_COMMAND @ rest) = Some (length line)"
    using find_sub_skip [OF cr, of "[]" rest] by (simp add: END_COMMAND_def)
  have q: "length line < i" if "find_sub [0x3F] (line @ END_COMMAND @ rest) = Some i" for i
    using find_before [OF qm, of "0x0D" rest i] that by (simp add: END_COMMAND_def)
  have "special_prefix False (line @ END_COMMAND @ rest) = None"
    using e q by (rule special_prefix_command) (use w(1) h in \<open>simp_all add: line_def\<close>)
  moreover have "take_confirmation strict (w @ conf_suffix conf) = Inr (Some (conf, w))"
    using assms by (rule take_confirmation_suffix)
  ultimately have "decode_packet c strict False (line @ END_COMMAND @ rest) =
      decode_hex c strict False True conf w (length line + 1)"
    using e w(1) h by (simp add: decode_packet_def line_end_def decode_command_def strip_prefix_def line_def)
      (simp add: END_COMMAND_def)
  then show ?thesis by (simp add: line_def add.assoc)
qed

lemma basic_dm_roundtrip:
  assumes "dm_wf p" "p_source p = None" "p_confirmation p = conf" "conf_ok conf"
  shows "\<exists>wire. encode_packet (DeviceManagementPacket p) = Inr wire \<and>
    (\<forall>strict rest. decode_packet (p_checksum p) strict False (wire @ conf_suffix conf @ END_COMMAND @ rest) =
       Inr (Some (Packet (DeviceManagementPacket p)), length wire + length (conf_suffix conf) + 1))"
proof -
  define b where "b = base_packet.truncate p"
  have b: "p_rc b = 0" "p_dp b" "sent_by_client b conf" "p_checksum b = p_checksum p"
    using assms by (simp_all add: b_def dm_wf_def sent_by_client_def)
  obtain body where enc: "dm_encode p = Inr (with_checksum (p_checksum b) (header b @ body))"
    and dec: "decode_addressed (p_checksum b) False False conf None (p_dp b) (p_dat b) (p_priority b) body =
      Inr (Packet (DeviceManagementPacket p), 0)"
    using addressed_roundtrip [of "DeviceManagementPacket p" b] assms(1) b(3) by (auto simp: b_def)
  have "decode_addressed (p_checksum b) False True conf None (p_dp b) (p_dat b) (p_priority b) body =
      Inr (Packet (DeviceManagementPacket p), 0)"
    using dec b(2) by (simp add: decode_addressed_def)
  from decode_body_client [OF b(1,3) this] have
    "decode_body (p_checksum b) False True conf (flags b) (header b @ body) = Inr (Packet (DeviceManagementPacket p), 0)" .
  then have "decode_hex (p_checksum b) strict False True conf
      (b16encode (with_checksum (p_checksum b) (header b @ body))) n =
      Inr (Some (Packet (DeviceManagementPacket p)), n)" for strict n
    using decode_hex_valid [of "header b @ body" "byte_of (flags b)" _ "p_checksum b" strict False True conf n]
      uint_flags [OF b(1)] by (simp add: header_def finish_body_def)
  moreover have "set (b16encode (with_checksum (p_checksum b) (header b @ body))) \<subseteq> set HEX_CHARS"
    by (rule b16encode_hex)
  moreover have "b16encode (with_checksum (p_checksum b) (header b @ body)) \<noteq> []"
    by (metis wire_start list.distinct(1))
  ultimately show ?thesis using enc basic_line [OF _ _ assms(4)] b(4) by auto
qed

lemma to_pci_roundtrip:
  assumes "packet_wf P" and "packet_base P = Some b" and "sent_by_client b conf" and "conf_ok conf"
  shows "\<exists>wire. encode_packet P = Inr wire \<and>
    (\<forall>strict rest.
       decode_packet (p_checksum b) strict False (0x5C # wire @ conf_suffix conf @ END_COMMAND @ rest) =
       Inr (Some (Packet P), length wire + length (conf_suffix conf) + 2))"
proof -
  from packet_wf_base [OF assms(1)] assms(2) have b: "p_rc b = 0" by auto
  obtain body where enc: "packet_encode P = Inr (with_checksum (p_checksum b) (header b @ body))"
    and dec: "decode_addressed (p_checksum b) False False conf None (p_dp b) (p_dat b) (p_priority b) body =
      Inr (Packet P, 0)"
    using addressed_roundtrip [OF assms(1,2)] assms(3) by blast
  define wire where "wire = b16encode (with_checksum (p_checksum b) (header b @ body))"
  have w: "encode_packet P = Inr wire"
    using enc assms(1) by (cases P) (simp_all add: wire_def)
  have "decode_body (p_checksum b) False False conf (flags b) (header b @ body) = Inr (Packet P, 0)"
    using b assms(3) dec by (rule decode_body_client)
  then have "decode_hex (p_checksum b) strict False False conf wire n = Inr (Some (Packet P), n)" for strict n
    using decode_hex_valid [of "header b @ body" "byte_of (flags b)" _ "p_checksum b" strict False False conf n]
      uint_flags [OF b]
    by (simp add: wire_def header_def finish_body_def)
  moreover have "set wire \<subseteq> set HEX_CHARS" unfolding wire_def by (rule b16encode_hex)
  moreover have "wire \<noteq> []" unfolding wire_def by (metis wire_start list.distinct(1))
  ultimately show ?thesis using w client_line [OF _ _ assms(4)] by auto
qed

section \<open>Exceptions, progress and bounds\<close>

lemma guard_eq_Inr [result_simps]: "guard data m = Inr x \<longleftrightarrow> m = Inr x"
  by (auto simp: guard_def split: sum.splits)

lemma b16decode_error: "b16decode cs = Inl e \<Longrightarrow> e = BinasciiError"
  by (induction cs rule: b16decode.induct) (auto simp: result_simps split: option.splits)

lemma decode_hex_error:
  "decode_hex c strict fp dmc conf data n = Inl e \<Longrightarrow> e \<in> {IndexError, BinasciiError}"
  by (auto simp: decode_hex_def result_simps Let_def py_get_def validate_cbus_checksum_def py_last_def
      split: if_splits dest: b16decode_error)

lemma hex_decode_raises:
  assumes "set line \<subseteq> set HEX_CHARS" and "line \<noteq> []"
  shows "decode_hex True True True False None line n = Inl e \<longleftrightarrow>
    (odd (length line) \<and> e = BinasciiError) \<or> (line = ascii ''00'' \<and> e = IndexError)"
proof (cases "even (length line)")
  case False
  then have "b16decode line = Inl BinasciiError" using b16decode_odd [OF assms(1)] by simp
  moreover have "line \<noteq> ascii ''00''" using False by (auto simp: ascii_def)
  ultimately show ?thesis using False assms(1) by (auto simp: decode_hex_def list_all_iff)
next
  case True
  then obtain raw where raw: "b16decode line = Inr raw" using b16decode_total [OF assms(1)] by blast
  then have line: "line = b16encode raw" using b16encode_decode by simp
  then have "raw \<noteq> []" using assms(2) by auto
  then obtain body k where b: "raw = body @ [k]" by (metis rev_exhaust)
  have "b16encode [0] = ascii ''00''" by (simp add: ascii_def hex_char_def)
  with line have "line = ascii ''00'' \<longleftrightarrow> raw = [0]" by (metis b16decode_encode sum.inject(2))
  moreover have "validate_cbus_checksum raw = Inr (sum_list raw = 0)"
    using b by (simp add: validate_cbus_checksum_sum)
  ultimately show ?thesis using True assms(1) raw b
    by (cases body) (auto simp: decode_hex_def list_all_iff py_get_def split: if_splits)
qed

lemma decode_packet_error:
  "decode_packet c strict fp data = Inl e \<Longrightarrow> e \<in> {IndexError, BinasciiError}"
  by (auto simp: decode_packet_def decode_command_def Let_def result_simps take_confirmation_def
      py_last_def split: option.splits if_splits prod.splits dest: decode_hex_error)

lemma decode_body_extra:
  "decode_body c fp dmc conf fl data = Inr (d, k) \<Longrightarrow> k = 0 \<or> dmc \<and> (\<exists>cal. d = DirectCAL cal)"
  by (auto simp: decode_body_def decode_addressed_def Let_def result_simps split: if_splits)

lemma finish_body_consumed:
  assumes "(r, m) = finish_body (decode_body c fp dmc conf fl body) n"
  shows "n \<le> m \<and> r \<noteq> None \<and> (m = n \<or> dmc \<and> (\<exists>cal. r = Some (DirectCAL cal)))"
  using assms decode_body_extra [of c fp dmc conf fl body]
  by (fastforce simp: finish_body_def split: sum.splits prod.splits)

lemma decode_hex_consumed:
  "decode_hex c strict fp dmc conf data n = Inr (r, m) \<Longrightarrow>
   n \<le> m \<and> r \<noteq> None \<and> (m = n \<or> dmc \<and> (\<exists>cal. r = Some (DirectCAL cal)))"
  by (auto simp: decode_hex_def Let_def result_simps split: if_splits dest!: finish_body_consumed)

lemma decode_command_consumed:
  assumes "decode_command c strict fp data n = Inr (r, m)"
  shows "n \<le> m \<and> r \<noteq> None \<and> (m = n \<or> \<not> fp \<and> (\<exists>cal. r = Some (DirectCAL cal)))"
  using assms
  by (auto simp: decode_command_def Let_def result_simps split: if_splits prod.splits option.splits
      dest: decode_hex_consumed)

lemma special_prefix_consumed:
  assumes "special_prefix fp data = Some (r, m)"
  shows "m \<le> length data \<and> (r \<noteq> None \<longrightarrow> 0 < m) \<and> (\<forall>cal. r \<noteq> Some (DirectCAL cal))"
proof (cases fp)
  case True
  with assms show ?thesis
    by (cases data) (auto simp: special_prefix_def MIN_MESSAGE_SIZE_def Suc_le_eq split: if_splits)
next
  case False
  have "starts_with pat data \<Longrightarrow> length pat \<le> length data" for pat
    unfolding starts_with_def by (metis length_take min.cobounded1)
  note len = this [of "[0x6E, 0x75, 0x6C, 0x6C]"] this [of "[0x7E]"]
  have scs: "\<exists>i. find_sub END_COMMAND data = Some i"
    if "starts_with ([0x7C] @ END_COMMAND) data \<or> starts_with ([0x7C, 0x7C] @ END_COMMAND) data"
    using that by (cases data; cases "tl data"; cases "tl (tl data)") (auto simp: END_COMMAND_def)
  from False assms len show ?thesis
    using find_sub_Some_bound [of END_COMMAND data] find_sub_Some_bound [of "[0x3F]" data] scs
    by (auto simp: special_prefix_def END_COMMAND_def split: if_splits option.splits)
qed

lemma decode_packet_consumed:
  assumes "decode_packet c strict fp data = Inr (r, m)"
  shows "(r \<noteq> None \<longrightarrow> 0 < m) \<and>
    (m \<le> length data \<or> \<not> fp \<and> (\<exists>cal. r = Some (DirectCAL cal)))"
proof (cases "special_prefix fp data")
  case (Some out)
  with assms special_prefix_consumed [of fp data r m] show ?thesis
    by (auto simp: decode_packet_def split: if_splits)
next
  case None
  have "0 < length (line_end fp)" by (simp add: line_end_def END_COMMAND_def END_RESPONSE_def)
  with None assms show ?thesis
    using find_sub_Some_bound [of "line_end fp" data] decode_command_consumed [of c strict fp _ _ r m]
    by (fastforce simp: decode_packet_def Let_def split: if_splits option.splits)
qed

section \<open>A decision is final\<close>

text \<open>
  Once \<open>decode_packet\<close> has consumed something, or raised, later bytes in the buffer do not
  change its answer: the client may decode as soon as a line is complete.
\<close>

lemma starts_with_end:
  assumes "find_sub END_COMMAND data = Some i"
  shows "starts_with [0x7E] (data @ suf) = starts_with [0x7E] data"
    "starts_with [0x6E, 0x75, 0x6C, 0x6C] (data @ suf) = starts_with [0x6E, 0x75, 0x6C, 0x6C] data"
    "starts_with ([0x7C] @ END_COMMAND) (data @ suf) = starts_with ([0x7C] @ END_COMMAND) data"
    "starts_with ([0x7C, 0x7C] @ END_COMMAND) (data @ suf) = starts_with ([0x7C, 0x7C] @ END_COMMAND) data"
  using assms
  by (cases data; cases "tl data"; cases "tl (tl data)"; cases "tl (tl (tl data))";
      auto simp: END_COMMAND_def)+

lemma find_single_append:
  assumes "find_sub [q] data = None" "find_sub [q] (data @ suf) = Some i"
  shows "length data \<le> i"
  using assms by (induction data arbitrary: i) (auto split: if_splits)

lemma special_prefix_line:
  assumes "find_sub (line_end fp) data = Some e"
  shows "special_prefix fp (data @ suf) = special_prefix fp data"
proof (cases fp)
  case True
  with assms obtain a b rest where "data = a # b # rest"
    by (cases data; cases "tl data") (auto simp: line_end_def END_RESPONSE_def)
  then show ?thesis using True by (simp add: special_prefix_def MIN_MESSAGE_SIZE_def)
next
  case False
  then have e: "find_sub END_COMMAND data = Some e" using assms by (simp add: line_end_def)
  have e': "find_sub END_COMMAND (data @ suf) = Some e" using e by (rule find_sub_append)
  have "e < length data" using find_sub_Some_bound [OF e] by (simp add: END_COMMAND_def)
  then show ?thesis
    using False e e' starts_with_end [OF e, of suf] find_sub_append [of "[0x3F]" data _ suf]
      find_single_append [of "0x3F" data suf]
    by (cases "find_sub [0x3F] data"; cases "find_sub [0x3F] (data @ suf)")
      (auto simp: special_prefix_def)
qed

lemma special_prefix_final:
  assumes "special_prefix fp data = Some (r, m)" and "0 < m"
  shows "special_prefix fp (data @ suf) = Some (r, m)"
proof (cases fp)
  case True
  with assms show ?thesis
    by (cases data; cases "tl data") (auto simp: special_prefix_def MIN_MESSAGE_SIZE_def split: if_splits)
next
  case False
  show ?thesis
  proof (cases "find_sub END_COMMAND data")
    case (Some e)
    with False assms special_prefix_line [of fp data e suf] show ?thesis by (simp add: line_end_def)
  next
    case None
    then have "\<not> starts_with ([0x7C] @ END_COMMAND) data" "\<not> starts_with ([0x7C, 0x7C] @ END_COMMAND) data"
      by (cases data; cases "tl data"; cases "tl (tl data)"; auto simp: END_COMMAND_def)+
    with None False assms starts_with_append [of "[0x7E]" data suf]
      starts_with_append [of "[0x6E, 0x75, 0x6C, 0x6C]" data suf] show ?thesis
      by (cases data) (auto simp: special_prefix_def split: if_splits option.splits)
  qed
qed

lemma decode_packet_final:
  assumes "decode_packet c strict fp data = r" and "r \<noteq> Inr (None, 0)"
  shows "decode_packet c strict fp (data @ suf) = r"
proof (cases "special_prefix fp data")
  case (Some out)
  obtain d m where out: "out = (d, m)" by (cases out)
  from Some out assms have "0 < m" and "data \<noteq> []"
    using special_prefix_consumed [of fp data d m] by (auto simp: decode_packet_def split: if_splits)
  with Some out special_prefix_final [of fp data d m suf] assms show ?thesis
    by (simp add: decode_packet_def)
next
  case None
  with assms obtain e where e: "find_sub (line_end fp) data = Some e" and "data \<noteq> []"
    by (auto simp: decode_packet_def split: if_splits option.splits)
  moreover have "find_sub (line_end fp) (data @ suf) = Some e" using e by (rule find_sub_append)
  moreover have "e \<le> length data"
    using find_sub_Some_bound [OF e] by simp
  ultimately show ?thesis using None assms special_prefix_line [OF e, of suf]
    by (simp add: decode_packet_def)
qed

section \<open>Properties\<close>

text \<open>
  C1: A well-formed packet as the PCI sends it, with its source address and the line ending, is
  decoded by the client into exactly that packet, consuming the line and nothing after it. This
  covers point-to-multipoint packets of every application, point-to-point packets of CALs and
  device management packets, with or without checksum.
\<close>

theorem pci_to_client_roundtrip:
  assumes "packet_wf P" and "packet_base P = Some b" and "sent_by_pci b src"
  shows "\<exists>wire. encode_packet P = Inr wire \<and>
    (\<forall>strict rest. decode_packet (p_checksum b) strict True (wire @ END_RESPONSE @ rest) =
       Inr (Some (Packet P), length (wire @ END_RESPONSE)))"
  using from_pci_roundtrip [OF assms] by (simp add: END_RESPONSE_def)

theorem pci_to_client_roundtrip_witness:
  "\<exists>P wire. encode_packet P = Inr wire \<and>
     (\<forall>strict rest. decode_packet True strict True (wire @ END_RESPONSE @ rest) =
        Inr (Some (Packet P), length (wire @ END_RESPONSE)))"
proof -
  define p where "p = \<lparr>p_checksum = True, p_dat = POINT_TO_MULTIPOINT, p_rc = 0, p_dp = False,
    p_priority = CLASS_4, p_confirmation = None, p_source = Some 5, pm_application = Some 0x38,
    pm_sals = [Lighting (LightingOnSAL 1 0x38), Lighting (LightingRampSAL 2 0x38 4 255)]\<rparr>"
  have "get_application 0x38 = Inr LightingApplication"
    by (simp add: application_ids(1) [symmetric] lighting_applications_def)
  then have "packet_wf (PointToMultipointPacket p)"
    by (simp add: p_def pm_wf_def LIGHT_RAMP_RATES_def lighting_applications_def)
  moreover have "sent_by_pci (base_packet.truncate p) (Some 5)"
    by (simp add: p_def sent_by_pci_def)
  ultimately show ?thesis
    using pci_to_client_roundtrip [of "PointToMultipointPacket p" "base_packet.truncate p" "Some 5"]
    by (auto simp: p_def simp del: encode_packet.simps)
qed

text \<open>
  C2: A well-formed packet as the client sends it, a backslash, the packet, an optional
  confirmation code and the line ending, is decoded by the PCI into exactly that packet with that
  confirmation code, consuming the line and nothing after it.
\<close>

theorem client_to_pci_roundtrip:
  assumes "packet_wf P" and "packet_base P = Some b" and "sent_by_client b conf" and "conf_ok conf"
  shows "\<exists>wire. encode_packet P = Inr wire \<and>
    (\<forall>strict rest.
       decode_packet (p_checksum b) strict False (0x5C # wire @ conf_suffix conf @ END_COMMAND @ rest) =
       Inr (Some (Packet P), length (0x5C # wire @ conf_suffix conf @ END_COMMAND)))"
  using to_pci_roundtrip [OF assms] by (simp add: END_COMMAND_def)

theorem client_to_pci_roundtrip_witness:
  "\<exists>P wire. encode_packet P = Inr wire \<and>
     (\<forall>strict rest. decode_packet True strict False (0x5C # wire @ [0x67] @ END_COMMAND @ rest) =
        Inr (Some (Packet P), length (0x5C # wire @ [0x67] @ END_COMMAND)))"
proof -
  define p where "p = \<lparr>p_checksum = True, p_dat = POINT_TO_POINT, p_rc = 0, p_dp = False,
    p_priority = CLASS_4, p_confirmation = Some [0x67], p_source = None, pp_unit_address = 3,
    pp_bridged = False, pp_hops = [], pp_cals = [IdentifyCAL 1]\<rparr>"
  have "packet_wf (PointToPointPacket p)" by (simp add: p_def pp_wf_def)
  moreover have "sent_by_client (base_packet.truncate p) (Some [0x67])" "conf_ok (Some [0x67])"
    by (simp_all add: p_def sent_by_client_def conf_ok_def CONFIRMATION_CODES_def)
  ultimately show ?thesis
    using client_to_pci_roundtrip [of "PointToPointPacket p" "base_packet.truncate p" "Some [0x67]"]
    by (auto simp: p_def conf_suffix_def simp del: encode_packet.simps)
qed

text \<open>
  C11: A decision of the decoder is final: once it has consumed something or raised, more bytes
  after the data do not change the result. Only the answer "nothing yet" may change.
\<close>

theorem decode_is_final:
  assumes "decode_packet c strict fp data \<noteq> Inr (None, 0)"
  shows "decode_packet c strict fp (data @ suf) = decode_packet c strict fp data"
  using decode_packet_final [OF refl assms] .

theorem decode_is_final_witness:
  "decode_packet True True True ([0x2B] @ ascii ''h.'') = Inr (Some (Packet PowerOnPacket), 1)"
proof -
  have e: "decode_packet True True True [0x2B] = Inr (Some (Packet PowerOnPacket), 1)"
    by (simp add: decode_packet_def special_prefix_def)
  then have "decode_packet True True True [0x2B] \<noteq> Inr (None, 0)" by simp
  from decode_is_final [OF this, of "ascii ''h.''"] e show ?thesis by simp
qed

text \<open>
  Every decoded packet consumes at least one byte, and on the client side never more bytes
  than the buffer holds; on the server side only a bare CAL can claim more.
\<close>

lemma decode_progress:
  assumes "decode_packet c strict fp data = Inr (r, m)"
  shows "(r \<noteq> None \<longrightarrow> 0 < m) \<and> (m \<le> length data \<or> \<not> fp \<and> (\<exists>cal. r = Some (DirectCAL cal)))"
  using assms by (rule decode_packet_consumed)

text \<open>
  C38: A non-empty line of hex digits from the PCI makes \<open>decode_packet\<close> raise in exactly two
  cases: a line of odd length (the base16 decoder raises) and the line of the two digits
  \<open>00\<close>, whose checksum is valid and whose body is then empty. Every other such line is
  decoded, to an \<open>InvalidPacket\<close> at worst.
\<close>

theorem hex_line_raises:
  assumes "set line \<subseteq> set HEX_CHARS" and "line \<noteq> []"
  shows "decode_packet True True True (line @ END_RESPONSE @ rest) = Inl e \<longleftrightarrow>
    (odd (length line) \<and> e = BinasciiError) \<or> (line = ascii ''00'' \<and> e = IndexError)"
  using hex_line_decode [OF assms] hex_decode_raises [OF assms] by simp

theorem hex_line_raises_witness:
  "decode_packet True True True (ascii ''053'' @ END_RESPONSE @ []) = Inl BinasciiError \<and>
   decode_packet True True True (ascii ''00'' @ END_RESPONSE @ []) = Inl IndexError"
  using hex_line_raises [of "ascii ''053''" "[]" BinasciiError] hex_line_raises [of "ascii ''00''" "[]" IndexError]
  by (simp add: ascii_def HEX_CHARS_def)

end
