(* ===== verification/Buffered.thy ===== *)
theory Buffered
  imports Decode
begin

text \<open>
  \<open>BufferedProtocol\<close> (\<open>cbus/protocol/buffered_protocol.py\<close>) and
  \<open>CBusProtocol.handle_data\<close> (\<open>cbus/protocol/cbus_protocol.py\<close>).

  \<open>handle_data\<close> is an abstract method in the code and an argument here: it takes the buffer
  and the state \<open>'s\<close> of the subclass and returns its result, or the exception it raised,
  with the new state. \<open>process_buffer\<close> is the \<open>while True\<close> loop of
  \<open>_process_buffer\<close>; it ends because it goes round only when bytes were consumed, which \<open>loop_turns\<close>, the loop
  for a bounded number of turns, makes explicit. The locks
  are not modelled: each function runs to its end before the next callback of the event loop.

  The lemmas bound the buffer by the size limit, and show for every handler that decides on
  complete messages only (locale \<open>framed_handler\<close>) that it makes no difference how the
  incoming bytes are cut into chunks. \<open>cbus_handle_data\<close> of a client is such a handler.
\<close>

type_synonym 's handler = "bytes \<Rightarrow> 's \<Rightarrow> int result \<times> 's"

section \<open>The buffer\<close>

record 's buffered =
  b_buf :: bytes
  b_size_limit :: nat
  b_closed :: bool
  b_state :: 's

definition new_BufferedProtocol :: "nat \<Rightarrow> 's \<Rightarrow> 's buffered" where
  "new_BufferedProtocol size_limit s =
     \<lparr>b_buf = [], b_size_limit = size_limit, b_closed = False, b_state = s\<rparr>"

function process_buffer :: "'s handler \<Rightarrow> bytes \<Rightarrow> 's \<Rightarrow> unit result \<times> bytes \<times> 's" where
  "process_buffer handle_data buf s =
     (if buf = [] then (Inr (), [], s)
      else case handle_data buf s of
        (Inl e, s') \<Rightarrow> (Inl e, buf, s')
      | (Inr r, s') \<Rightarrow>
          if r < 0 then ((if r \<noteq> -1 then Inl ValueError else Inr ()), [], s')
          else if r > 0 then process_buffer handle_data (drop (nat r) buf) s'
          else (Inr (), buf, s'))"
  by pat_completeness auto
termination
  by (relation "measure (\<lambda>(h, buf, s). length buf)") auto

declare process_buffer.simps [simp del]

text \<open>
  The \<open>while True\<close> loop as it is written, for at most a number of turns: \<open>None\<close> when
  it has not left the loop by then.
\<close>

fun loop_turns :: "nat \<Rightarrow> 's handler \<Rightarrow> bytes \<Rightarrow> 's \<Rightarrow> (unit result \<times> bytes \<times> 's) option" where
  "loop_turns 0 handle_data buf s = None"
| "loop_turns (Suc k) handle_data buf s =
     (if buf = [] then Some (Inr (), [], s)
      else case handle_data buf s of
        (Inl e, s') \<Rightarrow> Some (Inl e, buf, s')
      | (Inr r, s') \<Rightarrow>
          if r < 0 then Some ((if r \<noteq> -1 then Inl ValueError else Inr ()), [], s')
          else if r > 0 then loop_turns k handle_data (drop (nat r) buf) s'
          else Some (Inr (), buf, s'))"

definition data_received :: "'s handler \<Rightarrow> bytes \<Rightarrow> 's buffered \<Rightarrow> 's buffered" where
  "data_received handle_data data st =
     (if b_closed st then st
      else if length data > b_size_limit st then st\<lparr>b_buf := []\<rparr>
      else if length (b_buf st) + length data > b_size_limit st then st\<lparr>b_buf := []\<rparr>
      else case process_buffer handle_data (b_buf st @ data) (b_state st) of
             (Inr _, buf', s') \<Rightarrow> st\<lparr>b_buf := buf', b_state := s'\<rparr>
           | (Inl e, buf', s') \<Rightarrow> st\<lparr>b_buf := [], b_state := s'\<rparr>)"

definition buffered_close :: "'s buffered \<Rightarrow> 's buffered" where
  "buffered_close st = (if b_closed st then st else st\<lparr>b_closed := True, b_buf := []\<rparr>)"

section \<open>CBusProtocol\<close>

definition cbus_handle_data ::
  "bool \<Rightarrow> ('s \<Rightarrow> bool) \<Rightarrow> (bytes \<Rightarrow> 's \<Rightarrow> 's) \<Rightarrow> (decoded \<Rightarrow> 's \<Rightarrow> unit result \<times> 's) \<Rightarrow> 's handler"
where
  "cbus_handle_data emulate_pci checksum echo handle_cbus_packet buf s =
     (case decode_packet (checksum s) True (\<not> emulate_pci) buf of
        Inl e \<Rightarrow> (Inl e, s)
      | Inr (p, remainder) \<Rightarrow>
          let s = (if emulate_pci \<and> remainder > 0 then echo (take remainder buf) s else s) in
          (case p of
             None \<Rightarrow> (Inr (int remainder), s)
           | Some p \<Rightarrow>
               (case handle_cbus_packet p s of
                  (Inl e, s') \<Rightarrow> (Inl e, s')
                | (Inr _, s') \<Rightarrow> (Inr (int remainder), s'))))"

section \<open>The buffer is bounded\<close>

lemma process_buffer_length:
  "process_buffer h buf s = (r, buf', s') \<Longrightarrow> length buf' \<le> length buf"
proof (induction h buf s rule: process_buffer.induct)
  case (1 h buf s)
  from "1.prems" show ?case
    by (subst (asm) process_buffer.simps)
      (fastforce split: if_splits prod.splits sum.splits dest: "1.IH")
qed

lemma loop_turns_enough: "length buf < k \<Longrightarrow> loop_turns k h buf s = Some (process_buffer h buf s)"
proof (induction k arbitrary: buf s)
  case (Suc k)
  have "loop_turns k h (drop (nat r) buf) s' = Some (process_buffer h (drop (nat r) buf) s')" if "r > 0" "buf \<noteq> []" for r s'
    using that Suc.prems by (intro Suc.IH) (cases buf; auto simp: less_Suc_eq_le)
  then show ?case by (subst process_buffer.simps) (auto split: prod.splits sum.splits)
qed simp

text \<open>What the loop leaves when it ends without an exception: a buffer the handler wants more of.\<close>

lemma process_buffer_waits:
  "process_buffer h buf s = (Inr (), buf', s') \<Longrightarrow> buf' \<noteq> [] \<Longrightarrow> \<exists>s0. h buf' s0 = (Inr 0, s')"
proof (induction h buf s rule: process_buffer.induct)
  case (1 h buf s)
  from "1.prems" show ?case
    by (subst (asm) process_buffer.simps)
      (fastforce split: if_splits prod.splits sum.splits dest: "1.IH")
qed

definition buffered_inv :: "'s buffered \<Rightarrow> bool" where
  "buffered_inv st \<longleftrightarrow> length (b_buf st) \<le> b_size_limit st \<and> (b_closed st \<longrightarrow> b_buf st = [])"

lemma buffered_inv_new [inv_intros]: "buffered_inv (new_BufferedProtocol n s)"
  by (simp add: buffered_inv_def new_BufferedProtocol_def)

lemma buffered_inv_received [inv_intros]: "buffered_inv st \<Longrightarrow> buffered_inv (data_received h data st)"
  by (auto simp: buffered_inv_def data_received_def split: sum.splits prod.splits
      dest!: process_buffer_length)

lemma buffered_inv_close [inv_intros]: "buffered_inv st \<Longrightarrow> buffered_inv (buffered_close st)"
  by (simp add: buffered_inv_def buffered_close_def)

lemma data_received_closed: "b_closed st \<Longrightarrow> data_received h data st = st"
  by (simp add: data_received_def)

lemma fold_closed: "b_closed st \<Longrightarrow> fold (data_received h) chunks st = st"
  by (induction chunks) (simp_all add: data_received_closed)

lemma data_received_limit [simp]: "b_size_limit (data_received h data st) = b_size_limit st"
  by (auto simp: data_received_def split: sum.splits prod.splits)

lemma buffered_fold:
  "length (b_buf (fold (data_received h) chunks (new_BufferedProtocol n s))) \<le> n \<and>
   b_size_limit (fold (data_received h) chunks (new_BufferedProtocol n s)) = n"
proof -
  have "buffered_inv st \<Longrightarrow> buffered_inv (fold (data_received h) chunks st) \<and>
      b_size_limit (fold (data_received h) chunks st) = b_size_limit st" for st
    by (induction chunks arbitrary: st) (simp_all add: buffered_inv_received)
  from this [OF buffered_inv_new [of n s]] show ?thesis
    by (simp add: buffered_inv_def) (simp add: new_BufferedProtocol_def)
qed

section \<open>Chunks\<close>

locale framed_handler =
  fixes handle :: "'s handler"
  assumes decided: "handle d s = (r, s') \<Longrightarrow> r \<noteq> Inr 0 \<Longrightarrow> handle (d @ rest) s = (r, s')"
    and waiting: "handle d s = (Inr 0, s') \<Longrightarrow> s' = s"
    and bounded: "handle d s = (Inr n, s') \<Longrightarrow> 0 \<le> n \<and> n \<le> int (length d)"
begin

text \<open>One turn of the loop, on a longer buffer.\<close>

lemma process_step:
  assumes "handle buf s = (Inr n, s1)" "0 < n" "buf \<noteq> []"
  shows "process_buffer handle (buf @ rest) s = process_buffer handle (drop (nat n) buf @ rest) s1"
proof -
  have "handle (buf @ rest) s = (Inr n, s1)" using decided [of buf s] assms by simp
  moreover have "nat n \<le> length buf" using bounded [OF assms(1)] by linarith
  ultimately show ?thesis using assms by (subst process_buffer.simps) simp
qed

lemma process_cases [consumes 1, case_names error wait step]:
  assumes "buf \<noteq> []"
  obtains (error) e s1 where "handle buf s = (Inl e, s1)" "process_buffer handle buf s = (Inl e, buf, s1)"
  | (wait) "handle buf s = (Inr 0, s)" "process_buffer handle buf s = (Inr (), buf, s)"
  | (step) n s1 where "handle buf s = (Inr n, s1)" "0 < n"
      "process_buffer handle buf s = process_buffer handle (drop (nat n) buf) s1"
proof (cases "handle buf s")
  case (Pair r s1)
  show ?thesis
  proof (cases r)
    case (Inl e)
    with Pair assms show ?thesis by (intro error [of e s1]) (simp_all add: process_buffer.simps)
  next
    case (Inr n)
    with Pair bounded [of buf s n s1] have "0 \<le> n" by simp
    show ?thesis
    proof (cases "n = 0")
      case True
      with Pair Inr waiting [of buf s s1] assms show ?thesis
        by (intro wait) (simp_all add: process_buffer.simps)
    next
      case False
      with \<open>0 \<le> n\<close> Pair Inr assms show ?thesis
        by (intro step [of n s1]) (simp_all add: process_buffer.simps [of handle buf s])
    qed
  qed
qed

lemma process_append_ok:
  "process_buffer handle buf s = (Inr (), buf', s') \<Longrightarrow>
   process_buffer handle (buf @ rest) s = process_buffer handle (buf' @ rest) s'"
proof (induction buf arbitrary: s rule: length_induct)
  case (1 buf)
  show ?case
  proof (cases "buf = []")
    case True
    with "1.prems" show ?thesis by (simp add: process_buffer.simps [of handle "[]" s])
  next
    case False
    then show ?thesis
    proof (cases rule: process_cases [where s = s])
      case (step n s1)
      with "1.prems" have p: "process_buffer handle (drop (nat n) buf) s1 = (Inr (), buf', s')" by simp
      have "length (drop (nat n) buf) < length buf" using False step(2) by simp
      with p "1.IH" process_step [OF step(1,2) False] show ?thesis by simp
    qed (use "1.prems" in auto)
  qed
qed

lemma process_append_error:
  "process_buffer handle buf s = (Inl e, buf', s') \<Longrightarrow>
   \<exists>buf''. process_buffer handle (buf @ rest) s = (Inl e, buf'', s')"
proof (induction buf arbitrary: s rule: length_induct)
  case (1 buf)
  then have False: "buf \<noteq> []" by (auto simp: process_buffer.simps)
  then show ?case
  proof (cases rule: process_cases [where s = s])
    case (error e1 s1)
    with "1.prems" have "e1 = e" "s1 = s'" by simp_all
    with error(1) decided [of buf s "Inl e1" s1 rest] False show ?thesis
      by (subst process_buffer.simps) simp
  next
    case (step n s1)
    with "1.prems" have p: "process_buffer handle (drop (nat n) buf) s1 = (Inl e, buf', s')" by simp
    have "length (drop (nat n) buf) < length buf" using False step(2) by simp
    with p "1.IH" process_step [OF step(1,2) False] show ?thesis by simp
  qed (use "1.prems" in auto)
qed

text \<open>
  Two chunks that together fit the buffer are handled as their concatenation, as long as the
  first one is handled without an exception (an exception drops the buffer).
\<close>

lemma data_received_chunks:
  assumes "length (b_buf st) + length d1 + length d2 \<le> b_size_limit st"
    and "process_buffer handle (b_buf st @ d1) (b_state st) = (Inr (), buf', s')"
  shows "data_received handle d2 (data_received handle d1 st) = data_received handle (d1 @ d2) st"
proof (cases "b_closed st")
  case False
  have len: "length buf' \<le> length (b_buf st) + length d1"
    using process_buffer_length [OF assms(2)] by simp
  have one: "data_received handle d1 st = st\<lparr>b_buf := buf', b_state := s'\<rparr>"
    using False assms by (simp add: data_received_def)
  show ?thesis unfolding one
    using False assms(1) len process_append_ok [OF assms(2), of d2]
    by (auto simp: data_received_def split: prod.splits sum.splits)
qed (simp add: data_received_def)

text \<open>Any number of chunks, if their concatenation is handled without an exception.\<close>

lemma process_prefix_ok:
  assumes "process_buffer handle (buf @ rest) s = (Inr (), buf2, s2)"
  obtains buf1 s1 where "process_buffer handle buf s = (Inr (), buf1, s1)"
proof (cases "process_buffer handle buf s")
  case (fields r buf1 s1)
  then show ?thesis using that assms process_append_error [of buf s _ buf1 s1 rest]
    by (cases r) auto
qed

lemma data_received_many:
  assumes "length (b_buf st) + length (concat chunks) \<le> b_size_limit st"
    and "process_buffer handle (b_buf st @ concat chunks) (b_state st) = (Inr (), buf', s')"
    and "chunks \<noteq> []"
  shows "fold (data_received handle) chunks st = data_received handle (concat chunks) st"
  using assms
proof (induction chunks arbitrary: st)
  case (Cons d ds)
  show ?case
  proof (cases "ds = [] \<or> b_closed st")
    case True
    then show ?thesis by (auto simp: data_received_closed fold_closed)
  next
    case False
    obtain buf1 s1 where p: "process_buffer handle (b_buf st @ d) (b_state st) = (Inr (), buf1, s1)"
      using process_prefix_ok [of "b_buf st @ d" "concat ds" "b_state st"] Cons.prems(2) by auto
    then have one: "data_received handle d st = st\<lparr>b_buf := buf1, b_state := s1\<rparr>"
      using False Cons.prems(1) by (simp add: data_received_def)
    have "length buf1 \<le> length (b_buf st) + length d" using process_buffer_length [OF p] by simp
    moreover have "process_buffer handle (buf1 @ concat ds) s1 = (Inr (), buf', s')"
      using process_append_ok [OF p, of "concat ds"] Cons.prems(2) by simp
    ultimately have "fold (data_received handle) ds (data_received handle d st) =
        data_received handle (concat ds) (data_received handle d st)"
      using Cons.IH [of "data_received handle d st"] Cons.prems(1) False by (simp add: one)
    with data_received_chunks [of st d "concat ds"] p Cons.prems(1) show ?thesis by simp
  qed
qed simp

end

section \<open>The client is such a handler\<close>

lemma cbus_handle_data_pci:
  shows "cbus_handle_data False chk echo hcp d s = (r, s') \<Longrightarrow> r \<noteq> Inr 0 \<Longrightarrow> cbus_handle_data False chk echo hcp (d @ rest) s = (r, s')"
    and "cbus_handle_data False chk echo hcp d s = (Inr 0, s') \<Longrightarrow> s' = s"
    and "cbus_handle_data False chk echo hcp d s = (Inr n, s') \<Longrightarrow> 0 \<le> n \<and> n \<le> int (length d)"
proof -
  assume h: "cbus_handle_data False chk echo hcp d s = (r, s')" and r: "r \<noteq> Inr 0"
  have "decode_packet (chk s) True True d \<noteq> Inr (None, 0)"
    using h r by (auto simp: cbus_handle_data_def)
  then have "decode_packet (chk s) True True (d @ rest) = decode_packet (chk s) True True d"
    using decode_packet_final [OF refl] by blast
  then show "cbus_handle_data False chk echo hcp (d @ rest) s = (r, s')"
    using h by (auto simp: cbus_handle_data_def Let_def split: sum.splits option.splits prod.splits)
next
  assume "cbus_handle_data False chk echo hcp d s = (Inr 0, s')"
  then show "s' = s"
    by (auto simp: cbus_handle_data_def split: sum.splits option.splits prod.splits
        dest: decode_packet_consumed)
next
  assume "cbus_handle_data False chk echo hcp d s = (Inr n, s')"
  then show "0 \<le> n \<and> n \<le> int (length d)"
    by (auto simp: cbus_handle_data_def split: sum.splits option.splits prod.splits
        dest: decode_packet_consumed)
qed

interpretation client_frames: framed_handler "cbus_handle_data False chk echo hcp" for chk echo hcp
  by unfold_locales (fact cbus_handle_data_pci)+

section \<open>Properties\<close>

text \<open>
  Whatever arrives, in whatever chunks and whatever the handler does with it, the receive
  buffer never grows beyond the size limit, the limit never changes, and once the protocol is
  closed the buffer is empty and stays so, with the handler's state untouched.
\<close>

lemma buffer_bounded:
  "length (b_buf (fold (data_received h) chunks (new_BufferedProtocol n s))) \<le> n \<and>
   b_size_limit (fold (data_received h) chunks (new_BufferedProtocol n s)) = n \<and>
   fold (data_received h) chunks (buffered_close st) = buffered_close st \<and>
   (b_closed st \<or> b_buf (buffered_close st) = [])"
  using buffered_fold [of h chunks n s] fold_closed [of "buffered_close st" h chunks]
  by (simp add: buffered_close_def)

end
