(* ===== verification/Confirmation.thy ===== *)
theory Confirmation
  imports Buffered
begin

text \<open>
  The confirmation code pool of \<open>PCIProtocol\<close> (\<open>cbus/protocol/pciprotocol.py\<close>) with
  the constants it takes from \<open>cbus/constants.py\<close>.

  The state is the two dictionaries and the index of the class: \<open>in_use\<close> maps a code to
  the time it was taken, \<open>pending\<close> a code to the packet, the number of attempts and the time
  of the last one. Both are association lists in insertion order, like the dicts. Times are
  integer microseconds. Every definition here is one section of code between two points where
  the coroutine can be suspended, so that interleavings are sequences of these functions; the
  ones named \<open>*_seq\<close> run the sections of one coroutine back to back.

  The lemmas show that every section keeps the pool well formed, that a code handed out was
  free and is then taken, that after the clean-up section at least two codes are free, so that
  the forced release in \<open>_get_confirmation_code\<close> is reached only if other coroutines take
  codes in between, and that codes are handed out in rotation.
\<close>

section \<open>Constants\<close>

abbreviation (input) CONFIRMATION_TIMEOUT :: int where "CONFIRMATION_TIMEOUT \<equiv> 30000000"
abbreviation (input) RETRY_INTERVAL :: int where "RETRY_INTERVAL \<equiv> 1000000"
abbreviation (input) MAX_PACKET_RETRIES :: nat where "MAX_PACKET_RETRIES \<equiv> 3"

text \<open>\<open>int(len(CONFIRMATION_CODES) * 0.9)\<close>: 20 * 0.9 is 18.0 in binary floating point.\<close>

definition force_threshold :: nat where
  "force_threshold = length CONFIRMATION_CODES * 9 div 10"

section \<open>State\<close>

record conf_state =
  next_index :: nat
  in_use :: "(byte \<times> int) list"
  pending :: "(byte \<times> bytes \<times> nat \<times> int) list"

definition cleanup_state :: "'a conf_state_scheme \<Rightarrow> 'a conf_state_scheme" where
  "cleanup_state st = st\<lparr>in_use := [], pending := [], next_index := 0\<rparr>"

definition remove_from_pending :: "byte \<Rightarrow> 'a conf_state_scheme \<Rightarrow> 'a conf_state_scheme" where
  "remove_from_pending code st = st\<lparr>pending := AList.delete code (pending st)\<rparr>"

definition drop_code :: "byte \<Rightarrow> 'a conf_state_scheme \<Rightarrow> 'a conf_state_scheme" where
  "drop_code code st =
     st\<lparr>in_use := AList.delete code (in_use st), pending := AList.delete code (pending st)\<rparr>"

definition release_confirmation_code :: "byte \<Rightarrow> 'a conf_state_scheme \<Rightarrow> 'a conf_state_scheme" where
  "release_confirmation_code code st =
     (if code \<in> fst ` set (in_use st) then drop_code code st else st)"

definition timed_out_codes :: "int \<Rightarrow> (byte \<times> int) list \<Rightarrow> byte list" where
  "timed_out_codes now xs = map fst (filter (\<lambda>(code, t). now - t > CONFIRMATION_TIMEOUT) xs)"

definition oldest_codes :: "(byte \<times> int) list \<Rightarrow> byte list" where
  "oldest_codes xs =
     (let codes_by_age = sort_key snd xs;
          release_count = max 1 (length codes_by_age div 4) in
      map fst (take release_count codes_by_age))"

definition check_and_release_timed_out :: "int \<Rightarrow> 'a conf_state_scheme \<Rightarrow> 'a conf_state_scheme" where
  "check_and_release_timed_out now st =
     (let st1 = fold drop_code (timed_out_codes now (in_use st)) st in
      if length (in_use st1) > force_threshold
      then fold drop_code (oldest_codes (in_use st1)) st1
      else st1)"

section \<open>Taking a code\<close>

text \<open>
  \<open>find_code n ok i\<close> is the loop over \<open>range(n)\<close> that looks for the next code with
  \<open>ok\<close> and advances the index.
\<close>

fun find_code :: "nat \<Rightarrow> (byte \<Rightarrow> bool) \<Rightarrow> nat \<Rightarrow> byte option \<times> nat" where
  "find_code 0 ok i = (None, i)"
| "find_code (Suc n) ok i =
     (let code = CONFIRMATION_CODES ! i;
          i = (i + 1) mod length CONFIRMATION_CODES in
      if ok code then (Some code, i) else find_code n ok i)"

definition take_code :: "byte \<Rightarrow> int \<Rightarrow> 'a conf_state_scheme \<Rightarrow> 'a conf_state_scheme" where
  "take_code code now st = st\<lparr>in_use := AList.update code now (in_use st)\<rparr>"

text \<open>The first locked section: a free code, if the scan finds one.\<close>

definition allocate_code :: "int \<Rightarrow> 'a conf_state_scheme \<Rightarrow> byte option \<times> 'a conf_state_scheme" where
  "allocate_code now st =
     (let (r, i) = find_code (length CONFIRMATION_CODES)
                     (\<lambda>code. code \<notin> fst ` set (in_use st)) (next_index st);
          st = st\<lparr>next_index := i\<rparr> in
      (r, case r of Some code \<Rightarrow> take_code code now st | None \<Rightarrow> st))"

text \<open>The second locked section, when every code was in use.\<close>

definition force_allocate :: "int \<Rightarrow> 'a conf_state_scheme \<Rightarrow> byte \<times> 'a conf_state_scheme" where
  "force_allocate now st =
     (if in_use st \<noteq> [] then
        let oldest = fst (arg_min_list snd (in_use st));
            st = drop_code oldest st;
            (r, i) = find_code (length CONFIRMATION_CODES)
                       (\<lambda>code. code \<noteq> oldest \<and> code \<notin> fst ` set (in_use st)) (next_index st);
            code = (case r of Some c \<Rightarrow> c | None \<Rightarrow> oldest) in
        (code, take_code code now (st\<lparr>next_index := i\<rparr>))
      else
        let code = CONFIRMATION_CODES ! 0 in (code, take_code code now st))"

definition get_confirmation_code_seq :: "int \<Rightarrow> 'a conf_state_scheme \<Rightarrow> byte \<times> 'a conf_state_scheme" where
  "get_confirmation_code_seq now st =
     (let st = check_and_release_timed_out now st in
      case allocate_code now st of
        (Some code, st) \<Rightarrow> (code, st)
      | (None, st) \<Rightarrow> force_allocate now st)"

section \<open>Pending packets\<close>

definition add_pending :: "byte \<Rightarrow> bytes \<Rightarrow> int \<Rightarrow> 'a conf_state_scheme \<Rightarrow> 'a conf_state_scheme" where
  "add_pending code data now st = st\<lparr>pending := AList.update code (data, 1, now) (pending st)\<rparr>"

text \<open>The locked scan of \<open>_check_pending_confirmations\<close>: what to resend and what to abandon.\<close>

fun collect_pending ::
  "int \<Rightarrow> (byte \<times> bytes \<times> nat \<times> int) list \<Rightarrow> (byte \<times> bytes) list \<times> byte list" where
  "collect_pending now [] = ([], [])"
| "collect_pending now ((code, data, attempts, last_attempt) # rest) =
     (let (to_retry, to_abandon) = collect_pending now rest in
      if now - last_attempt \<ge> RETRY_INTERVAL then
        if attempts < MAX_PACKET_RETRIES then ((code, data) # to_retry, to_abandon)
        else (to_retry, code # to_abandon)
      else (to_retry, to_abandon))"

definition note_retry :: "byte \<Rightarrow> bytes \<Rightarrow> int \<Rightarrow> 'a conf_state_scheme \<Rightarrow> 'a conf_state_scheme" where
  "note_retry code data now st =
     (case map_of (pending st) code of
        Some (d, attempts, t) \<Rightarrow> st\<lparr>pending := AList.update code (data, attempts + 1, now) (pending st)\<rparr>
      | None \<Rightarrow> st)"

section \<open>Well-formed pools\<close>

definition conf_inv :: "'a conf_state_scheme \<Rightarrow> bool" where
  "conf_inv st \<longleftrightarrow>
     next_index st < length CONFIRMATION_CODES \<and>
     distinct (map fst (in_use st)) \<and> fst ` set (in_use st) \<subseteq> set CONFIRMATION_CODES \<and>
     distinct (map fst (pending st)) \<and> fst ` set (pending st) \<subseteq> set CONFIRMATION_CODES"

lemma codes_facts:
  "length CONFIRMATION_CODES = 20" "distinct CONFIRMATION_CODES" "CONFIRMATION_CODES \<noteq> []"
  by (simp_all add: CONFIRMATION_CODES_def)

lemma alist_delete_dom: "fst ` set (AList.delete k xs) = fst ` set xs - {k}"
  by (induction xs) auto

lemma conf_inv_cleanup [inv_intros]: "conf_inv (cleanup_state st)"
  by (simp add: conf_inv_def cleanup_state_def codes_facts)

lemma conf_inv_remove [inv_intros]: "conf_inv st \<Longrightarrow> conf_inv (remove_from_pending code st)"
  by (auto simp: conf_inv_def remove_from_pending_def AList.distinct_delete alist_delete_dom)

lemma conf_inv_drop [inv_intros]: "conf_inv st \<Longrightarrow> conf_inv (drop_code code st)"
  by (auto simp: conf_inv_def drop_code_def AList.distinct_delete alist_delete_dom)

lemma conf_inv_release [inv_intros]: "conf_inv st \<Longrightarrow> conf_inv (release_confirmation_code code st)"
  by (simp add: release_confirmation_code_def conf_inv_drop)

lemma conf_inv_fold_drop [inv_intros]: "conf_inv st \<Longrightarrow> conf_inv (fold drop_code codes st)"
  by (induction codes arbitrary: st) (auto intro: inv_intros)

lemma conf_inv_check [inv_intros]: "conf_inv st \<Longrightarrow> conf_inv (check_and_release_timed_out now st)"
  by (auto simp: check_and_release_timed_out_def Let_def intro: inv_intros)

lemma find_code_index: "i < 20 \<Longrightarrow> find_code n ok i = (r, j) \<Longrightarrow> j < 20"
  by (induction n ok i rule: find_code.induct) (auto simp: Let_def codes_facts split: if_splits)

lemma find_code_Some:
  "i < 20 \<Longrightarrow> find_code n ok i = (Some c, j) \<Longrightarrow> c \<in> set CONFIRMATION_CODES \<and> ok c"
  by (induction n ok i rule: find_code.induct) (auto simp: Let_def codes_facts split: if_splits)

lemma conf_inv_take [inv_intros]:
  "conf_inv st \<Longrightarrow> code \<in> set CONFIRMATION_CODES \<Longrightarrow> conf_inv (take_code code now st)"
  by (auto simp: conf_inv_def take_code_def AList.distinct_update AList.dom_update)

lemma conf_inv_index: "conf_inv st \<Longrightarrow> i < 20 \<Longrightarrow> conf_inv (st\<lparr>next_index := i\<rparr>)"
  by (simp add: conf_inv_def codes_facts)

lemma conf_inv_nextD: "conf_inv st \<Longrightarrow> next_index st < 20"
  by (simp add: conf_inv_def codes_facts)

lemma conf_inv_allocate [inv_intros]:
  assumes "conf_inv st" "allocate_code now st = (r, st')"
  shows "conf_inv st'"
proof -
  obtain c i where f: "find_code (length CONFIRMATION_CODES) (\<lambda>c. c \<notin> fst ` set (in_use st)) (next_index st) = (c, i)"
    by (cases "find_code (length CONFIRMATION_CODES) (\<lambda>c. c \<notin> fst ` set (in_use st)) (next_index st)")
  have i: "i < 20" using f conf_inv_nextD [OF assms(1)] by (blast dest: find_code_index)
  have "c = Some code \<Longrightarrow> code \<in> set CONFIRMATION_CODES" for code
    using f conf_inv_nextD [OF assms(1)] by (blast dest: find_code_Some)
  with assms f i show ?thesis
    by (cases c) (auto simp: allocate_code_def intro: inv_intros conf_inv_index)
qed

lemma arg_min_list_fst: "xs \<noteq> [] \<Longrightarrow> fst (arg_min_list snd xs) \<in> fst ` set xs"
  by (simp add: arg_min_list_in)

lemma conf_inv_force [inv_intros]:
  assumes "conf_inv st" "force_allocate now st = (code, st')"
  shows "conf_inv st' \<and> code \<in> set CONFIRMATION_CODES"
proof (cases "in_use st = []")
  case True
  have "CONFIRMATION_CODES ! 0 \<in> set CONFIRMATION_CODES" by (simp add: codes_facts)
  with True assms conf_inv_take [OF assms(1)] show ?thesis
    by (auto simp: force_allocate_def Let_def)
next
  case False
  define oldest where "oldest = fst (arg_min_list snd (in_use st))"
  define st1 where "st1 = drop_code oldest st"
  obtain r i where f: "find_code (length CONFIRMATION_CODES)
      (\<lambda>c. c \<noteq> oldest \<and> c \<notin> fst ` set (in_use st1)) (next_index st1) = (r, i)"
    by (cases "find_code (length CONFIRMATION_CODES)
      (\<lambda>c. c \<noteq> oldest \<and> c \<notin> fst ` set (in_use st1)) (next_index st1)")
  have inv1: "conf_inv st1" using assms(1) by (simp add: st1_def conf_inv_drop)
  have "oldest \<in> set CONFIRMATION_CODES"
    using arg_min_list_fst [OF False] assms(1) by (auto simp: oldest_def conf_inv_def)
  moreover have "r = Some c \<Longrightarrow> c \<in> set CONFIRMATION_CODES" for c
    using f conf_inv_nextD [OF inv1] by (blast dest: find_code_Some)
  moreover have "i < 20" using f conf_inv_nextD [OF inv1] by (blast dest: find_code_index)
  ultimately show ?thesis using assms False f inv1
    by (cases r) (auto simp: force_allocate_def Let_def simp flip: oldest_def st1_def
        intro: inv_intros conf_inv_index)
qed

lemma conf_inv_add_pending [inv_intros]:
  "conf_inv st \<Longrightarrow> code \<in> set CONFIRMATION_CODES \<Longrightarrow> conf_inv (add_pending code data now st)"
  by (auto simp: conf_inv_def add_pending_def AList.distinct_update AList.dom_update)

lemma conf_inv_note_retry [inv_intros]: "conf_inv st \<Longrightarrow> conf_inv (note_retry code data now st)"
proof (cases "map_of (pending st) code")
  case (Some v)
  assume inv: "conf_inv st"
  from Some have "code \<in> fst ` set (pending st)" by (auto dest: map_of_SomeD intro: rev_image_eqI)
  then have "code \<in> set CONFIRMATION_CODES" using inv by (auto simp: conf_inv_def)
  with inv Some show ?thesis
    by (auto simp: note_retry_def conf_inv_def AList.distinct_update AList.dom_update split: prod.splits)
qed (simp add: note_retry_def)

section \<open>A free code is always found after the clean-up\<close>

lemma fold_drop_fields:
  "in_use (fold drop_code codes st) = fold AList.delete codes (in_use st)"
  "pending (fold drop_code codes st) = fold AList.delete codes (pending st)"
  "next_index (fold drop_code codes st) = next_index st"
  by (induction codes arbitrary: st) (simp_all add: drop_code_def)

lemma fold_delete_keys:
  "fst ` set (fold AList.delete ks xs) = fst ` set xs - set ks"
  by (induction ks arbitrary: xs) (auto simp: alist_delete_dom)

lemma fold_delete_distinct:
  "distinct (map fst xs) \<Longrightarrow> distinct (map fst (fold AList.delete ks xs))"
  by (induction ks arbitrary: xs) (simp_all add: AList.distinct_delete)

lemma length_keys: "distinct (map fst xs) \<Longrightarrow> length xs = card (fst ` set xs)"
  by (metis distinct_card length_map list.set_map)

lemma fold_delete_length:
  assumes "distinct (map fst xs)" "distinct ks" "set ks \<subseteq> fst ` set xs"
  shows "length (fold AList.delete ks xs) + length ks = length xs"
proof -
  have "length (fold AList.delete ks xs) = card (fst ` set xs - set ks)"
    using length_keys [OF fold_delete_distinct [OF assms(1)]] by (simp add: fold_delete_keys)
  also have "\<dots> = card (fst ` set xs) - card (set ks)"
    using assms(3) by (simp add: card_Diff_subset)
  finally have "length (fold AList.delete ks xs) = length xs - length ks"
    using assms by (simp add: length_keys distinct_card)
  moreover have "length ks \<le> length xs"
    using assms by (metis card_mono distinct_card finite_imageI finite_set length_keys)
  ultimately show ?thesis by simp
qed

lemma oldest_codes_facts:
  assumes "distinct (map fst xs)" "xs \<noteq> []"
  shows "distinct (oldest_codes xs)" "set (oldest_codes xs) \<subseteq> fst ` set xs"
    "length (oldest_codes xs) = max 1 (length xs div 4)"
proof -
  have "distinct (map fst (sort_key snd xs))"
    using assms(1) by (simp add: distinct_map)
  then show "distinct (oldest_codes xs)"
    by (simp add: oldest_codes_def Let_def take_map [symmetric] distinct_take)
  show "set (oldest_codes xs) \<subseteq> fst ` set xs"
    using set_take_subset by (fastforce simp: oldest_codes_def Let_def)
  have "max 1 (length xs div 4) \<le> length xs" using assms(2) by (cases xs) auto
  then show "length (oldest_codes xs) = max 1 (length xs div 4)"
    by (simp add: oldest_codes_def Let_def)
qed

lemma in_use_le: "conf_inv st \<Longrightarrow> length (in_use st) \<le> 20"
proof -
  assume "conf_inv st"
  then have "card (fst ` set (in_use st)) \<le> card (set CONFIRMATION_CODES)"
    and d: "distinct (map fst (in_use st))" by (auto simp: conf_inv_def intro: card_mono)
  then show ?thesis using length_keys [OF d] codes_facts by (simp add: distinct_card)
qed

lemma check_leaves_free:
  assumes "conf_inv st"
  shows "length (in_use (check_and_release_timed_out now st)) \<le> 18"
proof -
  define st1 where "st1 = fold drop_code (timed_out_codes now (in_use st)) st"
  have inv: "conf_inv st1" unfolding st1_def using assms by (rule conf_inv_fold_drop)
  show ?thesis
  proof (cases "length (in_use st1) > force_threshold")
    case False
    then show ?thesis
      by (simp add: check_and_release_timed_out_def force_threshold_def codes_facts flip: st1_def)
  next
    case True
    then have "in_use st1 \<noteq> []" by (auto simp: force_threshold_def codes_facts)
    with inv have o: "distinct (oldest_codes (in_use st1))"
      "set (oldest_codes (in_use st1)) \<subseteq> fst ` set (in_use st1)"
      "length (oldest_codes (in_use st1)) = max 1 (length (in_use st1) div 4)"
      using oldest_codes_facts by (auto simp: conf_inv_def)
    have "length (in_use (fold drop_code (oldest_codes (in_use st1)) st1)) +
        max 1 (length (in_use st1) div 4) = length (in_use st1)"
      using fold_delete_length [OF _ o(1,2)] inv o(3) by (simp add: fold_drop_fields conf_inv_def)
    with True in_use_le [OF inv] show ?thesis
      by (simp add: check_and_release_timed_out_def force_threshold_def codes_facts flip: st1_def)
  qed
qed

lemma fold_delete_map: "map_of (fold AList.delete ks xs) c = (if c \<in> set ks then None else map_of xs c)"
  by (induction ks arbitrary: xs) (simp_all add: AList.delete_conv')

lemma check_keeps:
  assumes "conf_inv st" "map_of (in_use (check_and_release_timed_out now st)) c = Some t"
  shows "map_of (in_use st) c = Some t \<and> now - t \<le> CONFIRMATION_TIMEOUT"
proof -
  have "c \<notin> set (timed_out_codes now (in_use st)) \<and> map_of (in_use st) c = Some t"
    using assms(2) by (auto simp: check_and_release_timed_out_def Let_def fold_drop_fields fold_delete_map
        split: if_splits)
  then show ?thesis by (force simp: timed_out_codes_def dest: map_of_SomeD)
qed

lemma check_pending_subset:
  "map_of (pending (check_and_release_timed_out now st)) c = Some e \<Longrightarrow> map_of (pending st) c = Some e"
  by (auto simp: check_and_release_timed_out_def Let_def fold_drop_fields fold_delete_map split: if_splits)

lemma find_code_None:
  "i < 20 \<Longrightarrow> find_code n ok i = (None, j) \<Longrightarrow> k < n \<Longrightarrow> \<not> ok (CONFIRMATION_CODES ! ((i + k) mod 20))"
proof (induction n ok i arbitrary: k rule: find_code.induct)
  case (2 n ok i)
  then have no: "\<not> ok (CONFIRMATION_CODES ! i)" and
    f: "find_code n ok ((i + 1) mod 20) = (None, j)"
    by (auto simp: Let_def codes_facts split: if_splits)
  show ?case
  proof (cases k)
    case 0
    with no "2.prems"(1) show ?thesis by simp
  next
    case (Suc m)
    have "\<not> ok (CONFIRMATION_CODES ! (((i + 1) mod 20 + m) mod 20))"
      using "2.IH" [OF refl] no f "2.prems"(3) Suc by (auto simp: codes_facts)
    moreover have "((i + 1) mod 20 + m) mod 20 = (i + k) mod 20"
      using Suc by (simp add: mod_add_left_eq)
    ultimately show ?thesis by simp
  qed
qed simp

lemma find_code_full:
  assumes "i < 20" "find_code 20 ok i = (None, j)" "c \<in> set CONFIRMATION_CODES"
  shows "\<not> ok c"
proof -
  obtain m where m: "m < 20" "c = CONFIRMATION_CODES ! m"
    using assms(3) by (metis codes_facts(1) in_set_conv_nth)
  define k where "k = (m + 20 - i) mod 20"
  have "(i + k) mod 20 = m" using m(1) assms(1)
    by (simp add: k_def mod_add_right_eq)
  moreover have "k < 20" by (simp add: k_def)
  ultimately show ?thesis using find_code_None [OF assms(1,2), of k] m(2) by simp
qed

lemma allocate_code_fresh:
  assumes "conf_inv st" "length (in_use st) < 20"
  shows "\<exists>code i. allocate_code now st = (Some code, (take_code code now (st\<lparr>next_index := i\<rparr>))) \<and>
    code \<in> set CONFIRMATION_CODES \<and> code \<notin> fst ` set (in_use st)"
proof -
  have "card (fst ` set (in_use st)) < card (set CONFIRMATION_CODES)"
    using assms length_keys [of "in_use st"] codes_facts by (simp add: conf_inv_def distinct_card)
  then have "\<not> set CONFIRMATION_CODES \<subseteq> fst ` set (in_use st)"
    by (metis List.finite_set card_mono finite_imageI linorder_not_less)
  then obtain c where c: "c \<in> set CONFIRMATION_CODES" "c \<notin> fst ` set (in_use st)" by blast
  obtain r i where f: "find_code 20 (\<lambda>c. c \<notin> fst ` set (in_use st)) (next_index st) = (r, i)"
    by (cases "find_code 20 (\<lambda>c. c \<notin> fst ` set (in_use st)) (next_index st)")
  show ?thesis
  proof (cases r)
    case None
    with f c find_code_full [OF conf_inv_nextD [OF assms(1)]] show ?thesis by blast
  next
    case (Some code)
    with f have "code \<in> set CONFIRMATION_CODES \<and> code \<notin> fst ` set (in_use st)"
      using find_code_Some [OF conf_inv_nextD [OF assms(1)]] by blast
    with Some f show ?thesis
      by (intro exI [of _ code] exI [of _ i]) (simp add: allocate_code_def codes_facts)
  qed
qed

text \<open>
  When the sections of \<open>_get_confirmation_code\<close> run back to back, the scan succeeds: the
  code returned was free after the clean-up and nothing else is released.
\<close>

lemma get_confirmation_code_seq_fresh:
  assumes "conf_inv st"
  shows "\<exists>code i. get_confirmation_code_seq now st =
      (code, take_code code now ((check_and_release_timed_out now st)\<lparr>next_index := i\<rparr>)) \<and>
    code \<in> set CONFIRMATION_CODES \<and>
    code \<notin> fst ` set (in_use (check_and_release_timed_out now st))"
proof -
  have "conf_inv (check_and_release_timed_out now st)"
    "length (in_use (check_and_release_timed_out now st)) < 20"
    using conf_inv_check [OF assms] check_leaves_free [OF assms, of now] by auto
  from allocate_code_fresh [OF this, of now] show ?thesis
    by (auto simp: get_confirmation_code_seq_def)
qed

lemma conf_inv_get_seq:
  assumes "conf_inv st" "get_confirmation_code_seq now st = (code, st')"
  shows "conf_inv st' \<and> code \<in> set CONFIRMATION_CODES \<and> code \<in> fst ` set (in_use st')"
proof -
  have inv1: "conf_inv (check_and_release_timed_out now st)" using assms(1) by (rule conf_inv_check)
  obtain r st2 where a: "allocate_code now (check_and_release_timed_out now st) = (r, st2)"
    by (cases "allocate_code now (check_and_release_timed_out now st)")
  obtain i where c: "r = Some code" "st' = st2" "code \<in> set CONFIRMATION_CODES"
    "st2 = take_code code now ((check_and_release_timed_out now st)\<lparr>next_index := i\<rparr>)"
    using allocate_code_fresh [OF inv1, of now] check_leaves_free [OF assms(1), of now] a assms(2)
    by (auto simp: get_confirmation_code_seq_def)
  with conf_inv_allocate [OF inv1 a] show ?thesis
    by (auto simp: take_code_def AList.dom_update)
qed

section \<open>Rotation\<close>

text \<open>
  From a clean pool the first eighteen codes come out in the order of \<open>CONFIRMATION_CODES\<close>,
  whatever the times, as long as none is old enough to time out.
\<close>

fun get_codes :: "int list \<Rightarrow> 'a conf_state_scheme \<Rightarrow> byte list" where
  "get_codes [] st = []"
| "get_codes (now # ts) st =
     (let (code, st') = get_confirmation_code_seq now st in code # get_codes ts st')"

definition rotated :: "nat \<Rightarrow> int \<Rightarrow> 'a conf_state_scheme \<Rightarrow> bool" where
  "rotated k t0 st \<longleftrightarrow> next_index st = k \<and> map fst (in_use st) = take k CONFIRMATION_CODES \<and>
     (\<forall>(c, t) \<in> set (in_use st). t0 \<le> t)"

lemma alist_update_new: "k \<notin> fst ` set xs \<Longrightarrow> AList.update k v xs = xs @ [(k, v)]"
  by (induction xs) auto

lemma rotated_step:
  assumes r: "rotated k t0 st" and k: "k < 18" and t: "t0 \<le> now" "now \<le> t0 + CONFIRMATION_TIMEOUT"
  shows "\<exists>st'. get_confirmation_code_seq now st = (CONFIRMATION_CODES ! k, st') \<and> rotated (Suc k) t0 st'"
proof -
  have m: "map fst (in_use st) = take k CONFIRMATION_CODES" using r by (simp add: rotated_def)
  from arg_cong [OF m, of length] k have "length (in_use st) = k" by (simp add: codes_facts)
  moreover have "timed_out_codes now (in_use st) = []"
    using r t by (auto simp: rotated_def timed_out_codes_def filter_empty_conv)
  ultimately have chk: "check_and_release_timed_out now st = st"
    using k by (simp add: check_and_release_timed_out_def force_threshold_def codes_facts)
  have keys: "fst ` set (in_use st) = set (take k CONFIRMATION_CODES)"
    using m by (metis list.set_map)
  have new: "CONFIRMATION_CODES ! k \<notin> fst ` set (in_use st)"
    using k codes_facts unfolding keys by (auto simp: in_set_conv_nth nth_eq_iff_index_eq)
  have "find_code 20 (\<lambda>c. c \<notin> fst ` set (in_use st)) k = (Some (CONFIRMATION_CODES ! k), Suc k)"
    using new k find_code.simps(2) [of 19 "\<lambda>c. c \<notin> fst ` set (in_use st)" k] by (simp add: codes_facts)
  then have "get_confirmation_code_seq now st =
      (CONFIRMATION_CODES ! k, take_code (CONFIRMATION_CODES ! k) now (st\<lparr>next_index := Suc k\<rparr>))"
    using r by (simp add: get_confirmation_code_seq_def chk allocate_code_def codes_facts rotated_def
        del: find_code.simps)
  moreover have "rotated (Suc k) t0 (take_code (CONFIRMATION_CODES ! k) now (st\<lparr>next_index := Suc k\<rparr>))"
    using r new k t m by (simp add: rotated_def take_code_def alist_update_new take_Suc_conv_app_nth codes_facts)
  ultimately show ?thesis by blast
qed

lemma get_codes_rotation:
  assumes "rotated k t0 st" "k + length ts \<le> 18"
    and "\<forall>t \<in> set ts. t0 \<le> t \<and> t \<le> t0 + CONFIRMATION_TIMEOUT"
  shows "get_codes ts st = take (length ts) (drop k CONFIRMATION_CODES)"
  using assms
proof (induction ts arbitrary: k st)
  case (Cons now ts)
  then obtain st' where g: "get_confirmation_code_seq now st = (CONFIRMATION_CODES ! k, st')"
    "rotated (Suc k) t0 st'"
    using rotated_step [of k t0 st now] by auto
  with Cons.IH [OF g(2)] Cons.prems have "get_codes ts st' = take (length ts) (drop (Suc k) CONFIRMATION_CODES)"
    by simp
  moreover have "drop k CONFIRMATION_CODES = CONFIRMATION_CODES ! k # drop (Suc k) CONFIRMATION_CODES"
    using Cons.prems(2) by (simp add: Cons_nth_drop_Suc codes_facts)
  ultimately show ?case using g by simp
qed simp

lemma rotated_clean: "rotated 0 t0 (cleanup_state st)"
  by (simp add: rotated_def cleanup_state_def)

section \<open>Confirmation frees the code\<close>

lemma release_frees:
  "code \<notin> fst ` set (in_use (release_confirmation_code code st))"
  "code \<in> fst ` set (in_use st) \<Longrightarrow>
   code \<notin> fst ` set (pending (release_confirmation_code code st))"
  by (auto simp: release_confirmation_code_def drop_code_def alist_delete_dom)

lemma release_others:
  "c \<noteq> code \<Longrightarrow> map_of (in_use (release_confirmation_code code st)) c = map_of (in_use st) c"
  "c \<noteq> code \<Longrightarrow> map_of (pending (release_confirmation_code code st)) c = map_of (pending st) c"
  by (simp_all add: release_confirmation_code_def drop_code_def)

section \<open>Retries\<close>

lemma collect_pending_sets:
  "set (fst (collect_pending now xs)) =
     {(c, d). \<exists>n t. (c, d, n, t) \<in> set xs \<and> now - t \<ge> RETRY_INTERVAL \<and> n < MAX_PACKET_RETRIES}"
  "set (snd (collect_pending now xs)) =
     {c. \<exists>d n t. (c, d, n, t) \<in> set xs \<and> now - t \<ge> RETRY_INTERVAL \<and> MAX_PACKET_RETRIES \<le> n}"
proof (induction now xs rule: collect_pending.induct)
  case (2 now code data n t rest)
  { case 1 show ?case using "2.IH"(1) by (auto simp: case_prod_beta | blast)+ }
  { case 2 show ?case using "2.IH"(2) by (auto simp: case_prod_beta not_less | blast)+ }
qed auto

lemma collect_pending_retry:
  "(code, data) \<in> set (fst (collect_pending now xs)) \<Longrightarrow>
   \<exists>n t. (code, data, n, t) \<in> set xs \<and> n < MAX_PACKET_RETRIES \<and> now - t \<ge> RETRY_INTERVAL"
  by (auto simp: collect_pending_sets)

lemma collect_pending_keys: "fst ` set (fst (collect_pending now xs)) \<subseteq> fst ` set xs"
  by (force dest: collect_pending_retry)

lemma collect_pending_distinct:
  "distinct (map fst xs) \<Longrightarrow> distinct (map fst (fst (collect_pending now xs)))"
proof (induction xs)
  case (Cons x rest)
  obtain code data n t where x: "x = (code, data, n, t)" by (cases x)
  obtain r a where c: "collect_pending now rest = (r, a)" by (cases "collect_pending now rest")
  from Cons.prems x have "code \<notin> fst ` set rest" by simp
  with collect_pending_keys [of now rest] c have "code \<notin> fst ` set r" by auto
  moreover have "distinct (map fst r)" using Cons c by simp
  ultimately show ?case by (simp add: x c)
qed simp

section \<open>Properties\<close>

text \<open>
  Taking a confirmation code always succeeds with one of the twenty codes, and one that was
  not in use once timed-out codes have been released; it is then recorded as in use at that time
  and no other code changes.
\<close>

lemma code_is_fresh:
  assumes "conf_inv st" and "get_confirmation_code_seq now st = (code, st')"
  shows "code \<in> set CONFIRMATION_CODES \<and>
    map_of (in_use (check_and_release_timed_out now st)) code = None \<and>
    map_of (in_use st') = (map_of (in_use (check_and_release_timed_out now st)))(code \<mapsto> now) \<and>
    pending st' = pending (check_and_release_timed_out now st) \<and> conf_inv st'"
  using get_confirmation_code_seq_fresh [OF assms(1), of now] conf_inv_get_seq [OF assms] assms(2)
  by (auto simp: take_code_def AList.update_conv' map_of_eq_None_iff)

text \<open>
  The clean-up leaves at most eighteen of the twenty codes in use, keeps no code that has
  been in use for more than the timeout, and never touches the timestamp of a code it keeps.
\<close>

lemma cleanup_leaves_two_free:
  assumes "conf_inv st"
  shows "length (in_use (check_and_release_timed_out now st)) \<le> 18 \<and>
    (\<forall>c t. map_of (in_use (check_and_release_timed_out now st)) c = Some t \<longrightarrow>
       map_of (in_use st) c = Some t \<and> now - t \<le> CONFIRMATION_TIMEOUT)"
  using check_leaves_free [OF assms] check_keeps [OF assms] by blast

text \<open>
  From a clean pool, codes come out in the order of the list of confirmation codes, up to the
  eighteenth, whatever the times at which they are taken within one timeout.
\<close>

lemma codes_in_rotation:
  assumes "length ts \<le> 18" and "\<forall>t \<in> set ts. t0 \<le> t \<and> t \<le> t0 + CONFIRMATION_TIMEOUT"
  shows "get_codes ts (cleanup_state st) = take (length ts) CONFIRMATION_CODES"
  using get_codes_rotation [OF rotated_clean, of ts t0 st] assms by simp

text \<open>
  Releasing a code removes it from the codes in use and, if it was in use, removes its pending
  packet; every other code keeps its timestamp and its pending packet. Releasing twice is the same
  as releasing once.
\<close>

lemma release_frees_one_code:
  "map_of (in_use (release_confirmation_code code st)) = (map_of (in_use st))(code := None) \<and>
   map_of (pending (release_confirmation_code code st)) =
     (if map_of (in_use st) code = None then map_of (pending st) else (map_of (pending st))(code := None)) \<and>
   release_confirmation_code code (release_confirmation_code code st) = release_confirmation_code code st"
proof -
  have "release_confirmation_code code (release_confirmation_code code st) = release_confirmation_code code st"
    using release_frees(1) [of code st] by (simp add: release_confirmation_code_def [of code "release_confirmation_code code st"])
  then show ?thesis
    by (auto simp: release_confirmation_code_def drop_code_def AList.delete_conv' map_of_eq_None_iff)
qed

end
