(* ===== verification/Pci_Protocol.thy ===== *)
theory Pci_Protocol
  imports Confirmation
begin

text \<open>
  \<open>PCIProtocol\<close>, the client side of the serial protocol
  (\<open>cbus/protocol/pciprotocol.py\<close>): dispatch of decoded packets to the event handlers, the
  connection callbacks, preparing and sending packets, the reset sequence, the lighting, clock
  and status commands, and one pass of the retry task.

  \<open>pci_state\<close> extends the confirmation pool by the transport (connected or not, and the log
  of what was written to it), the tasks the code has created and not yet run, the events
  dispatched, and the configuration. The \<open>*_seq\<close> functions run a coroutine from start to end
  with no other task in between, at one reading of the clock; \<open>Pci_Steps\<close> has the
  interleavings.
\<close>

section \<open>State\<close>

datatype event =
    CannotAcceptData
  | ConfirmationEvent bytes bool
  | LightingGroupRamp "int option" int int int int
  | LightingGroupOn "int option" int int
  | LightingGroupOff "int option" int int
  | LightingGroupTerminateRamp "int option" int int
  | ClockRequestEvent "int option"
  | ClockUpdateEvent "int option" clock_val
  | LevelReportEvent int int "int option list"

datatype task = RemovePending byte | ReleaseCode byte | PciReset | Timesync | CheckPending

record pci_state = conf_state +
  connected :: bool
  written :: "bytes list"
  tasks :: "task list"
  events :: "event list"
  timesync_frequency :: int
  lost_future :: "bool option"

definition new_PCIProtocol :: "int \<Rightarrow> bool option \<Rightarrow> pci_state" where
  "new_PCIProtocol freq fut =
     \<lparr>next_index = 0, in_use = [], pending = [], connected = False, written = [], tasks = [],
      events = [], timesync_frequency = freq, lost_future = fut\<rparr>"

definition connection_made :: "pci_state \<Rightarrow> pci_state" where
  "connection_made st =
     (let st = cleanup_state (st\<lparr>connected := True\<rparr>) in
      st\<lparr>tasks := tasks st @ [PciReset] @ (if timesync_frequency st \<noteq> 0 then [Timesync] else [])
                  @ [CheckPending]\<rparr>)"

definition connection_lost :: "pci_state \<Rightarrow> pci_state" where
  "connection_lost st =
     (let st = cleanup_state (st\<lparr>connected := False\<rparr>) in
      case lost_future st of Some False \<Rightarrow> st\<lparr>lost_future := Some True\<rparr> | _ \<Rightarrow> st)"

section \<open>Dispatch\<close>

fun lighting_event :: "int option \<Rightarrow> lighting_sal \<Rightarrow> event" where
  "lighting_event src (LightingRampSAL ga app duration level) = LightingGroupRamp src ga app duration level"
| "lighting_event src (LightingOnSAL ga app) = LightingGroupOn src ga app"
| "lighting_event src (LightingOffSAL ga app) = LightingGroupOff src ga app"
| "lighting_event src (LightingTerminateRampSAL ga app) = LightingGroupTerminateRamp src ga app"

fun sal_events :: "int option \<Rightarrow> sal \<Rightarrow> event list" where
  "sal_events src (Lighting s) = [lighting_event src s]"
| "sal_events src (Clock ClockRequestSAL) = [ClockRequestEvent src]"
| "sal_events src (Clock (ClockUpdateSAL v)) = [ClockUpdateEvent src v]"
| "sal_events src _ = []"

fun cal_events :: "cal \<Rightarrow> event list" where
  "cal_events (ExtendedCAL x child_application block_start (LevelStatusReport levels)) =
     [LevelReportEvent child_application block_start levels]"
| "cal_events _ = []"

fun packet_events :: "decoded \<Rightarrow> event list" where
  "packet_events (Packet PCIErrorPacket) = [CannotAcceptData]"
| "packet_events (Packet (ConfirmationPacket code success)) = [ConfirmationEvent code success]"
| "packet_events (Packet (PointToMultipointPacket p)) = concat (map (sal_events (p_source p)) (pm_sals p))"
| "packet_events (Packet (PointToPointPacket p)) = concat (map cal_events (pp_cals p))"
| "packet_events _ = []"

text \<open>
  The handlers: a confirmation creates the two clean-up tasks; every other handler of the class
  only logs (\<open>on_clock_request\<close> calls the coroutine function \<open>clock_datetime\<close> but never
  awaits it, so nothing is sent).
\<close>

definition on_confirmation :: "bytes \<Rightarrow> pci_state \<Rightarrow> unit result \<times> pci_state" where
  "on_confirmation code st =
     (case code of
        [c] \<Rightarrow>
          (Inr (), st\<lparr>tasks := tasks st @ [RemovePending c]
                        @ (if c \<in> set CONFIRMATION_CODES then [ReleaseCode c] else [])\<rparr>)
      | _ \<Rightarrow> (Inl TypeError, st))"

fun handle_event :: "event \<Rightarrow> pci_state \<Rightarrow> unit result \<times> pci_state" where
  "handle_event (ConfirmationEvent code success) st =
     on_confirmation code (st\<lparr>events := events st @ [ConfirmationEvent code success]\<rparr>)"
| "handle_event e st = (Inr (), st\<lparr>events := events st @ [e]\<rparr>)"

fun handle_events :: "event list \<Rightarrow> pci_state \<Rightarrow> unit result \<times> pci_state" where
  "handle_events [] st = (Inr (), st)"
| "handle_events (e # es) st =
     (case handle_event e st of
        (Inl x, st') \<Rightarrow> (Inl x, st')
      | (Inr _, st') \<Rightarrow> handle_events es st')"

definition pci_handle_cbus_packet :: "decoded \<Rightarrow> pci_state \<Rightarrow> unit result \<times> pci_state" where
  "pci_handle_cbus_packet p st = handle_events (packet_events p) st"

definition pci_handle_data :: "pci_state handler" where
  "pci_handle_data = cbus_handle_data False (\<lambda>_. True) (\<lambda>_ s. s) pci_handle_cbus_packet"

section \<open>Sending\<close>

fun is_special_client :: "packet \<Rightarrow> bool" where
  "is_special_client ResetPacket = True"
| "is_special_client SmartConnectShortcutPacket = True"
| "is_special_client _ = False"

definition prepare_packet_seq ::
  "int \<Rightarrow> packet \<Rightarrow> bool \<Rightarrow> bool \<Rightarrow> pci_state \<Rightarrow> (bytes \<times> byte option) result \<times> pci_state" where
  "prepare_packet_seq now cmd confirmation basic_mode st =
     (let special = is_special_client cmd;
          basic_mode = (special \<or> basic_mode);
          confirmation = (\<not> special \<and> confirmation) in
      case encode_packet cmd of
        Inl e \<Rightarrow> (Inl e, st)
      | Inr cmd_bytes \<Rightarrow>
          let cmd_bytes = (if basic_mode then cmd_bytes else 0x5C # cmd_bytes) in
          if confirmation then
            let (code, st) = get_confirmation_code_seq now st in
            (Inr (cmd_bytes @ [code] @ END_COMMAND, Some code), st)
          else (Inr (cmd_bytes @ END_COMMAND, None), st))"

definition send_packet :: "bytes \<Rightarrow> pci_state \<Rightarrow> unit result \<times> pci_state" where
  "send_packet data st =
     (if \<not> connected st then (Inl OSError, st)
      else (Inr (), st\<lparr>written := written st @ [data]\<rparr>))"

definition send_seq ::
  "int \<Rightarrow> packet \<Rightarrow> bool \<Rightarrow> bool \<Rightarrow> pci_state \<Rightarrow> byte option result \<times> pci_state" where
  "send_seq now cmd confirmation basic_mode st =
     (case prepare_packet_seq now cmd confirmation basic_mode st of
        (Inl e, st) \<Rightarrow> (Inl e, st)
      | (Inr (prepared_data, conf_code), st) \<Rightarrow>
          (case send_packet prepared_data st of
             (Inl e, st) \<Rightarrow> (Inl e, st)
           | (Inr _, st) \<Rightarrow>
               (Inr conf_code,
                case conf_code of None \<Rightarrow> st | Some code \<Rightarrow> add_pending code prepared_data now st)))"

text \<open>A sequence of sends; the first exception ends it.\<close>

fun send_all :: "int \<Rightarrow> (packet \<times> bool) list \<Rightarrow> pci_state \<Rightarrow> unit result \<times> pci_state" where
  "send_all now [] st = (Inr (), st)"
| "send_all now ((cmd, basic_mode) # cmds) st =
     (case send_seq now cmd True basic_mode st of
        (Inl e, st) \<Rightarrow> (Inl e, st)
      | (Inr _, st) \<Rightarrow> send_all now cmds st)"

definition pci_reset_seq :: "int \<Rightarrow> pci_state \<Rightarrow> unit result \<times> pci_state" where
  "pci_reset_seq now st =
     send_all now
       ([(ResetPacket, False), (ResetPacket, False), (ResetPacket, False),
         (SmartConnectShortcutPacket, False)]
        @ map (\<lambda>(param, val).
            (DeviceManagementPacket (new_DeviceManagementPacket False CLASS_2 param val), True))
          [(0x21, 0xFF), (0x22, 0xFF), (0x42, 0x0E), (0x30, 0x79)])
       st"

section \<open>Commands\<close>

definition send_sals :: "int \<Rightarrow> sal list result \<Rightarrow> pci_state \<Rightarrow> byte option result \<times> pci_state" where
  "send_sals now sals st =
     (case rbind sals (new_PointToMultipointPacket True CLASS_4 None) of
        Inl e \<Rightarrow> (Inl e, st)
      | Inr p \<Rightarrow> send_seq now (PointToMultipointPacket p) True False st)"

definition normalize_group_addrs :: "int list \<Rightarrow> int list result" where
  "normalize_group_addrs group_addr = (if length group_addr > 9 then Inl ValueError else Inr group_addr)"

definition lighting_sals :: "(int \<Rightarrow> int \<Rightarrow> lighting_sal result) \<Rightarrow> int list \<Rightarrow> int \<Rightarrow> sal list result" where
  "lighting_sals mk group_addr app =
     rbind (normalize_group_addrs group_addr) (rmapM (\<lambda>ga. rmap Lighting (mk ga app)))"

definition lighting_group_on :: "int \<Rightarrow> int list \<Rightarrow> int \<Rightarrow> pci_state \<Rightarrow> byte option result \<times> pci_state" where
  "lighting_group_on now group_addr app st =
     send_sals now (lighting_sals new_LightingOnSAL group_addr app) st"

definition lighting_group_off :: "int \<Rightarrow> int list \<Rightarrow> int \<Rightarrow> pci_state \<Rightarrow> byte option result \<times> pci_state" where
  "lighting_group_off now group_addr app st =
     send_sals now (lighting_sals new_LightingOffSAL group_addr app) st"

definition lighting_group_terminate_ramp ::
  "int \<Rightarrow> int list \<Rightarrow> int \<Rightarrow> pci_state \<Rightarrow> byte option result \<times> pci_state" where
  "lighting_group_terminate_ramp now group_addr app st =
     send_sals now (lighting_sals new_LightingTerminateRampSAL group_addr app) st"

definition lighting_group_ramp ::
  "int \<Rightarrow> int \<Rightarrow> int \<Rightarrow> int \<Rightarrow> int \<Rightarrow> pci_state \<Rightarrow> byte option result \<times> pci_state" where
  "lighting_group_ramp now group_addr app duration level st =
     send_sals now (rmap (\<lambda>s. [Lighting s]) (new_LightingRampSAL group_addr app duration level)) st"

definition request_status :: "int \<Rightarrow> int \<Rightarrow> int \<Rightarrow> pci_state \<Rightarrow> byte option result \<times> pci_state" where
  "request_status now group_addr app st =
     send_sals now (Inr [StatusRequest \<lparr>sr_level_request = True, sr_group_address = group_addr,
                                       sr_child_application = app\<rparr>]) st"

definition clock_datetime :: "int \<Rightarrow> py_moment \<Rightarrow> pci_state \<Rightarrow> byte option result \<times> pci_state" where
  "clock_datetime now w st = send_sals now (rmap (map Clock) (clock_update_sal w)) st"

definition identify :: "int \<Rightarrow> int \<Rightarrow> int \<Rightarrow> pci_state \<Rightarrow> byte option result \<times> pci_state" where
  "identify now unit_address attribute st =
     (case new_PointToPointPacket True CLASS_4 unit_address 0 None [IdentifyCAL attribute] of
        Inl e \<Rightarrow> (Inl e, st)
      | Inr p \<Rightarrow> send_seq now (PointToPointPacket p) True False st)"

section \<open>The retry task\<close>

definition abandon :: "byte \<Rightarrow> pci_state \<Rightarrow> pci_state" where
  "abandon code st = release_confirmation_code code (remove_from_pending code st)"

fun resend_all :: "int \<Rightarrow> (byte \<times> bytes) list \<Rightarrow> pci_state \<Rightarrow> unit result \<times> pci_state" where
  "resend_all now [] st = (Inr (), st)"
| "resend_all now ((code, data) # rest) st =
     (case send_packet data (note_retry code data now st) of
        (Inl e, st) \<Rightarrow> (Inl e, st)
      | (Inr _, st) \<Rightarrow> resend_all now rest st)"

definition check_pending_seq :: "int \<Rightarrow> pci_state \<Rightarrow> unit result \<times> pci_state" where
  "check_pending_seq now st =
     (let st = check_and_release_timed_out now st;
          (to_retry, to_abandon) = collect_pending now (pending st);
          st = fold abandon to_abandon st in
      resend_all now to_retry st)"

definition run_task :: "task \<Rightarrow> pci_state \<Rightarrow> pci_state" where
  "run_task t st =
     (case t of
        RemovePending c \<Rightarrow> remove_from_pending c st
      | ReleaseCode c \<Rightarrow> release_confirmation_code c st
      | _ \<Rightarrow> st)"

section \<open>The pool stays well formed\<close>

lemma prepare_packet_cases:
  assumes "prepare_packet_seq now cmd confirmation basic_mode st = (r, st')"
  shows "(st' = st \<and> (\<forall>data code. r \<noteq> Inr (data, Some code))) \<or>
    (\<exists>code data. get_confirmation_code_seq now st = (code, st') \<and> r = Inr (data, Some code))"
  using assms
  by (auto simp: prepare_packet_seq_def Let_def case_prod_beta split: sum.splits if_splits)

lemma conf_inv_prepare [inv_intros]:
  assumes "conf_inv st" "prepare_packet_seq now cmd confirmation basic_mode st = (r, st')"
  shows "conf_inv st'"
  using prepare_packet_cases [OF assms(2)] conf_inv_get_seq [OF assms(1)] assms(1) by blast

lemma prepare_code:
  assumes "conf_inv st" "prepare_packet_seq now cmd confirmation basic_mode st = (Inr (data, Some code), st')"
  shows "code \<in> set CONFIRMATION_CODES" "code \<in> fst ` set (in_use st')"
  using prepare_packet_cases [OF assms(2)] conf_inv_get_seq [OF assms(1)] by auto

lemma conf_inv_written [simp]: "conf_inv (st\<lparr>written := w\<rparr>) = conf_inv st"
  by (simp add: conf_inv_def)

lemma conf_inv_send_packet [inv_intros]:
  "conf_inv st \<Longrightarrow> send_packet data st = (r, st') \<Longrightarrow> conf_inv st'"
  by (auto simp: send_packet_def split: if_splits)

lemma conf_inv_send [inv_intros]:
  assumes "conf_inv st" "send_seq now cmd confirmation basic_mode st = (r, st')"
  shows "conf_inv st'"
proof -
  obtain p st1 where p: "prepare_packet_seq now cmd confirmation basic_mode st = (p, st1)"
    by (cases "prepare_packet_seq now cmd confirmation basic_mode st")
  have inv1: "conf_inv st1" using assms(1) p by (rule conf_inv_prepare)
  show ?thesis
  proof (cases p)
    case (Inl e)
    with assms p inv1 show ?thesis by (simp add: send_seq_def)
  next
    case (Inr dc)
    obtain data conf where dc: "dc = (data, conf)" by (cases dc)
    have "conf = Some code \<Longrightarrow> code \<in> set CONFIRMATION_CODES" for code
      using prepare_code [OF assms(1)] p Inr dc by auto
    with assms p inv1 Inr dc show ?thesis
      by (auto simp: send_seq_def send_packet_def split: option.splits if_splits intro: conf_inv_add_pending)
  qed
qed

lemma conf_inv_send_sals:
  "conf_inv st \<Longrightarrow> send_sals now sals st = (r, st') \<Longrightarrow> conf_inv st'"
  by (auto simp: send_sals_def split: sum.splits intro: inv_intros)

lemma conf_inv_send_all:
  "conf_inv st \<Longrightarrow> send_all now cmds st = (r, st') \<Longrightarrow> conf_inv st'"
proof (induction now cmds st rule: send_all.induct)
  case (2 now cmd basic_mode cmds st)
  then show ?case by (auto split: prod.splits sum.splits dest: conf_inv_send)
qed simp

lemma conf_inv_abandon: "conf_inv st \<Longrightarrow> conf_inv (fold abandon codes st)"
  by (induction codes arbitrary: st) (auto simp: abandon_def intro: conf_inv_release conf_inv_remove)

lemma conf_inv_resend:
  "conf_inv st \<Longrightarrow> resend_all now xs st = (r, st') \<Longrightarrow> conf_inv st'"
proof (induction now xs st rule: resend_all.induct)
  case (2 now code data rest st)
  then show ?case
    by (auto simp: send_packet_def split: if_splits intro: inv_intros)
qed simp

lemma conf_inv_check_pending:
  "conf_inv st \<Longrightarrow> check_pending_seq now st = (r, st') \<Longrightarrow> conf_inv st'"
  by (auto simp: check_pending_seq_def Let_def case_prod_beta
      intro: conf_inv_resend [rotated] conf_inv_abandon conf_inv_check)

lemma conf_inv_run_task: "conf_inv st \<Longrightarrow> conf_inv (run_task t st)"
  by (auto simp: run_task_def split: task.splits intro: inv_intros)

section \<open>What a send does\<close>

lemma more_fixed:
  "conf_state.more (drop_code c st) = conf_state.more st"
  "conf_state.more (take_code c now st) = conf_state.more st"
  "conf_state.more (st\<lparr>next_index := i\<rparr>) = conf_state.more st"
  "conf_state.more (add_pending c d now st) = conf_state.more st"
  "conf_state.more (remove_from_pending c st) = conf_state.more st"
  "conf_state.more (release_confirmation_code c st) = conf_state.more st"
  "conf_state.more (note_retry c d now st) = conf_state.more st"
  by (simp_all add: drop_code_def take_code_def add_pending_def remove_from_pending_def
      release_confirmation_code_def note_retry_def split: option.splits)

lemma more_fold_drop: "conf_state.more (fold drop_code cs st) = conf_state.more st"
  by (induction cs arbitrary: st) (simp_all add: more_fixed)

lemma more_check: "conf_state.more (check_and_release_timed_out now st) = conf_state.more st"
  by (simp add: check_and_release_timed_out_def Let_def more_fold_drop)

lemma more_get: "get_confirmation_code_seq now st = (c, st') \<Longrightarrow> conf_state.more st' = conf_state.more st"
  by (auto simp: get_confirmation_code_seq_def allocate_code_def force_allocate_def Let_def more_fixed
      more_check split: prod.splits option.splits if_splits)

lemma pci_more:
  fixes st st' :: pci_state
  assumes "conf_state.more st = conf_state.more st'"
  shows "connected st = connected st'" "written st = written st'" "tasks st = tasks st'"
    "events st = events st'"
  using assms by (cases st; cases st'; simp)+

text \<open>
  A confirmed send on a live connection writes one line, ending in the code it took, and leaves
  the packet pending under that code with one attempt.
\<close>

lemma send_seq_confirmed:
  assumes "conf_inv st" "connected st" "encode_packet cmd = Inr b" "\<not> is_special_client cmd"
  shows "\<exists>code st'. send_seq now cmd True basic_mode st = (Inr (Some code), st') \<and>
    code \<in> set CONFIRMATION_CODES \<and>
    code \<notin> fst ` set (in_use (check_and_release_timed_out now st)) \<and>
    code \<in> fst ` set (in_use st') \<and>
    (let line = (if basic_mode then b else 0x5C # b) @ [code] @ END_COMMAND in
     written st' = written st @ [line] \<and> map_of (pending st') code = Some (line, 1, now)) \<and>
    connected st' \<and> tasks st' = tasks st"
proof -
  define st1 where "st1 = check_and_release_timed_out now st"
  have st1: "connected st1" "written st1 = written st" "tasks st1 = tasks st"
    using assms(2) pci_more [OF more_check [of now st]] by (simp_all add: st1_def)
  obtain code i where g: "get_confirmation_code_seq now st = (code, take_code code now (st1\<lparr>next_index := i\<rparr>))"
    "code \<in> set CONFIRMATION_CODES" "code \<notin> fst ` set (in_use st1)"
    using get_confirmation_code_seq_fresh [OF assms(1), of now] unfolding st1_def by blast
  then show ?thesis using assms st1
    by (auto simp: send_seq_def prepare_packet_seq_def send_packet_def take_code_def add_pending_def
        AList.dom_update AList.update_conv' Let_def simp flip: st1_def)
qed

lemma send_disconnected:
  assumes "\<not> connected st" "encode_packet cmd = Inr b"
  shows "\<exists>st'. send_seq now cmd confirmation basic_mode st = (Inl OSError, st') \<and> written st' = written st"
proof -
  obtain code st1 where g: "get_confirmation_code_seq now st = (code, st1)"
    by (cases "get_confirmation_code_seq now st")
  show ?thesis using assms g pci_more [OF more_get [OF g]]
    by (auto simp: send_seq_def prepare_packet_seq_def send_packet_def Let_def)
qed

lemma send_encode_error:
  "encode_packet cmd = Inl e \<Longrightarrow> send_seq now cmd confirmation basic_mode st = (Inl e, st)"
  by (simp add: send_seq_def prepare_packet_seq_def Let_def)

section \<open>The reset sequence\<close>

lemma dm_line:
  assumes "is_byte param" "is_byte val"
  shows "encode_packet (DeviceManagementPacket (new_DeviceManagementPacket False CLASS_2 param val)) =
    Inr (b16encode [0xA3, byte_of param, 0, byte_of val])"
  using assms
  by (simp add: new_DeviceManagementPacket_def dm_encode_def base_encode_def add_checksum_if_def flags_def)

text \<open>Sends of a batch of management packets from a clean pool, one code after the other.\<close>

lemma send_seq_rotated:
  assumes r: "rotated k now st" and k: "k < 18" and c: "connected st"
    and e: "encode_packet cmd = Inr b" and s: "\<not> is_special_client cmd"
  shows "\<exists>st'. send_seq now cmd True basic_mode st = (Inr (Some (CONFIRMATION_CODES ! k)), st') \<and>
    rotated (Suc k) now st' \<and> connected st' \<and>
    written st' = written st @ [(if basic_mode then b else 0x5C # b) @ [CONFIRMATION_CODES ! k] @ END_COMMAND]"
proof -
  obtain st1 where g: "get_confirmation_code_seq now st = (CONFIRMATION_CODES ! k, st1)"
    "rotated (Suc k) now st1"
    using rotated_step [OF r k, of now] by auto
  note m = pci_more [OF more_get [OF g(1)]]
  have "rotated (Suc k) now (add_pending c d now (st1\<lparr>written := w\<rparr>))" for c d w
    using g(2) by (simp add: rotated_def add_pending_def)
  then show ?thesis using c e s g(1) m
    by (auto simp: send_seq_def prepare_packet_seq_def send_packet_def Let_def add_pending_def)
qed

lemma send_seq_special:
  assumes "is_special_client cmd" "connected st" "encode_packet cmd = Inr b"
  shows "send_seq now cmd True basic_mode st = (Inr None, st\<lparr>written := written st @ [b @ END_COMMAND]\<rparr>)"
  using assms by (simp add: send_seq_def prepare_packet_seq_def send_packet_def)

lemma rotated_written [simp]: "rotated k t (st\<lparr>written := w\<rparr>) = rotated k t st"
  by (simp add: rotated_def)

lemma send_all_dm:
  assumes "rotated k now st" "k + length params \<le> 18" "connected st"
    and "\<forall>(p, v) \<in> set params. is_byte p \<and> is_byte v"
  shows "\<exists>st'. send_all now (map (\<lambda>(param, val).
            (DeviceManagementPacket (new_DeviceManagementPacket False CLASS_2 param val), True)) params) st
      = (Inr (), st') \<and> rotated (k + length params) now st' \<and> connected st' \<and>
    written st' = written st @
      map (\<lambda>((p, v), c). b16encode [0xA3, byte_of p, 0, byte_of v] @ [c] @ END_COMMAND)
        (zip params (drop k CONFIRMATION_CODES))"
  using assms
proof (induction params arbitrary: k st)
  case (Cons pv params)
  obtain p v where pv: "pv = (p, v)" by (cases pv)
  have k: "k < 18" using Cons.prems(2) by simp
  have e: "encode_packet (DeviceManagementPacket (new_DeviceManagementPacket False CLASS_2 p v)) =
      Inr (b16encode [0xA3, byte_of p, 0, byte_of v])"
    by (rule dm_line) (use Cons.prems(4) pv in auto)
  from send_seq_rotated [OF Cons.prems(1) k Cons.prems(3) e, of True] obtain st1 where
    s: "send_seq now (DeviceManagementPacket (new_DeviceManagementPacket False CLASS_2 p v)) True True st =
      (Inr (Some (CONFIRMATION_CODES ! k)), st1)" "rotated (Suc k) now st1" "connected st1"
      "written st1 = written st @ [b16encode [0xA3, byte_of p, 0, byte_of v] @ [CONFIRMATION_CODES ! k] @ END_COMMAND]"
    by auto
  from Cons.IH [OF s(2) _ s(3)] Cons.prems obtain st2 where
    "send_all now (map (\<lambda>(param, val).
            (DeviceManagementPacket (new_DeviceManagementPacket False CLASS_2 param val), True)) params) st1
      = (Inr (), st2)" "rotated (Suc k + length params) now st2" "connected st2"
    "written st2 = written st1 @
      map (\<lambda>((p, v), c). b16encode [0xA3, byte_of p, 0, byte_of v] @ [c] @ END_COMMAND)
        (zip params (drop (Suc k) CONFIRMATION_CODES))" by auto
  moreover have "drop k CONFIRMATION_CODES = CONFIRMATION_CODES ! k # drop (Suc k) CONFIRMATION_CODES"
    using k by (simp add: Cons_nth_drop_Suc codes_facts)
  ultimately show ?case using s pv by (simp del: b16encode.simps)
qed (auto simp: codes_facts)

lemma reset_lines:
  assumes "rotated 0 now st" "connected st"
  shows "\<exists>st'. pci_reset_seq now st = (Inr (), st') \<and> rotated 4 now st' \<and> connected st' \<and>
    written st' = written st @ map (\<lambda>l. ascii l @ END_COMMAND)
      [''~'', ''~'', ''~'', ''|'', ''A32100FFh'', ''A32200FFi'', ''A342000Ej'', ''A3300079k'']"
proof -
  define st1 where "st1 = st\<lparr>written := written st @ map (\<lambda>l. ascii l @ END_COMMAND) [''~'', ''~'', ''~'', ''|'']\<rparr>"
  have st1: "rotated 0 now st1" "connected st1" using assms by (simp_all add: st1_def)
  have reset: "pci_reset_seq now st = send_all now (map (\<lambda>(param, val).
            (DeviceManagementPacket (new_DeviceManagementPacket False CLASS_2 param val), True))
          [(0x21, 0xFF), (0x22, 0xFF), (0x42, 0x0E), (0x30, 0x79)]) st1"
    using assms by (simp add: pci_reset_seq_def send_seq_special ascii_def st1_def del: list.map)
      (simp add: ascii_def)
  have lines: "map (\<lambda>((p, v), c). b16encode [0xA3, byte_of p, 0, byte_of v] @ [c] @ END_COMMAND)
        (zip [(0x21, 0xFF), (0x22, 0xFF), (0x42, 0x0E), (0x30, 0x79)] (drop 0 CONFIRMATION_CODES)) =
      map (\<lambda>l. ascii l @ END_COMMAND) [''A32100FFh'', ''A32200FFi'', ''A342000Ej'', ''A3300079k'']"
    by (simp add: CONFIRMATION_CODES_def ascii_def hex_char_def)
  have "\<forall>(p, v) \<in> set [(0x21, 0xFF), (0x22, 0xFF), (0x42, 0x0E), (0x30, 0x79)]. is_byte p \<and> is_byte v"
    by simp
  from send_all_dm [OF st1(1) _ st1(2) this] obtain st' where
    s: "send_all now (map (\<lambda>(param, val).
            (DeviceManagementPacket (new_DeviceManagementPacket False CLASS_2 param val), True))
          [(0x21, 0xFF), (0x22, 0xFF), (0x42, 0x0E), (0x30, 0x79)]) st1 = (Inr (), st')"
      "rotated (0 + length [(0x21, 0xFF), (0x22, 0xFF), (0x42, 0x0E), (0x30 :: int, 0x79 :: int)]) now st'"
      "connected st'"
    and w: "written st' = written st1 @
      map (\<lambda>((p, v), c). b16encode [0xA3, byte_of p, 0, byte_of v] @ [c] @ END_COMMAND)
        (zip [(0x21, 0xFF), (0x22, 0xFF), (0x42, 0x0E), (0x30, 0x79)] (drop 0 CONFIRMATION_CODES))"
    by auto
  have "written st' = written st @ map (\<lambda>l. ascii l @ END_COMMAND)
      [''~'', ''~'', ''~'', ''|'', ''A32100FFh'', ''A32200FFi'', ''A342000Ej'', ''A3300079k'']"
    unfolding w lines by (simp add: st1_def)
  with s show ?thesis unfolding reset by (simp add: eval_nat_numeral)
qed

section \<open>A pass of the retry task\<close>

text \<open>What a pass makes of one pending entry: left alone, sent again, or given up.\<close>

definition after_pass :: "int \<Rightarrow> (bytes \<times> nat \<times> int) option \<Rightarrow> (bytes \<times> nat \<times> int) option" where
  "after_pass now e =
     (case e of
        None \<Rightarrow> None
      | Some (data, n, t) \<Rightarrow>
          if now - t < RETRY_INTERVAL then Some (data, n, t)
          else if n < MAX_PACKET_RETRIES then Some (data, n + 1, now) else None)"

lemma abandon_one:
  "map_of (pending (abandon k st)) = (map_of (pending st))(k := None)"
  "map_of (in_use (abandon k st)) = (map_of (in_use st))(k := None)"
  by (simp_all add: abandon_def release_confirmation_code_def drop_code_def remove_from_pending_def
      AList.delete_conv' image_iff fun_eq_iff)
    (auto simp: map_of_eq_None_iff)

lemma abandon_fields:
  "map_of (pending (fold abandon cs st)) c = (if c \<in> set cs then None else map_of (pending st) c)"
  "map_of (in_use (fold abandon cs st)) c = (if c \<in> set cs then None else map_of (in_use st) c)"
  "conf_state.more (fold abandon cs st) = conf_state.more st"
  by (induction cs arbitrary: st) (simp_all add: abandon_one, simp_all add: abandon_def more_fixed)

lemma resend_all_spec:
  assumes "connected st" "distinct (map fst rs)"
  shows "\<exists>st'. resend_all now rs st = (Inr (), st') \<and> connected st' \<and>
    written st' = written st @ map snd rs \<and> in_use st' = in_use st \<and>
    (\<forall>c. map_of (pending st') c =
       (case map_of rs c of
          None \<Rightarrow> map_of (pending st) c
        | Some data \<Rightarrow> map_option (\<lambda>(d, n, t). (data, n + 1, now)) (map_of (pending st) c)))"
  using assms
proof (induction rs arbitrary: st)
  case (Cons cd rs)
  obtain code data where cd: "cd = (code, data)" by (cases cd)
  define st1 where "st1 = note_retry code data now st"
  have m: "connected st1 = connected st" "written st1 = written st"
    using pci_more [OF more_fixed(7) [of code data now st]] by (simp_all add: st1_def)
  have "in_use st1 = in_use st" by (simp add: st1_def note_retry_def split: option.split)
  moreover have "map_of (pending st1) c = (if c = code
      then map_option (\<lambda>(d, n, t). (data, n + 1, now)) (map_of (pending st) c) else map_of (pending st) c)" for c
    by (auto simp: st1_def note_retry_def AList.update_conv' split: option.splits)
  moreover have "map_of rs code = None" using Cons.prems(2) cd by (auto simp: map_of_eq_None_iff)
  moreover obtain st' where "resend_all now rs (st1\<lparr>written := written st1 @ [data]\<rparr>) = (Inr (), st')"
    "connected st'" "written st' = written st1 @ data # map snd rs" "in_use st' = in_use st1"
    "\<And>c. map_of (pending st') c = (case map_of rs c of None \<Rightarrow> map_of (pending st1) c
      | Some data \<Rightarrow> map_option (\<lambda>(d, n, t). (data, n + 1, now)) (map_of (pending st1) c))"
    using Cons.IH [of "st1\<lparr>written := written st1 @ [data]\<rparr>"] Cons.prems m
    by (auto cong: option.case_cong)
  ultimately show ?case using m Cons.prems(1)
    by (intro exI [of _ st']) (auto simp: cd send_packet_def simp flip: st1_def
        split: if_splits option.splits cong: option.case_cong)
qed simp

lemma check_pending_spec:
  assumes "conf_inv st" "connected st"
  shows "\<exists>st'. check_pending_seq now st = (Inr (), st') \<and> connected st' \<and> conf_inv st' \<and>
    written st' = written st @ map snd (fst (collect_pending now (pending (check_and_release_timed_out now st)))) \<and>
    (\<forall>c. map_of (pending st') c = after_pass now (map_of (pending (check_and_release_timed_out now st)) c) \<and>
       (map_of (pending (check_and_release_timed_out now st)) c \<noteq> None \<longrightarrow> map_of (pending st') c = None \<longrightarrow>
        map_of (in_use st') c = None))"
proof -
  define st1 where "st1 = check_and_release_timed_out now st"
  have inv1: "conf_inv st1" unfolding st1_def using assms(1) by (rule conf_inv_check)
  then have d: "distinct (map fst (pending st1))" by (simp add: conf_inv_def)
  obtain rs as where c: "collect_pending now (pending st1) = (rs, as)"
    by (cases "collect_pending now (pending st1)")
  have drs: "distinct (map fst rs)" using collect_pending_distinct [OF d, of now] c by simp
  have rs: "map_of rs k = (case map_of (pending st1) k of None \<Rightarrow> None | Some (d, n, t) \<Rightarrow>
      if now - t \<ge> RETRY_INTERVAL \<and> n < MAX_PACKET_RETRIES then Some d else None)" for k
  proof -
    have "(map_of rs k = Some d') = (\<exists>n t. map_of (pending st1) k = Some (d', n, t) \<and>
        now - t \<ge> RETRY_INTERVAL \<and> n < MAX_PACKET_RETRIES)" for d'
      using collect_pending_sets(1) [of now "pending st1"] c d drs
      by (simp add: map_of_eq_Some_iff)
    then show ?thesis
      by (cases "map_of rs k"; cases "map_of (pending st1) k") (auto split: if_splits)
  qed
  have as: "k \<in> set as \<longleftrightarrow> (\<exists>d n t. map_of (pending st1) k = Some (d, n, t) \<and>
      now - t \<ge> RETRY_INTERVAL \<and> MAX_PACKET_RETRIES \<le> n)" for k
    using collect_pending_sets(2) [of now "pending st1"] c d by (simp add: map_of_eq_Some_iff)
  have conn: "connected (fold abandon as st1)" "written (fold abandon as st1) = written st"
    using assms(2) pci_more [OF abandon_fields(3) [of as st1]] pci_more [OF more_check [of now st]]
    by (simp_all add: st1_def)
  obtain st' where s: "resend_all now rs (fold abandon as st1) = (Inr (), st')" "connected st'"
    "written st' = written st @ map snd rs" "in_use st' = in_use (fold abandon as st1)"
    "\<And>k. map_of (pending st') k =
       (case map_of rs k of
          None \<Rightarrow> map_of (pending (fold abandon as st1)) k
        | Some data \<Rightarrow> map_option (\<lambda>(d, n, t). (data, n + 1, now)) (map_of (pending (fold abandon as st1)) k))"
    using resend_all_spec [OF conn(1) drs, of now] conn(2) by metis
  have p: "map_of (pending st') k = after_pass now (map_of (pending st1) k)" for k
    using rs [of k] as [of k] unfolding s(5) abandon_fields after_pass_def
    by (auto split: option.splits if_splits)
  moreover have "map_of (in_use st') k = None" if "map_of (pending st1) k \<noteq> None" "map_of (pending st') k = None" for k
    using that as [of k] unfolding p s(4) abandon_fields after_pass_def
    by (auto split: if_splits)
  moreover have "check_pending_seq now st = (Inr (), st')"
    using s(1) c by (simp add: check_pending_seq_def flip: st1_def)
  ultimately show ?thesis using s c conf_inv_check_pending [OF assms(1)]
    by (auto simp flip: st1_def)
qed

section \<open>What reaches the PCI\<close>

lemma encode_confirmation_irrelevant:
  "encode_packet (PointToMultipointPacket (p\<lparr>p_confirmation := c\<rparr>)) = encode_packet (PointToMultipointPacket p)"
  by (simp add: pm_encode_def base_encode_def flags_def split: option.split)

lemma pm_wf_confirmation [simp]: "pm_wf (p\<lparr>p_confirmation := c\<rparr>) = pm_wf p"
  by (simp add: pm_wf_def split: option.split)

text \<open>
  A well-formed packet sent by the client is, as a line, decoded by the other side into the same
  packet with the confirmation code the client took.
\<close>

lemma send_reaches_pci:
  assumes inv: "conf_inv st" "connected st" and p: "pm_wf p" "p_source p = None"
  shows "\<exists>code st' line wire. send_seq now (PointToMultipointPacket p) True False st = (Inr (Some code), st') \<and>
    code \<in> set CONFIRMATION_CODES \<and> code \<in> fst ` set (in_use st') \<and>
    encode_packet (PointToMultipointPacket p) = Inr wire \<and> line = 0x5C # wire @ [code] @ END_COMMAND \<and>
    written st' = written st @ [line] \<and> map_of (pending st') code = Some (line, 1, now) \<and> tasks st' = tasks st \<and>
    (\<forall>strict rest. decode_packet (p_checksum p) strict False (line @ rest) =
       Inr (Some (Packet (PointToMultipointPacket (p\<lparr>p_confirmation := Some [code]\<rparr>))), length line))"
proof -
  define P where "P c = PointToMultipointPacket (p\<lparr>p_confirmation := Some [c]\<rparr>)" for c
  have rt: "\<exists>wire. encode_packet (PointToMultipointPacket p) = Inr wire \<and>
    (\<forall>strict rest. decode_packet (p_checksum p) strict False (0x5C # wire @ [c] @ END_COMMAND @ rest) =
       Inr (Some (Packet (P c)), length wire + 3))" if "c \<in> set CONFIRMATION_CODES" for c
    using to_pci_roundtrip [of "P c" "base_packet.truncate (p\<lparr>p_confirmation := Some [c]\<rparr>)" "Some [c]"] that p
    by (simp add: P_def sent_by_client_def conf_ok_def conf_suffix_def encode_confirmation_irrelevant
        eval_nat_numeral del: encode_packet.simps)
  have "0x68 \<in> set CONFIRMATION_CODES" by (simp add: CONFIRMATION_CODES_def)
  from rt [OF this] obtain wire where w: "encode_packet (PointToMultipointPacket p) = Inr wire" by blast
  from send_seq_confirmed [OF inv w, of now False] obtain code st' where
    s: "send_seq now (PointToMultipointPacket p) True False st = (Inr (Some code), st')"
      "code \<in> set CONFIRMATION_CODES" "code \<in> fst ` set (in_use st')"
      "written st' = written st @ [0x5C # wire @ [code] @ END_COMMAND]"
      "map_of (pending st') code = Some (0x5C # wire @ [code] @ END_COMMAND, 1, now)" "tasks st' = tasks st"
    by (auto simp: Let_def)
  have "\<forall>strict rest. decode_packet (p_checksum p) strict False ((0x5C # wire @ [code] @ END_COMMAND) @ rest) =
       Inr (Some (Packet (P code)), length (0x5C # wire @ [code] @ END_COMMAND))"
    using rt [OF s(2)] w by (simp add: END_COMMAND_def)
  with s w show ?thesis unfolding P_def by blast
qed

text \<open>
  The on, off and terminate commands build one SAL per group address, two bytes each, and so a
  well-formed packet of at most nine SALs.
\<close>

lemma rmapM_lighting:
  assumes "mk \<in> {new_LightingOnSAL, new_LightingOffSAL, new_LightingTerminateRampSAL}"
    and "app \<in> set lighting_applications" "\<forall>ga \<in> set gas. is_byte ga"
  shows "\<exists>sals bs. rmapM (\<lambda>ga. rmap Lighting (mk ga app)) gas = Inr sals \<and> list_all (sal_ok app) sals \<and>
    list_all (\<lambda>s. \<exists>l. s = Lighting l) sals \<and> length sals = length gas \<and>
    rconcat sal_encode sals = Inr bs \<and> length bs = 2 * length gas"
  using assms(3)
proof (induction gas)
  case (Cons ga gas)
  then obtain sals bs where IH: "rmapM (\<lambda>ga. rmap Lighting (mk ga app)) gas = Inr sals"
    "list_all (sal_ok app) sals" "list_all (\<lambda>s. \<exists>l. s = Lighting l) sals" "length sals = length gas"
    "rconcat sal_encode sals = Inr bs" "length bs = 2 * length gas" by auto
  have ga: "is_byte ga" "lighting_init ga app = Inr ()" using Cons.prems assms(2) by simp_all
  from assms(1) ga obtain l b where "mk ga app = Inr l" "lighting_ok app l" "lighting_encode l = Inr b" "length b = 2"
    by (auto simp: new_LightingOnSAL_def new_LightingOffSAL_def new_LightingTerminateRampSAL_def)
  with IH assms(2) show ?case
    by (intro exI [of _ "Lighting l # sals"] exI [of _ "b @ bs"]) simp
qed simp

lemma new_pm_packet:
  assumes "sals \<noteq> []" "list_all (sal_ok a) sals"
  shows "new_PointToMultipointPacket c prio None sals =
    Inr \<lparr>p_checksum = c, p_dat = POINT_TO_MULTIPOINT, p_rc = 0, p_dp = False, p_priority = prio,
      p_confirmation = None, p_source = None, pm_application = Some a, pm_sals = sals\<rparr>"
proof (cases sals)
  case (Cons s rest)
  then have "sal_application s = a" "list_all (sal_ok a) rest"
    using assms(2) by (simp_all add: sal_ok_application)
  with Cons show ?thesis
    by (simp add: new_PointToMultipointPacket_def append_sal_def append_sals_ok [where a = a])
qed (use assms in simp)

lemma lighting_command:
  assumes mk: "mk \<in> {new_LightingOnSAL, new_LightingOffSAL, new_LightingTerminateRampSAL}"
    and app: "app \<in> set lighting_applications" and ga: "\<forall>ga \<in> set gas. is_byte ga" "gas \<noteq> []" "length gas \<le> 9"
  obtains p wire where "rbind (lighting_sals mk gas app) (new_PointToMultipointPacket True CLASS_4 None) = Inr p"
    "pm_wf p" "p_source p = None" "p_checksum p" "list_all (\<lambda>s. \<exists>l. s = Lighting l) (pm_sals p)"
    "encode_packet (PointToMultipointPacket p) = Inr wire" "length wire = 8 + 4 * length gas"
proof -
  obtain sals bs where s: "rmapM (\<lambda>ga. rmap Lighting (mk ga app)) gas = Inr sals" "list_all (sal_ok app) sals"
    "list_all (\<lambda>s. \<exists>l. s = Lighting l) sals" "length sals = length gas"
    "rconcat sal_encode sals = Inr bs" "length bs = 2 * length gas"
    using rmapM_lighting [OF mk app ga(1)] by blast
  then have "sals \<noteq> []" using ga(2) by auto
  define p where "p = \<lparr>p_checksum = True, p_dat = POINT_TO_MULTIPOINT, p_rc = 0, p_dp = False,
    p_priority = CLASS_4, p_confirmation = None, p_source = None, pm_application = Some app, pm_sals = sals\<rparr>"
  have g: "get_application app = Inr LightingApplication" using app application_ids(1) by simp
  then have "is_byte app" by (rule get_application_byte)
  then have e: "pm_encode p = Inr (with_checksum True ([byte_of (flags p)] @ [byte_of app, 0] @ bs))"
    using s(5) by (simp add: p_def pm_encode_def is_byte_def base_encode_eq add_checksum_if_eq)
  show ?thesis
  proof (rule that [of p])
    show "rbind (lighting_sals mk gas app) (new_PointToMultipointPacket True CLASS_4 None) = Inr p"
      using s(1) ga(3) new_pm_packet [OF \<open>sals \<noteq> []\<close> s(2)]
      by (simp add: lighting_sals_def normalize_group_addrs_def p_def)
    show "pm_wf p" using s(2) g by (simp add: p_def pm_wf_def)
    show "p_source p = None" "p_checksum p" "list_all (\<lambda>s. \<exists>l. s = Lighting l) (pm_sals p)"
      using s(3) by (simp_all add: p_def)
    show "encode_packet (PointToMultipointPacket p) =
        Inr (b16encode (with_checksum True ([byte_of (flags p)] @ [byte_of app, 0] @ bs)))"
      using e by simp
    show "length (b16encode (with_checksum True ([byte_of (flags p)] @ [byte_of app, 0] @ bs))) = 8 + 4 * length gas"
      using s(6) by (simp add: with_checksum_def)
  qed
qed

section \<open>Confirmation\<close>

lemma confirmation_received:
  assumes "c \<in> set CONFIRMATION_CODES" "b_closed bs = False" "b_buf bs = []" "b_size_limit bs = MAX_BUFFER_SIZE"
  shows "\<exists>bs'. data_received pci_handle_data [c, 0x2E] bs = bs' \<and> b_buf bs' = [] \<and>
    tasks (b_state bs') = tasks (b_state bs) @ [RemovePending c, ReleaseCode c] \<and>
    in_use (b_state bs') = in_use (b_state bs) \<and> pending (b_state bs') = pending (b_state bs) \<and>
    events (b_state bs') = events (b_state bs) @ [ConfirmationEvent [c] True]"
proof -
  have "c \<noteq> 0x2B" "c \<noteq> 0x21" using assms(1) by (auto simp: CONFIRMATION_CODES_def)
  then have d: "decode_packet True True True [c, 0x2E] = Inr (Some (Packet (ConfirmationPacket [c] True)), 2)"
    using assms(1) by (simp add: decode_packet_def special_prefix_def MIN_MESSAGE_SIZE_def)
  show ?thesis using assms
    by (simp add: data_received_def MAX_BUFFER_SIZE_def process_buffer.simps [of _ "[c, 0x2E]"]
        process_buffer.simps [of _ "[]"] pci_handle_data_def cbus_handle_data_def d
        pci_handle_cbus_packet_def on_confirmation_def Let_def)
qed

lemma confirmation_tasks_maps:
  "map_of (in_use (run_task (ReleaseCode c) (run_task (RemovePending c) st))) = (map_of (in_use st))(c := None)"
  "map_of (pending (run_task (ReleaseCode c) (run_task (RemovePending c) st))) = (map_of (pending st))(c := None)"
  using abandon_one [of c st] by (simp_all add: run_task_def abandon_def)

section \<open>Properties\<close>

text \<open>
  C9: How the bytes from the PCI are cut into chunks makes no difference to the client: receiving
  any number of chunks has the same effect on the buffer and on the protocol's state as receiving
  their concatenation, if that fits the buffer and raises no exception.
\<close>

theorem client_chunking:
  assumes "length (b_buf st) + length (concat chunks) \<le> b_size_limit st"
    and "fst (process_buffer pci_handle_data (b_buf st @ concat chunks) (b_state st)) = Inr ()"
    and "chunks \<noteq> []"
  shows "fold (data_received pci_handle_data) chunks st = data_received pci_handle_data (concat chunks) st"
  using assms unfolding pci_handle_data_def
  by (cases "process_buffer pci_handle_data (b_buf st @ concat chunks) (b_state st)")
    (auto simp: pci_handle_data_def intro: client_frames.data_received_many)

theorem client_chunking_witness:
  "fold (data_received pci_handle_data) [ascii ''h'', ascii ''.''] (new_BufferedProtocol 256 (new_PCIProtocol 0 None)) =
   data_received pci_handle_data (ascii ''h.'') (new_BufferedProtocol 256 (new_PCIProtocol 0 None))"
proof -
  have "decode_packet True True True (ascii ''h.'') = Inr (Some (Packet (ConfirmationPacket [0x68] True)), 2)"
    by (simp add: decode_packet_def special_prefix_def ascii_def MIN_MESSAGE_SIZE_def CONFIRMATION_CODES_def)
  then have "fst (process_buffer pci_handle_data (ascii ''h.'') (new_PCIProtocol 0 None)) = Inr ()"
    by (simp add: process_buffer.simps [of _ "[0x68, 0x2E]"] process_buffer.simps [of _ "[]"] pci_handle_data_def
        cbus_handle_data_def pci_handle_cbus_packet_def on_confirmation_def ascii_def Let_def)
  then show ?thesis
    using client_chunking [of "new_BufferedProtocol 256 (new_PCIProtocol 0 None)" "[ascii ''h'', ascii ''.'']"]
    by (simp add: new_BufferedProtocol_def ascii_def)
qed

text \<open>
  A confirmed send on a live connection takes a free code, writes one line that ends in that
  code, records that line as pending under the code with one attempt, and changes no task.
\<close>

lemma confirmed_send:
  assumes "conf_inv st" and "connected st" and "encode_packet cmd = Inr b" and "\<not> is_special_client cmd"
  shows "\<exists>code st'. send_seq now cmd True basic_mode st = (Inr (Some code), st') \<and>
    code \<in> set CONFIRMATION_CODES \<and>
    code \<notin> fst ` set (in_use (check_and_release_timed_out now st)) \<and> code \<in> fst ` set (in_use st') \<and>
    (let line = (if basic_mode then b else 0x5C # b) @ [code] @ END_COMMAND in
     written st' = written st @ [line] \<and> map_of (pending st') code = Some (line, 1, now)) \<and>
    conf_inv st' \<and> tasks st' = tasks st"
proof -
  obtain code st' where s: "send_seq now cmd True basic_mode st = (Inr (Some code), st')"
    using send_seq_confirmed [OF assms, of now basic_mode] by blast
  with send_seq_confirmed [OF assms, of now basic_mode] conf_inv_send [OF assms(1) s] show ?thesis by auto
qed

text \<open>
  A send that fails writes nothing: without a connection it raises an \<open>IOError\<close>, and a
  packet that cannot be encoded raises the encoder's exception and leaves the state as it was, so
  no confirmation code is lost.
\<close>

lemma failed_send_writes_nothing:
  "(encode_packet cmd = Inl e \<longrightarrow> send_seq now cmd confirmation basic_mode st = (Inl e, st)) \<and>
   (encode_packet cmd = Inr b \<longrightarrow> \<not> connected st \<longrightarrow>
      (\<exists>st'. send_seq now cmd confirmation basic_mode st = (Inl OSError, st') \<and> written st' = written st))"
  using send_encode_error send_disconnected by blast

text \<open>
  One pass of the retry task settles every pending packet that the clean-up left: it is left
  alone if its last attempt was less than the retry interval ago, sent again with its attempts
  counted up if it has been attempted fewer than three times, and otherwise dropped with its code
  freed. Exactly the packets to be sent again are written.
\<close>

lemma retry_pass:
  assumes "conf_inv st" and "connected st"
  shows "\<exists>st'. check_pending_seq now st = (Inr (), st') \<and>
    written st' = written st @ map snd (fst (collect_pending now (pending (check_and_release_timed_out now st)))) \<and>
    (\<forall>c. map_of (pending st') c = after_pass now (map_of (pending (check_and_release_timed_out now st)) c) \<and>
       (map_of (pending (check_and_release_timed_out now st)) c \<noteq> None \<longrightarrow> map_of (pending st') c = None \<longrightarrow>
        map_of (in_use st') c = None))"
  using check_pending_spec [OF assms, of now] by blast

text \<open>
  When a confirmation arrives on an idle client, the two tasks it creates free its code and
  drop its pending packet, and every other code and pending packet stays as it was.
\<close>

lemma confirmation_frees_code:
  assumes "c \<in> set CONFIRMATION_CODES" and "\<not> b_closed bs" and "b_buf bs = []"
    and "b_size_limit bs = MAX_BUFFER_SIZE" and "tasks (b_state bs) = []"
  shows "let st = b_state (data_received pci_handle_data [c, 0x2E] bs); st' = fold run_task (tasks st) st in
    map_of (in_use st') = (map_of (in_use (b_state bs)))(c := None) \<and>
    map_of (pending st') = (map_of (pending (b_state bs)))(c := None)"
  using confirmation_received [OF assms(1), of bs] assms(2-) confirmation_tasks_maps
  by (auto simp: Let_def)

lemma client_waits:
  assumes "pci_handle_data buf st = (Inr 0, st')"
  shows "decode_packet True True True buf = Inr (None, 0)"
  using assms decode_progress [of True True True buf]
  by (auto simp: pci_handle_data_def cbus_handle_data_def Let_def split: sum.splits prod.splits option.splits)

text \<open>
  C10: The receive loop of the client ends and settles. Written as the unbounded loop it is, it
  leaves after at most one turn more than the buffer has bytes, on any buffer and in any state, with
  no more bytes than there were. When no exception ended it, nothing decodable is left: the buffer is
  empty or begins with an incomplete message, and running the loop again changes neither the buffer
  nor the state.
\<close>

theorem receive_loop_settles:
  assumes "process_buffer pci_handle_data buf st = (r, buf', st')"
  shows "loop_turns (length buf + 1) pci_handle_data buf st = Some (r, buf', st') \<and> length buf' \<le> length buf \<and>
    (r = Inr () \<longrightarrow> (buf' = [] \<or> decode_packet True True True buf' = Inr (None, 0)) \<and>
       process_buffer pci_handle_data buf' st' = (Inr (), buf', st'))"
proof -
  have "process_buffer pci_handle_data (buf @ []) st = process_buffer pci_handle_data (buf' @ []) st'" if "r = Inr ()"
    using client_frames.process_append_ok assms that unfolding pci_handle_data_def [abs_def] by metis
  moreover have "buf' = [] \<or> decode_packet True True True buf' = Inr (None, 0)" if "r = Inr ()"
    using process_buffer_waits [of pci_handle_data buf st buf' st'] assms that client_waits by blast
  ultimately show ?thesis
    using assms process_buffer_length [OF assms] loop_turns_enough [of buf "length buf + 1" pci_handle_data st] by auto
qed

text \<open>A confirmation and the beginning of a line: the confirmation is handled, the rest is kept.\<close>

theorem receive_loop_settles_witness:
  "\<exists>st'. loop_turns 5 pci_handle_data (ascii ''h.05'') (new_PCIProtocol 0 None) = Some (Inr (), ascii ''05'', st') \<and>
     tasks st' = [RemovePending 0x68, ReleaseCode 0x68] \<and>
     process_buffer pci_handle_data (ascii ''05'') st' = (Inr (), ascii ''05'', st')"
proof -
  have d: "decode_packet True True True (ascii ''h.05'') = Inr (Some (Packet (ConfirmationPacket [0x68] True)), 2)"
    "decode_packet True True True (ascii ''05'') = Inr (None, 0)"
    by (simp_all add: decode_packet_def special_prefix_def ascii_def MIN_MESSAGE_SIZE_def CONFIRMATION_CODES_def
        line_end_def END_RESPONSE_def)
  then obtain st' where st': "process_buffer pci_handle_data (ascii ''h.05'') (new_PCIProtocol 0 None) = (Inr (), ascii ''05'', st')"
    "tasks st' = [RemovePending 0x68, ReleaseCode 0x68]"
    by (simp add: process_buffer.simps [of _ "[0x68, 0x2E, 0x30, 0x35]"] process_buffer.simps [of _ "[0x30, 0x35]"]
        pci_handle_data_def cbus_handle_data_def pci_handle_cbus_packet_def on_confirmation_def ascii_def Let_def
        new_PCIProtocol_def CONFIRMATION_CODES_def)
  moreover have "length (ascii ''h.05'') + 1 = 5" by (simp add: ascii_def)
  ultimately show ?thesis using receive_loop_settles [OF st'(1)] by auto
qed
end
