(* ===== verification/Pci_Steps.thy ===== *)
theory Pci_Steps
  imports Pci_Protocol
begin

text \<open>
  The coroutines of \<open>PCIProtocol\<close> as interleaved steps. A coroutine can be suspended only
  where it sleeps: none of the sections under \<open>_confirmation_lock\<close> awaits anything, so the
  lock is always free when it is asked for and taking it does not suspend. A send is therefore
  two steps, preparing the packet (with its confirmation code) and, after the delay of
  \<open>_send_packet\<close>, writing it and recording it as pending; a pass of the retry task is one
  step up to the first resend, and one more for each packet it resends. In between, other sends,
  received packets, the tasks a confirmation created and the loss of the connection may happen
  in any order.

  The machine is the state of the protocol with the sends that are waiting to write, the point
  the retry task has reached and the clock. The lemmas show that in every reachable state the
  pool of codes is well formed and no packet has been attempted more than
  \<open>MAX_PACKET_RETRIES\<close> times.
\<close>

section \<open>Machine\<close>

datatype checker_state = Idle | Resending int bytes "(byte \<times> bytes) list"

record machine =
  mpci :: pci_state
  sending :: "(bytes \<times> byte option) list"
  checker :: checker_state
  clock :: int

text \<open>The end of \<open>_send\<close>: write, then record the packet if a confirmation was asked for.\<close>

definition finish_send :: "bytes \<Rightarrow> byte option \<Rightarrow> int \<Rightarrow> pci_state \<Rightarrow> pci_state" where
  "finish_send data conf now st =
     (let st = st\<lparr>written := written st @ [data]\<rparr> in
      case conf of None \<Rightarrow> st | Some code \<Rightarrow> add_pending code data now st)"

text \<open>The head of the resend loop, up to the delay in \<open>_send_packet\<close>.\<close>

fun next_retry :: "int \<Rightarrow> (byte \<times> bytes) list \<Rightarrow> pci_state \<Rightarrow> checker_state \<times> pci_state" where
  "next_retry now [] st = (Idle, st)"
| "next_retry now ((code, data) # rest) st =
     (let st = note_retry code data now st in
      if connected st then (Resending now data rest, st) else (Idle, st))"

definition wake :: "int \<Rightarrow> pci_state \<Rightarrow> checker_state \<times> pci_state" where
  "wake now st =
     (let st = check_and_release_timed_out now st;
          (to_retry, to_abandon) = collect_pending now (pending st) in
      next_retry now to_retry (fold abandon to_abandon st))"

inductive mstep :: "machine \<Rightarrow> machine \<Rightarrow> bool" where
  Tick: "0 \<le> d \<Longrightarrow> mstep m (m\<lparr>clock := clock m + d\<rparr>)"
| Start:
    "prepare_packet_seq (clock m) cmd confirmation basic_mode (mpci m) = (Inr (data, conf), st) \<Longrightarrow>
     connected st \<Longrightarrow> mstep m (m\<lparr>mpci := st, sending := sending m @ [(data, conf)]\<rparr>)"
| StartFails:
    "prepare_packet_seq (clock m) cmd confirmation basic_mode (mpci m) = (r, st) \<Longrightarrow>
     (\<exists>e. r = Inl e) \<or> \<not> connected st \<Longrightarrow> mstep m (m\<lparr>mpci := st\<rparr>)"
| Finish:
    "sending m = xs @ (data, conf) # ys \<Longrightarrow>
     mstep m (m\<lparr>mpci := finish_send data conf (clock m) (mpci m), sending := xs @ ys\<rparr>)"
| Receive:
    "pci_handle_cbus_packet p (mpci m) = (r, st) \<Longrightarrow> mstep m (m\<lparr>mpci := st\<rparr>)"
| Task:
    "tasks (mpci m) = t # ts \<Longrightarrow> mstep m (m\<lparr>mpci := run_task t ((mpci m)\<lparr>tasks := ts\<rparr>)\<rparr>)"
| Wake:
    "checker m = Idle \<Longrightarrow> wake (clock m) (mpci m) = (k, st) \<Longrightarrow>
     mstep m (m\<lparr>mpci := st, checker := k\<rparr>)"
| Resume:
    "checker m = Resending now data rest \<Longrightarrow>
     next_retry now rest ((mpci m)\<lparr>written := written (mpci m) @ [data]\<rparr>) = (k, st) \<Longrightarrow>
     mstep m (m\<lparr>mpci := st, checker := k\<rparr>)"
| Lost: "mstep m (m\<lparr>mpci := connection_lost (mpci m)\<rparr>)"

inductive reachable :: "machine \<Rightarrow> bool" where
  Init: "reachable \<lparr>mpci = connection_made (new_PCIProtocol freq fut), sending = [], checker = Idle, clock = t0\<rparr>"
| Step: "reachable m \<Longrightarrow> mstep m m' \<Longrightarrow> reachable m'"

inductive_cases mstepE: "mstep m m'"

section \<open>Invariant\<close>

definition attempts_of :: "'a conf_state_scheme \<Rightarrow> byte \<Rightarrow> nat option" where
  "attempts_of st c = map_option (\<lambda>(d, n, t). n) (map_of (pending st) c)"

definition attempts_ok :: "'a conf_state_scheme \<Rightarrow> bool" where
  "attempts_ok st \<longleftrightarrow> (\<forall>c n. attempts_of st c = Some n \<longrightarrow> 1 \<le> n \<and> n \<le> MAX_PACKET_RETRIES)"

definition retries_ok :: "(byte \<times> bytes) list \<Rightarrow> 'a conf_state_scheme \<Rightarrow> bool" where
  "retries_ok rs st \<longleftrightarrow> distinct (map fst rs) \<and>
     (\<forall>c n. c \<in> fst ` set rs \<longrightarrow> attempts_of st c = Some n \<longrightarrow> n < MAX_PACKET_RETRIES)"

fun checker_ok :: "checker_state \<Rightarrow> 'a conf_state_scheme \<Rightarrow> bool" where
  "checker_ok Idle st = True"
| "checker_ok (Resending now d rs) st = retries_ok rs st"

definition minv :: "machine \<Rightarrow> bool" where
  "minv m \<longleftrightarrow> conf_inv (mpci m) \<and> attempts_ok (mpci m) \<and>
     (\<forall>(d, conf) \<in> set (sending m). case conf of None \<Rightarrow> True | Some c \<Rightarrow> c \<in> set CONFIRMATION_CODES) \<and>
     checker_ok (checker m) (mpci m)"

text \<open>
  Every section either leaves a pending entry alone, removes it, or (recording a send) starts it
  again at one attempt: \<open>shrinks\<close>. Only the retry task counts up.
\<close>

definition shrinks :: "'a conf_state_scheme \<Rightarrow> 'b conf_state_scheme \<Rightarrow> bool" where
  "shrinks st st' \<longleftrightarrow> (\<forall>c n. attempts_of st' c = Some n \<longrightarrow> n = 1 \<or> attempts_of st c = Some n)"

lemma shrinks_attempts: "shrinks st st' \<Longrightarrow> attempts_ok st \<Longrightarrow> attempts_ok st'"
  unfolding shrinks_def attempts_ok_def by (metis One_nat_def le_refl one_le_numeral)

lemma shrinks_retries: "shrinks st st' \<Longrightarrow> retries_ok rs st \<Longrightarrow> retries_ok rs st'"
  unfolding shrinks_def retries_ok_def by (metis one_less_numeral_iff semiring_norm(77))

lemma shrinks_refl [simp]: "shrinks st st"
  by (simp add: shrinks_def)

lemma shrinks_pending: "pending st' = pending st \<Longrightarrow> shrinks st st'"
  by (simp add: shrinks_def attempts_of_def)

lemma shrinks_trans: "shrinks a b \<Longrightarrow> shrinks b c \<Longrightarrow> shrinks a c"
  unfolding shrinks_def by blast

lemma shrinks_delete: "pending st' = AList.delete c (pending st) \<Longrightarrow> shrinks st st'"
  by (auto simp: shrinks_def attempts_of_def AList.delete_conv')

lemma shrinks_sections:
  "shrinks st (drop_code c st)" "shrinks st (remove_from_pending c st)"
  "shrinks st (release_confirmation_code c st)" "shrinks st (take_code c now st)"
  "shrinks st (cleanup_state st)" "shrinks st (add_pending c d now st)"
proof -
  show "shrinks st (drop_code c st)" "shrinks st (remove_from_pending c st)"
    "shrinks st (take_code c now st)"
    by (auto simp: drop_code_def remove_from_pending_def take_code_def
        intro: shrinks_delete shrinks_pending)
  then show "shrinks st (release_confirmation_code c st)"
    by (simp add: release_confirmation_code_def)
  show "shrinks st (cleanup_state st)" by (simp add: shrinks_def cleanup_state_def attempts_of_def)
  show "shrinks st (add_pending c d now st)"
    by (auto simp: shrinks_def add_pending_def attempts_of_def AList.update_conv')
qed

lemma shrinks_fold_drop: "shrinks st (fold drop_code cs st)"
proof (induction cs arbitrary: st)
  case (Cons c cs)
  show ?case using shrinks_trans [OF shrinks_sections(1) Cons.IH] by simp
qed simp

lemma shrinks_check: "shrinks st (check_and_release_timed_out now st)"
  using shrinks_trans [OF shrinks_fold_drop shrinks_fold_drop]
  by (auto simp: check_and_release_timed_out_def Let_def shrinks_fold_drop)

lemma shrinks_get: "conf_inv st \<Longrightarrow> get_confirmation_code_seq now st = (c, st') \<Longrightarrow> shrinks st st'"
  using get_confirmation_code_seq_fresh [of st now] shrinks_check [of st now]
  by (auto simp: take_code_def intro: shrinks_trans [OF _ shrinks_pending])

lemma shrinks_prepare:
  "conf_inv st \<Longrightarrow> prepare_packet_seq now cmd confirmation basic_mode st = (r, st') \<Longrightarrow> shrinks st st'"
  by (auto dest!: prepare_packet_cases intro: shrinks_get)

lemma shrinks_abandon: "shrinks st (fold abandon cs st)"
proof (induction cs arbitrary: st)
  case (Cons c cs)
  have "shrinks st (abandon c st)"
    unfolding abandon_def by (rule shrinks_trans [OF shrinks_sections(2,3)])
  then show ?case using shrinks_trans [OF _ Cons.IH] by simp
qed simp

lemma handle_event_pool:
  "handle_event e st = (r, st') \<Longrightarrow> pending st' = pending st \<and> in_use st' = in_use st \<and> next_index st' = next_index st"
  by (cases e) (auto simp: on_confirmation_def split: list.splits)

lemma handle_events_pool:
  "handle_events es st = (r, st') \<Longrightarrow> pending st' = pending st \<and> in_use st' = in_use st \<and> next_index st' = next_index st"
proof (induction es arbitrary: st)
  case (Cons e es)
  then show ?case
    by (cases "handle_event e st") (auto split: sum.splits dest: handle_event_pool)
qed simp

lemma run_task_shrinks: "shrinks st (run_task t st)"
  by (simp add: run_task_def shrinks_sections split: task.split)

lemma connection_lost_shrinks: "shrinks st (connection_lost st)" "conf_inv (connection_lost st)"
  by (auto simp: connection_lost_def Let_def cleanup_state_def shrinks_def attempts_of_def conf_inv_def
      codes_facts split: option.splits bool.splits)

section \<open>Every step keeps the invariant\<close>

lemma attempts_of_retry:
  "attempts_of (note_retry c d now st) c' =
     (if c' = c then map_option Suc (attempts_of st c) else attempts_of st c')"
  by (auto simp: attempts_of_def note_retry_def AList.update_conv' split: option.splits)

lemma next_retry_ok:
  assumes "conf_inv st" "attempts_ok st" "retries_ok rs st" "next_retry now rs st = (k, st')"
  shows "conf_inv st' \<and> attempts_ok st' \<and>
    checker_ok k st'"
proof (cases rs)
  case (Cons cd rest)
  obtain c d where cd: "cd = (c, d)" by (cases cd)
  define st1 where "st1 = note_retry c d now st"
  have "conf_inv st1" using assms(1) by (simp add: st1_def conf_inv_note_retry)
  moreover have "n < MAX_PACKET_RETRIES" if "attempts_of st c = Some n" for n
    using assms(3) Cons cd that unfolding retries_ok_def by (metis fst_conv image_eqI list.set_intros(1))
  then have "attempts_ok st1"
    using assms(2) by (fastforce simp: st1_def attempts_ok_def attempts_of_retry split: if_splits)
  moreover have "retries_ok rest st1"
    using assms(3) Cons cd by (auto simp: st1_def retries_ok_def attempts_of_retry image_iff)
  ultimately show ?thesis using assms(4) Cons cd
    by (auto simp: Let_def simp flip: st1_def split: if_splits)
qed (use assms in simp)

lemma collect_retries_ok:
  assumes "conf_inv st"
  shows "retries_ok (fst (collect_pending now (pending st))) st"
proof -
  have d: "distinct (map fst (pending st))" using assms by (simp add: conf_inv_def)
  have "n < MAX_PACKET_RETRIES"
    if "c \<in> fst ` set (fst (collect_pending now (pending st)))" "attempts_of st c = Some n" for c n
  proof -
    from that(1) obtain data where "(c, data) \<in> set (fst (collect_pending now (pending st)))" by auto
    from collect_pending_retry [OF this] obtain m t where
      "(c, data, m, t) \<in> set (pending st)" "m < MAX_PACKET_RETRIES" by blast
    with that(2) map_of_is_SomeI [OF d] show ?thesis by (auto simp: attempts_of_def)
  qed
  with d show ?thesis by (simp add: retries_ok_def collect_pending_distinct)
qed

lemma wake_ok:
  assumes "conf_inv st" "attempts_ok st" "wake now st = (k, st')"
  shows "conf_inv st' \<and> attempts_ok st' \<and>
    checker_ok k st'"
proof -
  define st1 where "st1 = check_and_release_timed_out now st"
  obtain rs as where c: "collect_pending now (pending st1) = (rs, as)"
    by (cases "collect_pending now (pending st1)")
  have 1: "conf_inv st1" "attempts_ok st1"
    using conf_inv_check [OF assms(1)] shrinks_attempts [OF shrinks_check assms(2)]
    by (simp_all add: st1_def)
  have "conf_inv (fold abandon as st1)" "attempts_ok (fold abandon as st1)"
    "retries_ok rs (fold abandon as st1)"
    using conf_inv_abandon [OF 1(1)] shrinks_attempts [OF shrinks_abandon 1(2)]
      shrinks_retries [OF shrinks_abandon collect_retries_ok [OF 1(1), of now]] c by auto
  moreover have "next_retry now rs (fold abandon as st1) = (k, st')"
    using assms(3) c by (simp add: wake_def Let_def flip: st1_def)
  ultimately show ?thesis by (rule next_retry_ok)
qed

lemma minv_shrinks:
  assumes "minv m" "shrinks (mpci m) st" "conf_inv st"
  shows "minv (m\<lparr>mpci := st\<rparr>)"
  using assms shrinks_attempts [OF assms(2)] shrinks_retries [OF assms(2)]
  by (cases "checker m") (auto simp: minv_def)

lemma mstep_minv:
  assumes "mstep m m'" "minv m"
  shows "minv m'"
  using assms(1)
proof cases
  case (Tick d)
  with assms(2) show ?thesis by (simp add: minv_def)
next
  case (Start cmd confirmation basic_mode data conf st)
  have inv: "conf_inv (mpci m)" using assms(2) by (simp add: minv_def)
  have "minv (m\<lparr>mpci := st\<rparr>)"
    using assms(2) shrinks_prepare [OF inv Start(2)] conf_inv_prepare [OF inv Start(2)]
    by (rule minv_shrinks)
  moreover have "conf = Some c \<Longrightarrow> c \<in> set CONFIRMATION_CODES" for c
    using prepare_code [OF inv] Start(2) by auto
  ultimately show ?thesis unfolding Start(1) by (auto simp: minv_def split: option.splits)
next
  case (StartFails cmd confirmation basic_mode r st)
  have inv: "conf_inv (mpci m)" using assms(2) by (simp add: minv_def)
  show ?thesis unfolding StartFails(1)
    using assms(2) shrinks_prepare [OF inv StartFails(2)] conf_inv_prepare [OF inv StartFails(2)]
    by (rule minv_shrinks)
next
  case (Finish xs data conf ys)
  have c: "conf = Some c \<Longrightarrow> c \<in> set CONFIRMATION_CODES" for c
    using assms(2) Finish(2) by (auto simp: minv_def)
  have "shrinks (mpci m) (finish_send data conf (clock m) (mpci m))"
    by (auto simp: finish_send_def Let_def shrinks_pending split: option.splits
        intro!: shrinks_trans [OF shrinks_pending shrinks_sections(6)])
  moreover have "conf_inv (finish_send data conf (clock m) (mpci m))"
    using assms(2) c by (auto simp: finish_send_def Let_def minv_def split: option.splits
        intro: conf_inv_add_pending)
  ultimately have "minv (m\<lparr>mpci := finish_send data conf (clock m) (mpci m)\<rparr>)"
    using assms(2) minv_shrinks by blast
  then show ?thesis unfolding Finish(1) using Finish(2) by (auto simp: minv_def)
next
  case (Receive p r st)
  then have "pending st = pending (mpci m) \<and> in_use st = in_use (mpci m) \<and> next_index st = next_index (mpci m)"
    using handle_events_pool by (simp add: pci_handle_cbus_packet_def)
  with assms(2) show ?thesis unfolding Receive(1)
    by (intro minv_shrinks) (auto simp: minv_def conf_inv_def intro: shrinks_pending)
next
  case (Task t ts)
  have "shrinks (mpci m) (run_task t ((mpci m)\<lparr>tasks := ts\<rparr>))"
    by (rule shrinks_trans [OF shrinks_pending run_task_shrinks]) simp
  moreover have "conf_inv (run_task t ((mpci m)\<lparr>tasks := ts\<rparr>))"
    using assms(2) by (intro conf_inv_run_task) (simp add: minv_def conf_inv_def)
  ultimately show ?thesis unfolding Task(1) using assms(2) minv_shrinks by blast
next
  case (Wake k st)
  with assms(2) wake_ok [of "mpci m" "clock m" k st] show ?thesis by (simp add: minv_def)
next
  case (Resume now data rest k st)
  have "conf_inv ((mpci m)\<lparr>written := w\<rparr>)" "attempts_ok ((mpci m)\<lparr>written := w\<rparr>)"
    "retries_ok rest ((mpci m)\<lparr>written := w\<rparr>)" for w
    using assms(2) Resume(2) by (simp_all add: minv_def attempts_ok_def retries_ok_def attempts_of_def)
  from next_retry_ok [OF this Resume(3)] assms(2) show ?thesis unfolding Resume(1)
    by (simp add: minv_def)
next
  case Lost
  with assms(2) minv_shrinks [OF _ connection_lost_shrinks] show ?thesis by simp
qed

lemma reachable_minv: "reachable m \<Longrightarrow> minv m"
proof (induction rule: reachable.induct)
  case (Init freq fut t0)
  show ?case
    by (simp add: minv_def connection_made_def Let_def cleanup_state_def conf_inv_def codes_facts
        attempts_ok_def attempts_of_def)
next
  case (Step m m')
  then show ?case by (blast intro: mstep_minv)
qed

section \<open>Unconfirmed packets are given up\<close>

text \<open>
  \<open>aged k t\<close>: every pending packet has had more than \<open>k\<close> attempts, at most three, and the
  last one at least a retry interval before \<open>t\<close>.
\<close>

definition aged :: "nat \<Rightarrow> int \<Rightarrow> 'a conf_state_scheme \<Rightarrow> bool" where
  "aged k now st \<longleftrightarrow> (\<forall>c d n t. map_of (pending st) c = Some (d, n, t) \<longrightarrow>
     k < n \<and> n \<le> MAX_PACKET_RETRIES \<and> t + RETRY_INTERVAL \<le> now)"

lemma aged_pass:
  assumes "conf_inv st" "connected st" "aged k now st" "now + RETRY_INTERVAL \<le> later"
  shows "aged (Suc k) later (snd (check_pending_seq now st)) \<and>
    conf_inv (snd (check_pending_seq now st)) \<and> connected (snd (check_pending_seq now st))"
proof -
  obtain st' where s: "check_pending_seq now st = (Inr (), st')" "connected st'" "conf_inv st'"
    "\<And>c. map_of (pending st') c = after_pass now (map_of (pending (check_and_release_timed_out now st)) c)"
    using check_pending_spec [OF assms(1,2), of now] by blast
  have "Suc k < n \<and> n \<le> MAX_PACKET_RETRIES \<and> t + RETRY_INTERVAL \<le> later"
    if "map_of (pending st') c = Some (d, n, t)" for c d n t
  proof -
    from that obtain d' n' t' where e:
      "map_of (pending (check_and_release_timed_out now st)) c = Some (d', n', t')"
      "after_pass now (Some (d', n', t')) = Some (d, n, t)"
      unfolding s(4) by (auto simp: after_pass_def split: option.splits)
    from check_pending_subset [OF e(1)] assms(3) have "k < n'" "t' + RETRY_INTERVAL \<le> now"
      by (auto simp: aged_def)
    with e(2) assms(4) show ?thesis by (auto simp: after_pass_def split: if_splits)
  qed
  with s show ?thesis by (simp add: aged_def)
qed

lemma aged_none:
  assumes "aged 3 now st"
  shows "pending st = []"
proof (rule ccontr)
  assume "pending st \<noteq> []"
  then obtain c d n t xs where "pending st = (c, d, n, t) # xs" by (metis neq_Nil_conv surj_pair)
  then have "map_of (pending st) c = Some (d, n, t)" by simp
  with assms have "3 < n \<and> n \<le> 3" unfolding aged_def by blast
  then show False by linarith
qed

section \<open>The life of a packet\<close>

text \<open>
  The abstract view of the pending packets is, under each code, the line and the number of
  attempts. An abstract step does one thing to one code: nothing, remove the packet, start a
  newly sent one at one attempt, or resend a line and count the attempt while below the limit.
  \<open>caused\<close> says what in the machine stands behind the abstract step: a packet goes with its code
  (freed, or handed to a new send), with its confirmation, or while there is no connection; what
  starts was prepared by a send under that code; and what is counted is the line about to be
  written.
\<close>

definition packet_of :: "'a conf_state_scheme \<Rightarrow> byte \<Rightarrow> (bytes \<times> nat) option" where
  "packet_of st c = map_option (\<lambda>(d, n, t). (d, n)) (map_of (pending st) c)"

datatype life_event = Kept | Removed | Sent bytes | Resent bytes

fun life :: "life_event \<Rightarrow> (bytes \<times> nat) option \<Rightarrow> (bytes \<times> nat) option \<Rightarrow> bool" where
  "life Kept a b \<longleftrightarrow> b = a"
| "life Removed a b \<longleftrightarrow> a \<noteq> None \<and> b = None"
| "life (Sent d) a b \<longleftrightarrow> b = Some (d, 1)"
| "life (Resent d) a b \<longleftrightarrow> (\<exists>d0 n. a = Some (d0, n) \<and> 1 \<le> n \<and> n < MAX_PACKET_RETRIES \<and> b = Some (d, n + 1))"

fun caused :: "life_event \<Rightarrow> byte \<Rightarrow> machine \<Rightarrow> machine \<Rightarrow> bool" where
  "caused Kept c m m' \<longleftrightarrow> True"
| "caused Removed c m m' \<longleftrightarrow> c \<notin> fst ` set (in_use (mpci m')) \<or> (\<exists>d. (d, Some c) \<in> set (sending m')) \<or>
     (\<exists>ts. tasks (mpci m) = RemovePending c # ts) \<or> \<not> connected (mpci m')"
| "caused (Sent d) c m m' \<longleftrightarrow> (d, Some c) \<in> set (sending m)"
| "caused (Resent d) c m m' \<longleftrightarrow> (connected (mpci m') \<longrightarrow> (\<exists>now rest. checker m' = Resending now d rest))"

text \<open>Packets are dropped together with their codes.\<close>

definition drops :: "'a conf_state_scheme \<Rightarrow> 'b conf_state_scheme \<Rightarrow> bool" where
  "drops st st' \<longleftrightarrow> (\<exists>cs. pending st' = fold AList.delete cs (pending st) \<and> in_use st' = fold AList.delete cs (in_use st))"

lemma dropsI: "pending st' = fold AList.delete cs (pending st) \<Longrightarrow> in_use st' = fold AList.delete cs (in_use st) \<Longrightarrow> drops st st'"
  by (auto simp: drops_def)

lemma drops_trans: "drops a b \<Longrightarrow> drops b c \<Longrightarrow> drops a c"
  unfolding drops_def by (metis fold_append o_apply)

lemma drops_same: "pending st' = pending st \<Longrightarrow> in_use st' = in_use st \<Longrightarrow> drops st st'"
  by (rule dropsI [of _ "[]"]) simp_all

lemma drops_fold: "drops st (fold drop_code cs st)"
  by (rule dropsI [of _ cs]) (simp_all add: fold_drop_fields)

lemma drops_check: "drops st (check_and_release_timed_out now st)"
  using drops_fold drops_trans [OF drops_fold drops_fold] by (auto simp: check_and_release_timed_out_def Let_def)

lemma drops_abandon: "drops st (fold abandon cs st)"
proof (induction cs arbitrary: st)
  case (Cons c cs)
  have "drops st (abandon c st)"
    by (rule dropsI [of _ "[c]"])
      (auto simp: abandon_def remove_from_pending_def release_confirmation_code_def drop_code_def delete_id delete_idem)
  then show ?case using drops_trans [OF _ Cons.IH] by simp
qed (simp add: drops_same)

lemma drops_packet:
  assumes "drops st st'"
  shows "packet_of st' c = packet_of st c \<or> packet_of st' c = None \<and> c \<notin> fst ` set (in_use st')"
proof -
  have m: "map_of (fold AList.delete cs xs) c = (if c \<in> set cs then None else map_of xs c)" for cs :: "byte list" and xs :: "(byte \<times> 'v) list"
    by (induction cs arbitrary: xs) (auto simp: delete_conv')
  from assms obtain cs where "pending st' = fold AList.delete cs (pending st)" "in_use st' = fold AList.delete cs (in_use st)"
    by (auto simp: drops_def)
  then show ?thesis by (simp add: packet_of_def m fold_delete_keys)
qed

lemma gone_or_kept:
  assumes "b = a \<or> b = None \<and> caused Removed c m m'"
  shows "\<exists>e. life e a b \<and> caused e c m m'"
proof (cases "b = a")
  case True
  then show ?thesis by (intro exI [of _ Kept]) simp
next
  case False
  with assms show ?thesis by (intro exI [of _ Removed]) auto
qed

lemma dropped_life:
  assumes "drops (mpci m) (mpci m')"
  shows "\<exists>e. life e (packet_of (mpci m) c) (packet_of (mpci m') c) \<and> caused e c m m'"
  using drops_packet [OF assms, of c] by (intro gone_or_kept) auto

text \<open>The head of the resend loop, after packets were dropped.\<close>

lemma packet_of_retry:
  "packet_of (note_retry c d now st) c' =
     (if c' = c then map_option (\<lambda>(d0, n). (d, n + 1)) (packet_of st c) else packet_of st c')"
  by (auto simp: packet_of_def note_retry_def update_conv' split: option.splits)

lemma packet_attempts: "packet_of st c = Some (d, n) \<Longrightarrow> attempts_of st c = Some n"
  by (auto simp: packet_of_def attempts_of_def)

lemma next_retry_life:
  assumes "drops (mpci m) st" "attempts_ok st" "retries_ok rs st" "next_retry now rs st = (checker m', mpci m')"
  shows "\<exists>e. life e (packet_of (mpci m) c) (packet_of (mpci m') c) \<and> caused e c m m'"
proof (cases rs)
  case Nil
  with assms(1,4) dropped_life [of m m' c] show ?thesis by simp
next
  case (Cons cd rest)
  obtain c0 d where cd: "cd = (c0, d)" by (cases cd)
  from assms(4) Cons cd have st': "mpci m' = note_retry c0 d now st"
    and k: "connected (mpci m') \<Longrightarrow> checker m' = Resending now d rest" by (auto simp: Let_def split: if_splits)
  show ?thesis
  proof (cases "c = c0 \<and> packet_of st c \<noteq> None")
    case True
    then obtain d0 n where p: "packet_of st c = Some (d0, n)" by auto
    with drops_packet [OF assms(1), of c] have "packet_of (mpci m) c = Some (d0, n)" by simp
    moreover have "n < MAX_PACKET_RETRIES" using assms(3) Cons cd True packet_attempts [OF p]
      unfolding retries_ok_def by (metis fst_conv image_eqI list.set_intros(1))
    moreover have "1 \<le> n" using assms(2) packet_attempts [OF p] by (auto simp: attempts_ok_def)
    moreover have "packet_of (mpci m') c = Some (d, n + 1)" using True p by (simp add: st' packet_of_retry)
    ultimately show ?thesis using k by (intro exI [of _ "Resent d"]) simp
  next
    case False
    then have "packet_of (mpci m') c = packet_of st c" by (cases "packet_of st c") (auto simp: st' packet_of_retry)
    moreover have "in_use (mpci m') = in_use st" by (simp add: st' note_retry_def split: option.splits prod.splits)
    ultimately show ?thesis using drops_packet [OF assms(1), of c] by (intro gone_or_kept) auto
  qed
qed

lemma taken_life:
  assumes "conf_inv (mpci m)" "prepare_packet_seq now cmd confirmation basic_mode (mpci m) = (r, mpci m')"
    and "\<And>data conf. r = Inr (data, conf) \<Longrightarrow> connected (mpci m') \<Longrightarrow> (data, conf) \<in> set (sending m')"
  shows "\<exists>e. life e (packet_of (mpci m) c) (packet_of (mpci m') c) \<and> caused e c m m'"
  using prepare_packet_cases [OF assms(2)]
proof (elim disjE conjE exE)
  fix code data
  assume g: "get_confirmation_code_seq now (mpci m) = (code, mpci m')" "r = Inr (data, Some code)"
  define st1 where "st1 = check_and_release_timed_out now (mpci m)"
  from get_confirmation_code_seq_fresh [OF assms(1), of now] g(1) obtain i where
    st: "mpci m' = take_code code now (st1\<lparr>next_index := i\<rparr>)" by (auto simp: st1_def)
  then have "packet_of (mpci m') c = packet_of st1 c" "fst ` set (in_use (mpci m')) = insert code (fst ` set (in_use st1))"
    by (auto simp: take_code_def dom_update packet_of_def)
  with drops_packet [OF drops_check, of now "mpci m" c] assms(3) [of data "Some code"] g(2) show ?thesis
    by (intro gone_or_kept) (auto simp flip: st1_def)
qed (auto intro: gone_or_kept)

lemma mstep_life:
  assumes "mstep m m'" "minv m"
  shows "\<exists>e. life e (packet_of (mpci m) c) (packet_of (mpci m') c) \<and> caused e c m m'"
  using assms(1)
proof cases
  case (Tick d)
  then show ?thesis by (intro exI [of _ Kept]) simp
next
  case (Start cmd confirmation basic_mode data conf st)
  show ?thesis by (rule taken_life) (use Start assms(2) in \<open>auto simp: minv_def\<close>)
next
  case (StartFails cmd confirmation basic_mode r st)
  show ?thesis by (rule taken_life) (use StartFails assms(2) in \<open>auto simp: minv_def\<close>)
next
  case (Finish xs data conf ys)
  have p: "packet_of (mpci m') c' = (if conf = Some c' then Some (data, 1) else packet_of (mpci m) c')" for c'
    by (auto simp: Finish(1) finish_send_def add_pending_def packet_of_def update_conv' Let_def split: option.splits)
  show ?thesis
  proof (cases "conf = Some c")
    case True
    with p Finish(2) show ?thesis by (intro exI [of _ "Sent data"]) simp
  qed (use p in \<open>intro gone_or_kept, simp\<close>)
next
  case (Receive p r st)
  then have "pending st = pending (mpci m)" using handle_events_pool by (simp add: pci_handle_cbus_packet_def)
  with Receive(1) show ?thesis by (intro exI [of _ Kept]) (simp add: packet_of_def)
next
  case (Task t ts)
  show ?thesis
  proof (cases "\<exists>k. t = RemovePending k")
    case True
    then obtain k where t: "t = RemovePending k" by blast
    then have p: "packet_of (mpci m') c' = (if c' = k then None else packet_of (mpci m) c')" for c'
      by (simp add: Task(1) run_task_def remove_from_pending_def packet_of_def delete_conv')
    show ?thesis using p [of c] t Task(2) by (intro gone_or_kept) auto
  next
    case False
    then have "drops (mpci m) (run_task t ((mpci m)\<lparr>tasks := ts\<rparr>))"
      by (cases t) (auto simp: run_task_def release_confirmation_code_def drop_code_def drops_same intro: dropsI [of _ "[_]"])
    with dropped_life [of m m' c] Task(1) show ?thesis by simp
  qed
next
  case (Wake k st)
  define st1 where "st1 = check_and_release_timed_out (clock m) (mpci m)"
  obtain rs as where r: "collect_pending (clock m) (pending st1) = (rs, as)" by fastforce
  have i: "conf_inv (mpci m)" "attempts_ok (mpci m)" using assms(2) by (simp_all add: minv_def)
  have "drops (mpci m) (fold abandon as st1)" unfolding st1_def by (rule drops_trans [OF drops_check drops_abandon])
  moreover have "attempts_ok (fold abandon as st1)"
    using shrinks_attempts [OF shrinks_trans [OF shrinks_check shrinks_abandon] i(2)] by (simp add: st1_def)
  moreover have "retries_ok rs (fold abandon as st1)"
    using shrinks_retries [OF shrinks_abandon collect_retries_ok [OF conf_inv_check [OF i(1)], of "clock m" "clock m"]] r
    by (simp add: st1_def)
  moreover have "next_retry (clock m) rs (fold abandon as st1) = (checker m', mpci m')"
    using Wake(1,3) r by (simp add: wake_def Let_def flip: st1_def)
  ultimately show ?thesis by (rule next_retry_life)
next
  case (Resume now data rest k st)
  let ?st = "(mpci m)\<lparr>written := written (mpci m) @ [data]\<rparr>"
  have "drops (mpci m) ?st" "attempts_ok ?st" "retries_ok rest ?st"
    using assms(2) Resume(2) by (simp_all add: drops_same minv_def attempts_ok_def retries_ok_def attempts_of_def)
  from next_retry_life [OF this, of now m' c] Resume(1,3) show ?thesis by simp
next
  case Lost
  have "pending (mpci m') = []" "in_use (mpci m') = []"
    by (auto simp: Lost connection_lost_def Let_def cleanup_state_def split: option.splits bool.splits)
  then show ?thesis by (intro gone_or_kept) (auto simp: packet_of_def)
qed

section \<open>Properties\<close>

text \<open>
  C5: In every state the client can reach, however sends, received packets, confirmations, retry
  passes and a loss of connection interleave, at most twenty codes are in use, every code in use
  or pending is one of the twenty and occurs once, and every pending packet has been attempted at
  least once and at most three times.
\<close>

theorem reachable_pool:
  assumes "reachable m"
  shows "length (in_use (mpci m)) \<le> 20 \<and> conf_inv (mpci m) \<and>
    (\<forall>c d n t. map_of (pending (mpci m)) c = Some (d, n, t) \<longrightarrow> 1 \<le> n \<and> n \<le> MAX_PACKET_RETRIES)"
  using reachable_minv [OF assms] in_use_le [of "mpci m"]
  by (auto simp: minv_def attempts_ok_def attempts_of_def)

theorem reachable_pool_witness:
  "\<exists>m. reachable m \<and> sending m \<noteq> [] \<and> length (in_use (mpci m)) \<le> 20 \<and> conf_inv (mpci m)"
proof -
  define m0 where "m0 = \<lparr>mpci = connection_made (new_PCIProtocol 10 None), sending = [], checker = Idle, clock = 0\<rparr>"
  have r0: "reachable m0" unfolding m0_def by (rule reachable.Init)
  have c: "connected (mpci m0)" by (simp add: m0_def connection_made_def Let_def cleanup_state_def)
  have "prepare_packet_seq (clock m0) ResetPacket True False (mpci m0) = (Inr ([0x7E] @ END_COMMAND, None), mpci m0)"
    by (simp add: prepare_packet_seq_def)
  from reachable.Step [OF r0 mstep.Start [OF this c]] have
    r: "reachable (m0\<lparr>mpci := mpci m0, sending := sending m0 @ [([0x7E] @ END_COMMAND, None)]\<rparr>)" .
  from reachable_pool [OF r] r show ?thesis by (intro exI conjI) (assumption, simp_all)
qed

text \<open>
  C8: A packet that is never confirmed is given up: three passes of the retry task, each at least
  a retry interval after the one before and the first at least that long after the last attempts,
  leave nothing pending.
\<close>

theorem unconfirmed_abandoned:
  assumes "conf_inv st" and "connected st" and "attempts_ok st"
    and "\<forall>c d n t. map_of (pending st) c = Some (d, n, t) \<longrightarrow> t + RETRY_INTERVAL \<le> t1"
    and "t1 + RETRY_INTERVAL \<le> t2" and "t2 + RETRY_INTERVAL \<le> t3"
  shows "pending (snd (check_pending_seq t3 (snd (check_pending_seq t2 (snd (check_pending_seq t1 st)))))) = []"
proof -
  have "aged 0 t1 st" using assms(3,4) by (auto simp: aged_def attempts_ok_def attempts_of_def Suc_le_eq)
  from aged_pass [OF assms(1,2) this assms(5)] aged_pass aged_none assms(6)
  show ?thesis by (metis One_nat_def Suc_1 numeral_3_eq_3 order_refl)
qed

theorem unconfirmed_abandoned_witness:
  "pending (snd (check_pending_seq 6000000 (snd (check_pending_seq 4000000 (snd (check_pending_seq 2000000
      ((connection_made (new_PCIProtocol 0 None))
        \<lparr>in_use := [(0x67, 0)], pending := [(0x67, ascii ''A3300079g'', 1, 0)]\<rparr>))))))) = []"
  by (rule unconfirmed_abandoned)
    (simp_all add: connection_made_def new_PCIProtocol_def cleanup_state_def conf_inv_def
      CONFIRMATION_CODES_def attempts_ok_def attempts_of_def)

text \<open>
  C7: The client refines the abstract life of a packet. Seen as the line and the number of attempts
  under each confirmation code, every step of every reachable interleaving is a step of the abstract
  machine with its cause. A packet stays; or goes, with its code freed or handed to a new send, with
  its confirmation, or while there is no connection; or starts at one attempt, as a line a send
  prepared under this code; or is counted up while below the limit of three, and then the line
  counted is the one the retry task is about to write.
\<close>

theorem attempts_refine:
  assumes "reachable m" and "mstep m m'"
  shows "\<exists>e. life e (packet_of (mpci m) c) (packet_of (mpci m') c) \<and> caused e c m m'"
  using mstep_life [OF assms(2) reachable_minv [OF assms(1)]] .

theorem attempts_refine_witness:
  "\<exists>m m' c line. reachable m \<and> mstep m m' \<and> packet_of (mpci m) c = Some (line, 1) \<and>
     packet_of (mpci m') c = Some (line, 2) \<and> (\<exists>now rest. checker m' = Resending now line rest)"
proof -
  define st0 where "st0 = connection_made (new_PCIProtocol 0 None)"
  define m0 where "m0 = \<lparr>mpci = st0, sending = [], checker = Idle, clock = 0\<rparr>"
  define cmd where "cmd = DeviceManagementPacket (new_DeviceManagementPacket False CLASS_2 0x30 0x79)"
  have st0: "connected st0" "pending st0 = []" "in_use st0 = []" "next_index st0 = 0"
    by (simp_all add: st0_def connection_made_def cleanup_state_def Let_def)
  have enc: "encode_packet cmd = Inr (ascii ''A3300079'')"
    by (simp add: cmd_def dm_encode_def new_DeviceManagementPacket_def base_encode_def flags_def add_checksum_if_def
        hex_char_def ascii_def)
  have inv: "conf_inv st0" by (simp add: conf_inv_def st0 codes_facts)
  have "check_and_release_timed_out 0 st0 = st0"
    by (simp add: st0 check_and_release_timed_out_def timed_out_codes_def)
  with get_confirmation_code_seq_fresh [OF inv, of 0] obtain c i where
    code: "get_confirmation_code_seq 0 st0 = (c, take_code c 0 (st0\<lparr>next_index := i\<rparr>))" by auto
  define st1 where "st1 = take_code c 0 (st0\<lparr>next_index := i\<rparr>)"
  have st1: "connected st1" "pending st1 = []" "in_use st1 = [(c, 0)]" by (simp_all add: st1_def take_code_def st0)
  define line where "line = ascii ''A3300079'' @ [c] @ END_COMMAND"
  have "prepare_packet_seq (clock m0) cmd True True (mpci m0) = (Inr (line, Some c), st1)"
    using enc code by (simp add: m0_def prepare_packet_seq_def cmd_def line_def st1_def)
  moreover have "reachable m0" unfolding m0_def st0_def by (rule reachable.Init)
  ultimately have "reachable (m0\<lparr>mpci := st1, sending := sending m0 @ [(line, Some c)]\<rparr>)"
    using st1(1) by (intro reachable.Step [OF _ mstep.Start])
  then have "reachable (m0\<lparr>mpci := finish_send line (Some c) 0 st1, sending := []\<rparr>)"
    by (rule reachable.Step) (use mstep.Finish [of "m0\<lparr>mpci := st1, sending := [(line, Some c)]\<rparr>" "[]" line "Some c" "[]"] in
      \<open>simp add: m0_def\<close>)
  from reachable.Step [OF this mstep.Tick [of 1000000]] obtain m where m: "reachable m" "clock m = 1000000"
    "mpci m = finish_send line (Some c) 0 st1" "checker m = Idle" by (auto simp: m0_def)
  have p: "pending (mpci m) = [(c, line, 1, 0)]" "in_use (mpci m) = [(c, 0)]" "connected (mpci m)"
    using st1 by (simp_all add: m(3) finish_send_def add_pending_def Let_def)
  obtain k st where w: "wake (clock m) (mpci m) = (k, st)" by fastforce
  then have q: "packet_of st c = Some (line, 2)" "connected st"
    using p by (auto simp: wake_def m(2) check_and_release_timed_out_def timed_out_codes_def force_threshold_def codes_facts
        note_retry_def packet_of_def Let_def)
  note step = mstep.Wake [OF m(4) w]
  from attempts_refine [OF m(1) step, of "c"] q p(1) obtain e where
    "life e (Some (line, 1)) (Some (line, 2))" "caused e c m (m\<lparr>mpci := st, checker := k\<rparr>)"
    by (auto simp: packet_of_def)
  then have "\<exists>now rest. k = Resending now line rest" using q(2) by (cases e) auto
  with m(1) step q(1) p(1) show ?thesis
    by (intro exI [of _ m] exI [of _ "m\<lparr>mpci := st, checker := k\<rparr>"] exI [of _ c] exI [of _ line]) (simp add: packet_of_def)
qed

end
