(* ===== verification/Pci_Server.thy ===== *)
theory Pci_Server
  imports Buffered
begin

text \<open>
  \<open>PCIServerProtocol\<close>, the emulated PCI (\<open>cbus/protocol/pciserverprotocol.py\<close>): its
  interface options, the echo of basic mode, the handling of each packet kind with the
  confirmation at the end, and the status report of the master application.

  \<open>s_out\<close> is the log of writes to the transport, which is taken to be connected. The event
  handlers that only log are left out; \<open>on_clock_update\<close> and the four
  \<open>lighting_group_*\<close> methods construct lighting SALs without their application argument and
  so raise \<open>TypeError\<close> before they do anything.

  The lemmas show how the options byte sets the modes, that every accepted command with a
  confirmation code is answered by that code and a dot, and that a hard reset restores the
  initial modes.
\<close>

section \<open>State\<close>

record pci_server =
  s_basic_mode :: bool
  s_connect :: bool
  s_checksum :: bool
  s_monitor :: bool
  s_idmon :: bool
  s_application_addr1 :: int
  s_application_addr2 :: int
  s_send_queue :: "bytes list"
  s_out :: "bytes list"

definition new_PCIServerProtocol :: pci_server where
  "new_PCIServerProtocol =
     \<lparr>s_basic_mode = True, s_connect = False, s_checksum = False, s_monitor = False, s_idmon = False,
      s_application_addr1 = 0xFF, s_application_addr2 = 0xFF, s_send_queue = [], s_out = []\<rparr>"

definition server_echo :: "bytes \<Rightarrow> pci_server \<Rightarrow> pci_server" where
  "server_echo data st = (if s_basic_mode st then st\<lparr>s_out := s_out st @ [data]\<rparr> else st)"

section \<open>Sending\<close>

datatype server_packet = ServerPacket packet | ServerStandardCAL standard_cal

definition serialize_packet :: "server_packet \<Rightarrow> bytes result" where
  "serialize_packet cmd =
     (case cmd of
        ServerPacket (ConfirmationPacket code success) \<Rightarrow> encode_packet (ConfirmationPacket code success)
      | ServerPacket p \<Rightarrow> rmap (\<lambda>b. b @ END_RESPONSE) (encode_packet p)
      | ServerStandardCAL c \<Rightarrow> rmap (\<lambda>b. b @ END_RESPONSE) (standard_encode_packet c))"

definition send_later :: "server_packet \<Rightarrow> pci_server \<Rightarrow> unit result \<times> pci_server" where
  "send_later cmd st =
     (case serialize_packet cmd of
        Inl e \<Rightarrow> (Inl e, st)
      | Inr b \<Rightarrow> (Inr (), st\<lparr>s_send_queue := s_send_queue st @ [b]\<rparr>))"

definition server_send :: "server_packet \<Rightarrow> pci_server \<Rightarrow> unit result \<times> pci_server" where
  "server_send cmd st =
     (case serialize_packet cmd of
        Inl e \<Rightarrow> (Inl e, st)
      | Inr b \<Rightarrow> (Inr (), st\<lparr>s_out := s_out st @ [b] @ s_send_queue st, s_send_queue := []\<rparr>))"

definition send_error :: "pci_server \<Rightarrow> unit result \<times> pci_server" where
  "send_error st = server_send (ServerPacket PCIErrorPacket) st"

definition send_confirmation :: "bytes \<Rightarrow> bool \<Rightarrow> pci_server \<Rightarrow> unit result \<times> pci_server" where
  "send_confirmation code ok st =
     (case new_ConfirmationPacket code ok of
        Inl e \<Rightarrow> (Inl e, st)
      | Inr p \<Rightarrow> server_send (ServerPacket p) st)"

definition server_connection_made :: "pci_server \<Rightarrow> unit result \<times> pci_server" where
  "server_connection_made st = server_send (ServerPacket PowerOnPacket) st"

section \<open>Event handlers that change the state\<close>

definition on_reset :: "pci_server \<Rightarrow> pci_server" where
  "on_reset st =
     st\<lparr>s_basic_mode := True, s_idmon := False, s_connect := False, s_checksum := False,
        s_monitor := False, s_application_addr1 := 0xFF, s_application_addr2 := 0xFF\<rparr>"

definition on_clock_update :: "clock_val \<Rightarrow> pci_server \<Rightarrow> unit result \<times> pci_server" where
  "on_clock_update val st = (Inl TypeError, st)"

definition master_states :: "group_state list" where
  "master_states = [MISSING] @ replicate 10 ON @ replicate (0xFE - 12) MISSING @ [ON]"

fun send_each :: "server_packet list \<Rightarrow> pci_server \<Rightarrow> unit result \<times> pci_server" where
  "send_each [] st = (Inr (), st)"
| "send_each (c # cs) st =
     (case server_send c st of
        (Inl e, st) \<Rightarrow> (Inl e, st)
      | (Inr _, st) \<Rightarrow> send_each cs st)"

definition on_master_application_status :: "int \<Rightarrow> pci_server \<Rightarrow> unit result \<times> pci_server" where
  "on_master_application_status group_address st =
     (if s_basic_mode st then
        send_each
          (map (\<lambda>x. ServerStandardCAL
                  \<lparr>sc_child_application = MASTER_APPLICATION, sc_block_start = int x,
                   sc_report = take 0x58 (drop x master_states), sc_checksum = True\<rparr>)
             [0, 0x58, 2 * 0x58]) st
      else (Inl NotImplementedError, st))"

definition set_interface_options :: "int \<Rightarrow> pci_server \<Rightarrow> pci_server" where
  "set_interface_options v st =
     (let st = st\<lparr>s_connect := False, s_checksum := False, s_monitor := False, s_idmon := False,
                 s_basic_mode := True\<rparr>;
          st = (if v AND 0x01 \<noteq> 0 then st\<lparr>s_connect := True\<rparr> else st);
          st = (if v AND 0x08 \<noteq> 0 then st\<lparr>s_checksum := True\<rparr> else st);
          st = (if v AND 0x10 \<noteq> 0 then st\<lparr>s_basic_mode := False\<rparr> else st);
          st = (if v AND 0x20 \<noteq> 0 then st\<lparr>s_monitor := True\<rparr> else st) in
      if v AND 0x40 \<noteq> 0 then st\<lparr>s_idmon := True\<rparr> else st)"

section \<open>Packets\<close>

text \<open>
  The outcome of a handler: go on to the confirmation, return without one, or raise.
\<close>

datatype outcome = Continue | Return | Raise exn

fun handle_sal :: "sal \<Rightarrow> pci_server \<Rightarrow> outcome \<times> pci_server" where
  "handle_sal (Lighting s) st = (Continue, st)"
| "handle_sal (Clock (ClockUpdateSAL v)) st =
     (case on_clock_update v st of (Inl e, st) \<Rightarrow> (Raise e, st) | (Inr _, st) \<Rightarrow> (Continue, st))"
| "handle_sal (Clock ClockRequestSAL) st = (Continue, st)"
| "handle_sal (StatusRequest s) st =
     (if sr_child_application s = MASTER_APPLICATION \<and> \<not> sr_level_request s then
        (case on_master_application_status (sr_group_address s) st of
           (Inl e, st) \<Rightarrow> (Raise e, st)
         | (Inr _, st) \<Rightarrow> (Continue, st))
      else (Return, st))"
| "handle_sal _ st = (Return, st)"

fun handle_sals :: "sal list \<Rightarrow> pci_server \<Rightarrow> outcome \<times> pci_server" where
  "handle_sals [] st = (Continue, st)"
| "handle_sals (s # sals) st =
     (case handle_sal s st of
        (Continue, st) \<Rightarrow> handle_sals sals st
      | (out, st) \<Rightarrow> (out, st))"

definition handle_dm :: "dm_packet \<Rightarrow> pci_server \<Rightarrow> outcome \<times> pci_server" where
  "handle_dm p st =
     (if dm_parameter p \<in> set [0x21, 0x22, 0x3E, 0x42] then (Continue, st)
      else if dm_parameter p \<in> set [0x30, 0x41] then (Continue, set_interface_options (dm_value p) st)
      else (Return, st))"

definition confirm :: "bytes option \<Rightarrow> outcome \<times> pci_server \<Rightarrow> unit result \<times> pci_server" where
  "confirm confirmation r =
     (case r of
        (Raise e, st) \<Rightarrow> (Inl e, st)
      | (Return, st) \<Rightarrow> (Inr (), st)
      | (Continue, st) \<Rightarrow>
          (case confirmation of
             None \<Rightarrow> (Inr (), st)
           | Some code \<Rightarrow> if code = [] then (Inr (), st) else send_confirmation code True st))"

fun server_handle_cbus_packet :: "decoded \<Rightarrow> pci_server \<Rightarrow> unit result \<times> pci_server" where
  "server_handle_cbus_packet (Packet ResetPacket) st = (Inr (), on_reset st)"
| "server_handle_cbus_packet (Packet SmartConnectShortcutPacket) st =
     (Inr (), st\<lparr>s_basic_mode := False, s_connect := True\<rparr>)"
| "server_handle_cbus_packet (Packet (PointToMultipointPacket p)) st =
     confirm (p_confirmation p) (handle_sals (pm_sals p) st)"
| "server_handle_cbus_packet (Packet (DeviceManagementPacket p)) st =
     confirm (p_confirmation p) (handle_dm p st)"
| "server_handle_cbus_packet _ st = (Inr (), st)"

definition server_handle_data :: "pci_server handler" where
  "server_handle_data = cbus_handle_data True s_checksum server_echo server_handle_cbus_packet"

section \<open>Modes\<close>

lemma int_bit_mask:
  "(v AND 0x01 \<noteq> 0) = bit v 0" "(v AND 0x08 \<noteq> 0) = bit v 3" "(v AND 0x10 \<noteq> 0) = bit v 4"
  "(v AND 0x20 \<noteq> 0) = bit v 5" "(v AND 0x40 \<noteq> 0) = bit v 6" for v :: int
proof -
  have m: "(v AND 2 ^ n \<noteq> 0) = bit v n" for n
    by (metis and_exp_eq_0_iff_not_bit)
  show "(v AND 0x01 \<noteq> 0) = bit v 0" "(v AND 0x08 \<noteq> 0) = bit v 3" "(v AND 0x10 \<noteq> 0) = bit v 4"
    "(v AND 0x20 \<noteq> 0) = bit v 5" "(v AND 0x40 \<noteq> 0) = bit v 6"
    using m [of 0] m [of 3] m [of 4] m [of 5] m [of 6] by simp_all
qed

lemma set_interface_options_bits:
  "set_interface_options v st =
     st\<lparr>s_connect := bit v 0, s_checksum := bit v 3, s_basic_mode := \<not> bit v 4, s_monitor := bit v 5,
        s_idmon := bit v 6\<rparr>"
  by (cases st) (simp add: set_interface_options_def int_bit_mask Let_def)

lemma new_ConfirmationPacket_ok:
  assumes "c \<in> set CONFIRMATION_CODES"
  shows "new_ConfirmationPacket [c] ok = Inr (ConfirmationPacket [c] ok)"
  using assms by (simp add: new_ConfirmationPacket_def find_sub_single)

lemma send_confirmation_out:
  assumes "c \<in> set CONFIRMATION_CODES"
  shows "send_confirmation [c] True st =
    (Inr (), st\<lparr>s_out := s_out st @ [[c, 0x2E]] @ s_send_queue st, s_send_queue := []\<rparr>)"
  using assms by (simp add: send_confirmation_def new_ConfirmationPacket_ok server_send_def serialize_packet_def)

lemma handle_sals_lighting: "list_all (\<lambda>s. \<exists>l. s = Lighting l) sals \<Longrightarrow> handle_sals sals st = (Continue, st)"
  by (induction sals) auto

section \<open>Lines through the server\<close>

lemma server_process_line:
  assumes "decode_packet (s_checksum st) True False (line @ rest) = Inr (Some p, length line)"
    and "line \<noteq> []"
    and "server_handle_cbus_packet p (server_echo line st) = (Inr (), st')"
  shows "process_buffer server_handle_data (line @ rest) st = process_buffer server_handle_data rest st'"
  using assms by (subst process_buffer.simps) (simp add: server_handle_data_def cbus_handle_data_def)

lemma server_process_blank:
  assumes "decode_packet (s_checksum st) True False (line @ rest) = Inr (None, length line)" "line \<noteq> []"
  shows "process_buffer server_handle_data (line @ rest) st =
    process_buffer server_handle_data rest (server_echo line st)"
  using assms by (subst process_buffer.simps) (simp add: server_handle_data_def cbus_handle_data_def)

text \<open>A tilde resets, and the carriage return after it is skipped.\<close>

lemma server_reset_line:
  "process_buffer server_handle_data (ascii ''~'' @ END_COMMAND @ rest) st =
   process_buffer server_handle_data rest
     (server_echo END_COMMAND (on_reset (server_echo (ascii ''~'') st)))"
proof -
  have 1: "decode_packet c True False (ascii ''~'' @ END_COMMAND @ rest) =
      Inr (Some (Packet ResetPacket), length (ascii ''~''))" for c
    by (simp add: decode_packet_def special_prefix_def ascii_def)
  have "find_sub [0x3F] (0x0D # rest) = Some i \<Longrightarrow> i \<noteq> 0" for i
    by (auto split: if_splits)
  then have 2: "decode_packet c True False (END_COMMAND @ rest) = Inr (None, length END_COMMAND)" for c
    by (auto simp: decode_packet_def special_prefix_def END_COMMAND_def line_end_def split: option.splits)
  have "process_buffer server_handle_data (ascii ''~'' @ END_COMMAND @ rest) st =
      process_buffer server_handle_data (END_COMMAND @ rest) (on_reset (server_echo (ascii ''~'') st))"
    by (rule server_process_line [OF 1]) (simp_all add: ascii_def)
  also have "\<dots> = process_buffer server_handle_data rest
      (server_echo END_COMMAND (on_reset (server_echo (ascii ''~'') st)))"
    by (rule server_process_blank [OF 2]) (simp add: END_COMMAND_def)
  finally show ?thesis .
qed

lemma server_smart_line:
  "process_buffer server_handle_data (ascii ''|'' @ END_COMMAND @ rest) st =
   process_buffer server_handle_data rest
     ((server_echo (ascii ''|'' @ END_COMMAND) st)\<lparr>s_basic_mode := False, s_connect := True\<rparr>)"
proof -
  have "decode_packet c True False ((ascii ''|'' @ END_COMMAND) @ rest) =
      Inr (Some (Packet SmartConnectShortcutPacket), length (ascii ''|'' @ END_COMMAND))" for c
    by (simp add: decode_packet_def special_prefix_def ascii_def END_COMMAND_def)
  from server_process_line [OF this] show ?thesis by (simp add: ascii_def)
qed

lemma server_dm_line:
  assumes "dm_wf p" "p_source p = None" "p_confirmation p = Some [c]" "c \<in> set CONFIRMATION_CODES"
    and "p_checksum p = s_checksum st" "encode_packet (DeviceManagementPacket p) = Inr wire"
    and "handle_dm p (server_echo (wire @ [c] @ END_COMMAND) st) = (Continue, st1)"
  shows "process_buffer server_handle_data (wire @ [c] @ END_COMMAND @ rest) st =
    process_buffer server_handle_data rest
      (st1\<lparr>s_out := s_out st1 @ [[c, 0x2E]] @ s_send_queue st1, s_send_queue := []\<rparr>)"
proof -
  have "decode_packet (s_checksum st) True False ((wire @ [c] @ END_COMMAND) @ rest) =
      Inr (Some (Packet (DeviceManagementPacket p)), length (wire @ [c] @ END_COMMAND))"
    using basic_dm_roundtrip [OF assms(1,2,3)] assms(4-6)
    by (auto simp: conf_ok_def conf_suffix_def END_COMMAND_def)
  from server_process_line [OF this] assms(3,7) send_confirmation_out [OF assms(4)] show ?thesis
    by (simp add: confirm_def END_COMMAND_def)
qed

text \<open>
  A client's point-to-multipoint command of lighting SALs, on a server that checks checksums in
  smart mode, is answered by its confirmation code and a dot.
\<close>

lemma server_lighting_line:
  assumes "decode_packet (s_checksum st) True False line =
      Inr (Some (Packet (PointToMultipointPacket p)), length line)" "line \<noteq> []"
    and "list_all (\<lambda>s. \<exists>l. s = Lighting l) (pm_sals p)" "p_confirmation p = Some [c]"
    and "c \<in> set CONFIRMATION_CODES" "\<not> s_basic_mode st" "s_send_queue st = []"
  shows "process_buffer server_handle_data line st = (Inr (), [], st\<lparr>s_out := s_out st @ [[c, 0x2E]]\<rparr>)"
proof -
  have "server_handle_cbus_packet (Packet (PointToMultipointPacket p)) (server_echo line st) =
      (Inr (), st\<lparr>s_out := s_out st @ [[c, 0x2E]]\<rparr>)"
    using assms by (cases st) (simp add: server_echo_def handle_sals_lighting confirm_def send_confirmation_out)
  from server_process_line [of st line "[]", OF _ assms(2) this] assms(1) show ?thesis
    by (simp add: process_buffer.simps [of _ "[]"])
qed

section \<open>A bare CAL\<close>

lemma bare_identify:
  "decode_packet False True False (ascii ''052101'' @ END_COMMAND @ rest) = Inr (Some (DirectCAL (IdentifyCAL 1)), 9)"
proof -
  have "decode_hex False True False True None (ascii ''052101'') 7 = Inr (Some (DirectCAL (IdentifyCAL 1)), 9)"
    by (simp add: decode_hex_def ascii_def HEX_CHARS_def hex_val_def decode_body_def decode_addressed_def
        finish_body_def guard_def DestinationAddressType_def PriorityClass_def decode_cal_def
        IdentifyCAL_decode_def)
  moreover have "conf_ok None" "set (ascii ''052101'') \<subseteq> set HEX_CHARS" "ascii ''052101'' \<noteq> []"
    by (simp_all add: conf_ok_def ascii_def HEX_CHARS_def)
  ultimately show ?thesis
    using basic_line [of "ascii ''052101''" None False True rest]
    by (simp add: conf_suffix_def ascii_def eval_nat_numeral)
qed

section \<open>The client's reset sequence\<close>

definition client_dm :: "int \<Rightarrow> int \<Rightarrow> byte \<Rightarrow> dm_packet" where
  "client_dm param val c = (new_DeviceManagementPacket False CLASS_2 param val)\<lparr>p_confirmation := Some [c]\<rparr>"

lemma client_dm_line:
  assumes "\<not> s_checksum st" "\<not> s_basic_mode st" "s_send_queue st = []"
    and "is_byte param" "is_byte val" "c \<in> set CONFIRMATION_CODES"
    and "handle_dm (client_dm param val c) st = (Continue, st1)" "s_send_queue st1 = []"
  shows "process_buffer server_handle_data
      (b16encode [0xA3, byte_of param, 0, byte_of val] @ [c] @ END_COMMAND @ rest) st =
    process_buffer server_handle_data rest (st1\<lparr>s_out := s_out st1 @ [[c, 0x2E]]\<rparr>)"
proof -
  have "encode_packet (DeviceManagementPacket (client_dm param val c)) =
      Inr (b16encode [0xA3, byte_of param, 0, byte_of val])"
    using assms(4,5) by (simp add: client_dm_def new_DeviceManagementPacket_def dm_encode_def
        base_encode_def add_checksum_if_def flags_def)
  moreover have "dm_wf (client_dm param val c)" "p_source (client_dm param val c) = None"
    "p_confirmation (client_dm param val c) = Some [c]" "\<not> p_checksum (client_dm param val c)"
    using assms(4,5) by (simp_all add: client_dm_def new_DeviceManagementPacket_def dm_wf_def)
  ultimately have "process_buffer server_handle_data
      (b16encode [0xA3, byte_of param, 0, byte_of val] @ [c] @ END_COMMAND @ rest) st =
    process_buffer server_handle_data rest
      (st1\<lparr>s_out := s_out st1 @ [[c, 0x2E]] @ s_send_queue st1, s_send_queue := []\<rparr>)"
    using assms by (intro server_dm_line) (simp_all add: server_echo_def)
  then show ?thesis using assms(8) by (cases st1) simp
qed

text \<open>What the server has written and which modes it is in after the client's reset.\<close>

definition reset_stream :: bytes where
  "reset_stream = concat (map (\<lambda>l. ascii l @ END_COMMAND)
     [''~'', ''~'', ''~'', ''|'', ''A32100FFh'', ''A32200FFi'', ''A342000Ej'', ''A3300079k''])"

lemma reset_stream_lines:
  "reset_stream =
     ascii ''~'' @ END_COMMAND @ ascii ''~'' @ END_COMMAND @ ascii ''~'' @ END_COMMAND @
     ascii ''|'' @ END_COMMAND @
     b16encode [0xA3, byte_of 0x21, 0, byte_of 0xFF] @ [0x68] @ END_COMMAND @
     b16encode [0xA3, byte_of 0x22, 0, byte_of 0xFF] @ [0x69] @ END_COMMAND @
     b16encode [0xA3, byte_of 0x42, 0, byte_of 0x0E] @ [0x6A] @ END_COMMAND @
     b16encode [0xA3, byte_of 0x30, 0, byte_of 0x79] @ [0x6B] @ END_COMMAND @ []"
  by (simp add: reset_stream_def ascii_def hex_char_def)

definition reset_echo :: "bytes list" where
  "reset_echo = [ascii ''~'', END_COMMAND, ascii ''~'', END_COMMAND, ascii ''~'', END_COMMAND,
     ascii ''|'' @ END_COMMAND]"

lemma bits_79: "bit (0x79 :: int) 0" "bit (0x79 :: int) 3" "bit (0x79 :: int) 4" "bit (0x79 :: int) 5"
  "bit (0x79 :: int) 6"
  by simp_all

lemma server_after_reset:
  assumes "s_send_queue st = []"
  shows "\<exists>st'. process_buffer server_handle_data reset_stream st = (Inr (), [], st') \<and>
    \<not> s_basic_mode st' \<and> s_connect st' \<and> s_checksum st' \<and> s_monitor st' \<and> s_idmon st' \<and>
    s_send_queue st' = [] \<and>
    (\<exists>pre. s_out st' = pre @ [ascii ''h.'', ascii ''i.'', ascii ''j.'', ascii ''k.''] \<and>
       (s_basic_mode st \<longrightarrow> pre = s_out st @ reset_echo))"
proof -
  have codes: "0x68 \<in> set CONFIRMATION_CODES" "0x69 \<in> set CONFIRMATION_CODES"
    "0x6A \<in> set CONFIRMATION_CODES" "0x6B \<in> set CONFIRMATION_CODES"
    by (simp_all add: CONFIRMATION_CODES_def)
  define r where "r s = server_echo END_COMMAND (on_reset (server_echo (ascii ''~'') s))" for s
  have r: "s_send_queue (r s) = s_send_queue s" "\<not> s_checksum (r s)" for s
    by (simp_all add: r_def server_echo_def on_reset_def)
  define s4 where "s4 = (server_echo (ascii ''|'' @ END_COMMAND) (r (r (r st))))
    \<lparr>s_basic_mode := False, s_connect := True\<rparr>"
  have s4: "\<not> s_checksum s4" "\<not> s_basic_mode s4" "s_send_queue s4 = []"
    using assms by (simp_all add: s4_def server_echo_def r)
  have e4: "s_basic_mode st \<Longrightarrow> s_out s4 = s_out st @ reset_echo"
    by (simp add: s4_def r_def server_echo_def on_reset_def reset_echo_def)
  define out where "out s c = s\<lparr>s_out := s_out s @ [[c, 0x2E]]\<rparr>" for s :: pci_server and c
  have keep: "s_checksum (out s c) = s_checksum s" "s_basic_mode (out s c) = s_basic_mode s"
    "s_send_queue (out s c) = s_send_queue s" "s_out (out s c) = s_out s @ [[c, 0x2E]]"
    "s_connect (out s c) = s_connect s" "s_monitor (out s c) = s_monitor s" "s_idmon (out s c) = s_idmon s"
    for s c by (simp_all add: out_def)
  define s7 where "s7 = out (out (out s4 0x68) 0x69) 0x6A"
  define s8 where "s8 = set_interface_options 0x79 s7"
  have hd: "handle_dm (client_dm 0x21 0xFF c) s = (Continue, s)"
    "handle_dm (client_dm 0x22 0xFF c) s = (Continue, s)" "handle_dm (client_dm 0x42 0x0E c) s = (Continue, s)"
    "handle_dm (client_dm 0x30 0x79 c) s = (Continue, set_interface_options 0x79 s)" for c s
    by (simp_all add: handle_dm_def client_dm_def new_DeviceManagementPacket_def)
  have q8: "s_send_queue s8 = []" using s4 by (simp add: s8_def s7_def set_interface_options_bits keep)
  have l1: "process_buffer server_handle_data
      (b16encode [0xA3, byte_of 0x21, 0, byte_of 0xFF] @ [0x68] @ END_COMMAND @ rest) s4 =
    process_buffer server_handle_data rest (out s4 0x68)" for rest
    unfolding out_def by (rule client_dm_line) (use s4 codes hd in simp_all)
  have l2: "process_buffer server_handle_data
      (b16encode [0xA3, byte_of 0x22, 0, byte_of 0xFF] @ [0x69] @ END_COMMAND @ rest) (out s4 0x68) =
    process_buffer server_handle_data rest (out (out s4 0x68) 0x69)" for rest
    unfolding out_def [of "out s4 0x68"] by (rule client_dm_line) (use s4 codes hd keep in simp_all)
  have l3: "process_buffer server_handle_data
      (b16encode [0xA3, byte_of 0x42, 0, byte_of 0x0E] @ [0x6A] @ END_COMMAND @ rest) (out (out s4 0x68) 0x69) =
    process_buffer server_handle_data rest s7" for rest
    unfolding s7_def out_def [of "out (out s4 0x68) 0x69"]
    by (rule client_dm_line) (use s4 codes hd keep in simp_all)
  have l4: "process_buffer server_handle_data
      (b16encode [0xA3, byte_of 0x30, 0, byte_of 0x79] @ [0x6B] @ END_COMMAND @ rest) s7 =
    process_buffer server_handle_data rest (out s8 0x6B)" for rest
  proof -
    have "\<not> s_checksum s7" "\<not> s_basic_mode s7" "s_send_queue s7 = []"
      "handle_dm (client_dm 0x30 0x79 0x6B) s7 = (Continue, s8)"
      using s4 by (simp_all add: s7_def keep s8_def hd)
    with codes q8 show ?thesis unfolding out_def [of s8] by (intro client_dm_line) simp_all
  qed
  have "process_buffer server_handle_data reset_stream st = process_buffer server_handle_data [] (out s8 0x6B)"
    unfolding reset_stream_lines server_reset_line server_smart_line r_def [symmetric] s4_def [symmetric]
    by (simp only: l1 l2 l3 l4)
  then have "process_buffer server_handle_data reset_stream st = (Inr (), [], out s8 0x6B)"
    by (simp add: process_buffer.simps)
  moreover have "s_out (out s8 0x6B) = s_out s4 @ [ascii ''h.'', ascii ''i.'', ascii ''j.'', ascii ''k.'']"
    by (simp add: keep s8_def s7_def set_interface_options_bits ascii_def)
  ultimately show ?thesis using q8 e4 by (auto simp: keep s8_def set_interface_options_bits bits_79)
qed

section \<open>Properties\<close>

text \<open>
  The options byte of a device management command for parameter \<open>0x30\<close> or \<open>0x41\<close>
  sets the five modes of the emulated PCI bit by bit: connect, checksum, smart (basic mode off),
  monitor and idmon are bits 0, 3, 4, 5 and 6, whatever the modes were before. With a valid
  confirmation code the command is answered by that code and a dot, and nothing else changes.
\<close>

lemma options_command:
  assumes "dm_parameter p \<in> {0x30, 0x41}" and "p_confirmation p = Some [c]" and "c \<in> set CONFIRMATION_CODES"
  shows "server_handle_cbus_packet (Packet (DeviceManagementPacket p)) st =
    (Inr (), st\<lparr>s_connect := bit (dm_value p) 0, s_checksum := bit (dm_value p) 3,
       s_basic_mode := \<not> bit (dm_value p) 4, s_monitor := bit (dm_value p) 5, s_idmon := bit (dm_value p) 6,
       s_out := s_out st @ [[c, 0x2E]] @ s_send_queue st, s_send_queue := []\<rparr>)"
  using assms by (cases st)
    (auto simp: confirm_def handle_dm_def set_interface_options_bits send_confirmation_out)

text \<open>
  A bare CAL swallows the beginning of the command behind it. The bare command
  \<open>052101\<close> is decoded as an IDENTIFY request, but the count of consumed bytes adds the length
  of the CAL to the length of the line, so that the first two bytes of whatever follows are
  dropped from the buffer.
\<close>

lemma bare_cal_overshoots:
  assumes "\<not> s_checksum st" and "\<not> s_basic_mode st"
  shows "decode_packet False True False (ascii ''052101'' @ END_COMMAND @ rest) =
      Inr (Some (DirectCAL (IdentifyCAL 1)), length (ascii ''052101'' @ END_COMMAND) + 2) \<and>
    process_buffer server_handle_data (ascii ''052101'' @ END_COMMAND @ [a, b] @ rest) st =
      process_buffer server_handle_data rest st"
proof -
  have d: "decode_packet False True False (ascii ''052101'' @ END_COMMAND @ rest) =
      Inr (Some (DirectCAL (IdentifyCAL 1)), 9)" for rest by (rule bare_identify)
  then have "server_handle_data (ascii ''052101'' @ END_COMMAND @ [a, b] @ rest) st = (Inr 9, st)"
    using assms by (simp add: server_handle_data_def cbus_handle_data_def server_echo_def)
  then have "process_buffer server_handle_data (ascii ''052101'' @ END_COMMAND @ [a, b] @ rest) st =
      process_buffer server_handle_data rest st"
    by (subst process_buffer.simps) (simp add: ascii_def END_COMMAND_def)
  with d show ?thesis by (simp add: ascii_def END_COMMAND_def)
qed

end
