(* ===== verification/Link.thy ===== *)
theory Link
  imports Pci_Steps Pci_Server
begin

text \<open>
  The client (\<open>Pci_Protocol\<close>) and the emulated PCI (\<open>Pci_Server\<close>) joined by a
  serial line: what the client writes is what the server receives, and the other way round.

  The lemmas follow one lighting command from the client's call through the server to the freed
  confirmation code, and the client's reset sequence into the modes of the server. The last ones
  are about the echo of basic mode, which the client has to get past.
\<close>

section \<open>A lighting command\<close>

lemma lighting_exchange:
  assumes cmd: "(cmd, mk) \<in> {(lighting_group_on, new_LightingOnSAL), (lighting_group_off, new_LightingOffSAL),
        (lighting_group_terminate_ramp, new_LightingTerminateRampSAL)}"
    and app: "app \<in> set lighting_applications" and ga: "\<forall>ga \<in> set gas. is_byte ga" "gas \<noteq> []" "length gas \<le> 9"
    and client: "conf_inv cst" "connected cst" "tasks cst = []"
    and server: "s_checksum sst" "\<not> s_basic_mode sst" "s_send_queue sst = []"
  shows "\<exists>code cst' line. cmd now gas app cst = (Inr (Some code), cst') \<and> written cst' = written cst @ [line] \<and>
    data_received server_handle_data line (new_BufferedProtocol MAX_BUFFER_SIZE sst) =
      new_BufferedProtocol MAX_BUFFER_SIZE (sst\<lparr>s_out := s_out sst @ [[code, 0x2E]]\<rparr>) \<and>
    map_of (pending cst') code = Some (line, 1, now) \<and>
    (let st = b_state (data_received pci_handle_data [code, 0x2E] (new_BufferedProtocol MAX_BUFFER_SIZE cst'));
         st' = fold run_task (tasks st) st in
     map_of (in_use st') = (map_of (in_use cst'))(code := None) \<and>
     map_of (pending st') = (map_of (pending cst'))(code := None))"
proof -
  have mk: "mk \<in> {new_LightingOnSAL, new_LightingOffSAL, new_LightingTerminateRampSAL}" using cmd by auto
  obtain p wire where p: "rbind (lighting_sals mk gas app) (new_PointToMultipointPacket True CLASS_4 None) = Inr p"
    "pm_wf p" "p_source p = None" "p_checksum p" "list_all (\<lambda>s. \<exists>l. s = Lighting l) (pm_sals p)"
    "encode_packet (PointToMultipointPacket p) = Inr wire" "length wire = 8 + 4 * length gas"
    using lighting_command [OF mk app ga] .
  obtain code cst' line where s: "send_seq now (PointToMultipointPacket p) True False cst = (Inr (Some code), cst')"
    "code \<in> set CONFIRMATION_CODES" "written cst' = written cst @ [line]"
    "map_of (pending cst') code = Some (line, 1, now)" "tasks cst' = []"
    and line: "line = 0x5C # wire @ [code] @ END_COMMAND"
    and dec: "\<And>strict rest. decode_packet (p_checksum p) strict False (line @ rest) =
      Inr (Some (Packet (PointToMultipointPacket (p\<lparr>p_confirmation := Some [code]\<rparr>))), length line)"
    using send_reaches_pci [OF client(1,2) p(2,3), of now] p(6) client(3)
    by (auto simp del: encode_packet.simps)
  have dec': "decode_packet (s_checksum sst) True False line =
      Inr (Some (Packet (PointToMultipointPacket (p\<lparr>p_confirmation := Some [code]\<rparr>))), length line)"
    using dec [of True "[]"] p(4) server(1) by simp
  have len: "length line \<le> MAX_BUFFER_SIZE"
    using p(7) ga(3) by (simp add: line END_COMMAND_def MAX_BUFFER_SIZE_def)
  have "process_buffer server_handle_data line sst = (Inr (), [], sst\<lparr>s_out := s_out sst @ [[code, 0x2E]]\<rparr>)"
    by (rule server_lighting_line [OF dec']) (use p(5) s(2) server in \<open>simp_all add: line\<close>)
  with len have srv: "data_received server_handle_data line (new_BufferedProtocol MAX_BUFFER_SIZE sst) =
      new_BufferedProtocol MAX_BUFFER_SIZE (sst\<lparr>s_out := s_out sst @ [[code, 0x2E]]\<rparr>)"
    by (simp add: data_received_def new_BufferedProtocol_def)
  have "cmd now gas app cst = (Inr (Some code), cst')"
    using cmd p(1) s(1)
    by (auto simp: lighting_group_on_def lighting_group_off_def lighting_group_terminate_ramp_def send_sals_def)
  moreover have "let st = b_state (data_received pci_handle_data [code, 0x2E] (new_BufferedProtocol MAX_BUFFER_SIZE cst'));
         st' = fold run_task (tasks st) st in
     map_of (in_use st') = (map_of (in_use cst'))(code := None) \<and>
     map_of (pending st') = (map_of (pending cst'))(code := None)"
    using confirmation_received [OF s(2), of "new_BufferedProtocol MAX_BUFFER_SIZE cst'"] s(5) confirmation_tasks_maps
    by (auto simp: new_BufferedProtocol_def Let_def)
  ultimately show ?thesis using s(3,4) srv by blast
qed

section \<open>The reset sequence\<close>

lemma rotated_connection: "rotated 0 now (connection_made st)" "connected (connection_made st)"
  "conf_inv (connection_made st)"
  by (simp_all add: connection_made_def Let_def rotated_def cleanup_state_def conf_inv_def codes_facts)

lemma reset_written:
  "\<exists>cst. pci_reset_seq now (connection_made st) = (Inr (), cst) \<and>
     concat (drop (length (written st)) (written cst)) = reset_stream"
proof -
  obtain cst where "pci_reset_seq now (connection_made st) = (Inr (), cst)"
    "written cst = written (connection_made st) @ map (\<lambda>l. ascii l @ END_COMMAND)
      [''~'', ''~'', ''~'', ''|'', ''A32100FFh'', ''A32200FFi'', ''A342000Ej'', ''A3300079k'']"
    using reset_lines [OF rotated_connection(1,2)] by metis
  moreover have "written (connection_made st) = written st"
    by (simp add: connection_made_def Let_def cleanup_state_def)
  ultimately show ?thesis by (simp add: reset_stream_def)
qed

section \<open>The echo\<close>

text \<open>
  A buffer that starts with an echoed tilde is not a message to the client until a line ending
  arrives: it waits, and confirmations behind the echo wait with it.
\<close>

lemma find_end_response: "0x0A \<notin> set data \<Longrightarrow> find_sub END_RESPONSE data = None"
proof (induction data)
  case (Cons a data)
  then show ?case by (cases data) (auto simp: END_RESPONSE_def)
qed (simp add: END_RESPONSE_def)

lemma tilde_waits:
  assumes "0x0A \<notin> set rest"
  shows "process_buffer pci_handle_data (0x7E # rest) st = (Inr (), 0x7E # rest, st)"
proof -
  have "find_sub END_RESPONSE (0x7E # rest) = None" using assms by (intro find_end_response) simp
  then have "decode_packet True True True (0x7E # rest) = Inr (None, 0)"
    by (simp add: decode_packet_def special_prefix_def line_end_def CONFIRMATION_CODES_def MIN_MESSAGE_SIZE_def)
  then show ?thesis
    by (simp add: process_buffer.simps [of _ "0x7E # rest"] pci_handle_data_def cbus_handle_data_def Let_def)
qed

lemma reset_echo_waits:
  assumes "s_basic_mode sst" "s_send_queue sst = []" "s_out sst = []"
  shows "\<exists>sst'. process_buffer server_handle_data reset_stream sst = (Inr (), [], sst') \<and>
    data_received pci_handle_data (concat (s_out sst')) (new_BufferedProtocol MAX_BUFFER_SIZE cst) =
      (new_BufferedProtocol MAX_BUFFER_SIZE cst)\<lparr>b_buf := concat (s_out sst')\<rparr>"
proof -
  obtain sst' where s: "process_buffer server_handle_data reset_stream sst = (Inr (), [], sst')"
    "s_out sst' = reset_echo @ [ascii ''h.'', ascii ''i.'', ascii ''j.'', ascii ''k.'']"
    using server_after_reset [OF assms(2)] assms(1,3) by fastforce
  obtain rest where r: "concat (s_out sst') = 0x7E # rest" "0x0A \<notin> set rest" "length rest < MAX_BUFFER_SIZE"
    using s(2) by (simp add: reset_echo_def ascii_def END_COMMAND_def MAX_BUFFER_SIZE_def)
  with s(1) tilde_waits [OF r(2)] show ?thesis
    by (simp add: data_received_def new_BufferedProtocol_def)
qed

end
