(* ===== verification/Py_Text.thy ===== *)
theory Py_Text
  imports Prelude
begin

text \<open>
  The string operations of Python the daemon uses: decimal formatting, the conversion
  \<open>int(s)\<close>, and splitting. Strings are lists of characters with code points below 256;
  within that range \<open>is_space\<close> and \<open>digit_val\<close> are what \<open>str.isspace\<close> and
  \<open>int\<close> accept, including the underscores \<open>int\<close> allows between digits and its limit
  of 4300 digits.

  The lemmas show that \<open>int\<close> reads back what the formatting operations print.
\<close>

section \<open>Formatting\<close>

definition digit :: "nat \<Rightarrow> char" where
  "digit d = char_of (48 + d)"

fun show_nat :: "nat \<Rightarrow> string" where
  "show_nat n = (if n < 10 then [digit n] else show_nat (n div 10) @ [digit (n mod 10)])"

declare show_nat.simps [simp del]

definition py_str :: "int \<Rightarrow> string" where
  "py_str x = (if x < 0 then CHR ''-'' # show_nat (nat (- x)) else show_nat (nat x))"

definition zero_pad :: "nat \<Rightarrow> string \<Rightarrow> string" where
  "zero_pad k s = replicate (k - length s) CHR ''0'' @ s"

text \<open>The format \<open>03d\<close>: at least three characters, the sign included.\<close>

definition fmt_03d :: "int \<Rightarrow> string" where
  "fmt_03d x = (if x < 0 then CHR ''-'' # zero_pad 2 (show_nat (nat (- x))) else zero_pad 3 (show_nat (nat x)))"

section \<open>Reading\<close>

definition is_space :: "char \<Rightarrow> bool" where
  "is_space c \<longleftrightarrow> (let n = of_char c :: nat in 9 \<le> n \<and> n \<le> 13 \<or> 28 \<le> n \<and> n \<le> 32 \<or> n = 0x85 \<or> n = 0xA0)"

definition digit_val :: "char \<Rightarrow> nat option" where
  "digit_val c = (let n = of_char c :: nat in if 48 \<le> n \<and> n \<le> 57 then Some (n - 48) else None)"

definition py_strip :: "string \<Rightarrow> string" where
  "py_strip s = rev (dropWhile is_space (rev (dropWhile is_space s)))"

text \<open>\<open>int_digits acc b s\<close>: read digits; \<open>b\<close> says that the last character was one.\<close>

fun int_digits :: "nat \<Rightarrow> bool \<Rightarrow> string \<Rightarrow> nat option" where
  "int_digits acc b [] = (if b then Some acc else None)"
| "int_digits acc b (c # cs) =
     (case digit_val c of
        Some d \<Rightarrow> int_digits (10 * acc + d) True cs
      | None \<Rightarrow> if c = CHR ''_'' \<and> b then int_digits acc False cs else None)"

definition MAX_STR_DIGITS :: nat where "MAX_STR_DIGITS = 4300"

definition py_int :: "string \<Rightarrow> int result" where
  "py_int s =
     (let t = py_strip s;
          (neg, body) = (case t of
             c # cs \<Rightarrow> if c = CHR ''-'' then (True, cs) else if c = CHR ''+'' then (False, cs) else (False, t)
           | [] \<Rightarrow> (False, [])) in
      if length (filter (\<lambda>c. digit_val c \<noteq> None) body) > MAX_STR_DIGITS then Inl ValueError
      else case int_digits 0 False body of
             None \<Rightarrow> Inl ValueError
           | Some n \<Rightarrow> Inr (if neg then - int n else int n))"

text \<open>\<open>int(s, 16)\<close>: white space around, a sign, the prefix \<open>0x\<close>, and single underscores.\<close>

definition hexdigit_val :: "char \<Rightarrow> nat option" where
  "hexdigit_val c =
     (let n = of_char c :: nat in
      if 48 \<le> n \<and> n \<le> 57 then Some (n - 48)
      else if 65 \<le> n \<and> n \<le> 70 then Some (n - 55)
      else if 97 \<le> n \<and> n \<le> 102 then Some (n - 87) else None)"

fun hex_digits :: "nat \<Rightarrow> bool \<Rightarrow> string \<Rightarrow> nat option" where
  "hex_digits acc b [] = (if b then Some acc else None)"
| "hex_digits acc b (c # cs) =
     (case hexdigit_val c of
        Some d \<Rightarrow> hex_digits (16 * acc + d) True cs
      | None \<Rightarrow> if c = CHR ''_'' \<and> b then hex_digits acc False cs else None)"

definition py_int16 :: "string \<Rightarrow> int result" where
  "py_int16 s =
     (let t = py_strip s;
          (neg, body) = (case t of
             c # cs \<Rightarrow> if c = CHR ''-'' then (True, cs) else if c = CHR ''+'' then (False, cs) else (False, t)
           | [] \<Rightarrow> (False, []));
          prefixed = starts_with ''0x'' body \<or> starts_with ''0X'' body;
          body = (if prefixed then (case drop 2 body of c # cs \<Rightarrow> if c = CHR ''_'' then cs else c # cs | [] \<Rightarrow> []) else body) in
      case hex_digits 0 False body of
        None \<Rightarrow> Inl ValueError
      | Some n \<Rightarrow> Inr (if neg then - int n else int n))"

section \<open>Splitting\<close>

fun split_on :: "'a \<Rightarrow> 'a list \<Rightarrow> 'a list list" where
  "split_on c [] = [[]]"
| "split_on c (x # xs) =
     (if x = c then [] # split_on c xs
      else case split_on c xs of [] \<Rightarrow> [[x]] | p # ps \<Rightarrow> (x # p) # ps)"

definition ends_with :: "'a list \<Rightarrow> 'a list \<Rightarrow> bool" where
  "ends_with suf xs \<longleftrightarrow> length suf \<le> length xs \<and> drop (length xs - length suf) xs = suf"

definition py_upper :: "string \<Rightarrow> string" where
  "py_upper s = map (\<lambda>c. let n = of_char c :: nat in if 97 \<le> n \<and> n \<le> 122 then char_of (n - 32) else c) s"

section \<open>Reading back\<close>

lemma digit_val_digit [simp]: "d < 10 \<Longrightarrow> digit_val (digit d) = Some d"
  by (simp add: digit_val_def digit_def)

definition all_digits :: "string \<Rightarrow> bool" where
  "all_digits s \<longleftrightarrow> list_all (\<lambda>c. digit_val c \<noteq> None) s"

definition digits_value :: "nat \<Rightarrow> string \<Rightarrow> nat" where
  "digits_value acc s = foldl (\<lambda>a c. 10 * a + the (digit_val c)) acc s"

lemma int_digits_all:
  "all_digits s \<Longrightarrow> s \<noteq> [] \<or> b \<Longrightarrow> int_digits acc b s = Some (digits_value acc s)"
  by (induction acc b s rule: int_digits.induct)
    (auto simp: all_digits_def digits_value_def split: option.splits)

lemma all_digits_append [simp]: "all_digits (s @ t) \<longleftrightarrow> all_digits s \<and> all_digits t"
  by (simp add: all_digits_def)

lemma show_nat_digits: "all_digits (show_nat n) \<and> show_nat n \<noteq> [] \<and> digits_value 0 (show_nat n) = n"
proof (induction n rule: show_nat.induct)
  case (1 n)
  show ?case
  proof (cases "n < 10")
    case True
    then show ?thesis by (simp add: show_nat.simps [of n] all_digits_def digits_value_def)
  next
    case False
    with 1 have "all_digits (show_nat (n div 10))" "digits_value 0 (show_nat (n div 10)) = n div 10" by auto
    moreover have "all_digits [digit (n mod 10)]" by (simp add: all_digits_def)
    ultimately show ?thesis using False by (simp add: show_nat.simps [of n] digits_value_def)
  qed
qed

lemma digit_zero: "CHR ''0'' = digit 0"
  unfolding digit_def by code_simp

lemma zero_pad_digits:
  assumes "all_digits s" "s \<noteq> []"
  shows "all_digits (zero_pad k s) \<and> zero_pad k s \<noteq> [] \<and> digits_value 0 (zero_pad k s) = digits_value 0 s"
proof -
  have "digits_value 0 (replicate m CHR ''0'' @ s) = digits_value 0 s" for m
    by (induction m) (simp_all add: digits_value_def digit_zero)
  moreover have "all_digits (replicate m CHR ''0'')" for m
    by (induction m) (simp_all add: all_digits_def digit_zero)
  ultimately show ?thesis using assms by (simp add: zero_pad_def)
qed

lemma digit_not_space: "digit_val c = Some d \<Longrightarrow> \<not> is_space c \<and> c \<noteq> CHR ''-'' \<and> c \<noteq> CHR ''+'' \<and> c \<noteq> CHR ''_'' \<and> c \<noteq> CHR ''/''"
  by (auto simp: digit_val_def is_space_def Let_def split: if_splits)

lemma strip_digits: "all_digits s \<Longrightarrow> py_strip s = s"
proof -
  have "dropWhile is_space t = t" if "all_digits t" for t
    using that by (cases t) (auto simp: all_digits_def dest: digit_not_space)
  moreover have "all_digits (rev s) = all_digits s" by (simp add: all_digits_def list_all_iff)
  moreover assume "all_digits s"
  ultimately show ?thesis by (simp add: py_strip_def)
qed

lemma py_int_digits:
  assumes "all_digits s" "s \<noteq> []" "length s \<le> MAX_STR_DIGITS"
  shows "py_int s = Inr (int (digits_value 0 s))"
proof -
  obtain c cs where s: "s = c # cs" using assms(2) by (cases s) auto
  then have "c \<noteq> CHR ''-''" "c \<noteq> CHR ''+''"
    using assms(1) by (auto simp: all_digits_def dest: digit_not_space)
  moreover have "filter (\<lambda>c. digit_val c \<noteq> None) s = s"
    using assms(1) by (simp add: all_digits_def list_all_iff)
  ultimately show ?thesis
    using int_digits_all [OF assms(1), of False 0] assms strip_digits [OF assms(1)] s
    by (simp add: py_int_def Let_def)
qed

lemma show_nat_length: "n < 1000 \<Longrightarrow> length (show_nat n) \<le> 3"
  by (simp add: show_nat.simps [of n] show_nat.simps [of "n div 10"] show_nat.simps [of "n div 10 div 10"])

lemma show_nat_bound: "n < 10 ^ Suc k \<Longrightarrow> length (show_nat n) \<le> Suc k"
proof (induction k arbitrary: n)
  case (Suc k)
  then have "n div 10 < 10 ^ Suc k" by simp
  with Suc.IH have "length (show_nat (n div 10)) \<le> Suc k" .
  then show ?case by (subst show_nat.simps) simp
qed (simp add: show_nat.simps)

lemma py_int_str:
  assumes "0 \<le> x" "x < 10 ^ 9"
  shows "py_int (py_str x) = Inr x"
proof -
  have "length (show_nat (nat x)) \<le> 9" using show_nat_bound [of "nat x" 8] assms by (simp add: nat_less_iff)
  then show ?thesis using show_nat_digits [of "nat x"] assms
    by (simp add: py_str_def py_int_digits MAX_STR_DIGITS_def)
qed

lemma py_int_formats:
  assumes "0 \<le> x" "x < 1000"
  shows "py_int (py_str x) = Inr x" "py_int (fmt_03d x) = Inr x"
proof -
  have len: "length (show_nat (nat x)) \<le> 3" using assms by (intro show_nat_length) linarith
  then show "py_int (py_str x) = Inr x"
    using assms show_nat_digits [of "nat x"] by (simp add: py_str_def py_int_digits MAX_STR_DIGITS_def)
  have "length (zero_pad 3 (show_nat (nat x))) = 3" using len by (simp add: zero_pad_def)
  then show "py_int (fmt_03d x) = Inr x"
    using assms show_nat_digits [of "nat x"] zero_pad_digits [of "show_nat (nat x)" 3]
    by (simp add: fmt_03d_def py_int_digits MAX_STR_DIGITS_def)
qed

lemma all_digits_formats:
  "0 \<le> x \<Longrightarrow> all_digits (py_str x)" "0 \<le> x \<Longrightarrow> all_digits (fmt_03d x)"
  using show_nat_digits [of "nat x"] zero_pad_digits [of "show_nat (nat x)" 3]
  by (simp_all add: py_str_def fmt_03d_def)

lemma split_on_none: "c \<notin> set xs \<Longrightarrow> split_on c xs = [xs]"
  by (induction xs) auto

lemma split_on_append: "c \<notin> set xs \<Longrightarrow> split_on c (xs @ c # ys) = xs # split_on c ys"
  by (induction xs) auto

lemma digits_no_separator: "all_digits s \<Longrightarrow> CHR ''_'' \<notin> set s \<and> CHR ''/'' \<notin> set s"
  by (fastforce simp: all_digits_def list_all_iff dest: digit_not_space)

lemma ends_with_append [simp]: "ends_with suf (xs @ suf)"
  by (simp add: ends_with_def)

lemma ends_with_last:
  assumes "ends_with suf (xs @ suf')" "suf \<noteq> []" "suf' \<noteq> []"
  shows "last suf = last suf'"
  using assms by (metis append_take_drop_id ends_with_def last_appendR)

end
