(* ===== verification/Topics.thy ===== *)
theory Topics
  imports Py_Text Cbus_Common
begin

text \<open>
  The MQTT topics of \<open>cbus/daemon/topics.py\<close> and the helpers of
  \<open>cbus/daemon/mqtt_gateway.py\<close> that read and name them. An application address is its number;
  \<open>str\<close> of the \<open>Application\<close> enumeration is that number, as it is for an
  \<open>IntEnum\<close> since Python 3.11.

  The lemmas show that the command topic of an address is read back as that address, and that
  the topics the daemon publishes on are not command topics.
\<close>

section \<open>Topic names\<close>

definition BINSENSOR_TOPIC_PREFIX :: string where "BINSENSOR_TOPIC_PREFIX = ''homeassistant/binary_sensor/cbus_''"
definition LIGHT_TOPIC_PREFIX :: string where "LIGHT_TOPIC_PREFIX = ''homeassistant/light/cbus_''"
definition TOPIC_SET_SUFFIX :: string where "TOPIC_SET_SUFFIX = ''/set''"
definition TOPIC_CONF_SUFFIX :: string where "TOPIC_CONF_SUFFIX = ''/config''"
definition TOPIC_STATE_SUFFIX :: string where "TOPIC_STATE_SUFFIX = ''/state''"

definition ga_string :: "int \<Rightarrow> int \<Rightarrow> bool \<Rightarrow> string" where
  "ga_string group_addr app_addr zeros =
     (if app_addr = LIGHTING then if zeros then fmt_03d group_addr else py_str group_addr
      else fmt_03d app_addr @ ''_'' @ fmt_03d group_addr)"

definition set_topic :: "int \<Rightarrow> int \<Rightarrow> string" where
  "set_topic group_addr app_addr = LIGHT_TOPIC_PREFIX @ ga_string group_addr app_addr False @ TOPIC_SET_SUFFIX"

definition state_topic :: "int \<Rightarrow> int \<Rightarrow> string" where
  "state_topic group_addr app_addr = LIGHT_TOPIC_PREFIX @ ga_string group_addr app_addr False @ TOPIC_STATE_SUFFIX"

definition conf_topic :: "int \<Rightarrow> int \<Rightarrow> string" where
  "conf_topic group_addr app_addr = LIGHT_TOPIC_PREFIX @ ga_string group_addr app_addr False @ TOPIC_CONF_SUFFIX"

definition bin_sensor_state_topic :: "int \<Rightarrow> int \<Rightarrow> string" where
  "bin_sensor_state_topic group_addr app_addr =
     BINSENSOR_TOPIC_PREFIX @ ga_string group_addr app_addr False @ TOPIC_STATE_SUFFIX"

definition bin_sensor_conf_topic :: "int \<Rightarrow> int \<Rightarrow> string" where
  "bin_sensor_conf_topic group_addr app_addr =
     BINSENSOR_TOPIC_PREFIX @ ga_string group_addr app_addr False @ TOPIC_CONF_SUFFIX"

definition default_light_name :: "int \<Rightarrow> int \<Rightarrow> string" where
  "default_light_name group_addr app_addr = ''C-Bus Light '' @ ga_string group_addr app_addr True"

section \<open>Reading a command topic\<close>

definition get_topic_group_address :: "string \<Rightarrow> (int \<times> int) result" where
  "get_topic_group_address topic =
     (if \<not> starts_with LIGHT_TOPIC_PREFIX topic then Inl ValueError
      else
        let part = takeWhile (\<lambda>c. c \<noteq> CHR ''/'') (drop (length LIGHT_TOPIC_PREFIX) topic) in
        rbind (case split_on (CHR ''_'') part of
                 a1 # a2 # _ \<Rightarrow> rbind (py_int a1) (\<lambda>aa. rmap (\<lambda>ga. (aa, ga)) (py_int a2))
               | a1 # [] \<Rightarrow> rmap (\<lambda>ga. (LIGHTING, ga)) (py_int a1)
               | [] \<Rightarrow> Inl ValueError) (\<lambda>(aa, ga).
        rmap (\<lambda>_. (ga, aa)) (check_ga ga)))"

section \<open>Round trip\<close>

lemma starts_with_prefix [simp]: "starts_with pat (pat @ xs)"
  by (simp add: starts_with_def)

lemma ga_string_plain:
  assumes "0 \<le> ga" "0 \<le> app"
  shows "CHR ''/'' \<notin> set (ga_string ga app zeros)"
  using digits_no_separator [OF all_digits_formats(1) [OF assms(1)]]
    digits_no_separator [OF all_digits_formats(2) [OF assms(1)]]
    digits_no_separator [OF all_digits_formats(2) [OF assms(2)]]
  by (simp add: ga_string_def)

lemma takeWhile_before: "c \<notin> set xs \<Longrightarrow> takeWhile (\<lambda>x. x \<noteq> c) (xs @ c # ys) = xs"
  by (induction xs) auto

lemma topic_address:
  assumes "0 \<le> ga" "ga < 1000" "0 \<le> app" "app < 1000"
  shows "get_topic_group_address (LIGHT_TOPIC_PREFIX @ ga_string ga app False @ CHR ''/'' # rest) =
    rmap (\<lambda>_. (ga, app)) (check_ga ga)"
proof -
  have "takeWhile (\<lambda>c. c \<noteq> CHR ''/'') (ga_string ga app False @ CHR ''/'' # rest) = ga_string ga app False"
    using ga_string_plain [OF assms(1,3)] by (rule takeWhile_before)
  moreover have "CHR ''_'' \<notin> set (py_str ga)" "CHR ''_'' \<notin> set (fmt_03d ga)" "CHR ''_'' \<notin> set (fmt_03d app)"
    using digits_no_separator all_digits_formats assms by auto
  ultimately show ?thesis using assms
    by (cases "app = LIGHTING")
      (simp_all add: get_topic_group_address_def ga_string_def split_on_none split_on_append py_int_formats)
qed

lemma set_topic_address:
  assumes "is_byte ga" "is_byte app"
  shows "get_topic_group_address (set_topic ga app) = Inr (ga, app)"
  using topic_address [of ga app "''set''"] assms
  by (simp add: set_topic_def TOPIC_SET_SUFFIX_def is_byte_def)

lemma topic_address_valid:
  "get_topic_group_address topic = Inr (ga, app) \<Longrightarrow> is_byte ga"
  by (auto simp: get_topic_group_address_def result_simps is_byte_def Let_def check_ga_simps split: if_splits prod.splits)

lemma topic_address_error: "get_topic_group_address topic = Inl e \<Longrightarrow> e = ValueError"
  by (auto simp: get_topic_group_address_def result_simps Let_def check_ga_def py_int_def
      split: if_splits prod.splits list.splits option.splits)

section \<open>Published topics are not commands\<close>

lemma not_command_suffix:
  assumes "last suf \<noteq> CHR ''t''" "suf \<noteq> []"
  shows "\<not> ends_with TOPIC_SET_SUFFIX (xs @ suf)"
  using ends_with_last [of TOPIC_SET_SUFFIX xs suf] assms by (auto simp: TOPIC_SET_SUFFIX_def)

lemma published_not_command:
  "\<not> ends_with TOPIC_SET_SUFFIX (state_topic ga app)" "\<not> ends_with TOPIC_SET_SUFFIX (conf_topic ga app)"
  "\<not> ends_with TOPIC_SET_SUFFIX (bin_sensor_state_topic ga app)"
  "\<not> ends_with TOPIC_SET_SUFFIX (bin_sensor_conf_topic ga app)"
  unfolding state_topic_def conf_topic_def bin_sensor_state_topic_def bin_sensor_conf_topic_def
    append_assoc [symmetric]
  by (rule not_command_suffix; simp add: TOPIC_STATE_SUFFIX_def TOPIC_CONF_SUFFIX_def)+

lemma set_topic_command: "starts_with LIGHT_TOPIC_PREFIX (set_topic ga app)" "ends_with TOPIC_SET_SUFFIX (set_topic ga app)"
proof -
  show "starts_with LIGHT_TOPIC_PREFIX (set_topic ga app)" by (simp add: set_topic_def)
  show "ends_with TOPIC_SET_SUFFIX (set_topic ga app)"
    unfolding set_topic_def append_assoc [symmetric] by (rule ends_with_append)
qed

section \<open>Properties\<close>

text \<open>
  The command topic of a group and application address is read back as that address, so
  distinct addresses have distinct command topics; a topic with a group address that is out of
  range raises \<open>ValueError\<close>.
\<close>

lemma command_topic_roundtrip:
  assumes "0 \<le> ga" and "ga < 1000" and "is_byte app"
  shows "get_topic_group_address (set_topic ga app) = (if is_byte ga then Inr (ga, app) else Inl ValueError)"
proof -
  have "check_ga ga = (if is_byte ga then Inr () else Inl ValueError)"
    by (auto simp: check_ga_def validate_ga_def is_byte_def)
  with topic_address [of ga app "''set''"] assms show ?thesis
    by (simp add: set_topic_def TOPIC_SET_SUFFIX_def is_byte_def)
qed

end
