(* ===== verification/Periodic.thy ===== *)
theory Periodic
  imports Prelude "HOL-Library.Extended_Nat"
begin

text \<open>
  \<open>Periodic\<close> of \<open>cbus/toolkit/periodic.py\<close>: a bounded queue of actions that a worker
  task takes one at a time, with a pause after each. The record holds the queue, its
  \<open>maxsize\<close> (0 for no bound, as in \<open>asyncio.Queue\<close>) and the \<open>running\<close> flag;
  \<open>periodic_work\<close> is one turn of the worker, \<open>None\<close> when it waits or has ended.

  The locale \<open>task_queue\<close> is what a producer relies on: an accepted task goes to the end, a
  full or stopped queue is left alone. From it follow the facts about enqueuing a batch: what is
  accepted is a prefix of the batch, and all of it when there is room.
\<close>

section \<open>The queue\<close>

record 'a periodic =
  q_items :: "'a list"
  q_max :: nat
  q_running :: bool

definition new_Periodic :: "nat \<Rightarrow> 'a periodic" where
  "new_Periodic max_queue_size = \<lparr>q_items = [], q_max = max_queue_size, q_running = True\<rparr>"

definition queue_full :: "'a periodic \<Rightarrow> bool" where
  "queue_full q \<longleftrightarrow> 0 < q_max q \<and> q_max q \<le> length (q_items q)"

definition enqueue :: "'a \<Rightarrow> 'a periodic \<Rightarrow> 'a periodic" where
  "enqueue t q = (if q_running q \<and> \<not> queue_full q then q\<lparr>q_items := q_items q @ [t]\<rparr> else q)"

definition periodic_work :: "'a periodic \<Rightarrow> ('a \<times> 'a periodic) option" where
  "periodic_work q =
     (if \<not> q_running q then None
      else case q_items q of [] \<Rightarrow> None | t # ts \<Rightarrow> Some (t, q\<lparr>q_items := ts\<rparr>))"

definition periodic_cleanup :: "'a periodic \<Rightarrow> 'a periodic" where
  "periodic_cleanup q = q\<lparr>q_running := False, q_items := []\<rparr>"

text \<open>\<open>n\<close> turns of the worker: the actions in the order they are run.\<close>

fun periodic_run :: "nat \<Rightarrow> 'a periodic \<Rightarrow> 'a list \<times> 'a periodic" where
  "periodic_run 0 q = ([], q)"
| "periodic_run (Suc n) q =
     (case periodic_work q of
        None \<Rightarrow> ([], q)
      | Some (t, q') \<Rightarrow> let (ts, q'') = periodic_run n q' in (t # ts, q''))"

section \<open>What a producer relies on\<close>

locale task_queue =
  fixes items :: "'q \<Rightarrow> 'a list" and capacity :: "'q \<Rightarrow> enat" and put :: "'a \<Rightarrow> 'q \<Rightarrow> 'q"
  assumes put_items: "items (put x q) = (if enat (length (items q)) < capacity q then items q @ [x] else items q)"
    and put_capacity: "capacity (put x q) = capacity q"
begin

lemma put_all_capacity: "capacity (fold put xs q) = capacity q"
  by (induction xs arbitrary: q) (simp_all add: put_capacity)

lemma put_all_room:
  "enat (length (items q) + length xs) \<le> capacity q \<Longrightarrow> items (fold put xs q) = items q @ xs"
proof (induction xs arbitrary: q)
  case (Cons x xs)
  have "enat (length (items q)) < enat (length (items q) + length (x # xs))" by simp
  then have "enat (length (items q)) < capacity q" using Cons.prems by (rule less_le_trans)
  then have "items (put x q) = items q @ [x]" by (simp add: put_items)
  with Cons.IH [of "put x q"] Cons.prems show ?case by (simp add: put_capacity)
qed simp

lemma put_all_prefix: "\<exists>k. items (fold put xs q) = items q @ take k xs"
proof (induction xs arbitrary: q)
  case (Cons x xs)
  show ?case
  proof (cases "enat (length (items q)) < capacity q")
    case True
    then show ?thesis using Cons.IH [of "put x q"] put_items [of x q]
      by (metis append.assoc append_Cons append_Nil fold_simps(2) take_Suc_Cons)
  next
    case False
    then have "items (fold put xs q') = items q'" if "items q' = items q" "capacity q' = capacity q" for q'
      using that by (induction xs arbitrary: q') (simp_all add: put_items put_capacity)
    then show ?thesis using False by (intro exI [of _ 0]) (simp add: put_items put_capacity)
  qed
qed simp

lemma put_all_bounded:
  "enat (length (items q)) \<le> capacity q \<Longrightarrow> enat (length (items (fold put xs q))) \<le> capacity q"
proof (induction xs arbitrary: q)
  case (Cons x xs)
  have "enat (length (items (put x q))) \<le> capacity q"
    using Cons.prems by (cases "capacity q") (auto simp: put_items)
  with Cons.IH [of "put x q"] show ?case by (simp add: put_capacity)
qed simp

end

definition periodic_capacity :: "'a periodic \<Rightarrow> enat" where
  "periodic_capacity q = (if \<not> q_running q then 0 else if q_max q = 0 then \<infinity> else enat (q_max q))"

interpretation throttle: task_queue q_items periodic_capacity enqueue
  by unfold_locales (auto simp: enqueue_def periodic_capacity_def queue_full_def zero_enat_def)

section \<open>First in, first out\<close>

lemma periodic_run_take:
  "q_running q \<Longrightarrow> periodic_run n q = (take n (q_items q), q\<lparr>q_items := drop n (q_items q)\<rparr>)"
proof (induction n arbitrary: q)
  case (Suc n)
  then show ?case by (cases "q_items q") (simp_all add: periodic_work_def)
qed simp

lemma enqueue_keeps [simp]: "q_running (enqueue t q) = q_running q" "q_max (enqueue t q) = q_max q"
  by (simp_all add: enqueue_def)

lemma fold_enqueue_keeps [simp]:
  "q_running (fold enqueue ts q) = q_running q" "q_max (fold enqueue ts q) = q_max q"
  by (induction ts arbitrary: q) simp_all

end
