(* ===== verification/Json.thy ===== *)
theory Json
  imports Prelude
begin

text \<open>
  JSON values as Python's \<open>json\<close> module reads and writes them: what the MQTT gateway receives
  and publishes, and what the vectors of the migration harness are made of. An object is the list
  of its members in order; \<open>jget\<close> is \<open>d[key]\<close> and \<open>jget_or\<close> is \<open>d.get(key)\<close>.
  \<open>json_eq\<close> is Python's \<open>==\<close> on such values, which ignores the order of members and
  compares booleans, integers and floats as numbers.
\<close>

section \<open>JSON values\<close>

datatype py_float = FNaN | FInf bool | FFin rat

datatype json =
    JNull
  | JBool bool
  | JInt int
  | JFloat py_float
  | JString string
  | JList "json list"
  | JObject "(string \<times> json) list"

text \<open>\<open>isinstance(x, (int, float))\<close>, which holds of booleans, and \<open>int(x)\<close> on those.\<close>

fun is_number :: "json \<Rightarrow> bool" where
  "is_number (JBool b) = True"
| "is_number (JInt i) = True"
| "is_number (JFloat f) = True"
| "is_number _ = False"

fun int_of_number :: "json \<Rightarrow> int result" where
  "int_of_number (JBool b) = Inr (if b then 1 else 0)"
| "int_of_number (JInt i) = Inr i"
| "int_of_number (JFloat FNaN) = Inl ValueError"
| "int_of_number (JFloat (FInf neg)) = Inl OverflowError"
| "int_of_number (JFloat (FFin q)) = Inr (if 0 \<le> q then \<lfloor>q\<rfloor> else \<lceil>q\<rceil>)"
| "int_of_number _ = Inl TypeError"

section \<open>Reading values\<close>

definition jget :: "json \<Rightarrow> string \<Rightarrow> json result" where
  "jget d k =
     (case d of
        JObject ms \<Rightarrow> (case map_of ms k of None \<Rightarrow> Inl KeyError | Some v \<Rightarrow> Inr v)
      | _ \<Rightarrow> Inl TypeError)"

definition jget_or :: "json \<Rightarrow> string \<Rightarrow> json" where
  "jget_or d k = (case jget d k of Inl _ \<Rightarrow> JNull | Inr v \<Rightarrow> v)"

fun truthy :: "json \<Rightarrow> bool" where
  "truthy JNull = False"
| "truthy (JBool b) = b"
| "truthy (JInt i) \<longleftrightarrow> i \<noteq> 0"
| "truthy (JFloat f) \<longleftrightarrow> f \<noteq> FFin 0"
| "truthy (JString s) \<longleftrightarrow> s \<noteq> []"
| "truthy (JList xs) \<longleftrightarrow> xs \<noteq> []"
| "truthy (JObject ms) \<longleftrightarrow> ms \<noteq> []"

text \<open>The number of a value that is one; \<open>float('nan')\<close> and the infinities have none.\<close>

fun number_of_json :: "json \<Rightarrow> rat option" where
  "number_of_json (JBool b) = Some (if b then 1 else 0)"
| "number_of_json (JInt i) = Some (of_int i)"
| "number_of_json (JFloat (FFin q)) = Some q"
| "number_of_json _ = None"

text \<open>
  The elements \<open>for x in v\<close> goes through: of a string its characters, of an object its keys.
\<close>

fun elements :: "json \<Rightarrow> json list result" where
  "elements (JList xs) = Inr xs"
| "elements (JString s) = Inr (map (\<lambda>c. JString [c]) s)"
| "elements (JObject ms) = Inr (map (JString \<circ> fst) ms)"
| "elements _ = Inl TypeError"

section \<open>Equality\<close>

fun json_eq :: "json \<Rightarrow> json \<Rightarrow> bool"
and list_eq :: "json list \<Rightarrow> json list \<Rightarrow> bool"
and members_eq :: "(string \<times> json) list \<Rightarrow> (string \<times> json) list \<Rightarrow> bool" where
  "json_eq JNull b \<longleftrightarrow> b = JNull"
| "json_eq (JString s) b \<longleftrightarrow> b = JString s"
| "json_eq (JBool x) b \<longleftrightarrow> number_of_json b = Some (if x then 1 else 0)"
| "json_eq (JInt i) b \<longleftrightarrow> number_of_json b = Some (of_int i)"
| "json_eq (JFloat FNaN) b \<longleftrightarrow> False"
| "json_eq (JFloat (FInf neg)) b \<longleftrightarrow> b = JFloat (FInf neg)"
| "json_eq (JFloat (FFin q)) b \<longleftrightarrow> number_of_json b = Some q"
| "json_eq (JList xs) b \<longleftrightarrow> (case b of JList ys \<Rightarrow> list_eq xs ys | _ \<Rightarrow> False)"
| "json_eq (JObject ms) b \<longleftrightarrow>
     (case b of JObject ns \<Rightarrow> length ms = length ns \<and> members_eq ms ns | _ \<Rightarrow> False)"
| "list_eq [] ys \<longleftrightarrow> ys = []"
| "list_eq (x # xs) ys \<longleftrightarrow> (case ys of [] \<Rightarrow> False | z # zs \<Rightarrow> json_eq x z \<and> list_eq xs zs)"
| "members_eq [] ns \<longleftrightarrow> True"
| "members_eq ((k, v) # ms) ns \<longleftrightarrow>
     (case map_of ns k of None \<Rightarrow> False | Some w \<Rightarrow> json_eq v w) \<and> members_eq ms ns"

text \<open>
  Values that equal themselves: no \<open>nan\<close>, and the keys of every object distinct, as they are
  in a Python dictionary.
\<close>

fun plain :: "json \<Rightarrow> bool"
and plain_list :: "json list \<Rightarrow> bool"
and plain_members :: "(string \<times> json) list \<Rightarrow> bool" where
  "plain (JFloat f) \<longleftrightarrow> f \<noteq> FNaN"
| "plain (JList xs) \<longleftrightarrow> plain_list xs"
| "plain (JObject ms) \<longleftrightarrow> distinct (map fst ms) \<and> plain_members ms"
| "plain _ \<longleftrightarrow> True"
| "plain_list [] \<longleftrightarrow> True"
| "plain_list (x # xs) \<longleftrightarrow> plain x \<and> plain_list xs"
| "plain_members [] \<longleftrightarrow> True"
| "plain_members ((k, v) # ms) \<longleftrightarrow> plain v \<and> plain_members ms"

lemma plain_list_iff: "plain_list xs \<longleftrightarrow> list_all plain xs"
  by (induction xs) simp_all

lemma json_eq_refl:
  "plain j \<Longrightarrow> json_eq j j"
  "plain_list xs \<Longrightarrow> list_eq xs xs"
  "plain_members ms \<Longrightarrow> distinct (map fst ns) \<Longrightarrow> set ms \<subseteq> set ns \<Longrightarrow> members_eq ms ns"
proof (induction j and xs and ms arbitrary: and and ns rule: plain_plain_list_plain_members.induct)
  case (1 f)
  then show ?case by (cases f) simp_all
next
  case (8 k v ms)
  then have "map_of ns k = Some v" by (intro map_of_is_SomeI) simp_all
  moreover have "json_eq v v" "members_eq ms ns" using 8 by simp_all
  ultimately show ?case by simp
qed auto

end
