(* ===== verification/Mqtt_Gateway.thy ===== *)
theory Mqtt_Gateway
  imports Topics Periodic Pci_Protocol Json
begin

text \<open>
  The bridge between MQTT and C-Bus of \<open>cbus/daemon/mqtt_gateway.py\<close>:
  \<open>CBusHandler\<close>, the subclass of \<open>PCIProtocol\<close> that feeds C-Bus events into MQTT, and
  \<open>MqttClient\<close>, which turns MQTT commands into C-Bus commands.

  The two objects refer to each other and are one record: the protocol's state, the labels, the
  flags \<open>_is_closing\<close> and whether \<open>mqtt_api\<close> and \<open>_client\<close> are set, the group
  database, the throttler shared through \<open>Periodic.throttler\<close>, the tasks created, and the
  log of what was published and subscribed. Publishing creates a task in the code; the log has
  the order in which these tasks are created, which is the order in which they run.

  \<open>json.loads\<close> is an argument of \<open>handle_message\<close>, a function from the payload to a
  JSON value or an exception; the JSON values include the non-finite floats Python accepts.

  The lemmas show that commands are clamped and well addressed, that the bridge never reacts to
  what it publishes, that a light's configuration is announced before its state is, and which
  payloads make the handler raise.
\<close>

section \<open>State\<close>

datatype mqtt_payload = PDict json | PText string

datatype mqtt_op = Publish string mqtt_payload nat bool | Subscribe string nat

datatype deferred = RequestStatus int int | SwitchLight int int bool int int

datatype gateway_task = ClockDatetime

type_synonym labels = "(int \<times> string \<times> (int \<times> string) list) list"

record gateway =
  g_pci :: pci_state
  g_labels :: labels
  g_closing :: bool
  g_attached :: bool
  g_client :: bool
  g_groupDB :: "int \<rightharpoonup> (int \<rightharpoonup> bool)"
  g_throttler :: "deferred periodic"
  g_tasks :: "gateway_task list"
  g_log :: "mqtt_op list"

definition new_gateway :: "labels option \<Rightarrow> int \<Rightarrow> bool option \<Rightarrow> deferred periodic \<Rightarrow> gateway" where
  "new_gateway lbls freq fut q =
     \<lparr>g_pci = new_PCIProtocol freq fut,
      g_labels = (case lbls of Some l \<Rightarrow> l | None \<Rightarrow> [(56, ''Lighting'', [])]),
      g_closing = False, g_attached = False, g_client = False, g_groupDB = Map.empty,
      g_throttler = q, g_tasks = [], g_log = []\<rparr>"

definition on_pci :: "(pci_state \<Rightarrow> 'a result \<times> pci_state) \<Rightarrow> (gateway, 'a) act" where
  "on_pci f g = (case f (g_pci g) of (r, st) \<Rightarrow> (r, g\<lparr>g_pci := st\<rparr>))"

section \<open>Publishing\<close>

definition publish :: "string \<Rightarrow> mqtt_payload \<Rightarrow> nat \<Rightarrow> bool \<Rightarrow> (gateway, unit) act" where
  "publish topic payload qos retain g =
     (if \<not> g_client g then (Inl RuntimeError, g)
      else (Inr (), g\<lparr>g_log := g_log g @ [Publish topic payload qos retain]\<rparr>))"

definition subscribe :: "string \<Rightarrow> nat \<Rightarrow> (gateway, unit) act" where
  "subscribe topic qos g =
     (if \<not> g_client g then (Inl RuntimeError, g)
      else (Inr (), g\<lparr>g_log := g_log g @ [Subscribe topic qos]\<rparr>))"

definition light_name :: "int \<Rightarrow> int \<Rightarrow> labels \<Rightarrow> string" where
  "light_name group_addr app_addr app_labels =
     (let default_name = default_light_name group_addr app_addr in
      case map_of app_labels app_addr of
        None \<Rightarrow> default_name
      | Some (_, lbls) \<Rightarrow> (case map_of lbls group_addr of None \<Rightarrow> default_name | Some n \<Rightarrow> n))"

definition light_device :: "string \<Rightarrow> int \<Rightarrow> int \<Rightarrow> json" where
  "light_device uid group_addr app_addr =
     JObject
       [(''identifiers'', JList [JString uid]),
        (''connections'',
           JList [JList [JString ''cbus_group_address'', JString (py_str group_addr)],
                  JList [JString ''cbus_application_address'', JString (py_str app_addr)]]),
        (''sw_version'', JString ''cmqttd https://github.com/mitchell-johnson/cbus''),
        (''name'', JString (default_light_name group_addr app_addr)),
        (''manufacturer'', JString ''Clipsal''),
        (''model'', JString ''C-Bus Lighting Application''),
        (''via_device'', JString ''cmqttd'')]"

definition light_config :: "int \<Rightarrow> int \<Rightarrow> string \<Rightarrow> json" where
  "light_config group_addr app_addr name =
     (let uid = ''cbus_light_'' @ ga_string group_addr app_addr False in
      JObject
        [(''name'', JString name), (''unique_id'', JString uid),
         (''cmd_t'', JString (set_topic group_addr app_addr)),
         (''stat_t'', JString (state_topic group_addr app_addr)),
         (''schema'', JString ''json''), (''brightness'', JBool True),
         (''device'', light_device uid group_addr app_addr)])"

definition sensor_config :: "int \<Rightarrow> int \<Rightarrow> string \<Rightarrow> json" where
  "sensor_config group_addr app_addr name =
     (let uid = ''cbus_bin_sensor_'' @ ga_string group_addr app_addr False in
      JObject
        [(''name'', JString (name @ '' (as binary sensor)'')), (''unique_id'', JString uid),
         (''stat_t'', JString (bin_sensor_state_topic group_addr app_addr)),
         (''device'', light_device uid group_addr app_addr)])"

definition set_group :: "int \<Rightarrow> int \<Rightarrow> gateway \<Rightarrow> gateway" where
  "set_group group_addr app_addr g =
     g\<lparr>g_groupDB := (g_groupDB g)(app_addr \<mapsto>
        (case g_groupDB g app_addr of None \<Rightarrow> Map.empty | Some m \<Rightarrow> m)(group_addr \<mapsto> True))\<rparr>"

definition publish_light :: "int \<Rightarrow> int \<Rightarrow> labels \<Rightarrow> (gateway, unit) act" where
  "publish_light group_addr app_addr app_labels =
     (let name = light_name group_addr app_addr app_labels in
      athen (subscribe (set_topic group_addr app_addr) 2)
        (athen (publish (conf_topic group_addr app_addr) (PDict (light_config group_addr app_addr name)) 1 True)
           (athen (publish (bin_sensor_conf_topic group_addr app_addr)
                     (PDict (sensor_config group_addr app_addr name)) 1 True)
              (amodify (set_group group_addr app_addr)))))"

definition META_TOPIC :: string where "META_TOPIC = ''homeassistant/binary_sensor/cbus_cmqttd''"

definition publish_all_lights :: "labels \<Rightarrow> (gateway, unit) act" where
  "publish_all_lights app_labels =
     athen (publish (META_TOPIC @ TOPIC_CONF_SUFFIX)
              (PDict (JObject
                 [(''~'', JString META_TOPIC), (''name'', JString ''cmqttd''), (''unique_id'', JString ''cmqttd''),
                  (''stat_t'', JString (''~'' @ TOPIC_STATE_SUFFIX)),
                  (''device'',
                     JObject [(''identifiers'', JList [JString ''cmqttd'']),
                       (''sw_version'', JString ''cmqttd https://github.com/mitchell-johnson/cbus''),
                       (''name'', JString ''cmqttd''), (''manufacturer'', JString ''micolous''),
                       (''model'', JString ''libcbus'')])])) 1 True)
       (foreach (\<lambda>(app_addr, _, lbls).
          foreach (\<lambda>(group_addr, _). publish_light group_addr app_addr app_labels) lbls) app_labels)"

definition setdefault_group :: "int \<Rightarrow> gateway \<Rightarrow> gateway" where
  "setdefault_group app_addr g =
     (case g_groupDB g app_addr of
        None \<Rightarrow> g\<lparr>g_groupDB := (g_groupDB g)(app_addr \<mapsto> Map.empty)\<rparr>
      | Some m \<Rightarrow> g)"

definition group_published :: "int \<Rightarrow> int \<Rightarrow> gateway \<Rightarrow> bool" where
  "group_published group_addr app_addr g =
     (case g_groupDB g app_addr of
        None \<Rightarrow> False
      | Some m \<Rightarrow> (case m group_addr of None \<Rightarrow> False | Some b \<Rightarrow> b))"

definition check_published :: "int \<Rightarrow> int \<Rightarrow> (gateway, unit) act" where
  "check_published group_addr app_addr =
     athen (amodify (setdefault_group app_addr))
       (\<lambda>g. awhen (\<not> group_published group_addr app_addr g) (publish_light group_addr app_addr []) g)"

definition publish_binary_sensor :: "int \<Rightarrow> int \<Rightarrow> bool option \<Rightarrow> (gateway, unit) act" where
  "publish_binary_sensor group_addr app_addr state =
     publish (bin_sensor_state_topic group_addr app_addr)
       (PText (if state = Some True then ''ON'' else ''OFF'')) 1 True"

definition state_payload :: "string \<Rightarrow> int \<Rightarrow> int \<Rightarrow> int option \<Rightarrow> mqtt_payload" where
  "state_payload state brightness transition source_addr =
     PDict (JObject [(''state'', JString state), (''brightness'', JInt brightness), (''transition'', JInt transition),
       (''cbus_source_addr'', case source_addr of None \<Rightarrow> JNull | Some s \<Rightarrow> JInt s)])"

definition publish_state ::
  "string \<Rightarrow> int \<Rightarrow> int \<Rightarrow> bool \<Rightarrow> int option \<Rightarrow> int \<Rightarrow> int \<Rightarrow> (gateway, unit) act" where
  "publish_state state brightness transition sensor source_addr group_addr app_addr =
     athen (check_published group_addr app_addr)
       (athen (publish (state_topic group_addr app_addr) (state_payload state brightness transition source_addr) 1 True)
          (publish_binary_sensor group_addr app_addr (Some sensor)))"

definition mqtt_group_on :: "int option \<Rightarrow> int \<Rightarrow> int \<Rightarrow> (gateway, unit) act" where
  "mqtt_group_on = publish_state ''ON'' 255 0 True"

definition mqtt_group_off :: "int option \<Rightarrow> int \<Rightarrow> int \<Rightarrow> (gateway, unit) act" where
  "mqtt_group_off = publish_state ''OFF'' 0 0 False"

definition mqtt_group_ramp :: "int option \<Rightarrow> int \<Rightarrow> int \<Rightarrow> int \<Rightarrow> int \<Rightarrow> (gateway, unit) act" where
  "mqtt_group_ramp source_addr group_addr app_addr duration level =
     publish_state ''ON'' level duration (level > 0) source_addr group_addr app_addr"

section \<open>C-Bus events\<close>

definition relaying :: "gateway \<Rightarrow> bool" where
  "relaying g \<longleftrightarrow> g_attached g \<and> \<not> g_closing g"

definition relay :: "(gateway, unit) act \<Rightarrow> (gateway, unit) act" where
  "relay m g = awhen (relaying g) m g"

definition relay_level :: "int \<Rightarrow> int \<Rightarrow> int \<Rightarrow> (gateway, unit) act" where
  "relay_level group_addr app_addr val =
     athen (check_published group_addr app_addr)
       (relay (if val = 0 then mqtt_group_off (Some 0) group_addr app_addr
               else if val = 255 then mqtt_group_on (Some 0) group_addr app_addr
               else mqtt_group_ramp (Some 0) group_addr app_addr 0 val))"

fun relay_levels :: "int \<Rightarrow> int \<Rightarrow> int option list \<Rightarrow> (gateway, unit) act" where
  "relay_levels app_addr start [] = areturn ()"
| "relay_levels app_addr start (val # vals) =
     athen (case val of None \<Rightarrow> areturn () | Some v \<Rightarrow> relay_level start app_addr v)
       (relay_levels app_addr (start + 1) vals)"

definition on_level_report :: "int \<Rightarrow> int \<Rightarrow> int option list \<Rightarrow> (gateway, unit) act" where
  "on_level_report app_addr start report =
     relay (athen (amodify (setdefault_group app_addr)) (relay_levels app_addr start report))"

definition gateway_clock_request :: "(gateway, unit) act" where
  "gateway_clock_request g = awhen (\<not> g_closing g) (amodify (g_tasks_update (\<lambda>ts. ts @ [ClockDatetime]))) g"

fun gateway_event :: "event \<Rightarrow> (gateway, unit) act" where
  "gateway_event (LightingGroupRamp src ga app duration level) = relay (mqtt_group_ramp src ga app duration level)"
| "gateway_event (LightingGroupOn src ga app) = relay (mqtt_group_on src ga app)"
| "gateway_event (LightingGroupOff src ga app) = relay (mqtt_group_off src ga app)"
| "gateway_event (LevelReportEvent app start levels) = on_level_report app start levels"
| "gateway_event (ClockRequestEvent src) = gateway_clock_request"
| "gateway_event e = on_pci (handle_event e)"

definition gateway_handle_cbus_packet :: "decoded \<Rightarrow> (gateway, unit) act" where
  "gateway_handle_cbus_packet p = foreach gateway_event (packet_events p)"

section \<open>Connections\<close>

definition gateway_cleanup :: "gateway \<Rightarrow> gateway" where
  "gateway_cleanup g = (if g_closing g then g else g\<lparr>g_closing := True, g_attached := False\<rparr>)"

definition gateway_connection_lost :: "gateway \<Rightarrow> gateway" where
  "gateway_connection_lost g =
     (let g = (if g_attached g then g\<lparr>g_groupDB := Map.empty\<rparr> else g);
          g = gateway_cleanup g in
      g\<lparr>g_pci := connection_lost (g_pci g)\<rparr>)"

definition status_requests :: "int \<Rightarrow> deferred list" where
  "status_requests app_addr = map (\<lambda>block. RequestStatus block app_addr) [0, 32, 64, 96, 128, 160, 192, 224]"

definition queue_status_requests :: "int \<Rightarrow> gateway \<Rightarrow> gateway" where
  "queue_status_requests app_addr g =
     g\<lparr>g_throttler := fold enqueue (status_requests app_addr) (g_throttler g)\<rparr>"

definition gateway_connection_made :: "gateway \<Rightarrow> gateway" where
  "gateway_connection_made g =
     (let g = g\<lparr>g_pci := connection_made (g_pci g)\<rparr> in
      if g_attached g then fold queue_status_requests lighting_applications g else g)"

text \<open>\<open>__aenter__\<close> once the connection to the broker is up.\<close>

definition mqtt_connected :: "(gateway, unit) act" where
  "mqtt_connected =
     athen (amodify (\<lambda>g. g\<lparr>g_client := True, g_attached := True\<rparr>))
       (athen (\<lambda>g. publish_all_lights (g_labels g) g)
          (amodify (fold queue_status_requests lighting_applications)))"

section \<open>MQTT messages\<close>

definition number_field :: "int \<Rightarrow> string \<Rightarrow> (string \<times> json) list \<Rightarrow> int result" where
  "number_field dflt key obj =
     (let v = (case map_of obj key of None \<Rightarrow> JInt dflt | Some v \<Rightarrow> v) in
      int_of_number (if is_number v then v else JInt dflt))"

text \<open>
  The fields of a command. \<open>Inr None\<close> is the early return with \<open>False\<close>; the handler
  catches \<open>KeyError\<close>, \<open>ValueError\<close> and \<open>TypeError\<close>, and any payload that is
  not an object ends there. The \<open>upper\<close> of a state that is not a string is an
  \<open>AttributeError\<close>, which it does not catch.
\<close>

definition command_fields :: "(string \<times> json) list \<Rightarrow> (bool \<times> int \<times> int) result" where
  "command_fields obj =
     rbind (case map_of obj ''state'' of
              Some (JString s) \<Rightarrow> Inr (py_upper s = ''ON'')
            | Some _ \<Rightarrow> Inl AttributeError
            | None \<Rightarrow> Inl KeyError) (\<lambda>light_on.
     rbind (number_field 255 ''brightness'' obj) (\<lambda>brightness.
     rmap (\<lambda>transition. (light_on, max 0 (min 255 brightness), max 0 transition))
       (number_field 0 ''transition'' obj)))"

definition payload_command :: "json \<Rightarrow> (bool \<times> int \<times> int) option result" where
  "payload_command payload =
     (case payload of
        JObject obj \<Rightarrow>
          (case command_fields obj of
             Inr c \<Rightarrow> Inr (Some c)
           | Inl e \<Rightarrow> if e \<in> {KeyError, ValueError, TypeError} then Inr None else Inl e)
      | _ \<Rightarrow> Inr None)"

definition handle_message :: "(bytes \<Rightarrow> json result) \<Rightarrow> string \<Rightarrow> bytes \<Rightarrow> (gateway, bool) act" where
  "handle_message json_loads topic payload g =
     (if \<not> (starts_with LIGHT_TOPIC_PREFIX topic \<and> ends_with TOPIC_SET_SUFFIX topic) then (Inr False, g)
      else case get_topic_group_address topic of
        Inl e \<Rightarrow> if e = ValueError then (Inr False, g) else (Inl e, g)
      | Inr (group_addr, app_addr) \<Rightarrow>
          (case json_loads payload of
             Inl e \<Rightarrow> (Inr False, g)
           | Inr j \<Rightarrow>
               (case payload_command j of
                  Inl e \<Rightarrow> (Inl e, g)
                | Inr None \<Rightarrow> (Inr False, g)
                | Inr (Some (light_on, brightness, transition)) \<Rightarrow>
                    (Inr True,
                     g\<lparr>g_throttler := enqueue (SwitchLight group_addr app_addr light_on brightness transition)
                                        (g_throttler g)\<rparr>))))"

definition switchLight :: "int \<Rightarrow> int \<Rightarrow> int \<Rightarrow> bool \<Rightarrow> int \<Rightarrow> int \<Rightarrow> (gateway, unit) act" where
  "switchLight now group_addr app_addr light_on brightness transition =
     (if light_on then
        if brightness = 255 \<and> transition = 0 then
          athen (on_pci (lighting_group_on now [group_addr] app_addr)) (mqtt_group_on None group_addr app_addr)
        else
          athen (on_pci (lighting_group_ramp now group_addr app_addr transition brightness))
            (mqtt_group_ramp None group_addr app_addr transition brightness)
      else
        athen (on_pci (lighting_group_off now [group_addr] app_addr)) (mqtt_group_off None group_addr app_addr))"

fun run_deferred :: "int \<Rightarrow> deferred \<Rightarrow> (gateway, unit) act" where
  "run_deferred now (RequestStatus block app) = athen (on_pci (request_status now block app)) (areturn ())"
| "run_deferred now (SwitchLight ga app on brightness transition) = switchLight now ga app on brightness transition"

text \<open>One turn of the throttler: the next queued command, run from start to end.\<close>

definition throttler_turn :: "int \<Rightarrow> (gateway, unit) act" where
  "throttler_turn now g =
     (case periodic_work (g_throttler g) of
        None \<Rightarrow> (Inr (), g)
      | Some (d, q) \<Rightarrow> run_deferred now d (g\<lparr>g_throttler := q\<rparr>))"

section \<open>Runs of the bridge\<close>

datatype gateway_op = PacketIn decoded | MessageIn string bytes | Turn int | Made | Lost | BrokerUp

fun gateway_step :: "(bytes \<Rightarrow> json result) \<Rightarrow> gateway_op \<Rightarrow> gateway \<Rightarrow> gateway" where
  "gateway_step json_loads (PacketIn p) g = snd (gateway_handle_cbus_packet p g)"
| "gateway_step json_loads (MessageIn topic payload) g = snd (handle_message json_loads topic payload g)"
| "gateway_step json_loads (Turn now) g = snd (throttler_turn now g)"
| "gateway_step json_loads Made g = gateway_connection_made g"
| "gateway_step json_loads Lost g = gateway_connection_lost g"
| "gateway_step json_loads BrokerUp g = snd (mqtt_connected g)"

section \<open>Configuration before state\<close>

definition announced :: "mqtt_op list \<Rightarrow> int \<Rightarrow> int \<Rightarrow> bool" where
  "announced ops ga app \<longleftrightarrow> (\<exists>p q r. Publish (conf_topic ga app) p q r \<in> set ops)"

definition op_ok :: "mqtt_op list \<Rightarrow> mqtt_op \<Rightarrow> bool" where
  "op_ok before op \<longleftrightarrow> (\<forall>t p q r. op = Publish t p q r \<longrightarrow>
     \<not> ends_with TOPIC_SET_SUFFIX t \<and> (\<forall>ga app. t = state_topic ga app \<longrightarrow> announced before ga app))"

definition log_ok :: "mqtt_op list \<Rightarrow> bool" where
  "log_ok ops \<longleftrightarrow> (\<forall>i < length ops. op_ok (take i ops) (ops ! i))"

definition gateway_inv :: "gateway \<Rightarrow> bool" where
  "gateway_inv g \<longleftrightarrow> log_ok (g_log g) \<and> (\<forall>ga app. group_published ga app g \<longrightarrow> announced (g_log g) ga app)"

lemma announced_append [simp]: "announced ops ga app \<Longrightarrow> announced (ops @ more_ops) ga app"
  by (auto simp: announced_def)

lemma log_ok_Nil [simp]: "log_ok []"
  by (simp add: log_ok_def)

lemma log_ok_snoc: "log_ok (ops @ [op]) \<longleftrightarrow> log_ok ops \<and> op_ok ops op"
  by (auto simp: log_ok_def nth_append less_Suc_eq)

text \<open>The topics of different kinds are different, and a state topic names its configuration topic.\<close>

lemma conf_not_state: "conf_topic ga app \<noteq> state_topic ga' app'"
proof
  assume "conf_topic ga app = state_topic ga' app'"
  then have "last (conf_topic ga app) = last (state_topic ga' app')" by simp
  then show False by (simp add: conf_topic_def state_topic_def TOPIC_CONF_SUFFIX_def TOPIC_STATE_SUFFIX_def)
qed

lemma sensor_not_state:
  "bin_sensor_conf_topic ga app \<noteq> state_topic ga' app'" "bin_sensor_state_topic ga app \<noteq> state_topic ga' app'"
  "META_TOPIC @ s \<noteq> state_topic ga' app'"
  by (simp_all add: bin_sensor_conf_topic_def bin_sensor_state_topic_def state_topic_def META_TOPIC_def
      BINSENSOR_TOPIC_PREFIX_def LIGHT_TOPIC_PREFIX_def)

lemma state_topic_announced:
  "state_topic ga app = state_topic ga' app' \<Longrightarrow> announced ops ga' app' = announced ops ga app"
  by (simp add: state_topic_def conf_topic_def announced_def)

lemma meta_not_command: "\<not> ends_with TOPIC_SET_SUFFIX (META_TOPIC @ TOPIC_CONF_SUFFIX)"
  by (rule not_command_suffix) (simp_all add: TOPIC_CONF_SUFFIX_def)

definition inv_announced :: "int \<Rightarrow> int \<Rightarrow> gateway \<Rightarrow> bool" where
  "inv_announced ga app g \<longleftrightarrow> gateway_inv g \<and> announced (g_log g) ga app"

lemma gateway_inv_log:
  assumes "gateway_inv g" "op_ok (g_log g) op"
  shows "gateway_inv (g\<lparr>g_log := g_log g @ [op]\<rparr>)"
  using assms by (simp add: gateway_inv_def log_ok_snoc group_published_def)

lemma triple_publish_other:
  assumes "\<not> ends_with TOPIC_SET_SUFFIX t" "\<And>ga app. t \<noteq> state_topic ga app"
  shows "triple gateway_inv (publish t p q r) (\<lambda>_. gateway_inv) gateway_inv"
    "triple (inv_announced ga app) (publish t p q r) (\<lambda>_. inv_announced ga app) gateway_inv"
  using assms
  by (auto simp: triple_def publish_def op_ok_def inv_announced_def intro!: gateway_inv_log)

lemma triple_publish_conf:
  "triple gateway_inv (publish (conf_topic ga app) p q r) (\<lambda>_. inv_announced ga app) gateway_inv"
  by (auto simp: triple_def publish_def op_ok_def inv_announced_def conf_not_state published_not_command
      announced_def intro!: gateway_inv_log)

lemma triple_publish_state:
  "triple (inv_announced ga app) (publish (state_topic ga app) p q r) (\<lambda>_. gateway_inv) gateway_inv"
proof -
  have "op_ok (g_log g) (Publish (state_topic ga app) p q r)" if "announced (g_log g) ga app" for g
    using that published_not_command(1) [of ga app] unfolding op_ok_def mqtt_op.inject
    by (blast dest: state_topic_announced)
  then show ?thesis by (auto simp: triple_def publish_def inv_announced_def intro!: gateway_inv_log)
qed

lemma triple_subscribe: "triple gateway_inv (subscribe t q) (\<lambda>_. gateway_inv) gateway_inv"
  by (auto simp: triple_def subscribe_def op_ok_def intro!: gateway_inv_log)

lemma group_published_set:
  "group_published ga app (set_group ga' app' g) \<longleftrightarrow> ga = ga' \<and> app = app' \<or> group_published ga app g"
  by (auto simp: group_published_def set_group_def split: option.splits)

lemma group_published_default [simp]: "group_published ga app (setdefault_group app' g) = group_published ga app g"
  by (simp add: group_published_def setdefault_group_def split: option.split)

lemma log_group [simp]: "g_log (set_group ga app g) = g_log g" "g_log (setdefault_group app g) = g_log g"
  by (simp_all add: set_group_def setdefault_group_def split: option.split)

lemma triple_publish_light:
  "triple gateway_inv (publish_light ga app lbls) (\<lambda>_. inv_announced ga app) gateway_inv"
proof -
  have "triple (inv_announced ga app) (amodify (set_group ga app)) (\<lambda>_. inv_announced ga app) gateway_inv"
    by (rule triple_modify) (auto simp: inv_announced_def gateway_inv_def group_published_set)
  then show ?thesis unfolding publish_light_def Let_def
    by (rule triple_then [OF triple_subscribe triple_then [OF triple_publish_conf triple_then
          [OF triple_publish_other(2)]], rotated 2])
      (simp_all add: published_not_command sensor_not_state)
qed

lemma triple_default: "triple gateway_inv (amodify (setdefault_group app)) (\<lambda>_. gateway_inv) gateway_inv"
  by (rule triple_modify) (simp add: gateway_inv_def)

lemma triple_check_published:
  "triple gateway_inv (check_published ga app) (\<lambda>_. inv_announced ga app) gateway_inv"
proof -
  have "triple gateway_inv (\<lambda>g. awhen (\<not> group_published ga app g) (publish_light ga app []) g)
      (\<lambda>_. inv_announced ga app) gateway_inv"
    using triple_publish_light [of ga app "[]"]
    by (auto simp: triple_def awhen_def areturn_def inv_announced_def gateway_inv_def)
  then show ?thesis unfolding check_published_def by (rule triple_then [OF triple_default])
qed

lemma triple_publish_state_full:
  "triple gateway_inv (publish_state st b t sensor src ga app) (\<lambda>_. gateway_inv) gateway_inv"
  unfolding publish_state_def publish_binary_sensor_def
  by (rule triple_then [OF triple_check_published triple_then [OF triple_publish_state triple_publish_other(1)]])
    (simp_all add: published_not_command sensor_not_state)

lemmas triple_groups = triple_publish_state_full [of "''ON''" 255 0 True, folded mqtt_group_on_def]
  triple_publish_state_full [of "''OFF''" 0 0 False, folded mqtt_group_off_def]
  triple_publish_state_full [folded mqtt_group_ramp_def]

lemma triple_ramp: "triple gateway_inv (mqtt_group_ramp src ga app d l) (\<lambda>_. gateway_inv) gateway_inv"
  unfolding mqtt_group_ramp_def by (rule triple_publish_state_full)

lemma triple_relay:
  "triple gateway_inv m (\<lambda>_. gateway_inv) gateway_inv \<Longrightarrow> triple gateway_inv (relay m) (\<lambda>_. gateway_inv) gateway_inv"
  by (auto simp: triple_def relay_def awhen_def areturn_def)

lemma triple_relay_levels: "triple gateway_inv (relay_levels app start vals) (\<lambda>_. gateway_inv) gateway_inv"
proof (induction app start vals rule: relay_levels.induct)
  case (2 app start val vals)
  have "triple gateway_inv (relay_level start app v) (\<lambda>_. gateway_inv) gateway_inv" for v
    unfolding relay_level_def
    by (rule triple_then [OF triple_weaken [OF triple_check_published] triple_relay])
      (auto simp: inv_announced_def triple_groups triple_ramp)
  then have "triple gateway_inv (case val of None \<Rightarrow> areturn () | Some v \<Rightarrow> relay_level start app v)
      (\<lambda>_. gateway_inv) gateway_inv" by (simp add: triple_return split: option.split)
  from triple_then [OF this 2] show ?case by simp
qed (simp add: triple_return)

lemma triple_on_pci: "triple gateway_inv (on_pci f) (\<lambda>_. gateway_inv) gateway_inv"
  by (auto simp: triple_def on_pci_def gateway_inv_def group_published_def split: prod.splits sum.splits)

lemma triple_gateway_event: "triple gateway_inv (gateway_event e) (\<lambda>_. gateway_inv) gateway_inv"
proof (cases e)
  case (ClockRequestEvent src)
  then show ?thesis
    by (simp add: triple_def gateway_clock_request_def awhen_def areturn_def amodify_def gateway_inv_def
        group_published_def)
qed (simp_all add: triple_relay triple_groups triple_ramp triple_on_pci on_level_report_def
    triple_then [OF triple_default triple_relay_levels])

lemma triple_run_deferred: "triple gateway_inv (run_deferred now x) (\<lambda>_. gateway_inv) gateway_inv"
  by (cases x) (auto simp: switchLight_def intro!: triple_then [OF triple_on_pci] triple_groups triple_ramp
      triple_return)

lemma triple_publish_all: "triple gateway_inv (publish_all_lights lbls) (\<lambda>_. gateway_inv) gateway_inv"
proof -
  have "triple gateway_inv (publish_light ga app lbls) (\<lambda>_. gateway_inv) gateway_inv" for ga app
    by (rule triple_weaken [OF triple_publish_light]) (simp_all add: inv_announced_def)
  then have "triple gateway_inv (foreach (\<lambda>(app_addr, _, ls).
      foreach (\<lambda>(group_addr, _). publish_light group_addr app_addr lbls) ls) lbls) (\<lambda>_. gateway_inv) gateway_inv"
    by (auto intro!: triple_foreach)
  then show ?thesis unfolding publish_all_lights_def
    by (rule triple_then [OF triple_publish_other(1), rotated 2]) (simp_all add: meta_not_command sensor_not_state)
qed

lemma triple_invD: "triple P m (\<lambda>_. P) P \<Longrightarrow> P s \<Longrightarrow> P (snd (m s))"
  by (cases "m s") (auto simp: triple_def split: sum.splits prod.splits)

lemma queue_status_fields:
  "g_log (fold queue_status_requests apps g) = g_log g" "g_groupDB (fold queue_status_requests apps g) = g_groupDB g"
  "g_client (fold queue_status_requests apps g) = g_client g" "g_attached (fold queue_status_requests apps g) = g_attached g"
  "g_closing (fold queue_status_requests apps g) = g_closing g" "g_pci (fold queue_status_requests apps g) = g_pci g"
  "g_throttler (fold queue_status_requests apps g) =
     fold enqueue (concat (map status_requests apps)) (g_throttler g)"
  by (induction apps arbitrary: g) (simp_all add: queue_status_requests_def)

lemma gateway_inv_fields: "g_log g' = g_log g \<Longrightarrow> g_groupDB g' = g_groupDB g \<Longrightarrow> gateway_inv g' = gateway_inv g"
  by (simp add: gateway_inv_def group_published_def)

lemma handle_message_state:
  "handle_message jl topic payload g = (r, g') \<Longrightarrow> g_log g' = g_log g \<and> g_groupDB g' = g_groupDB g"
  by (auto simp: handle_message_def split: if_splits sum.splits option.splits prod.splits)

lemma gateway_step_inv:
  assumes "gateway_inv g"
  shows "gateway_inv (gateway_step jl op g)"
proof (cases op)
  case (PacketIn p)
  have "triple gateway_inv (gateway_handle_cbus_packet p) (\<lambda>_. gateway_inv) gateway_inv"
    unfolding gateway_handle_cbus_packet_def by (rule triple_foreach) (rule triple_gateway_event)
  from triple_invD [OF this assms] PacketIn show ?thesis by simp
next
  case (MessageIn topic payload)
  obtain r g' where h: "handle_message jl topic payload g = (r, g')"
    by (cases "handle_message jl topic payload g")
  from handle_message_state [OF h] assms have "gateway_inv g'" using gateway_inv_fields [of g' g] by simp
  with h MessageIn show ?thesis by simp
next
  case (Turn now)
  have "gateway_inv (g\<lparr>g_throttler := q\<rparr>)" for q using assms by (simp add: gateway_inv_def group_published_def)
  from triple_invD [OF triple_run_deferred this] Turn assms show ?thesis
    by (simp add: throttler_turn_def split: option.split)
next
  case Made
  with assms show ?thesis
    by (simp add: gateway_connection_made_def Let_def queue_status_fields gateway_inv_def group_published_def)
next
  case Lost
  have "\<not> group_published ga app (g\<lparr>g_groupDB := Map.empty\<rparr>)" for ga app by (simp add: group_published_def)
  with Lost assms show ?thesis
    by (auto simp: gateway_connection_lost_def gateway_cleanup_def Let_def gateway_inv_def group_published_def)
next
  case BrokerUp
  have 1: "triple gateway_inv (amodify (\<lambda>g. g\<lparr>g_client := True, g_attached := True\<rparr>)) (\<lambda>_. gateway_inv) gateway_inv"
    by (rule triple_modify) (simp add: gateway_inv_def group_published_def)
  have 2: "triple gateway_inv (\<lambda>g. publish_all_lights (g_labels g) g) (\<lambda>_. gateway_inv) gateway_inv"
    using triple_publish_all by (simp add: triple_def)
  have 3: "triple gateway_inv (amodify (fold queue_status_requests lighting_applications)) (\<lambda>_. gateway_inv) gateway_inv"
    by (rule triple_modify) (simp add: gateway_inv_def group_published_def queue_status_fields)
  have "triple gateway_inv mqtt_connected (\<lambda>_. gateway_inv) gateway_inv"
    unfolding mqtt_connected_def by (rule triple_then [OF 1 triple_then [OF 2 3]])
  from triple_invD [OF this assms] BrokerUp show ?thesis by simp
qed

lemma gateway_run_inv: "gateway_inv g \<Longrightarrow> gateway_inv (fold (gateway_step jl) ops g)"
  by (induction ops arbitrary: g) (simp_all add: gateway_step_inv)

lemma gateway_inv_new: "gateway_inv (new_gateway lbls freq fut q)"
  by (simp add: gateway_inv_def new_gateway_def group_published_def)

section \<open>Commands\<close>

lemma number_field_cases:
  "number_field dflt key obj = Inl e \<Longrightarrow> e \<in> {ValueError, OverflowError}"
  by (cases "map_of obj key") (auto simp: number_field_def Let_def elim!: int_of_number.elims split: if_splits)

lemma command_fields_ok:
  "command_fields obj = Inr (on, b, t) \<Longrightarrow> 0 \<le> b \<and> b \<le> 255 \<and> 0 \<le> t"
  by (auto simp: command_fields_def result_simps)

lemma handle_message_cases:
  assumes "handle_message jl topic payload g = (r, g')"
  shows "(r = Inr True \<and> (\<exists>ga app on b t. get_topic_group_address topic = Inr (ga, app) \<and>
      0 \<le> b \<and> b \<le> 255 \<and> 0 \<le> t \<and>
      g' = g\<lparr>g_throttler := enqueue (SwitchLight ga app on b t) (g_throttler g)\<rparr>)) \<or> (r \<noteq> Inr True \<and> g' = g)"
proof -
  have "payload_command j = Inr (Some (on, b, t)) \<Longrightarrow> 0 \<le> b \<and> b \<le> 255 \<and> 0 \<le> t" for j on b t
    by (cases j) (auto simp: payload_command_def split: sum.splits if_splits dest: command_fields_ok)
  with assms show ?thesis
    by (auto simp: handle_message_def split: if_splits sum.splits option.splits prod.splits) blast
qed

lemma handle_message_object:
  assumes "is_byte ga" "is_byte app" "jl payload = Inr (JObject obj)"
  shows "handle_message jl (set_topic ga app) payload g =
    (case command_fields obj of
       Inr (on, b, t) \<Rightarrow> (Inr True, g\<lparr>g_throttler := enqueue (SwitchLight ga app on b t) (g_throttler g)\<rparr>)
     | Inl e \<Rightarrow> ((if e \<in> {KeyError, ValueError, TypeError} then Inr False else Inl e), g))"
  using assms set_topic_command [of ga app]
  by (simp add: handle_message_def set_topic_address payload_command_def split: sum.split)

text \<open>A field that makes \<open>int\<close> raise an \<open>OverflowError\<close>.\<close>

definition infinite_field :: "string \<Rightarrow> (string \<times> json) list \<Rightarrow> bool" where
  "infinite_field key obj \<longleftrightarrow> (\<exists>neg. map_of obj key = Some (JFloat (FInf neg)))"

definition nan_field :: "string \<Rightarrow> (string \<times> json) list \<Rightarrow> bool" where
  "nan_field key obj \<longleftrightarrow> map_of obj key = Some (JFloat FNaN)"

lemma number_field_error:
  "number_field dflt key obj = Inl OverflowError \<longleftrightarrow> infinite_field key obj"
  "number_field dflt key obj = Inl ValueError \<longleftrightarrow> nan_field key obj"
proof -
  have "number_field dflt key obj = Inl OverflowError \<longleftrightarrow> infinite_field key obj \<and>
      number_field dflt key obj = Inl OverflowError"
    "number_field dflt key obj = Inl ValueError \<longleftrightarrow> nan_field key obj \<and>
      number_field dflt key obj = Inl ValueError"
    by (cases "map_of obj key"; auto simp: number_field_def infinite_field_def nan_field_def Let_def
        elim!: int_of_number.elims split: if_splits)+
  then show "number_field dflt key obj = Inl OverflowError \<longleftrightarrow> infinite_field key obj"
    "number_field dflt key obj = Inl ValueError \<longleftrightarrow> nan_field key obj"
    by (auto simp: number_field_def infinite_field_def nan_field_def)
qed

lemma command_fields_raises:
  "command_fields obj = Inl AttributeError \<longleftrightarrow> (\<exists>v. map_of obj ''state'' = Some v \<and> (\<forall>s. v \<noteq> JString s))"
  "command_fields obj = Inl OverflowError \<longleftrightarrow> (\<exists>s. map_of obj ''state'' = Some (JString s)) \<and>
     (infinite_field ''brightness'' obj \<or> \<not> nan_field ''brightness'' obj \<and> infinite_field ''transition'' obj)"
proof -
  show "command_fields obj = Inl AttributeError \<longleftrightarrow> (\<exists>v. map_of obj ''state'' = Some v \<and> (\<forall>s. v \<noteq> JString s))"
    by (auto simp: command_fields_def result_simps split: option.splits json.splits dest!: number_field_cases)
  have "(\<exists>x. number_field 255 ''brightness'' obj = Inr x) \<longleftrightarrow>
      \<not> infinite_field ''brightness'' obj \<and> \<not> nan_field ''brightness'' obj"
    using number_field_cases [of 255 "''brightness''" obj]
    unfolding number_field_error(1) [symmetric, of _ _ 255] number_field_error(2) [symmetric, of _ _ 255]
    by (cases "number_field 255 ''brightness'' obj") auto
  then show "command_fields obj = Inl OverflowError \<longleftrightarrow> (\<exists>s. map_of obj ''state'' = Some (JString s)) \<and>
     (infinite_field ''brightness'' obj \<or> \<not> nan_field ''brightness'' obj \<and> infinite_field ''transition'' obj)"
    by (auto simp: command_fields_def result_simps number_field_error split: option.splits json.splits)
qed

section \<open>Properties\<close>

text \<open>
  C16: The bridge never reacts to its own publications. In whatever order packets, messages,
  throttler turns and connection events happen, every topic it has published on is ignored by its
  message handler, whatever the payload.
\<close>

theorem no_feedback:
  assumes "Publish t p q r \<in> set (g_log (fold (gateway_step jl) ops (new_gateway lbls freq fut queue)))"
  shows "handle_message jl' t payload g = (Inr False, g)"
proof -
  define ops_log where "ops_log = g_log (fold (gateway_step jl) ops (new_gateway lbls freq fut queue))"
  have "log_ok ops_log"
    using gateway_run_inv [OF gateway_inv_new] by (simp add: ops_log_def gateway_inv_def)
  moreover obtain i where "i < length ops_log" "ops_log ! i = Publish t p q r"
    using assms unfolding ops_log_def by (metis in_set_conv_nth)
  ultimately have "\<not> ends_with TOPIC_SET_SUFFIX t" by (fastforce simp: log_ok_def op_ok_def)
  then show ?thesis by (simp add: handle_message_def)
qed

theorem no_feedback_witness:
  "handle_message (\<lambda>_. Inr JNull) (META_TOPIC @ TOPIC_CONF_SUFFIX) []
     (new_gateway (Some []) 0 None (new_Periodic 1000)) =
   (Inr False, new_gateway (Some []) 0 None (new_Periodic 1000))"
proof -
  have "\<exists>p q r. Publish (META_TOPIC @ TOPIC_CONF_SUFFIX) p q r \<in>
      set (g_log (fold (gateway_step (\<lambda>_. Inr JNull)) [BrokerUp] (new_gateway (Some []) 0 None (new_Periodic 1000))))"
    by (auto simp: mqtt_connected_def publish_all_lights_def publish_def new_gateway_def act_simps queue_status_fields)
  then obtain p q r where "Publish (META_TOPIC @ TOPIC_CONF_SUFFIX) p q r \<in>
      set (g_log (fold (gateway_step (\<lambda>_. Inr JNull)) [BrokerUp] (new_gateway (Some []) 0 None (new_Periodic 1000))))"
    by blast
  then show ?thesis by (rule no_feedback)
qed

text \<open>
  C14: A light is announced before it is reported. In every run, a message on the state topic of a
  group comes after a message on the configuration topic of that group.
\<close>

theorem config_before_state:
  assumes "g_log (fold (gateway_step jl) ops (new_gateway lbls freq fut queue)) = before @ Publish (state_topic ga app) p q r # rest"
  shows "\<exists>p' q' r'. Publish (conf_topic ga app) p' q' r' \<in> set before"
proof -
  have "log_ok (before @ Publish (state_topic ga app) p q r # rest)"
    using gateway_run_inv [OF gateway_inv_new, of jl ops lbls freq fut queue] assms by (simp add: gateway_inv_def)
  then have "op_ok before (Publish (state_topic ga app) p q r)"
    unfolding log_ok_def by (metis append_eq_conv_conj length_append less_add_same_cancel1 length_greater_0_conv
        list.distinct(1) nth_append_length)
  then show ?thesis by (auto simp: op_ok_def announced_def)
qed

theorem config_before_state_witness:
  "\<exists>jl ops before p q r rest.
     g_log (fold (gateway_step jl) ops (new_gateway (Some []) 0 None (new_Periodic 1000))) =
       before @ Publish (state_topic 1 0x38) p q r # rest \<and>
     (\<exists>p' q' r'. Publish (conf_topic 1 0x38) p' q' r' \<in> set before)"
proof -
  define pm where "pm = \<lparr>p_checksum = True, p_dat = POINT_TO_MULTIPOINT, p_rc = 0, p_dp = False,
    p_priority = CLASS_4, p_confirmation = None, p_source = Some 5, pm_application = Some 0x38,
    pm_sals = [Lighting (LightingOnSAL 1 0x38)]\<rparr>"
  define g0 where "g0 = new_gateway (Some []) 0 None (new_Periodic 1000)"
  define ops where "ops = [BrokerUp, PacketIn (Packet (PointToMultipointPacket pm))]"
  have "\<exists>b p s. g_log (fold (gateway_step (\<lambda>_. Inr JNull)) ops g0) =
      b @ [Publish (state_topic 1 0x38) p 1 True, s]"
    by (simp add: ops_def g0_def pm_def mqtt_connected_def publish_all_lights_def publish_def subscribe_def
        new_gateway_def act_simps queue_status_fields gateway_handle_cbus_packet_def relay_def relaying_def
        mqtt_group_on_def publish_state_def check_published_def publish_light_def setdefault_group_def
        set_group_def group_published_def publish_binary_sensor_def Let_def)
  then obtain b p s where l: "g_log (fold (gateway_step (\<lambda>_. Inr JNull)) ops g0) =
      b @ Publish (state_topic 1 0x38) p 1 True # [s]" by auto
  with config_before_state [OF l [unfolded g0_def]] show ?thesis unfolding g0_def by blast
qed

text \<open>
  C37: A message that is accepted queues one command for a valid group address with the brightness
  clamped to a byte and a transition that is not negative; any other message, also one that makes
  the handler raise, changes nothing.
\<close>

theorem accepted_command:
  assumes "handle_message jl topic payload g = (r, g')"
  shows "if r = Inr True
    then \<exists>ga app on b t. get_topic_group_address topic = Inr (ga, app) \<and> is_byte ga \<and> is_byte b \<and> 0 \<le> t \<and>
      g' = g\<lparr>g_throttler := enqueue (SwitchLight ga app on b t) (g_throttler g)\<rparr>
    else g' = g"
  using handle_message_cases [OF assms] topic_address_valid [of topic] by (force simp: is_byte_def)

theorem accepted_command_witness:
  "\<exists>g' ga app on b t. handle_message (\<lambda>_. Inr (JObject [(''state'', JString ''on''), (''brightness'', JInt 300)]))
       (set_topic 7 0x38) [] (new_gateway None 0 None (new_Periodic 1000)) = (Inr True, g') \<and>
     is_byte b \<and> q_items (g_throttler g') = [SwitchLight ga app on b t]"
proof -
  define g :: gateway where "g = new_gateway None 0 None (new_Periodic 1000)"
  have q: "q_items (enqueue x (g_throttler g)) = [x]" for x
    by (simp add: g_def new_gateway_def new_Periodic_def enqueue_def queue_full_def)
  define jl :: "bytes \<Rightarrow> json result" where
    "jl = (\<lambda>_. Inr (JObject [(''state'', JString ''on''), (''brightness'', JInt 300)]))"
  have u: "py_upper ''on'' = ''ON''" by code_simp
  have "command_fields [(''state'', JString ''on''), (''brightness'', JInt 300)] = Inr (True, 255, 0)"
    by (simp add: command_fields_def number_field_def u)
  then obtain g' where h: "handle_message jl (set_topic 7 0x38) [] g = (Inr True, g')"
    using handle_message_object [of 7 "0x38" jl "[]" _ g] by (auto simp: jl_def)
  from accepted_command [OF h] q h show ?thesis unfolding jl_def g_def by auto
qed

text \<open>
  The message handler raises on payloads it means to reject. For a command topic and a JSON
  object, it raises \<open>AttributeError\<close> exactly when the \<open>state\<close> field is not a string,
  and \<open>OverflowError\<close> exactly when the state is a string and the brightness, or else the
  transition, is an infinite number.
\<close>

lemma message_raises:
  assumes "is_byte ga" and "is_byte app" and "jl payload = Inr (JObject obj)"
  shows "(fst (handle_message jl (set_topic ga app) payload g) = Inl AttributeError \<longleftrightarrow>
      (\<exists>v. map_of obj ''state'' = Some v \<and> (\<forall>s. v \<noteq> JString s))) \<and>
    (fst (handle_message jl (set_topic ga app) payload g) = Inl OverflowError \<longleftrightarrow>
      (\<exists>s. map_of obj ''state'' = Some (JString s)) \<and>
      (infinite_field ''brightness'' obj \<or> \<not> nan_field ''brightness'' obj \<and> infinite_field ''transition'' obj))"
  unfolding handle_message_object [where jl = jl and payload = payload, OF assms] command_fields_raises [symmetric]
  by (auto split: sum.splits)

text \<open>
  When the broker connection comes up, the status of every block of 32 groups of every
  lighting application is requested, in order: with the throttler's default bound of 1000 and at
  most 616 commands waiting, none of the 384 requests is dropped.
\<close>

lemma status_requests_queued:
  assumes "q_running q" and "q_max q = 1000" and "length (q_items q) \<le> 616"
  shows "q_items (g_throttler (fold queue_status_requests lighting_applications (g\<lparr>g_throttler := q\<rparr>))) =
    q_items q @ concat (map (\<lambda>app. map (\<lambda>block. RequestStatus block app) [0, 32, 64, 96, 128, 160, 192, 224])
      lighting_applications)"
proof -
  have "length (concat (map status_requests lighting_applications)) = 384"
    by (simp add: length_concat comp_def status_requests_def sum_list_triv lighting_applications_def)
  then have "enat (length (q_items q) + length (concat (map status_requests lighting_applications))) \<le> periodic_capacity q"
    using assms by (simp add: periodic_capacity_def)
  from throttle.put_all_room [OF this] show ?thesis
    by (simp add: queue_status_fields status_requests_def [abs_def])
qed

end
