(* ===== verification/Bridge.thy ===== *)
theory Bridge
  imports Link Mqtt_Gateway
begin

text \<open>
  The way of a command through the whole daemon: from the MQTT message that \<open>Mqtt_Gateway\<close>
  accepts, through the throttler of \<open>Periodic\<close> and the client protocol of
  \<open>Pci_Protocol\<close>, to the line that the decoder of \<open>Decode\<close> reads on the PCI side,
  and back to the state the bridge publishes.
\<close>

section \<open>Sending one SAL\<close>

lemma send_one_sal:
  assumes "conf_inv st" "connected st" "sal_ok app s" "get_application app = Inr cls"
  obtains code st' line p where "send_sals now (Inr [s]) st = (Inr (Some code), st')"
    "code \<in> set CONFIRMATION_CODES" "written st' = written st @ [line]"
    "map_of (pending st') code = Some (line, 1, now)"
    "decode_packet True strict False line = Inr (Some (Packet (PointToMultipointPacket p)), length line)"
    "p_confirmation p = Some [code]" "pm_application p = Some app" "pm_sals p = [s]"
proof -
  define p where "p = \<lparr>p_checksum = True, p_dat = POINT_TO_MULTIPOINT, p_rc = 0, p_dp = False,
    p_priority = CLASS_4, p_confirmation = None, p_source = None, pm_application = Some app, pm_sals = [s]\<rparr>"
  have "new_PointToMultipointPacket True CLASS_4 None [s] = Inr p"
    using new_pm_packet [of "[s]" app] assms(3) by (simp add: p_def)
  moreover have "pm_wf p" using assms(3,4) by (simp add: pm_wf_def p_def)
  ultimately show thesis
    using that [of _ _ _ "p\<lparr>p_confirmation := Some _\<rparr>"] send_reaches_pci [OF assms(1,2), of p now]
    by (fastforce simp: send_sals_def p_def dest: spec [of _ strict] spec [of _ "[]"])
qed

section \<open>Publishing a state\<close>

lemma publish_light_runs:
  assumes "g_client g"
  obtains g' ann where "publish_light ga app lbls g = (Inr (), g')" "g_log g' = g_log g @ ann" "g_client g'"
    "g_pci g' = g_pci g"
  using assms by (simp add: publish_light_def publish_def subscribe_def act_simps Let_def set_group_def)

lemma check_published_runs:
  assumes "g_client g"
  obtains g' ann where "check_published ga app g = (Inr (), g')" "g_log g' = g_log g @ ann" "g_client g'"
    "g_pci g' = g_pci g"
proof -
  have d: "g_client (setdefault_group app g)" "g_pci (setdefault_group app g) = g_pci g"
    using assms by (simp_all add: setdefault_group_def split: option.split)
  show thesis
  proof (cases "group_published ga app g")
    case True
    with d show thesis by (intro that [of "setdefault_group app g" "[]"]) (simp_all add: check_published_def act_simps)
  next
    case False
    obtain g' ann where "publish_light ga app [] (setdefault_group app g) = (Inr (), g')" "g_log g' = g_log g @ ann"
      "g_client g'" "g_pci g' = g_pci g"
      using publish_light_runs [OF d(1), of ga app "[]"] d(2) by auto
    with False show thesis by (intro that [of g' ann]) (simp_all add: check_published_def act_simps)
  qed
qed

lemma publish_state_runs:
  assumes "g_client g"
  obtains g' ann where "publish_state s b t sensor src ga app g = (Inr (), g')" "g_pci g' = g_pci g"
    "g_log g' = g_log g @ ann @ [Publish (state_topic ga app) (state_payload s b t src) 1 True,
       Publish (bin_sensor_state_topic ga app) (PText (if sensor then ''ON'' else ''OFF'')) 1 True]"
proof -
  obtain g' ann where "check_published ga app g = (Inr (), g')" "g_log g' = g_log g @ ann" "g_client g'"
    "g_pci g' = g_pci g"
    using check_published_runs [OF assms] .
  then show thesis
    by (auto intro!: that simp: publish_state_def act_simps publish_def publish_binary_sensor_def)
qed

section \<open>A light command\<close>

text \<open>What a light command puts on the bus, and the state that is published for it.\<close>

definition command_sal :: "int \<Rightarrow> int \<Rightarrow> bool \<Rightarrow> int \<Rightarrow> int \<Rightarrow> lighting_sal" where
  "command_sal ga app on b t =
     (if \<not> on then LightingOffSAL ga app
      else if b = 255 \<and> t = 0 then LightingOnSAL ga app else LightingRampSAL ga app t b)"

definition command_state :: "bool \<Rightarrow> int \<Rightarrow> int \<Rightarrow> mqtt_payload" where
  "command_state on b t =
     (if on then state_payload ''ON'' b t None else state_payload ''OFF'' 0 0 None)"

lemma switchLight_steps:
  assumes "app \<in> set lighting_applications" "is_byte ga"
  shows "switchLight now ga app on b t =
    athen (on_pci (send_sals now (Inr [Lighting (command_sal ga app on b t)])))
      (publish_state (if on then ''ON'' else ''OFF'') (if on then b else 0) (if on then t else 0) (on \<and> b > 0) None ga app)"
  using assms
  by (auto simp: switchLight_def command_sal_def lighting_group_on_def [abs_def] lighting_group_off_def [abs_def]
      lighting_group_ramp_def [abs_def] lighting_sals_def normalize_group_addrs_def new_lighting_defs
      mqtt_group_on_def mqtt_group_off_def mqtt_group_ramp_def)

lemma switchLight_runs:
  assumes app: "app \<in> set lighting_applications" and ga: "is_byte ga" and b: "is_byte b"
    and t: "t \<in> set (map snd LIGHT_RAMP_RATES)"
    and g: "conf_inv (g_pci g)" "connected (g_pci g)" "g_client g"
  obtains g' line p code ann where "switchLight now ga app on b t g = (Inr (), g')"
    "written (g_pci g') = written (g_pci g) @ [line]" "map_of (pending (g_pci g')) code = Some (line, 1, now)"
    "decode_packet True True False line = Inr (Some (Packet (PointToMultipointPacket p)), length line)"
    "p_confirmation p = Some [code]" "pm_application p = Some app" "pm_sals p = [Lighting (command_sal ga app on b t)]"
    "g_log g' = g_log g @ ann @ [Publish (state_topic ga app) (command_state on b t) 1 True,
       Publish (bin_sensor_state_topic ga app) (PText (if on \<and> b > 0 then ''ON'' else ''OFF'')) 1 True]"
proof -
  have cls: "get_application app = Inr LightingApplication" using app by (simp add: application_ids)
  have ok: "sal_ok app (Lighting (command_sal ga app on b t))"
    using app ga b t by (simp add: command_sal_def)
  obtain code st' line p where s: "send_sals now (Inr [Lighting (command_sal ga app on b t)]) (g_pci g) = (Inr (Some code), st')"
    "written st' = written (g_pci g) @ [line]" "map_of (pending st') code = Some (line, 1, now)"
    "decode_packet True True False line = Inr (Some (Packet (PointToMultipointPacket p)), length line)"
    "p_confirmation p = Some [code]" "pm_application p = Some app" "pm_sals p = [Lighting (command_sal ga app on b t)]"
    using send_one_sal [OF g(1,2) ok cls] by metis
  have "g_client (g\<lparr>g_pci := st'\<rparr>)" using g(3) by simp
  note pub = publish_state_runs [OF this, of "if on then ''ON'' else ''OFF''" "if on then b else 0" "if on then t else 0"
      "on \<and> b > 0" None ga app]
  have st: "command_state on b t = state_payload (if on then ''ON'' else ''OFF'') (if on then b else 0) (if on then t else 0) None"
    by (simp add: command_state_def)
  obtain g' ann where p: "publish_state (if on then ''ON'' else ''OFF'') (if on then b else 0) (if on then t else 0)
      (on \<and> b > 0) None ga app (g\<lparr>g_pci := st'\<rparr>) = (Inr (), g')" "g_pci g' = st'"
    "g_log g' = g_log g @ ann @ [Publish (state_topic ga app) (command_state on b t) 1 True,
       Publish (bin_sensor_state_topic ga app) (PText (if on \<and> b > 0 then ''ON'' else ''OFF'')) 1 True]"
    unfolding st by (rule pub) simp_all
  show thesis
  proof (rule that)
    show "switchLight now ga app on b t g = (Inr (), g')"
      using s(1) p(1) by (simp add: switchLight_steps [OF app ga] on_pci_def act_simps)
  qed (use s p in simp_all)
qed

end
