(* ===== verification/Level_Store.thy ===== *)
theory Level_Store
  imports Prelude
begin

text \<open>
  The contract of a table of group levels, which the ESP32 emulator and the simulated installation
  both offer: a write to a known group is read back clamped to a byte, other groups keep their
  levels, unknown groups ignore writes, and no write adds a group. The locale \<open>level_store\<close>
  states it over a type of addresses; what follows for a sequence of writes is proved in it once.
\<close>

definition clamp_level :: "int \<Rightarrow> int" where
  "clamp_level level = max 0 (min 255 level)"

lemma clamp_level_range: "0 \<le> clamp_level level \<and> clamp_level level \<le> 255"
  by (simp add: clamp_level_def)

lemma clamp_level_idem [simp]: "clamp_level (clamp_level level) = clamp_level level"
  by (simp add: clamp_level_def)

locale level_store =
  fixes read_level :: "'k \<Rightarrow> 's \<Rightarrow> int"
    and write_level :: "'k \<Rightarrow> int \<Rightarrow> 's \<Rightarrow> 's"
    and known :: "'k \<Rightarrow> 's \<Rightarrow> bool"
  assumes read_write: "known k s \<Longrightarrow> read_level k (write_level k level s) = clamp_level level"
    and read_other: "k' \<noteq> k \<Longrightarrow> read_level k' (write_level k level s) = read_level k' s"
    and read_unknown: "\<not> known k s \<Longrightarrow> read_level k (write_level k level s) = 0"
    and unknown_zero: "\<not> known k s \<Longrightarrow> read_level k s = 0"
    and known_write: "known k' (write_level k level s) = known k' s"
begin

definition write_all :: "('k \<times> int) list \<Rightarrow> 's \<Rightarrow> 's" where
  "write_all ws s = fold (\<lambda>(k, level). write_level k level) ws s"

lemma write_all_simps [simp]:
  "write_all [] s = s"
  "write_all (ws @ [(k, level)]) s = write_level k level (write_all ws s)"
  by (simp_all add: write_all_def)

lemma known_write_all: "known k (write_all ws s) = known k s"
proof (induction ws rule: rev_induct)
  case (snoc w ws)
  then show ?case by (cases w) (simp add: known_write)
qed simp

lemma last_write_wins:
  "read_level k (write_all ws s) =
    (case (known k s, map_of (rev ws) k) of
       (True, Some level) \<Rightarrow> clamp_level level
     | _ \<Rightarrow> read_level k s)"
proof (induction ws rule: rev_induct)
  case Nil
  then show ?case by (simp split: bool.splits)
next
  case (snoc w ws)
  obtain k' level where w: "w = (k', level)" by fastforce
  show ?case
  proof (cases "k = k'")
    case True
    then show ?thesis
      using known_write_all [of k ws s] read_write [of k "write_all ws s" level]
        read_unknown [of k "write_all ws s" level] unknown_zero [of k s]
      by (auto simp: w split: bool.splits)
  next
    case False
    then show ?thesis using snoc read_other [of k k' level "write_all ws s"] by (simp add: w)
  qed
qed

lemma writes_commute:
  assumes "k \<noteq> k'"
  shows "read_level j (write_level k l (write_level k' l' s)) = read_level j (write_level k' l' (write_level k l s))"
  using last_write_wins [of j "[(k', l'), (k, l)]" s] last_write_wins [of j "[(k, l), (k', l')]" s] assms
  by (auto simp: write_all_def split: bool.splits if_splits)

end

end
