(* ===== verification/Emulator.thy ===== *)
theory Emulator
  imports Decode Level_Store
begin

text \<open>
  The ESP32 bridge emulator of \<open>cbus/esp32/emulator/device.py\<close>: a second PCI, with group
  levels and bus units that answer device management commands. A client's connection is the action
  monad over the emulator's record, whose \<open>e_out\<close> is what was written to that client;
  \<open>emu_process_buffer\<close> is the loop over the lines of the receive buffer and returns what is left
  of it.

  An entry of the command log is appended when its line is done, with the fields it has by then.
  The pause \<open>response_delay_ms\<close> and the set of clients of the TCP server are not modelled.
\<close>

section \<open>Python text\<close>

text \<open>\<open>bytes.ljust\<close>. Where a line goes through \<open>bytes.fromhex\<close> after
  \<open>decode('ascii')\<close>, the value \<open>None\<close> of \<open>fromhex\<close> is either of the two exceptions
  the callers catch together.\<close>

definition ljust :: "nat \<Rightarrow> byte \<Rightarrow> bytes \<Rightarrow> bytes" where
  "ljust n fill bs = bs @ replicate (n - length bs) fill"

section \<open>Units\<close>

record emulated_unit =
  u_address :: int
  u_type_name :: string
  u_firmware_short :: string
  u_firmware_extended :: string
  u_serial_number :: bytes
  u_manufacturer_code :: bytes
  u_installed_apps :: "int list"
  u_terminal_levels :: bytes
  u_parameter_area :: int
  u_gav_zone_data :: bytes
  u_group_address_table :: bytes
  u_output_summary :: bytes
  u_gav_store :: bytes

definition get_attribute :: "emulated_unit \<Rightarrow> int \<Rightarrow> bytes option result" where
  "get_attribute u attr =
     (if attr = 0x01 then rmap (\<lambda>n. Some (take 8 (ljust 8 32 n))) (encode_ascii (u_type_name u))
      else if attr = 0x02 then rmap (\<lambda>n. Some (take 8 (ljust 8 32 n))) (encode_ascii (u_firmware_short u))
      else if attr = 0x04 then Inr (Some (ljust 12 0 (take 12 (u_serial_number u))))
      else if attr = 0x10 then Inr (Some (take 4 (u_terminal_levels u)))
      else if attr = 0x20 then Inr (Some (take 12 (u_gav_zone_data u)))
      else if attr = 0x23 then Inr (Some (take 6 (u_output_summary u)))
      else if attr = 0x2A then Inr (Some (take 6 (u_gav_store u)))
      else if attr = 0x2C then Inr (Some (take 12 (u_group_address_table u)))
      else if attr = 0x3E then rmap Some (py_bytes [u_parameter_area u])
      else if attr = 0xF3 then
        rmap (\<lambda>n. Some (take 4 (u_manufacturer_code u) @ take 8 (ljust 8 32 n))) (encode_ascii (u_type_name u))
      else if attr = 0xFA then rmap (\<lambda>apps. Some (take 44 (ljust 44 0xFF apps))) (py_bytes (u_installed_apps u))
      else if attr = 0xFB then rmap (\<lambda>n. Some (take 9 (ljust 9 0 n))) (encode_ascii (u_firmware_extended u))
      else if attr = 0xF2 then rmap Some (py_bytes [int (length (u_installed_apps u))])
      else if attr = 0x21 then Inr (Some (replicate 12 0))
      else if attr = 0x0B then Inr (Some [0])
      else if attr = 0x0D then Inr (Some (replicate 4 0))
      else Inr None)"

definition CNI_UNIT_ADDRESS :: int where "CNI_UNIT_ADDRESS = 0x10"

definition new_EmulatedUnit :: "int \<Rightarrow> string \<Rightarrow> emulated_unit" where
  "new_EmulatedUnit address type_name =
     \<lparr>u_address = address, u_type_name = type_name, u_firmware_short = ''2.5.00  '', u_firmware_extended = ''01.05.00'',
      u_serial_number = [0xFF, 0xFF, 0xFF, 0, 0, 0, 0, 0, 0, 0, 0, 1], u_manufacturer_code = [0, 0, 0, 0],
      u_installed_apps = [0x38], u_terminal_levels = [0, 0, 0, 0], u_parameter_area = 0x40,
      u_gav_zone_data = replicate 12 0, u_group_address_table = replicate 12 0xFF, u_output_summary = replicate 6 0,
      u_gav_store = replicate 6 0\<rparr>"

definition make_default_units :: "(int \<times> emulated_unit) list" where
  "make_default_units =
     [(1, (new_EmulatedUnit 1 ''RELDN12 '')\<lparr>u_firmware_short := ''2.7.00  '', u_firmware_extended := ''01.07.00'',
        u_serial_number := [0xFF, 0xFF, 0xFF, 0, 0, 0x18, 0xA6, 0x64, 0xA3, 0xB1, 0, 1],
        u_manufacturer_code := [0x18, 0xA6, 0x64, 0xA3], u_installed_apps := [0x38]\<rparr>),
      (3, (new_EmulatedUnit 3 ''DIMDN8  '')\<lparr>u_firmware_short := ''2.7.00  '', u_firmware_extended := ''01.07.00'',
        u_serial_number := [0xFF, 0xFF, 0xFF, 0, 0, 0x18, 0xA6, 0x64, 0xA3, 0xB2, 0, 2],
        u_manufacturer_code := [0x18, 0xA6, 0x64, 0xA3], u_installed_apps := [0x38]\<rparr>),
      (5, (new_EmulatedUnit 5 ''KEYGL5  '')\<lparr>u_firmware_short := ''5.5.00  '', u_firmware_extended := ''01.05.00'',
        u_serial_number := [0xFF, 0xFF, 0xFF, 0, 0, 0x18, 0xB3, 0xF6, 0x82, 0xA4, 0, 1],
        u_manufacturer_code := [0x18, 0xB3, 0xF6, 0x82], u_installed_apps := [0x38, 0x19, 0x1B, 0x18, 0x21],
        u_terminal_levels := [0x80, 0, 0, 0xFF], u_parameter_area := 0x40\<rparr>),
      (CNI_UNIT_ADDRESS,
        (new_EmulatedUnit CNI_UNIT_ADDRESS ''PC_CNIED'')\<lparr>u_firmware_short := ''5.5.00  '',
        u_firmware_extended := ''01.05.00'', u_serial_number := [0xFF, 0xFF, 0xFF, 0, 0, 0x18, 0xB3, 0xF6, 0x82, 0, 0, 1],
        u_manufacturer_code := [0x18, 0xB3, 0xF6, 0x82], u_installed_apps := [0x38, 0xFF]\<rparr>)]"

section \<open>The emulator\<close>

record log_entry =
  l_raw :: bytes
  l_type :: string
  l_group :: "int option"
  l_level :: "int option"
  l_unit :: "int option"

record emulator =
  e_groups :: "int list"
  e_units :: "(int \<times> emulated_unit) list"
  e_command_log :: "log_entry list"
  e_out :: "bytes list"

definition new_ESP32Emulator :: "nat \<Rightarrow> emulator" where
  "new_ESP32Emulator num_groups =
     \<lparr>e_groups = replicate num_groups 0, e_units = make_default_units, e_command_log = [], e_out = []\<rparr>"

definition get_group_level :: "int \<Rightarrow> emulator \<Rightarrow> int" where
  "get_group_level group_id e =
     (if 0 \<le> group_id \<and> group_id < int (length (e_groups e)) then e_groups e ! nat group_id else 0)"

definition set_group_level :: "int \<Rightarrow> int \<Rightarrow> emulator \<Rightarrow> emulator" where
  "set_group_level group_id level e =
     (if 0 \<le> group_id \<and> group_id < int (length (e_groups e))
      then e\<lparr>e_groups := (e_groups e)[nat group_id := max 0 (min 255 level)]\<rparr> else e)"

interpretation emu_levels: level_store get_group_level set_group_level
    "\<lambda>g e. 0 \<le> g \<and> g < int (length (e_groups e))"
  by unfold_locales (auto simp: get_group_level_def set_group_level_def clamp_level_def nth_list_update nat_eq_iff)

definition emu_write :: "bytes \<Rightarrow> (emulator, unit) act" where
  "emu_write bs = amodify (\<lambda>e. e\<lparr>e_out := e_out e @ [bs]\<rparr>)"

definition emu_confirm :: "byte option \<Rightarrow> (emulator, unit) act" where
  "emu_confirm conf_code =
     (case conf_code of None \<Rightarrow> areturn () | Some c \<Rightarrow> emu_write ([c] @ [0x2E] @ END_RESPONSE))"

text \<open>The deque of 10000 entries.\<close>

definition append_log :: "log_entry \<Rightarrow> emulator \<Rightarrow> emulator" where
  "append_log entry e =
     e\<lparr>e_command_log := drop (length (e_command_log e) + 1 - 10000) (e_command_log e @ [entry])\<rparr>"

section \<open>Commands\<close>

text \<open>What a lighting command does to the groups, and its entry in the log.\<close>

definition emu_lighting :: "bytes \<Rightarrow> log_entry \<Rightarrow> emulator \<Rightarrow> log_entry \<times> emulator" where
  "emu_lighting packet_bytes entry e =
     (let cmd_type = packet_bytes ! 3;
          group_addr = (if length packet_bytes > 4 then uint (packet_bytes ! 4) else 0) in
      if cmd_type = 0x79 then
        (entry\<lparr>l_type := ''lighting_on'', l_group := Some group_addr\<rparr>, set_group_level group_addr 255 e)
      else if cmd_type = 0x01 then
        (entry\<lparr>l_type := ''lighting_off'', l_group := Some group_addr\<rparr>, set_group_level group_addr 0 e)
      else if cmd_type = 0x09 then
        (entry\<lparr>l_type := ''lighting_terminate_ramp'', l_group := Some group_addr\<rparr>, e)
      else if 0x02 \<le> cmd_type \<and> cmd_type \<le> 0x7A then
        (let level = (if length packet_bytes > 5 then uint (packet_bytes ! 5) else 255) in
         (entry\<lparr>l_type := ''lighting_ramp'', l_group := Some group_addr, l_level := Some level\<rparr>,
          set_group_level group_addr level e))
      else (entry, e))"

definition build_reply_cal :: "int \<Rightarrow> bytes \<Rightarrow> bytes result" where
  "build_reply_cal param data =
     rmap (\<lambda>raw. b16encode raw @ END_RESPONSE) (rbind (cal_encode (ReplyCAL param data)) add_cbus_checksum)"

definition build_pp_reply :: "int \<Rightarrow> int \<Rightarrow> bytes \<Rightarrow> bytes result" where
  "build_pp_reply source_unit param data =
     rbind (py_bytes [0x86, source_unit, CNI_UNIT_ADDRESS, 0x00]) (\<lambda>pp_header.
     rbind (cal_encode (ReplyCAL param data)) (\<lambda>cal.
     rmap (\<lambda>raw. b16encode raw @ END_RESPONSE) (add_cbus_checksum (pp_header @ cal))))"

text \<open>The reply of a unit to a request for an attribute, cut to \<open>count\<close> bytes by a recall.\<close>

definition send_attribute ::
  "(int \<Rightarrow> bytes \<Rightarrow> bytes result) \<Rightarrow> emulated_unit \<Rightarrow> byte \<Rightarrow> byte option \<Rightarrow> (emulator, unit) act" where
  "send_attribute build u attr count =
     abind (alift (get_attribute u (uint attr))) (\<lambda>attr_data.
     case attr_data of
       None \<Rightarrow> areturn ()
     | Some d \<Rightarrow>
         abind (alift (build (uint attr) (case count of None \<Rightarrow> d | Some n \<Rightarrow> take (unat n) d))) emu_write)"

definition cni_attribute :: "byte \<Rightarrow> byte option \<Rightarrow> (emulator, unit) act" where
  "cni_attribute attr count e =
     (case map_of (e_units e) CNI_UNIT_ADDRESS of
        None \<Rightarrow> areturn () e
      | Some cni \<Rightarrow> send_attribute build_reply_cal cni attr count e)"

definition handle_dm_cal :: "bytes \<Rightarrow> byte option \<Rightarrow> (emulator, unit) act" where
  "handle_dm_cal data conf_code =
     (case fromhex data of
        None \<Rightarrow> areturn ()
      | Some cal_bytes \<Rightarrow>
          if cal_bytes = [] then areturn ()
          else athen
            (if uint (cal_bytes ! 0) = CAL_IDENTIFY \<and> length cal_bytes \<ge> 2 then cni_attribute (cal_bytes ! 1) None
             else if uint (cal_bytes ! 0) = CAL_RECALL \<and> length cal_bytes \<ge> 3
             then cni_attribute (cal_bytes ! 1) (Some (cal_bytes ! 2))
             else areturn ())
            (emu_confirm conf_code))"

text \<open>The loop over chained CALs of a point-to-point command.\<close>

fun emu_cals :: "emulated_unit \<Rightarrow> int \<Rightarrow> bytes \<Rightarrow> (emulator, unit) act" where
  "emu_cals u unit_addr [] = areturn ()"
| "emu_cals u unit_addr [cmd] = areturn ()"
| "emu_cals u unit_addr [cmd, attr] =
     (if uint cmd = CAL_IDENTIFY then send_attribute (build_pp_reply unit_addr) u attr None else areturn ())"
| "emu_cals u unit_addr (cmd # attr # count # rest) =
     (if uint cmd = CAL_IDENTIFY
      then athen (send_attribute (build_pp_reply unit_addr) u attr None) (emu_cals u unit_addr (count # rest))
      else if uint cmd = CAL_RECALL
      then athen (send_attribute (build_pp_reply unit_addr) u attr (Some count)) (emu_cals u unit_addr rest)
      else areturn ())"

definition handle_pp_command :: "bytes \<Rightarrow> byte option \<Rightarrow> log_entry \<Rightarrow> log_entry \<times> (emulator, unit) act" where
  "handle_pp_command data conf_code entry =
     (if length data < 3 then (entry, emu_confirm conf_code)
      else
        (entry\<lparr>l_type := ''pp_cal'', l_unit := Some (uint (data ! 0))\<rparr>,
         athen (emu_confirm conf_code)
           (\<lambda>e. case map_of (e_units e) (uint (data ! 0)) of
                  None \<Rightarrow> areturn () e
                | Some u \<Rightarrow> emu_cals u (uint (data ! 0)) (drop 2 data) e)))"

section \<open>Status\<close>

definition group_bits :: "int list \<Rightarrow> int \<Rightarrow> int" where
  "group_bits groups gid =
     group_state_value (if gid < int (length groups) then if groups ! nat gid > 0 then ON else OFF else MISSING) AND 0x03"

definition state_byte :: "int list \<Rightarrow> int \<Rightarrow> int" where
  "state_byte groups first =
     push_bit 6 (group_bits groups first) OR push_bit 4 (group_bits groups (first + 1)) OR
     push_bit 2 (group_bits groups (first + 2)) OR group_bits groups (first + 3)"

definition send_binary_status :: "byte \<Rightarrow> byte \<Rightarrow> (emulator, unit) act" where
  "send_binary_status app_id block_start e =
     (let state_bytes = map (\<lambda>i. byte_of (state_byte (e_groups e) (uint block_start + 4 * int i))) [0..<22];
          cal_len = int (length state_bytes) + 3 in
      abind (alift (rbind (py_bytes [0x86, CNI_UNIT_ADDRESS, CNI_UNIT_ADDRESS, 0x00, 0xE0 OR (cal_len AND 0x1F), 0x40,
                             uint app_id, uint block_start])
                      (\<lambda>h. add_cbus_checksum (h @ state_bytes))))
        (\<lambda>raw. emu_write (b16encode raw @ END_RESPONSE)) e)"

section \<open>Lines\<close>

definition split_code :: "bytes \<Rightarrow> byte option \<times> bytes" where
  "split_code payload =
     (if payload \<noteq> [] \<and> last payload \<in> set CONFIRMATION_CODES then (Some (last payload), butlast payload)
      else (None, payload))"

definition finish_log :: "log_entry \<Rightarrow> (emulator, unit) act \<Rightarrow> (emulator, unit) act" where
  "finish_log entry m = athen (amodify (append_log entry)) m"

definition emu_multipoint :: "bytes \<Rightarrow> log_entry \<Rightarrow> (emulator, unit) act" where
  "emu_multipoint packet_bytes entry =
     (if length packet_bytes < 4 then finish_log entry (areturn ())
      else if packet_bytes ! 0 = 0x05 \<and> packet_bytes ! 1 = 0x38
      then (\<lambda>e. let (entry, e) = emu_lighting packet_bytes entry e in finish_log entry (areturn ()) e)
      else if packet_bytes ! 0 = 0x05 \<and> packet_bytes ! 1 = 0xFF
      then finish_log (entry\<lparr>l_type := ''status_request''\<rparr>)
             (awhen (length packet_bytes \<ge> 5) (send_binary_status (packet_bytes ! 3) (packet_bytes ! 4)))
      else if packet_bytes ! 0 = 0x05 \<and> packet_bytes ! 1 = 0xDF
      then finish_log (entry\<lparr>l_type := ''clock_update''\<rparr>) (areturn ())
      else finish_log entry (areturn ()))"

definition emu_command :: "bytes \<Rightarrow> log_entry \<Rightarrow> (emulator, unit) act" where
  "emu_command payload entry =
     (let (conf_code, payload) = split_code payload;
          packet_bytes = (case fromhex payload of Some bs \<Rightarrow> bs | None \<Rightarrow> payload) in
      if length packet_bytes \<ge> 2 \<and> packet_bytes ! 0 = 0x46
      then let (entry, act) = handle_pp_command (drop 1 packet_bytes) conf_code entry in
           finish_log entry (\<lambda>e. case act e of (Inl _, e) \<Rightarrow> emu_confirm conf_code e | r \<Rightarrow> r)
      else athen (if length packet_bytes \<ge> 2 then emu_multipoint packet_bytes entry else finish_log entry (areturn ()))
             (emu_confirm conf_code))"

definition emu_bare :: "bytes \<Rightarrow> log_entry \<Rightarrow> (emulator, unit) act" where
  "emu_bare cmd_bytes entry =
     (let (conf_code, bare) = split_code cmd_bytes in
      if fromhex bare = None \<or> bare = [] then finish_log entry (areturn ())
      else finish_log (entry\<lparr>l_type := ''bare_dm_cal''\<rparr>) (handle_dm_cal bare conf_code))"

definition emu_line :: "bytes \<Rightarrow> (emulator, unit) act" where
  "emu_line cmd_bytes =
     (let entry = \<lparr>l_raw = cmd_bytes, l_type = ''unknown'', l_group = None, l_level = None, l_unit = None\<rparr> in
      if cmd_bytes \<in> {ascii ''~~~'', ascii ''~''} then finish_log (entry\<lparr>l_type := ''reset''\<rparr>) (areturn ())
      else if cmd_bytes = ascii ''null'' then finish_log (entry\<lparr>l_type := ''null''\<rparr>) (areturn ())
      else if cmd_bytes \<in> {ascii ''|'', ascii ''||''}
      then finish_log (entry\<lparr>l_type := ''smart_connect''\<rparr>) (areturn ())
      else if starts_with (ascii ''@'') cmd_bytes
      then finish_log (entry\<lparr>l_type := ''device_management_cal''\<rparr>) (handle_dm_cal (drop 1 cmd_bytes) None)
      else if starts_with (ascii ''A3'') cmd_bytes
      then finish_log (entry\<lparr>l_type := ''device_management''\<rparr>) (emu_write (ascii ''g.'' @ END_RESPONSE))
      else if starts_with [0x5C] cmd_bytes
      then emu_command (drop 1 cmd_bytes) (entry\<lparr>l_type := ''cbus_command''\<rparr>)
      else emu_bare cmd_bytes entry)"

text \<open>The next line of the buffer, ended by a carriage return and an optional line feed.\<close>

definition next_line :: "bytes \<Rightarrow> (bytes \<times> bytes) option" where
  "next_line buf =
     (case find_sub [0x0D] buf of
        None \<Rightarrow> None
      | Some cr_pos \<Rightarrow>
          let end_len = (if cr_pos + 1 < length buf \<and> buf ! (cr_pos + 1) = 0x0A then 2 else 1) in
          Some (take cr_pos buf, drop (cr_pos + end_len) buf))"

lemma next_line_shorter: "next_line buf = Some (line, rest) \<Longrightarrow> length rest < length buf"
  by (cases buf) (auto simp: next_line_def Let_def split: option.splits if_splits)

function emu_process_buffer :: "bytes \<Rightarrow> (emulator, bytes) act" where
  "emu_process_buffer buf =
     (case next_line buf of
        None \<Rightarrow> areturn buf
      | Some (line, rest) \<Rightarrow>
          if line = [] then emu_process_buffer rest
          else (\<lambda>e. case emu_line line e of
                  (Inl x, e') \<Rightarrow> (Inl x, e')
                | (Inr _, e') \<Rightarrow> emu_process_buffer rest e'))"
  by pat_completeness auto
termination
  by (relation "measure length") (auto dest!: next_line_shorter)

declare emu_process_buffer.simps [simp del]

section \<open>Hex lines\<close>

lemma hex_not_cr: "0x0D \<notin> set (b16encode bs)" "0x0D \<notin> set CONFIRMATION_CODES"
  using b16encode_hex [of bs] by (auto simp: HEX_CHARS_def CONFIRMATION_CODES_def)

lemma split_code_snoc: "c \<in> set CONFIRMATION_CODES \<Longrightarrow> split_code (bs @ [c]) = (Some c, bs)"
  by (simp add: split_code_def)

lemma next_line_cr:
  assumes "0x0D \<notin> set line" "rest = [] \<or> hd rest \<noteq> 0x0A"
  shows "next_line (line @ 0x0D # rest) = Some (line, rest)"
  using find_sub_skip [OF assms(1), of "[]" rest] assms(2)
  by (cases rest) (auto simp: next_line_def Let_def nth_append)

lemma next_line_none: "0x0D \<notin> set buf \<Longrightarrow> next_line buf = None"
  by (simp add: next_line_def find_sub_notin)

lemma process_line:
  assumes "0x0D \<notin> set line" "line \<noteq> []" "rest = [] \<or> hd rest \<noteq> 0x0A"
  shows "emu_process_buffer (line @ 0x0D # rest) e =
    (case emu_line line e of (Inl x, e') \<Rightarrow> (Inl x, e') | (Inr _, e') \<Rightarrow> emu_process_buffer rest e')"
  using assms by (simp add: emu_process_buffer.simps [of "line @ 0x0D # rest"] next_line_cr)

lemma process_nothing: "0x0D \<notin> set buf \<Longrightarrow> emu_process_buffer buf e = (Inr buf, e)"
  by (simp add: emu_process_buffer.simps [of buf] next_line_none act_simps)

lemma command_line:
  assumes "c \<in> set CONFIRMATION_CODES"
  shows "emu_process_buffer (0x5C # b16encode raw @ [c] @ END_COMMAND) e =
    (case emu_command (b16encode raw @ [c]) \<lparr>l_raw = 0x5C # b16encode raw @ [c], l_type = ''cbus_command'',
         l_group = None, l_level = None, l_unit = None\<rparr> e of
       (Inl x, e') \<Rightarrow> (Inl x, e') | (Inr _, e') \<Rightarrow> (Inr [], e'))"
proof -
  have "0x0D \<notin> set (0x5C # b16encode raw @ [c])" using hex_not_cr(1) [of raw] hex_not_cr(2) assms by auto
  from process_line [OF this, of "[]" e] show ?thesis
    by (simp add: END_COMMAND_def emu_line_def Let_def ascii_def starts_with_def process_nothing
        cong: sum.case_cong prod.case_cong)
qed

section \<open>Invariant\<close>

definition emu_inv :: "nat \<Rightarrow> (int \<times> emulated_unit) list \<Rightarrow> emulator \<Rightarrow> bool" where
  "emu_inv n us e \<longleftrightarrow> length (e_groups e) = n \<and> list_all is_byte (e_groups e) \<and> e_units e = us \<and>
     length (e_command_log e) \<le> 10000"

lemma keeps_write [intro]: "keeps (emu_inv n us) (emu_write bs)"
  unfolding emu_write_def by (rule keeps_modify) (simp add: emu_inv_def)

lemma keeps_confirm [intro]: "keeps (emu_inv n us) (emu_confirm c)"
  by (cases c) (auto simp: emu_confirm_def)

lemma emu_inv_log: "emu_inv n us e \<Longrightarrow> emu_inv n us (append_log entry e)"
  by (simp add: emu_inv_def append_log_def)

lemma keeps_log [intro]: "keeps (emu_inv n us) m \<Longrightarrow> keeps (emu_inv n us) (finish_log entry m)"
  unfolding finish_log_def by (intro keeps_then keeps_modify emu_inv_log)

lemma keeps_attribute [intro]: "keeps (emu_inv n us) (send_attribute build u attr count)"
proof -
  have "keeps (emu_inv n us) (case attr_data of None \<Rightarrow> areturn () | Some d \<Rightarrow> abind (alift (f d)) emu_write)"
    for attr_data :: "bytes option" and f
    by (cases attr_data) auto
  then show ?thesis unfolding send_attribute_def by (intro keeps_bind keeps_lift)
qed

lemma keeps_cni [intro]: "keeps (emu_inv n us) (cni_attribute attr count)"
proof -
  have "keeps (emu_inv n us) (\<lambda>e. case map_of us CNI_UNIT_ADDRESS of
        None \<Rightarrow> areturn () e | Some cni \<Rightarrow> send_attribute build_reply_cal cni attr count e)"
    by (cases "map_of us CNI_UNIT_ADDRESS") auto
  then show ?thesis by (simp add: triple_def cni_attribute_def emu_inv_def)
qed

lemma keeps_dm [intro]: "keeps (emu_inv n us) (handle_dm_cal data c)"
  by (auto simp: handle_dm_cal_def split: option.split)

lemma keeps_cals [intro]: "keeps (emu_inv n us) (emu_cals u a data)"
  by (induction u a data rule: emu_cals.induct) auto

lemma keeps_units:
  assumes "\<And>us'. keeps (emu_inv n us) (k us')"
  shows "keeps (emu_inv n us) (\<lambda>e. k (e_units e) e)"
  using assms by (simp add: triple_def)

lemma keeps_pp: "keeps (emu_inv n us) (snd (handle_pp_command data c entry))"
proof -
  have "keeps (emu_inv n us) (\<lambda>e. case map_of us' (uint (data ! 0)) of
      None \<Rightarrow> areturn () e | Some u \<Rightarrow> emu_cals u (uint (data ! 0)) (drop 2 data) e)" for us'
    by (cases "map_of us' (uint (data ! 0))") auto
  from keeps_units [where k = "\<lambda>us' e. case map_of us' (uint (data ! 0)) of
      None \<Rightarrow> areturn () e | Some u \<Rightarrow> emu_cals u (uint (data ! 0)) (drop 2 data) e", OF this]
  show ?thesis by (auto simp: handle_pp_command_def)
qed

lemma emu_inv_level: "emu_inv n us e \<Longrightarrow> emu_inv n us (set_group_level g l e)"
  by (auto simp: emu_inv_def set_group_level_def list_all_iff is_byte_def dest!: set_update_subset_insert [THEN subsetD])

lemma emu_inv_lighting: "emu_inv n us e \<Longrightarrow> emu_inv n us (snd (emu_lighting bs entry e))"
  by (simp add: emu_lighting_def Let_def emu_inv_level)

lemma keeps_status [intro]: "keeps (emu_inv n us) (send_binary_status a b)"
proof -
  have "keeps (emu_inv n us) (\<lambda>e. abind (alift r) (\<lambda>raw. emu_write (b16encode raw @ END_RESPONSE)) e)" for r
    by (rule keeps_bind) auto
  then show ?thesis by (auto simp: triple_def send_binary_status_def Let_def)
qed

lemma keeps_multipoint: "keeps (emu_inv n us) (emu_multipoint bs entry)"
proof -
  have "keeps (emu_inv n us) (\<lambda>e. let (entry, e) = emu_lighting bs entry e in finish_log entry (areturn ()) e)"
    using emu_inv_lighting [of n us _ bs entry] keeps_log [OF keeps_return, of n us _ "()"]
    by (auto simp: keeps_iff split: prod.splits) (metis snd_conv)
  then show ?thesis by (auto simp: emu_multipoint_def awhen_def)
qed

lemma keeps_command: "keeps (emu_inv n us) (emu_command payload entry)"
proof -
  obtain c p where sc: "split_code payload = (c, p)" by fastforce
  define bs where "bs = (case fromhex p of Some bs \<Rightarrow> bs | None \<Rightarrow> p)"
  obtain entry' act where pp: "handle_pp_command (drop 1 bs) c entry = (entry', act)" by fastforce
  have "keeps (emu_inv n us) act" using keeps_pp [of n us "drop 1 bs" c entry] pp by simp
  then have "keeps (emu_inv n us) (finish_log entry' (\<lambda>e. case act e of (Inl _, e) \<Rightarrow> emu_confirm c e | r \<Rightarrow> r))"
    by (intro keeps_log keeps_catch keeps_confirm)
  moreover have "keeps (emu_inv n us) (athen (if length bs \<ge> 2 then emu_multipoint bs entry else finish_log entry (areturn ()))
             (emu_confirm c))"
    using keeps_multipoint by auto
  ultimately show ?thesis
    unfolding emu_command_def sc Let_def prod.case bs_def [symmetric] pp by (auto split: if_splits)
qed

lemma keeps_line: "keeps (emu_inv n us) (emu_line line)"
proof -
  have "keeps (emu_inv n us) (emu_bare line entry)" for entry
    by (cases "split_code line") (auto simp: emu_bare_def)
  then show ?thesis using keeps_command by (auto simp: emu_line_def Let_def)
qed

lemma emu_process_inv:
  "emu_inv n us e \<Longrightarrow> emu_inv n us (snd (emu_process_buffer buf e))"
proof (induction buf arbitrary: e rule: measure_induct_rule [of length])
  case (less buf)
  show ?case
  proof (cases "next_line buf")
    case None
    then show ?thesis using less.prems by (simp add: emu_process_buffer.simps [of buf] act_simps)
  next
    case (Some lr)
    obtain line rest where lr: "lr = (line, rest)" by fastforce
    have "emu_inv n us (snd (emu_line line e))"
      using keeps_line [of n us line] less.prems by (simp add: keeps_iff)
    then show ?thesis
      using less.IH [OF next_line_shorter [OF Some [unfolded lr]]] Some lr less.prems
      by (auto simp: emu_process_buffer.simps [of buf] split: prod.split sum.split)
  qed
qed

section \<open>Properties\<close>

text \<open>
  Whatever bytes a client sends, the emulator keeps its number of groups and its units, every
  group level stays a byte, and the command log never exceeds its bound, also when a command
  raises.
\<close>

lemma emulator_invariant:
  assumes "list_all is_byte (e_groups e)" and "length (e_command_log e) \<le> 10000"
  shows "let e' = snd (emu_process_buffer buf e) in
    length (e_groups e') = length (e_groups e) \<and> list_all is_byte (e_groups e') \<and>
    e_units e' = e_units e \<and> length (e_command_log e') \<le> 10000"
  using emu_process_inv [of "length (e_groups e)" "e_units e" e buf] assms by (simp add: emu_inv_def Let_def)

text \<open>
  A line feed that arrives in a later read than its carriage return spoils the next command:
  the emulator logs a command line with a line feed before its backslash as unknown, changes no
  group and writes nothing, not even the confirmation.
\<close>

lemma split_line_end:
  assumes "0x0D \<notin> set body"
  shows "emu_process_buffer (0x0A # 0x5C # body @ END_COMMAND) e =
    (Inr [], append_log \<lparr>l_raw = 0x0A # 0x5C # body, l_type = ''unknown'', l_group = None, l_level = None,
       l_unit = None\<rparr> e)"
proof -
  have "fromhex (0x0A # 0x5C # bs) = None" for bs
    by (cases bs) (simp_all add: hex_space_def hex_digit_def hex_val_def)
  moreover have "\<exists>c bare. split_code (0x0A # 0x5C # body) = (c, 0x0A # 0x5C # bare)"
  proof (cases "body = []")
    case True
    then show ?thesis by (simp add: split_code_def CONFIRMATION_CODES_def)
  qed (simp add: split_code_def)
  ultimately have "emu_line (0x0A # 0x5C # body) e = (Inr (), append_log \<lparr>l_raw = 0x0A # 0x5C # body,
      l_type = ''unknown'', l_group = None, l_level = None, l_unit = None\<rparr> e)"
    by (auto simp: emu_line_def Let_def ascii_def starts_with_def emu_bare_def finish_log_def act_simps)
  with process_line [of "0x0A # 0x5C # body" "[]" e] assms show ?thesis
    by (simp add: END_COMMAND_def process_nothing)
qed

end
