(* ===== verification/Interrogator.thy ===== *)
theory Interrogator
  imports Emulator
begin

text \<open>
  The unit interrogator of \<open>cbus/protocol/interrogator.py\<close>, which reads device management
  attributes of bus units one after the other. What the other end answers to a line is a parameter
  of the model: a function \<open>peer\<close> from its state and the line written to the reads that happen
  before the reply times out, and its new state. A read gives some bytes, the end of the stream, or
  a connection error (an \<open>OSError\<close>); the end of the list is the deadline.

  Text is a list of code points, because decoding with \<open>errors='replace'\<close> produces U+FFFD. The
  field \<open>i_connected\<close> is whether the stream objects are set; opening and closing them is input and
  output.

  The lemmas show that how the bytes are cut into reads does not matter, and what the
  interrogation of a unit of the emulator returns.
\<close>

section \<open>Unit information\<close>

type_synonym text_points = "nat list"

record unit_info =
  ui_address :: int
  ui_type_name :: text_points
  ui_firmware_version :: text_points
  ui_firmware_extended :: text_points
  ui_serial_number :: bytes
  ui_installed_apps :: "int list"
  ui_terminal_levels :: bytes
  ui_parameter_area :: int
  ui_gav_zone_data :: bytes
  ui_group_address_table :: bytes
  ui_output_summary :: bytes
  ui_gav_store :: bytes
  ui_raw_attributes :: "(int \<times> bytes) list"

definition new_UnitInfo :: "int \<Rightarrow> unit_info" where
  "new_UnitInfo address =
     \<lparr>ui_address = address, ui_type_name = [], ui_firmware_version = [], ui_firmware_extended = [],
      ui_serial_number = [], ui_installed_apps = [], ui_terminal_levels = [], ui_parameter_area = 0,
      ui_gav_zone_data = [], ui_group_address_table = [], ui_output_summary = [], ui_gav_store = [],
      ui_raw_attributes = []\<rparr>"

definition unique_id :: "unit_info \<Rightarrow> bytes" where
  "unique_id info =
     (if length (ui_serial_number info) \<ge> 9 then b16encode (take 6 (drop 3 (ui_serial_number info))) else [])"

text \<open>\<open>bytes.decode('ascii', errors='replace')\<close>.\<close>

definition decode_ascii :: "bytes \<Rightarrow> text_points" where
  "decode_ascii = map (\<lambda>b. if unat b < 128 then unat b else 0xFFFD)"

text \<open>The attributes are read in this order; a recall asks for a number of bytes.\<close>

definition INTERROGATION_ATTRS :: "(int \<times> int) list" where
  "INTERROGATION_ATTRS =
     [(CAL_IDENTIFY, 0x01), (CAL_IDENTIFY, 0x02), (CAL_IDENTIFY, 0x04), (CAL_RECALL, 0x10), (CAL_RECALL, 0x3E),
      (CAL_RECALL, 0xFA), (CAL_RECALL, 0xFB), (CAL_RECALL, 0x20), (CAL_RECALL, 0x2C), (CAL_RECALL, 0x23),
      (CAL_RECALL, 0x2A)]"

definition RECALL_COUNTS :: "(int \<times> int) list" where
  "RECALL_COUNTS = [(0x10, 4), (0x3E, 1), (0xFA, 44), (0xFB, 9), (0x20, 12), (0x2C, 12), (0x23, 6), (0x2A, 6)]"

definition rstrip_nul :: "bytes \<Rightarrow> bytes" where
  "rstrip_nul d = rev (dropWhile (\<lambda>b. b = 0) (rev d))"

definition apply_attribute :: "int \<Rightarrow> bytes \<Rightarrow> unit_info \<Rightarrow> unit_info" where
  "apply_attribute attr data info =
     (if attr = 0x01 then info\<lparr>ui_type_name := decode_ascii data\<rparr>
      else if attr = 0x02 then info\<lparr>ui_firmware_version := decode_ascii data\<rparr>
      else if attr = 0x04 then info\<lparr>ui_serial_number := data\<rparr>
      else if attr = 0x10 then info\<lparr>ui_terminal_levels := data\<rparr>
      else if attr = 0x3E then info\<lparr>ui_parameter_area := (case data of [] \<Rightarrow> 0 | b # _ \<Rightarrow> uint b)\<rparr>
      else if attr = 0xFA then info\<lparr>ui_installed_apps := map uint (filter (\<lambda>b. b \<noteq> 0xFF) data)\<rparr>
      else if attr = 0xFB then info\<lparr>ui_firmware_extended := decode_ascii (rstrip_nul data)\<rparr>
      else if attr = 0x20 then info\<lparr>ui_gav_zone_data := data\<rparr>
      else if attr = 0x2C then info\<lparr>ui_group_address_table := data\<rparr>
      else if attr = 0x23 then info\<lparr>ui_output_summary := data\<rparr>
      else if attr = 0x2A then info\<lparr>ui_gav_store := data\<rparr>
      else info)"

section \<open>Replies\<close>

fun first_reply :: "cal list \<Rightarrow> bytes option" where
  "first_reply [] = None"
| "first_reply (ReplyCAL parameter data # cals) = Some data"
| "first_reply (_ # cals) = first_reply cals"

text \<open>Anything but a point-to-point packet has no reply: iterating it finds none or raises.\<close>

definition line_reply :: "bytes \<Rightarrow> bytes option" where
  "line_reply line =
     (case decode_packet True False True (line @ END_RESPONSE) of
        Inr (Some (Packet (PointToPointPacket p)), _) \<Rightarrow> first_reply (pp_cals p)
      | _ \<Rightarrow> None)"

function reply_in :: "bytes \<Rightarrow> bytes option \<times> bytes" where
  "reply_in buf =
     (case find_sub END_RESPONSE buf of
        None \<Rightarrow> (None, buf)
      | Some e \<Rightarrow>
          let line = take e buf; rest = drop (e + 2) buf in
          if length line = 2 \<and> line ! 1 = 0x2E then reply_in rest
          else case line_reply line of Some d \<Rightarrow> (Some d, rest) | None \<Rightarrow> reply_in rest)"
  by pat_completeness auto
termination
  by (relation "measure length") (auto dest!: find_sub_Some_bound simp: END_RESPONSE_def)

declare reply_in.simps [simp del]

datatype read_event = Chunk bytes | ConnectionLost

fun read_reply :: "read_event list \<Rightarrow> bytes \<Rightarrow> bytes option result" where
  "read_reply [] buf = Inr None"
| "read_reply (Chunk c # events) buf =
     (if c = [] then Inr None
      else case reply_in (buf @ c) of
        (Some d, _) \<Rightarrow> Inr (Some d)
      | (None, buf) \<Rightarrow> read_reply events buf)"
| "read_reply (ConnectionLost # events) buf = Inl OSError"

section \<open>Requests\<close>

record interrogator =
  i_connected :: bool
  i_conf_idx :: nat
  i_written :: "bytes list"

type_synonym 'e peer = "'e \<Rightarrow> bytes \<Rightarrow> read_event list \<times> 'e"

definition new_UnitInterrogator :: interrogator where
  "new_UnitInterrogator = \<lparr>i_connected = False, i_conf_idx = 0, i_written = []\<rparr>"

text \<open>A line is written and the reads that follow it are returned.\<close>

definition send_raw :: "'e peer \<Rightarrow> bytes \<Rightarrow> (interrogator \<times> 'e, read_event list) act" where
  "send_raw peer data st =
     (case st of (i, e) \<Rightarrow>
        if \<not> i_connected i then (Inl AttributeError, st)
        else let line = data @ END_COMMAND; (events, e') = peer e line in
             (Inr events, (i\<lparr>i_written := i_written i @ [line]\<rparr>, e')))"

definition i_connect :: "'e peer \<Rightarrow> (interrogator \<times> 'e, unit) act" where
  "i_connect peer =
     athen (amodify (\<lambda>(i, e). (i\<lparr>i_connected := True\<rparr>, e))) (athen (send_raw peer (ascii ''||'')) (areturn ()))"

definition i_disconnect :: "interrogator \<Rightarrow> interrogator" where
  "i_disconnect i = i\<lparr>i_connected := False\<rparr>"

definition next_conf :: "(interrogator \<times> 'e, byte) act" where
  "next_conf = (\<lambda>(i, e). (Inr (CONFIRMATION_CODES ! (i_conf_idx i mod length CONFIRMATION_CODES)),
     (i\<lparr>i_conf_idx := i_conf_idx i + 1\<rparr>, e)))"

definition pp_request :: "'e peer \<Rightarrow> int list \<Rightarrow> (interrogator \<times> 'e, bytes option) act" where
  "pp_request peer cmd_bytes =
     abind next_conf (\<lambda>conf.
     abind (alift (py_bytes (0x46 # cmd_bytes))) (\<lambda>cmd.
     abind (send_raw peer (0x5C # b16encode cmd @ [conf])) (\<lambda>events.
     alift (read_reply events []))))"

definition pp_identify :: "'e peer \<Rightarrow> int \<Rightarrow> int \<Rightarrow> (interrogator \<times> 'e, bytes option) act" where
  "pp_identify peer u attr = pp_request peer [u, 0x00, CAL_IDENTIFY, attr]"

definition pp_recall :: "'e peer \<Rightarrow> int \<Rightarrow> int \<Rightarrow> int \<Rightarrow> (interrogator \<times> 'e, bytes option) act" where
  "pp_recall peer u attr count = pp_request peer [u, 0x00, CAL_RECALL, attr, count]"

definition read_attribute :: "'e peer \<Rightarrow> int \<Rightarrow> int \<times> int \<Rightarrow> (interrogator \<times> 'e, bytes option) act" where
  "read_attribute peer u = (\<lambda>(cal_cmd, attr).
     if cal_cmd = CAL_IDENTIFY then pp_identify peer u attr
     else if cal_cmd = CAL_RECALL
     then pp_recall peer u attr (case map_of RECALL_COUNTS attr of Some n \<Rightarrow> n | None \<Rightarrow> 12)
     else areturn None)"

text \<open>A timeout is \<open>None\<close> already; a connection error is caught, any other exception is not.\<close>

fun interrogate_attrs :: "'e peer \<Rightarrow> int \<Rightarrow> (int \<times> int) list \<Rightarrow> unit_info \<Rightarrow> (interrogator \<times> 'e, unit_info) act" where
  "interrogate_attrs peer u [] info st = (Inr info, st)"
| "interrogate_attrs peer u (ca # cas) info st =
     (case read_attribute peer u ca st of
        (Inr (Some data), st') \<Rightarrow>
          interrogate_attrs peer u cas
            (apply_attribute (snd ca) data
               (info\<lparr>ui_raw_attributes := AList.update (snd ca) data (ui_raw_attributes info)\<rparr>)) st'
      | (Inr None, st') \<Rightarrow> interrogate_attrs peer u cas info st'
      | (Inl e, st') \<Rightarrow> if e = OSError then interrogate_attrs peer u cas info st' else (Inl e, st'))"

definition interrogate :: "'e peer \<Rightarrow> int \<Rightarrow> (interrogator \<times> 'e, unit_info) act" where
  "interrogate peer u = interrogate_attrs peer u INTERROGATION_ATTRS (new_UnitInfo u)"

text \<open>\<open>str.strip\<close> on code points that are ASCII or U+FFFD.\<close>

definition space_point :: "nat \<Rightarrow> bool" where
  "space_point c \<longleftrightarrow> 9 \<le> c \<and> c \<le> 13 \<or> 28 \<le> c \<and> c \<le> 32"

definition strip_text :: "text_points \<Rightarrow> text_points" where
  "strip_text t = rev (dropWhile space_point (rev (dropWhile space_point t)))"

definition discovered :: "int \<Rightarrow> bytes option \<Rightarrow> unit_info list" where
  "discovered addr data =
     (case data of
        None \<Rightarrow> []
      | Some d \<Rightarrow>
          if d = [] \<or> list_all (\<lambda>b. b = 0) d then []
          else let type_name = strip_text (decode_ascii d) in
               if type_name = [] then [] else [(new_UnitInfo addr)\<lparr>ui_type_name := type_name\<rparr>])"

fun discover_from :: "'e peer \<Rightarrow> int list \<Rightarrow> (interrogator \<times> 'e, unit_info list) act" where
  "discover_from peer [] st = (Inr [], st)"
| "discover_from peer (addr # addrs) st =
     (case pp_identify peer addr 0x01 st of
        (Inr data, st') \<Rightarrow>
          (case discover_from peer addrs st' of
             (Inr us, st'') \<Rightarrow> (Inr (discovered addr data @ us), st'')
           | (Inl e, st'') \<Rightarrow> (Inl e, st''))
      | (Inl e, st') \<Rightarrow> if e = OSError then discover_from peer addrs st' else (Inl e, st'))"

definition discover_units :: "'e peer \<Rightarrow> int \<Rightarrow> (interrogator \<times> 'e, unit_info list) act" where
  "discover_units peer max_address = discover_from peer [0..max_address]"

section \<open>What the interrogator relies on\<close>

text \<open>
  A peer that serves the unit at address \<open>u\<close>: as long as its state is good, each attribute the
  interrogator asks for is answered, with \<open>None\<close> for no reply in time, and the state stays good.
  Then an interrogation is the fold of these answers into the record.
\<close>

definition note_attribute :: "int \<Rightarrow> bytes option \<Rightarrow> unit_info \<Rightarrow> unit_info" where
  "note_attribute attr d info =
     (case d of
        None \<Rightarrow> info
      | Some data \<Rightarrow> apply_attribute attr data
          (info\<lparr>ui_raw_attributes := AList.update attr data (ui_raw_attributes info)\<rparr>))"

locale attribute_server =
  fixes peer :: "'e peer" and u :: int and good :: "interrogator \<times> 'e \<Rightarrow> bool"
    and reply :: "int \<times> int \<Rightarrow> bytes option"
  assumes serves: "good st \<Longrightarrow> ca \<in> set INTERROGATION_ATTRS \<Longrightarrow>
    \<exists>st'. read_attribute peer u ca st = (Inr (reply ca), st') \<and> good st'"
begin

lemma attrs_served:
  "good st \<Longrightarrow> set cas \<subseteq> set INTERROGATION_ATTRS \<Longrightarrow>
   \<exists>st'. interrogate_attrs peer u cas info st = (Inr (fold (\<lambda>ca. note_attribute (snd ca) (reply ca)) cas info), st') \<and>
     good st'"
proof (induction cas arbitrary: info st)
  case (Cons ca cas)
  have "ca \<in> set INTERROGATION_ATTRS" using Cons.prems(2) by simp
  from serves [OF Cons.prems(1) this] obtain st1 where
    "read_attribute peer u ca st = (Inr (reply ca), st1)" "good st1" by blast
  with Cons.IH [OF this(2)] Cons.prems(2) show ?case by (cases "reply ca") (simp_all add: note_attribute_def)
qed simp

lemma interrogate_served:
  assumes "good st"
  shows "\<exists>st'. interrogate peer u st =
    (Inr (fold (\<lambda>ca. note_attribute (snd ca) (reply ca)) INTERROGATION_ATTRS (new_UnitInfo u)), st') \<and> good st'"
  unfolding interrogate_def using attrs_served [OF assms order.refl] .

lemma unserved_empty:
  assumes "good st" "\<And>ca. reply ca = None"
  shows "\<exists>st'. interrogate peer u st = (Inr (new_UnitInfo u), st')"
proof -
  have "fold (\<lambda>ca. note_attribute (snd ca) (reply ca)) cas info = info" for cas info
    by (induction cas) (simp_all add: assms(2) note_attribute_def)
  with interrogate_served [OF assms(1)] show ?thesis by auto
qed

end

section \<open>Chunks\<close>

lemma reply_in_append:
  "reply_in (a @ b) =
     (case reply_in a of (Some d, r) \<Rightarrow> (Some d, r @ b) | (None, r) \<Rightarrow> reply_in (r @ b))"
proof (induction a rule: measure_induct_rule [of length])
  case (less a)
  show ?case
  proof (cases "find_sub END_RESPONSE a")
    case None
    then show ?thesis by (simp add: reply_in.simps [of a])
  next
    case (Some e)
    then have e: "e + 2 \<le> length a" using find_sub_Some_bound [OF Some] by (simp add: END_RESPONSE_def)
    then have "length (drop (e + 2) a) < length a" by simp
    note IH = less.IH [OF this]
    from e have td: "take e (a @ b) = take e a" "drop (e + 2) (a @ b) = drop (e + 2) a @ b" by simp_all
    define line where "line = take e a"
    show ?thesis
      unfolding reply_in.simps [of a] reply_in.simps [of "a @ b"] find_sub_append [OF Some] Some option.case Let_def td IH line_def [symmetric]
      by (simp split: option.split)
  qed
qed

lemma reply_in_none_again: "reply_in a = (None, r) \<Longrightarrow> reply_in r = (None, r)"
proof (induction a rule: measure_induct_rule [of length])
  case (less a)
  show ?case
  proof (cases "find_sub END_RESPONSE a")
    case None
    with less.prems show ?thesis by (auto simp: reply_in.simps [of a] reply_in.simps [of r])
  next
    case (Some e)
    then have "e + 2 \<le> length a" using find_sub_Some_bound [OF Some] by (simp add: END_RESPONSE_def)
    then have "length (drop (e + 2) a) < length a" by simp
    from less.IH [OF this] less.prems Some show ?thesis
      by (auto simp: reply_in.simps [of a] Let_def split: if_splits option.splits)
  qed
qed

lemma read_reply_chunks:
  assumes "\<forall>c \<in> set cs. c \<noteq> []" "reply_in buf = (None, buf)"
  shows "read_reply (map Chunk cs) buf = Inr (fst (reply_in (buf @ concat cs)))"
  using assms
proof (induction cs arbitrary: buf)
  case (Cons c cs)
  show ?case
  proof (cases "reply_in (buf @ c)")
    case (Pair r b)
    show ?thesis
    proof (cases r)
      case None
      with Pair have "reply_in b = (None, b)" by (auto dest: reply_in_none_again)
      from Cons.IH [OF _ this] Cons.prems Pair None reply_in_append [of "buf @ c" "concat cs"] show ?thesis by simp
    next
      case (Some d)
      with Pair Cons.prems reply_in_append [of "buf @ c" "concat cs"] show ?thesis by simp
    qed
  qed
qed simp

end
