(* ===== verification/Emulator_Link.thy ===== *)
theory Emulator_Link
  imports Interrogator
begin

text \<open>
  The programs that talk to the ESP32 emulator, joined to it: the interrogator of
  \<open>Interrogator\<close>, and the lighting commands and status requests as the client of
  \<open>Pci_Protocol\<close> encodes them. \<open>emu_peer\<close> is the emulator seen from the other end of the
  stream, with an arbitrary cutting of its output into reads.
\<close>

section \<open>Replies of a unit\<close>

definition reply_packet :: "int \<Rightarrow> int \<Rightarrow> bytes \<Rightarrow> pp_packet" where
  "reply_packet a attr d =
     \<lparr>p_checksum = True, p_dat = POINT_TO_POINT, p_rc = 0, p_dp = False, p_priority = CLASS_2, p_confirmation = None,
      p_source = Some a, pp_unit_address = 0x10, pp_bridged = False, pp_hops = [],
      pp_cals = [ReplyCAL attr (take 30 d)]\<rparr>"

lemma reply_flags: "flags (reply_packet a attr d) = 0x86"
  by (simp add: flags_def reply_packet_def)

lemma reply_encode_take: "cal_encode (ReplyCAL attr (take 30 d)) = cal_encode (ReplyCAL attr d)"
  by (simp add: Let_def)

lemma build_pp_reply_packet:
  assumes "is_byte a"
  shows "build_pp_reply a attr d =
    rmap (\<lambda>wire. wire @ END_RESPONSE) (encode_packet (PointToPointPacket (reply_packet a attr d)))"
proof -
  have swap: "- x - (y + 150) = - y - (x + 150)" for x y :: byte by simp
  have "base_encode (reply_packet a attr d) = Inr [0x86, byte_of a]"
    using base_encode_eq [of "reply_packet a attr d", unfolded reply_flags] by (simp add: reply_packet_def byte_of_def)
  moreover have "pp_unit_address (reply_packet a attr d) = 0x10" "\<not> pp_bridged (reply_packet a attr d)"
    "pp_cals (reply_packet a attr d) = [ReplyCAL attr (take 30 d)]" "p_checksum (reply_packet a attr d)"
    by (simp_all add: reply_packet_def)
  ultimately show ?thesis
    using assms
    by (cases "cal_encode (ReplyCAL attr d)")
      (simp_all add: build_pp_reply_def pp_encode_def CNI_UNIT_ADDRESS_def add_checksum_if_def reply_encode_take
        byte_of_def algebra_simps swap [of "word_of_int a"] del: cal_encode.simps)
qed

lemma reply_line:
  assumes "is_byte a" "a \<noteq> 0" "is_byte attr"
  obtains w where "build_pp_reply a attr d = Inr (w @ END_RESPONSE)" "line_reply w = Some (take 30 d)"
    "0x0D \<notin> set w" "2 < length w"
proof -
  have wf: "packet_wf (PointToPointPacket (reply_packet a attr d))"
    using assms by (simp add: pp_wf_def reply_packet_def)
  have "sent_by_pci (base_packet.truncate (reply_packet a attr d)) (Some a)"
    using assms by (simp add: sent_by_pci_def reply_packet_def base_packet.defs)
  from from_pci_roundtrip [OF wf _ this] obtain wire where
    w: "encode_packet (PointToPointPacket (reply_packet a attr d)) = Inr wire"
      "decode_packet True False True (wire @ END_RESPONSE) =
        Inr (Some (Packet (PointToPointPacket (reply_packet a attr d))), length wire + 2)"
    by (fastforce simp: reply_packet_def base_packet.defs dest: spec [of _ "[]"])
  from w(1) obtain raw where raw: "wire = b16encode raw" "pp_encode (reply_packet a attr d) = Inr raw"
    by (auto simp: result_simps)
  then have "1 < length raw"
    by (auto simp: pp_encode_def reply_packet_def result_simps add_checksum_if_eq with_checksum_def base_encode_eq
        split: if_splits)
  moreover have "length (b16encode bs) = 2 * length bs" for bs by (induction bs) simp_all
  ultimately show thesis
    using build_pp_reply_packet [OF assms(1), of attr d] w hex_not_cr(1) [of raw] raw(1)
    by (intro that [of wire]) (simp_all add: line_reply_def reply_packet_def)
qed

text \<open>The lines the emulator writes for a request, as the interrogator scans them.\<close>

lemma reply_in_conf: "reply_in ([c, 0x2E] @ END_RESPONSE @ rest) = reply_in rest"
proof -
  have "find_sub END_RESPONSE ([c, 0x2E] @ END_RESPONSE @ rest) = Some 2"
    by (simp add: END_RESPONSE_def)
  then show ?thesis
    unfolding reply_in.simps [of "[c, 0x2E] @ END_RESPONSE @ rest"] by (simp add: END_RESPONSE_def)
qed

lemma reply_in_line:
  assumes "line_reply w = Some d" "0x0D \<notin> set w" "2 < length w"
  shows "reply_in (w @ END_RESPONSE) = (Some d, [])"
proof -
  have "find_sub END_RESPONSE (w @ END_RESPONSE) = Some (length w)"
    using find_sub_skip [OF assms(2), of "[0x0A]" "[]"] by (simp add: END_RESPONSE_def)
  with assms show ?thesis
    unfolding reply_in.simps [of "w @ END_RESPONSE"] by (simp add: END_RESPONSE_def)
qed

section \<open>Requests\<close>

lemma pp_line:
  assumes "c \<in> set CONFIRMATION_CODES" "is_byte a" "map_of (e_units e) a = uo" "length cal \<ge> 1"
  shows "\<exists>e1. e_out e1 = e_out e @ [[c, 0x2E] @ END_RESPONSE] \<and> e_units e1 = e_units e \<and> e_groups e1 = e_groups e \<and>
    emu_process_buffer (0x5C # b16encode ([0x46, byte_of a, 0] @ cal) @ [c] @ END_COMMAND) e =
      (case uo of
         None \<Rightarrow> (Inr [], e1)
       | Some u \<Rightarrow> (case emu_cals u a cal e1 of
           (Inl _, e2) \<Rightarrow> (Inr [], snd (emu_confirm (Some c) e2)) | (Inr _, e2) \<Rightarrow> (Inr [], e2)))"
proof -
  define raw where "raw = [0x46, byte_of a, 0] @ cal"
  define entry where "entry = \<lparr>l_raw = 0x5C # b16encode raw @ [c], l_type = ''cbus_command'',
         l_group = None, l_level = None, l_unit = None\<rparr>"
  define e1 where "e1 = snd (emu_confirm (Some c) (append_log (entry\<lparr>l_type := ''pp_cal'', l_unit := Some a\<rparr>) e))"
  have e1: "e_out e1 = e_out e @ [[c, 0x2E] @ END_RESPONSE]" "e_units e1 = e_units e" "e_groups e1 = e_groups e"
    by (simp_all add: e1_def emu_confirm_def emu_write_def amodify_def append_log_def)
  have u: "uint (byte_of a) = a" using assms(2) by (simp add: uint_of_byte)
  have "raw ! 0 = 0x46" "2 \<le> length raw" "drop 1 raw = byte_of a # 0 # cal" using assms(4) by (simp_all add: raw_def)
  then have "emu_command (b16encode raw @ [c]) entry e =
      (case uo of
         None \<Rightarrow> (Inr (), e1)
       | Some u \<Rightarrow> (case emu_cals u a cal e1 of
           (Inl _, e2) \<Rightarrow> emu_confirm (Some c) e2 | r \<Rightarrow> r))"
    using assms(3,4) e1(2) u unfolding emu_command_def split_code_snoc [OF assms(1)]
    by (auto simp: handle_pp_command_def finish_log_def act_simps e1_def emu_confirm_def emu_write_def split: option.split)
  then have "emu_process_buffer (0x5C # b16encode raw @ [c] @ END_COMMAND) e =
      (case uo of
         None \<Rightarrow> (Inr [], e1)
       | Some u \<Rightarrow> (case emu_cals u a cal e1 of
           (Inl _, e2) \<Rightarrow> (Inr [], snd (emu_confirm (Some c) e2)) | (Inr _, e2) \<Rightarrow> (Inr [], e2)))"
    unfolding command_line [OF assms(1)] entry_def [symmetric]
    by (auto simp: emu_confirm_def emu_write_def amodify_def split: option.split prod.split sum.split)
  with e1 show ?thesis unfolding raw_def by blast
qed

lemma send_attribute_reply:
  assumes "get_attribute u (uint attr) = Inr (Some d)" "is_byte a" "a \<noteq> 0"
  obtains w e' where "send_attribute (build_pp_reply a) u attr count e = (Inr (), e')"
    "e_out e' = e_out e @ [w @ END_RESPONSE]" "e_units e' = e_units e" "e_groups e' = e_groups e"
    "line_reply w = Some (take 30 (case count of None \<Rightarrow> d | Some n \<Rightarrow> take (unat n) d))" "0x0D \<notin> set w" "2 < length w"
proof -
  have "is_byte (uint attr)" by (simp add: is_byte_def)
  from reply_line [OF assms(2,3) this] obtain w where
    w: "build_pp_reply a (uint attr) (case count of None \<Rightarrow> d | Some n \<Rightarrow> take (unat n) d) = Inr (w @ END_RESPONSE)"
      "line_reply w = Some (take 30 (case count of None \<Rightarrow> d | Some n \<Rightarrow> take (unat n) d))"
      "0x0D \<notin> set w" "2 < length w" .
  with assms(1) show thesis
    by (intro that [of "e\<lparr>e_out := e_out e @ [w @ END_RESPONSE]\<rparr>" w])
      (simp_all add: send_attribute_def alift_def emu_write_def act_simps)
qed

text \<open>The emulator at the other end of the stream; \<open>chop\<close> cuts its output into reads.\<close>

definition emu_peer :: "(bytes \<Rightarrow> bytes list) \<Rightarrow> emulator peer" where
  "emu_peer chop e line =
     (case emu_process_buffer line (e\<lparr>e_out := []\<rparr>) of (r, e') \<Rightarrow>
        (map Chunk (chop (concat (e_out e'))) @ (case r of Inl _ \<Rightarrow> [Chunk []] | Inr _ \<Rightarrow> []), e'))"

definition chops :: "(bytes \<Rightarrow> bytes list) \<Rightarrow> bool" where
  "chops chop \<longleftrightarrow> (\<forall>bs. concat (chop bs) = bs \<and> [] \<notin> set (chop bs))"

lemma reply_in_Nil [simp]: "reply_in [] = (None, [])"
  by (simp add: reply_in.simps END_RESPONSE_def)

lemma read_reply_cut: "chops chop \<Longrightarrow> read_reply (map Chunk (chop bs)) [] = Inr (fst (reply_in bs))"
  using read_reply_chunks [of "chop bs" "[]"] by (auto simp: chops_def)

text \<open>What the emulator answers to the request of an attribute: the first CAL of the command, if it is complete.\<close>

definition requested :: "emulated_unit \<Rightarrow> int \<Rightarrow> int option \<Rightarrow> bytes option result" where
  "requested u attr count =
     rmap (map_option (\<lambda>d. take 30 (case count of None \<Rightarrow> d | Some n \<Rightarrow> take (nat n) d))) (get_attribute u attr)"

lemma request_reply:
  assumes chop: "chops chop" and code: "c \<in> set CONFIRMATION_CODES" and a: "is_byte a" "a \<noteq> 0"
    and attr: "is_byte attr" and n: "case count of None \<Rightarrow> True | Some n \<Rightarrow> is_byte n"
    and u: "map_of (e_units e) a = uo" "case uo of None \<Rightarrow> d = None | Some u \<Rightarrow> requested u attr count = Inr d"
    and cal: "cal = (case count of None \<Rightarrow> [0x21, byte_of attr] | Some n \<Rightarrow> [0x1A, byte_of attr, byte_of n])"
  obtains events e' where "emu_peer chop e (0x5C # b16encode ([0x46, byte_of a, 0] @ cal) @ [c] @ END_COMMAND) = (events, e')"
    "read_reply events [] = Inr d" "e_units e' = e_units e"
proof -
  have "map_of (e_units (e\<lparr>e_out := []\<rparr>)) a = uo" "length cal \<ge> 1" using u(1) cal by (auto split: option.split)
  from pp_line [OF code a(1) this] obtain e1 where e1: "e_out e1 = [[c, 0x2E] @ END_RESPONSE]" "e_units e1 = e_units e"
    and p: "emu_process_buffer (0x5C # b16encode ([0x46, byte_of a, 0] @ cal) @ [c] @ END_COMMAND) (e\<lparr>e_out := []\<rparr>) =
      (case uo of
         None \<Rightarrow> (Inr [], e1)
       | Some u \<Rightarrow> (case emu_cals u a cal e1 of
           (Inl _, e2) \<Rightarrow> (Inr [], snd (emu_confirm (Some c) e2)) | (Inr _, e2) \<Rightarrow> (Inr [], e2)))"
    by auto
  have silent: "read_reply (map Chunk (chop (concat (e_out e1)))) [] = Inr None"
    using read_reply_cut [OF chop] e1(1) reply_in_conf [of c "[]"] by simp
  show thesis
  proof (cases uo)
    case None
    with p silent e1 u(2) show thesis
      by (intro that [of "map Chunk (chop (concat (e_out e1)))" e1]) (simp_all add: emu_peer_def)
  next
    case (Some v)
    have at: "uint (byte_of attr) = attr" using attr by (simp add: uint_of_byte)
    have calls: "emu_cals v a cal e1 = send_attribute (build_pp_reply a) v (byte_of attr) (map_option byte_of count) e1"
      using cal by (cases count) (simp_all add: act_simps split: prod.split sum.split)
    show thesis
    proof (cases "get_attribute v attr")
      case (Inl x)
      with u(2) Some show thesis by (simp add: requested_def)
    next
      case (Inr do)
      show thesis
      proof (cases do)
        case None
        with Inr calls at have "emu_cals v a cal e1 = (Inr (), e1)" by (simp add: send_attribute_def alift_def act_simps)
        with p silent e1 u(2) Some Inr None show thesis
          by (intro that [of "map Chunk (chop (concat (e_out e1)))" e1]) (simp_all add: emu_peer_def requested_def)
      next
        case (Some d0)
        with Inr at have g: "get_attribute v (uint (byte_of attr)) = Inr (Some d0)" by simp
        obtain w e2 where w: "emu_cals v a cal e1 = (Inr (), e2)" "e_out e2 = e_out e1 @ [w @ END_RESPONSE]"
          "e_units e2 = e_units e1" "0x0D \<notin> set w" "2 < length w"
          "line_reply w = Some (take 30 (case map_option byte_of count of None \<Rightarrow> d0 | Some n \<Rightarrow> take (unat n) d0))"
          using send_attribute_reply [OF g a, of "map_option byte_of count" e1] calls by metis
        have "d = Some (take 30 (case map_option byte_of count of None \<Rightarrow> d0 | Some n \<Rightarrow> take (unat n) d0))"
          using u(2) \<open>uo = Some v\<close> Inr Some n
          by (cases count) (auto simp: requested_def unat_eq_nat_uint uint_of_byte)
        with reply_in_line [OF w(6,4,5)] reply_in_conf [of c "w @ END_RESPONSE"]
        have "read_reply (map Chunk (chop (concat (e_out e2)))) [] = Inr d"
          using read_reply_cut [OF chop] e1(1) w(2) by simp
        with p w e1 \<open>uo = Some v\<close> show thesis
          by (intro that [of "map Chunk (chop (concat (e_out e2)))" e2]) (simp_all add: emu_peer_def)
      qed
    qed
  qed
qed

section \<open>Interrogation\<close>

definition ready :: "(int \<times> emulated_unit) list \<Rightarrow> interrogator \<times> emulator \<Rightarrow> bool" where
  "ready us st \<longleftrightarrow> i_connected (fst st) \<and> e_units (snd st) = us"

lemma conf_in_codes: "CONFIRMATION_CODES ! (n mod length CONFIRMATION_CODES) \<in> set CONFIRMATION_CODES"
  by (rule nth_mem) (simp add: CONFIRMATION_CODES_def)

lemma request_ready:
  assumes "chops chop" "ready us st" "is_byte a" "a \<noteq> 0" "is_byte attr" "case count of None \<Rightarrow> True | Some n \<Rightarrow> is_byte n"
    and "case map_of us a of None \<Rightarrow> d = None | Some u \<Rightarrow> requested u attr count = Inr d"
  shows "\<exists>st'. pp_request (emu_peer chop) ([a, 0] @ (case count of None \<Rightarrow> [CAL_IDENTIFY, attr]
      | Some n \<Rightarrow> [CAL_RECALL, attr, n])) st = (Inr d, st') \<and> ready us st'"
proof -
  obtain i e where st: "st = (i, e)" by fastforce
  define c where "c = CONFIRMATION_CODES ! (i_conf_idx i mod length CONFIRMATION_CODES)"
  define cal where "cal = (case count of None \<Rightarrow> [0x21, byte_of attr] | Some n \<Rightarrow> [0x1A, byte_of attr, byte_of n])"
  have e: "map_of (e_units e) a = map_of us a" "i_connected i" "e_units e = us" using assms(2) by (simp_all add: st ready_def)
  obtain events e' where p: "emu_peer chop e (0x5C # b16encode ([0x46, byte_of a, 0] @ cal) @ [c] @ END_COMMAND) = (events, e')"
    "read_reply events [] = Inr d" "e_units e' = e_units e"
    using request_reply [OF assms(1) conf_in_codes assms(3-6) e(1) assms(7) cal_def] unfolding c_def by metis
  have b: "py_bytes (0x46 # [a, 0] @ (case count of None \<Rightarrow> [CAL_IDENTIFY, attr] | Some n \<Rightarrow> [CAL_RECALL, attr, n])) =
      Inr ([0x46, byte_of a, 0] @ cal)"
    using assms(3,5,6) by (cases count) (simp_all add: cal_def byte_of_def)
  define raw where "raw = [0x46, byte_of a, 0] @ cal"
  have "pp_request (emu_peer chop) ([a, 0] @ (case count of None \<Rightarrow> [CAL_IDENTIFY, attr]
      | Some n \<Rightarrow> [CAL_RECALL, attr, n])) st =
    (Inr d, (i\<lparr>i_conf_idx := i_conf_idx i + 1,
       i_written := i_written i @ [0x5C # b16encode raw @ [c] @ END_COMMAND]\<rparr>, e'))"
    unfolding pp_request_def b using p(1,2) e(2) unfolding raw_def [symmetric]
    by (simp add: st next_conf_def alift_def send_raw_def abind_def c_def [symmetric] Let_def)
  with p(3) e show ?thesis by (simp add: ready_def)
qed

text \<open>The attributes of a unit that the interrogator asks for can all be encoded.\<close>

definition unit_ok :: "emulated_unit \<Rightarrow> bool" where
  "unit_ok u \<longleftrightarrow> list_all (\<lambda>c. of_char c < (128 :: nat)) (u_type_name u @ u_firmware_short u @ u_firmware_extended u) \<and>
     is_byte (u_parameter_area u) \<and> list_all is_byte (u_installed_apps u)"

lemma unit_attributes:
  assumes "unit_ok u"
  shows "get_attribute u 0x01 = Inr (Some (take 8 (ljust 8 32 (ascii (u_type_name u)))))"
    "get_attribute u 0x02 = Inr (Some (take 8 (ljust 8 32 (ascii (u_firmware_short u)))))"
    "get_attribute u 0x04 = Inr (Some (ljust 12 0 (take 12 (u_serial_number u))))"
    "get_attribute u 0x10 = Inr (Some (take 4 (u_terminal_levels u)))"
    "get_attribute u 0x3E = Inr (Some [byte_of (u_parameter_area u)])"
    "get_attribute u 0xFA = Inr (Some (take 44 (ljust 44 0xFF (map byte_of (u_installed_apps u)))))"
    "get_attribute u 0xFB = Inr (Some (take 9 (ljust 9 0 (ascii (u_firmware_extended u)))))"
    "get_attribute u 0x20 = Inr (Some (take 12 (u_gav_zone_data u)))"
    "get_attribute u 0x2C = Inr (Some (take 12 (u_group_address_table u)))"
    "get_attribute u 0x23 = Inr (Some (take 6 (u_output_summary u)))"
    "get_attribute u 0x2A = Inr (Some (take 6 (u_gav_store u)))"
proof -
  have "py_bytes xs = Inr (map byte_of xs)" if "list_all is_byte xs" for xs
    using that by (induction xs) simp_all
  with assms show "get_attribute u 0x01 = Inr (Some (take 8 (ljust 8 32 (ascii (u_type_name u)))))"
    "get_attribute u 0x02 = Inr (Some (take 8 (ljust 8 32 (ascii (u_firmware_short u)))))"
    "get_attribute u 0x04 = Inr (Some (ljust 12 0 (take 12 (u_serial_number u))))"
    "get_attribute u 0x10 = Inr (Some (take 4 (u_terminal_levels u)))"
    "get_attribute u 0x3E = Inr (Some [byte_of (u_parameter_area u)])"
    "get_attribute u 0xFA = Inr (Some (take 44 (ljust 44 0xFF (map byte_of (u_installed_apps u)))))"
    "get_attribute u 0xFB = Inr (Some (take 9 (ljust 9 0 (ascii (u_firmware_extended u)))))"
    "get_attribute u 0x20 = Inr (Some (take 12 (u_gav_zone_data u)))"
    "get_attribute u 0x2C = Inr (Some (take 12 (u_group_address_table u)))"
    "get_attribute u 0x23 = Inr (Some (take 6 (u_output_summary u)))"
    "get_attribute u 0x2A = Inr (Some (take 6 (u_gav_store u)))"
    by (simp_all add: get_attribute_def unit_ok_def encode_ascii_def)
qed

text \<open>
  What the interrogator asks for each attribute, and the bytes a unit answers with: a reply holds
  at most 30 bytes.
\<close>

definition asked :: "int \<times> int \<Rightarrow> int option" where
  "asked ca = (if fst ca = CAL_IDENTIFY then None
     else Some (case map_of RECALL_COUNTS (snd ca) of Some n \<Rightarrow> n | None \<Rightarrow> 12))"

definition answer :: "emulated_unit \<Rightarrow> int \<times> int \<Rightarrow> bytes" where
  "answer u ca = (case requested u (snd ca) (asked ca) of Inr (Some d) \<Rightarrow> d | _ \<Rightarrow> [])"

lemma asked_attr:
  assumes "ca \<in> set INTERROGATION_ATTRS"
  shows "is_byte (snd ca)" "case asked ca of None \<Rightarrow> True | Some n \<Rightarrow> is_byte n"
  using assms by (auto simp: INTERROGATION_ATTRS_def asked_def RECALL_COUNTS_def)

lemma answered:
  assumes "ca \<in> set INTERROGATION_ATTRS" "unit_ok u"
  shows "requested u (snd ca) (asked ca) = Inr (Some (answer u ca))"
  using assms(1) unfolding INTERROGATION_ATTRS_def
  by (auto simp: answer_def requested_def unit_attributes [OF assms(2)])

lemma read_attribute_ready:
  assumes "chops chop" "ready us st" "is_byte a" "a \<noteq> 0" "ca \<in> set INTERROGATION_ATTRS"
    and "case map_of us a of None \<Rightarrow> True | Some u \<Rightarrow> unit_ok u"
  shows "\<exists>st'. read_attribute (emu_peer chop) a ca st = (Inr (map_option (\<lambda>u. answer u ca) (map_of us a)), st') \<and> ready us st'"
proof -
  have "read_attribute (emu_peer chop) a ca = pp_request (emu_peer chop) ([a, 0] @
      (case asked ca of None \<Rightarrow> [CAL_IDENTIFY, snd ca] | Some n \<Rightarrow> [CAL_RECALL, snd ca, n]))"
    using assms(5) by (auto simp: INTERROGATION_ATTRS_def read_attribute_def asked_def pp_identify_def pp_recall_def)
  moreover have "case map_of us a of None \<Rightarrow> map_option (\<lambda>u. answer u ca) (map_of us a) = None
      | Some u \<Rightarrow> requested u (snd ca) (asked ca) = Inr (map_option (\<lambda>u. answer u ca) (map_of us a))"
    using assms(5,6) answered by (auto split: option.splits)
  ultimately show ?thesis
    using request_ready [OF assms(1-4) asked_attr [OF assms(5)]] by simp
qed

interpretation emu_server: attribute_server "emu_peer chop" a
    "\<lambda>st. chops chop \<and> is_byte a \<and> a \<noteq> 0 \<and> (case map_of us a of None \<Rightarrow> True | Some u \<Rightarrow> unit_ok u) \<and> ready us st"
    "\<lambda>ca. map_option (\<lambda>u. answer u ca) (map_of us a)" for chop a us
  by unfold_locales (use read_attribute_ready in blast)

section \<open>Text and applications\<close>

lemma decode_ascii_padded:
  assumes "list_all (\<lambda>c. of_char c < (128 :: nat)) s"
  shows "decode_ascii (take 8 (ljust 8 32 (ascii s))) = map of_char (take 8 (s @ replicate (8 - length s) (CHR '' '')))"
proof -
  have "ljust 8 32 (ascii s) = ascii (s @ replicate (8 - length s) (CHR '' ''))"
    by (simp add: ljust_def ascii_def)
  moreover have "decode_ascii (ascii t) = map of_char t" if "list_all (\<lambda>c. of_char c < (128 :: nat)) t" for t
  proof -
    have "unat (of_char c :: byte) = of_char c" for c
    proof -
      have "unat (of_nat (of_char c) :: byte) = of_char c" 
        by (simp add: unsigned_of_nat take_bit_nat_eq_self_iff del: of_nat_of_char)
      then show ?thesis by (simp only: of_nat_of_char)
    qed
    with that show ?thesis by (induction t) (simp_all add: decode_ascii_def ascii_def)
  qed
  moreover have "list_all (\<lambda>c. of_char c < (128 :: nat)) (take 8 (s @ replicate (8 - length s) (CHR '' '')))"
    using assms by (auto simp: list_all_iff dest!: in_set_takeD)
  moreover have "take 8 (ascii t) = ascii (take 8 t)" for t by (simp add: ascii_def take_map)
  ultimately show ?thesis by simp
qed

lemma apps_answer:
  assumes "list_all is_byte apps"
  shows "map uint (filter (\<lambda>b. b \<noteq> 0xFF) (take 30 (ljust 44 0xFF (map byte_of apps)))) = filter (\<lambda>a. a \<noteq> 0xFF) (take 30 apps)"
proof -
  have *: "map uint (filter (\<lambda>b. b \<noteq> 0xFF) (map byte_of xs)) = filter (\<lambda>a. a \<noteq> 0xFF) xs" if "list_all is_byte xs" for xs
    using that
  proof (induction xs)
    case (Cons x xs)
    then have "byte_of x = 0xFF \<longleftrightarrow> x = 0xFF" using uint_of_byte [of x] by (auto simp: byte_of_def is_byte_def)
    with Cons show ?case by (simp add: uint_of_byte)
  qed simp
  have "take 30 (ljust 44 0xFF (map byte_of apps)) = map byte_of (take 30 apps) @ replicate (min (44 - length apps) (30 - length apps)) 0xFF"
    by (simp add: ljust_def take_map)
  moreover have "list_all is_byte (take 30 apps)" using assms by (auto simp: list_all_iff dest: in_set_takeD)
  ultimately show ?thesis using * [of "take 30 apps"] by simp
qed

section \<open>Lighting commands\<close>

fun sal_level :: "lighting_sal \<Rightarrow> (int \<times> int) option" where
  "sal_level (LightingRampSAL ga app duration level) = Some (ga, level)"
| "sal_level (LightingOnSAL ga app) = Some (ga, 255)"
| "sal_level (LightingOffSAL ga app) = Some (ga, 0)"
| "sal_level (LightingTerminateRampSAL ga app) = None"

definition obey :: "lighting_sal \<Rightarrow> emulator \<Rightarrow> emulator" where
  "obey s e = (case sal_level s of None \<Rightarrow> e | Some (ga, level) \<Rightarrow> set_group_level ga level e)"

lemma ramp_byte:
  "v \<in> LIGHT_RAMP_COMMANDS \<Longrightarrow> byte_of v \<noteq> 0x79 \<and> byte_of v \<noteq> 0x01 \<and> byte_of v \<noteq> 0x09 \<and> 2 \<le> byte_of v \<and>
    byte_of v \<le> 0x7A \<and> is_byte v"
  by (auto simp: LIGHT_RAMP_COMMANDS_def LIGHT_RAMP_RATES_def byte_of_def)

lemma emu_lighting_obeys:
  assumes "lighting_ok 0x38 s" "lighting_encode s = Inr b" "raw = [0x05, 0x38, 0] @ b @ tail"
  shows "\<exists>entry'. emu_lighting raw entry e = (entry', obey s e)"
proof (cases s)
  case (LightingRampSAL ga app duration level)
  define v where "v = light_value (duration_to_ramp_rate duration)"
  have v: "v \<in> LIGHT_RAMP_COMMANDS" unfolding v_def by (rule duration_is_ramp)
  have "is_byte ga" "is_byte level" using assms(1) LightingRampSAL by simp_all
  moreover have "is_byte v" using ramp_byte [OF v] by simp
  moreover have "\<not> (level < 0 \<or> 255 < level)" using \<open>is_byte level\<close> by (simp add: is_byte_def)
  ultimately have "raw = [0x05, 0x38, 0, byte_of v, byte_of ga, byte_of level] @ tail"
    using LightingRampSAL assms(2,3) by (simp add: v_def [symmetric])
  with \<open>is_byte ga\<close> \<open>is_byte level\<close> ramp_byte [OF v] show ?thesis
    by (simp add: emu_lighting_def LightingRampSAL obey_def uint_of_byte)
qed (use assms in \<open>auto simp: emu_lighting_def Let_def obey_def uint_of_byte [unfolded byte_of_def] byte_of_def is_byte_def\<close>)

lemma obey_fields [simp]: "e_out (obey s e) = e_out e" "e_units (obey s e) = e_units e"
  by (auto simp: obey_def set_group_level_def split: option.split)

lemma lighting_line:
  assumes "pm_wf p" "p_source p = None" "p_priority p = CLASS_4" "pm_application p = Some 0x38"
    and "pm_sals p = Lighting s # sals" and "encode_packet (PointToMultipointPacket p) = Inr wire"
    and c: "c \<in> set CONFIRMATION_CODES"
  shows "\<exists>e'. emu_process_buffer (0x5C # wire @ [c] @ END_COMMAND) e = (Inr [], e') \<and>
    e_groups e' = e_groups (obey s e) \<and> e_out e' = e_out e @ [[c, 0x2E] @ END_RESPONSE]"
proof -
  have ok: "sal_ok 0x38 (Lighting s)" using assms(1,4,5) by (simp add: pm_wf_def)
  obtain b where b: "lighting_encode s = Inr b" using sal_encodes [OF ok] by auto
  have fl: "flags p = 0x05" using assms(1,3) by (simp add: pm_wf_def flags_def)
  from assms(6) obtain raw where raw: "pm_encode p = Inr raw" "wire = b16encode raw" by (auto simp: result_simps)
  have "p_rc p = 0" using assms(1) by (simp add: pm_wf_def)
  with raw(1) assms(2,4,5) b obtain tail where r: "raw = [0x05, 0x38, 0] @ b @ tail"
    by (auto simp: pm_encode_def result_simps base_encode_eq fl add_checksum_if_eq with_checksum_def byte_of_def
        split: if_splits)
  have "lighting_ok 0x38 s" using ok by simp
  note obeys = emu_lighting_obeys [OF this b r, of _ e]
  have "length b \<ge> 2" using b by (cases s) (auto simp: result_simps split: if_splits)
  then have raws: "raw ! 0 = 0x05" "raw ! Suc 0 = 0x38" "4 \<le> length raw" by (simp_all add: r)
  have "\<exists>e'. emu_command (b16encode raw @ [c]) entry e = (Inr (), e') \<and> e_groups e' = e_groups (obey s e) \<and>
      e_out e' = e_out e @ [[c, 0x2E] @ END_RESPONSE]" for entry
  proof -
    obtain entry' where "emu_lighting raw entry e = (entry', obey s e)" using obeys by blast
    with raws show ?thesis
      unfolding emu_command_def split_code_snoc [OF c]
      by (simp add: emu_multipoint_def finish_log_def act_simps emu_confirm_def emu_write_def append_log_def)
  qed
  then show ?thesis unfolding raw(2) command_line [OF c] by (metis (no_types, lifting) old.sum.simps(6) prod.case)
qed

section \<open>Status requests\<close>

definition group_status :: "int list \<Rightarrow> int \<Rightarrow> group_state" where
  "group_status groups gid =
     (if gid < int (length groups) then if groups ! nat gid > 0 then ON else OFF else MISSING)"

text \<open>The states as the report decodes: the four groups of each byte in reverse.\<close>

definition reported :: "int list \<Rightarrow> int \<Rightarrow> group_state list" where
  "reported groups start =
     concat (map (\<lambda>i. rev (map (\<lambda>j. group_status groups (start + 4 * int i + int j)) [0..<4])) [0..<22])"

lemma group_bits_status: "group_bits groups gid = group_state_value (group_status groups gid)"
  by (simp add: group_bits_def group_status_def)

lemma four: "[0..<4] = [0, 1, 2, 3]"
  by (simp add: upt_rec numeral_eq_Suc)

lemma pack_reported:
  "pack_groups (concat (map (\<lambda>i. rev (map (\<lambda>j. f (g i + int j)) [0..<4])) xs)) =
    Inr (map (\<lambda>i. push_bit 6 (group_state_value (f (g i))) OR push_bit 4 (group_state_value (f (g i + 1))) OR
       push_bit 2 (group_state_value (f (g i + 2))) OR group_state_value (f (g i + 3))) xs)"
  by (induction xs) (simp_all add: four ac_simps)

lemma state_byte_is_byte: "is_byte (state_byte groups first)"
  unfolding state_byte_def group_bits_status
  by (cases "group_status groups first"; cases "group_status groups (first + 1)";
      cases "group_status groups (first + 2)"; cases "group_status groups (first + 3)") simp_all

lemma py_bytes_ok: "list_all is_byte xs \<Longrightarrow> py_bytes xs = Inr (map byte_of xs)"
  by (induction xs) simp_all

lemma length_reported: "length (reported groups start) = 88"
  by (simp add: reported_def length_concat comp_def sum_list_triv)

lemma encode_reported:
  "binary_encode (reported groups start) =
     Inr (map (\<lambda>i. byte_of (state_byte groups (start + 4 * int i))) [0..<22])"
proof -
  have "pad_groups (reported groups start) = reported groups start"
    by (simp add: pad_groups_def length_reported)
  moreover have "pack_groups (reported groups start) = Inr (map (\<lambda>i. state_byte groups (start + 4 * int i)) [0..<22])"
    unfolding reported_def pack_reported [of "group_status groups" "\<lambda>i. start + 4 * int i"]
    by (simp add: state_byte_def group_bits_status)
  moreover have "list_all is_byte (map (\<lambda>i. state_byte groups (start + 4 * int i)) [0..<22])"
    by (auto simp: list_all_iff state_byte_is_byte)
  ultimately show ?thesis by (simp only: binary_encode_def rbind.simps py_bytes_ok map_map comp_def)
qed

definition status_packet :: "int \<Rightarrow> int \<Rightarrow> int list \<Rightarrow> pp_packet" where
  "status_packet app start groups =
     \<lparr>p_checksum = True, p_dat = POINT_TO_POINT, p_rc = 0, p_dp = False, p_priority = CLASS_2, p_confirmation = None,
      p_source = Some 0x10, pp_unit_address = 0x10, pp_bridged = False, pp_hops = [],
      pp_cals = [ExtendedCAL True app start (BinaryStatusReport (reported groups start))]\<rparr>"

lemma status_line:
  "\<exists>w. send_binary_status app start e = (Inr (), e\<lparr>e_out := e_out e @ [w @ END_RESPONSE]\<rparr>) \<and>
     (\<forall>strict rest. decode_packet True strict True (w @ END_RESPONSE @ rest) =
        Inr (Some (Packet (PointToPointPacket (status_packet (uint app) (uint start) (e_groups e)))), length w + 2))"
proof -
  define p where "p = status_packet (uint app) (uint start) (e_groups e)"
  define bs where "bs = map (\<lambda>i. byte_of (state_byte (e_groups e) (uint start + 4 * int i))) [0..<22]"
  have b: "is_byte (uint app)" "is_byte (uint start)" by (simp_all add: is_byte_def)
  have "packet_wf (PointToPointPacket p)"
    using b by (simp add: p_def status_packet_def pp_wf_def length_reported)
  moreover have "sent_by_pci (base_packet.truncate p) (Some 0x10)"
    by (simp add: sent_by_pci_def p_def status_packet_def base_packet.defs)
  ultimately obtain w where w: "encode_packet (PointToPointPacket p) = Inr w"
    "\<forall>strict rest. decode_packet True strict True (w @ END_RESPONSE @ rest) =
        Inr (Some (Packet (PointToPointPacket p)), length w + 2)"
    using from_pci_roundtrip [of "PointToPointPacket p" "base_packet.truncate p"]
    by (fastforce simp: p_def status_packet_def base_packet.defs)
  have len: "length bs = 22" by (simp add: bs_def)
  have "cal_encode (ExtendedCAL True (uint app) (uint start) (BinaryStatusReport (reported (e_groups e) (uint start)))) =
      Inr ([0xF9, 0x40, app, start] @ bs)"
    using len b encode_reported [of "e_groups e" "uint start", folded bs_def] by (simp add: coding_byte_def byte_of_def)
  moreover have "base_encode p = Inr [0x86, 0x10]"
    using base_encode_eq [of p] by (simp add: p_def status_packet_def flags_def byte_of_def)
  ultimately have "pp_encode p = add_cbus_checksum ([0x86, 0x10, 0x10, 0, 0xF9, 0x40, app, start] @ bs)"
    by (simp add: pp_encode_def p_def status_packet_def add_checksum_if_def byte_of_def del: cal_encode.simps)
  with w(1) obtain raw where raw: "add_cbus_checksum ([0x86, 0x10, 0x10, 0, 0xF9, 0x40, app, start] @ bs) = Inr raw"
    "w = b16encode raw" by (auto simp: result_simps)
  have "py_bytes [0x86, CNI_UNIT_ADDRESS, CNI_UNIT_ADDRESS, 0x00, 0xE0 OR ((int (length bs) + 3) AND 0x1F), 0x40,
      uint app, uint start] = Inr [0x86, 0x10, 0x10, 0, 0xF9, 0x40, app, start]"
    using len b by (simp add: CNI_UNIT_ADDRESS_def byte_of_def)
  then have h: "rbind (py_bytes [0x86, CNI_UNIT_ADDRESS, CNI_UNIT_ADDRESS, 0x00, 0xE0 OR ((int (length bs) + 3) AND 0x1F), 0x40,
      uint app, uint start]) (\<lambda>h. add_cbus_checksum (h @ bs)) = Inr raw"
    by (simp only: rbind.simps raw(1))
  have "send_binary_status app start e = (Inr (), e\<lparr>e_out := e_out e @ [w @ END_RESPONSE]\<rparr>)"
    unfolding send_binary_status_def bs_def [symmetric] Let_def h by (simp add: raw(2) alift_def emu_write_def act_simps)
  with w(2) show ?thesis unfolding p_def by blast
qed

lemma status_request_line:
  assumes "pm_wf p" "p_source p = None" "p_priority p = CLASS_4" "pm_application p = Some 0xFF"
    and "pm_sals p = [StatusRequest \<lparr>sr_level_request = True, sr_group_address = ga, sr_child_application = app\<rparr>]"
    and "encode_packet (PointToMultipointPacket p) = Inr wire" and c: "c \<in> set CONFIRMATION_CODES"
  shows "\<exists>e' w. emu_process_buffer (0x5C # wire @ [c] @ END_COMMAND) e = (Inr [], e') \<and> e_groups e' = e_groups e \<and>
    e_out e' = e_out e @ [w @ END_RESPONSE, [c, 0x2E] @ END_RESPONSE] \<and>
    (\<forall>strict rest. decode_packet True strict True (w @ END_RESPONSE @ rest) =
       Inr (Some (Packet (PointToPointPacket (status_packet 0x73 7 (e_groups e)))), length w + 2))"
proof -
  have fl: "flags p = 0x05" using assms(1,3) by (simp add: pm_wf_def flags_def)
  from assms(6) obtain raw where raw: "pm_encode p = Inr raw" "wire = b16encode raw" by (auto simp: result_simps)
  have "p_rc p = 0" using assms(1) by (simp add: pm_wf_def)
  with raw(1) assms(2,4,5) obtain tail where r: "raw = [0x05, 0xFF, 0, 0x73, 0x07] @ tail"
    by (auto simp: pm_encode_def result_simps base_encode_eq fl add_checksum_if_eq with_checksum_def byte_of_def
        status_encode_def LEVEL_REQUEST_def split: if_splits)
  define entry where "entry = \<lparr>l_raw = 0x5C # b16encode raw @ [c], l_type = ''cbus_command'',
         l_group = None, l_level = None, l_unit = None\<rparr>"
  define e1 where "e1 = append_log (entry\<lparr>l_type := ''status_request''\<rparr>) e"
  have e1: "e_groups e1 = e_groups e" "e_out e1 = e_out e" by (simp_all add: e1_def append_log_def)
  obtain w where w: "send_binary_status 0x73 7 e1 = (Inr (), e1\<lparr>e_out := e_out e1 @ [w @ END_RESPONSE]\<rparr>)"
    "\<forall>strict rest. decode_packet True strict True (w @ END_RESPONSE @ rest) =
       Inr (Some (Packet (PointToPointPacket (status_packet 0x73 7 (e_groups e1)))), length w + 2)"
    using status_line [of "0x73" 7 e1] by auto
  have "raw ! 0 = 0x05" "raw ! Suc 0 = 0xFF" "raw ! 3 = 0x73" "raw ! 4 = 7" "5 \<le> length raw" by (simp_all add: r)
  then have "emu_command (b16encode raw @ [c]) entry e =
      (Inr (), e1\<lparr>e_out := e_out e1 @ [w @ END_RESPONSE, [c, 0x2E] @ END_RESPONSE]\<rparr>)"
    unfolding emu_command_def split_code_snoc [OF c]
    using w(1) by (simp add: emu_multipoint_def finish_log_def act_simps e1_def [symmetric] emu_confirm_def emu_write_def)
  with w(2) e1 show ?thesis unfolding raw(2) command_line [OF c] entry_def [symmetric] by simp
qed

section \<open>Properties\<close>

text \<open>
  C23: The interrogation of a unit of the emulator returns what the unit is configured with, however
  the stream cuts the emulator's output: type name and firmware version padded or cut to eight
  characters, the serial number padded or cut to twelve bytes, the parameter area, and the
  applications, of which only those among the first thirty are seen because a reply holds thirty
  bytes. For an address with no unit it returns an empty record.
\<close>

theorem interrogate_emulator:
  assumes "chops chop" and "i_connected i" and "is_byte a" and "a \<noteq> 0"
    and "case map_of (e_units e) a of None \<Rightarrow> True | Some u \<Rightarrow> unit_ok u"
  shows "\<exists>info st'. interrogate (emu_peer chop) a (i, e) = (Inr info, st') \<and>
    (case map_of (e_units e) a of
       None \<Rightarrow> info = new_UnitInfo a
     | Some u \<Rightarrow> ui_address info = a \<and>
         ui_type_name info = map of_char (take 8 (u_type_name u @ replicate (8 - length (u_type_name u)) (CHR '' ''))) \<and>
         ui_firmware_version info =
           map of_char (take 8 (u_firmware_short u @ replicate (8 - length (u_firmware_short u)) (CHR '' ''))) \<and>
         ui_serial_number info = take 12 (u_serial_number u) @ replicate (12 - length (u_serial_number u)) 0 \<and>
         ui_terminal_levels info = take 4 (u_terminal_levels u) \<and> ui_parameter_area info = u_parameter_area u \<and>
         ui_installed_apps info = filter (\<lambda>b. b \<noteq> 0xFF) (take 30 (u_installed_apps u)) \<and>
         ui_gav_zone_data info = take 12 (u_gav_zone_data u) \<and>
         ui_group_address_table info = take 12 (u_group_address_table u) \<and>
         ui_output_summary info = take 6 (u_output_summary u) \<and> ui_gav_store info = take 6 (u_gav_store u))"
proof -
  have good: "chops chop \<and> is_byte a \<and> a \<noteq> 0 \<and> (case map_of (e_units e) a of None \<Rightarrow> True | Some u \<Rightarrow> unit_ok u) \<and>
      ready (e_units e) (i, e)"
    using assms by (simp add: ready_def)
  show ?thesis
  proof (cases "map_of (e_units e) a")
    case None
    with emu_server.unserved_empty [OF good] show ?thesis by simp
  next
    case (Some u)
    then have u: "unit_ok u" using assms(5) by simp
    have ans: "answer u (0x21, 0x01) = take 8 (ljust 8 32 (ascii (u_type_name u)))"
      "answer u (0x21, 0x02) = take 8 (ljust 8 32 (ascii (u_firmware_short u)))"
      "answer u (0x21, 0x04) = ljust 12 0 (take 12 (u_serial_number u))"
      "answer u (0x1A, 0x10) = take 4 (u_terminal_levels u)" "answer u (0x1A, 0x3E) = [byte_of (u_parameter_area u)]"
      "answer u (0x1A, 0xFA) = take 30 (ljust 44 0xFF (map byte_of (u_installed_apps u)))"
      "answer u (0x1A, 0x20) = take 12 (u_gav_zone_data u)" "answer u (0x1A, 0x2C) = take 12 (u_group_address_table u)"
      "answer u (0x1A, 0x23) = take 6 (u_output_summary u)" "answer u (0x1A, 0x2A) = take 6 (u_gav_store u)"
      by (simp_all add: answer_def requested_def unit_attributes [OF u] asked_def RECALL_COUNTS_def ljust_def)
    have names: "decode_ascii (take 8 (ljust 8 32 (ascii (u_type_name u)))) =
        map of_char (take 8 (u_type_name u @ replicate (8 - length (u_type_name u)) (CHR '' '')))"
      "decode_ascii (take 8 (ljust 8 32 (ascii (u_firmware_short u)))) =
        map of_char (take 8 (u_firmware_short u @ replicate (8 - length (u_firmware_short u)) (CHR '' '')))"
      using u decode_ascii_padded [of "u_type_name u"] decode_ascii_padded [of "u_firmware_short u"]
      unfolding unit_ok_def list_all_append by blast+
    have rest: "map uint (filter (\<lambda>b. b \<noteq> 0xFF) (take 30 (ljust 44 0xFF (map byte_of (u_installed_apps u))))) =
        filter (\<lambda>b. b \<noteq> 0xFF) (take 30 (u_installed_apps u))" "uint (byte_of (u_parameter_area u)) = u_parameter_area u"
      "ljust 12 0 (take 12 (u_serial_number u)) = take 12 (u_serial_number u) @ replicate (12 - length (u_serial_number u)) 0"
      using u apps_answer [of "u_installed_apps u"] unfolding unit_ok_def
      by (blast, simp add: uint_of_byte, simp add: ljust_def min_def)
    from emu_server.interrogate_served [OF good] show ?thesis unfolding Some
      by (auto simp: INTERROGATION_ATTRS_def note_attribute_def apply_attribute_def ans names rest new_UnitInfo_def)
  qed
qed

theorem interrogate_emulator_witness:
  "\<exists>info st'. interrogate (emu_peer (\<lambda>bs. map (\<lambda>b. [b]) bs)) 5
       (new_UnitInterrogator\<lparr>i_connected := True\<rparr>, new_ESP32Emulator 256) = (Inr info, st') \<and>
     ui_type_name info = map of_char ''KEYGL5  '' \<and> ui_installed_apps info = [0x38, 0x19, 0x1B, 0x18, 0x21]"
proof -
  have c: "chops (\<lambda>bs. map (\<lambda>b. [b]) bs)" by (auto simp: chops_def)
  define u where "u = (new_EmulatedUnit 5 ''KEYGL5  '')\<lparr>u_firmware_short := ''5.5.00  '', u_firmware_extended := ''01.05.00'',
        u_serial_number := [0xFF, 0xFF, 0xFF, 0, 0, 0x18, 0xB3, 0xF6, 0x82, 0xA4, 0, 1],
        u_manufacturer_code := [0x18, 0xB3, 0xF6, 0x82], u_installed_apps := [0x38, 0x19, 0x1B, 0x18, 0x21],
        u_terminal_levels := [0x80, 0, 0, 0xFF], u_parameter_area := 0x40\<rparr>"
  have m: "map_of (e_units (new_ESP32Emulator 256)) 5 = Some u"
    by (simp add: new_ESP32Emulator_def make_default_units_def u_def CNI_UNIT_ADDRESS_def)
  have ok: "unit_ok u" by (simp add: unit_ok_def u_def new_EmulatedUnit_def)
  have b: "is_byte 5" "(5 :: int) \<noteq> 0" by simp_all
  have "i_connected (new_UnitInterrogator\<lparr>i_connected := True\<rparr>)" by simp
  from interrogate_emulator [OF c this b, of "new_ESP32Emulator 256"] m ok show ?thesis
    by (fastforce simp: u_def new_EmulatedUnit_def)
qed

text \<open>
  C34: The emulator obeys the first lighting command of a packet and confirms it. When the client's
  packet on the lighting application 56 carries a list of SALs, the emulated group of the first SAL
  takes the level it commands (on, off or the target of a ramp; ending a ramp changes nothing), the
  other SALs of the packet have no effect, and the only output is the confirmation.
\<close>

theorem emulator_obeys_first:
  assumes "pm_wf p" and "p_source p = None" and "p_priority p = CLASS_4" and "pm_application p = Some 0x38"
    and "pm_sals p = Lighting s # sals" and "encode_packet (PointToMultipointPacket p) = Inr wire"
    and "c \<in> set CONFIRMATION_CODES"
  shows "\<exists>e'. emu_process_buffer (0x5C # wire @ [c] @ END_COMMAND) e = (Inr [], e') \<and>
    e_out e' = e_out e @ [[c, 0x2E] @ END_RESPONSE] \<and>
    (\<forall>g. get_group_level g e' =
       (case sal_level s of
          None \<Rightarrow> get_group_level g e
        | Some (ga, level) \<Rightarrow> if g = ga \<and> g < int (length (e_groups e)) then level else get_group_level g e))"
proof -
  have ok: "lighting_ok 0x38 s" using assms(1,4,5) by (simp add: pm_wf_def)
  have "get_group_level g e' = (case sal_level s of
          None \<Rightarrow> get_group_level g e
        | Some (ga, level) \<Rightarrow> if g = ga \<and> g < int (length (e_groups e)) then level else get_group_level g e)"
    if "e_groups e' = e_groups (obey s e)" for e' g
    using ok that by (cases s) (auto simp: obey_def get_group_level_def set_group_level_def is_byte_def nth_list_update nat_eq_iff)
  with lighting_line [OF assms, of e] show ?thesis by blast
qed

theorem emulator_obeys_first_witness:
  "\<exists>wire e'. emu_process_buffer (0x5C # wire @ [0x68] @ END_COMMAND) (new_ESP32Emulator 256) = (Inr [], e') \<and>
     get_group_level 10 e' = 255 \<and> get_group_level 11 e' = 0"
proof -
  define p where "p = \<lparr>p_checksum = True, p_dat = POINT_TO_MULTIPOINT, p_rc = 0, p_dp = False,
    p_priority = CLASS_4, p_confirmation = None, p_source = None, pm_application = Some 0x38,
    pm_sals = [Lighting (LightingOnSAL 10 0x38), Lighting (LightingOnSAL 11 0x38)]\<rparr>"
  have g: "get_application 0x38 = Inr LightingApplication"
    by (simp add: application_ids(1) [symmetric] lighting_applications_def)
  then have wf: "pm_wf p" by (simp add: p_def pm_wf_def lighting_applications_def)
  have f: "p_source p = None" "p_priority p = CLASS_4" "pm_application p = Some 0x38"
    "pm_sals p = Lighting (LightingOnSAL 10 0x38) # [Lighting (LightingOnSAL 11 0x38)]" by (simp_all add: p_def)
  have "\<exists>wire. encode_packet (PointToMultipointPacket p) = Inr wire"
    by (simp add: p_def pm_encode_def base_encode_eq add_checksum_if_eq)
  then obtain wire where w: "encode_packet (PointToMultipointPacket p) = Inr wire" by blast
  have "0x68 \<in> set CONFIRMATION_CODES" by (simp add: CONFIRMATION_CODES_def)
  from emulator_obeys_first [OF wf f w this, of "new_ESP32Emulator 256"] obtain e' where
    "emu_process_buffer (0x5C # wire @ [0x68] @ END_COMMAND) (new_ESP32Emulator 256) = (Inr [], e')"
    "\<And>g. get_group_level g e' = (if g = 10 \<and> g < 256 then 255 else get_group_level g (new_ESP32Emulator 256))"
    by (auto simp: new_ESP32Emulator_def)
  moreover from this(2) have "get_group_level 10 e' = 255"
    "get_group_level 11 e' = get_group_level 11 (new_ESP32Emulator 256)" by simp_all
  moreover have "get_group_level 11 (new_ESP32Emulator 256) = 0" by (simp add: get_group_level_def new_ESP32Emulator_def)
  ultimately show ?thesis by metis
qed

text \<open>
  The emulator's answer to a status request is not about the groups that were asked for. The
  client's level status request of any application and block is answered with a binary report that
  names application 0x73 and starts at group 7, because the emulator reads those fields two bytes
  too early; and the report lists the four groups of each byte in reverse, so that the client takes
  the state at index \<open>4 i + j\<close> for that of group \<open>7 + 4 i + j\<close> when it is that of
  group \<open>7 + 4 i + 3 - j\<close>.
\<close>

lemma emulator_status_reply:
  assumes "pm_wf p" and "p_source p = None" and "p_priority p = CLASS_4" and "pm_application p = Some 0xFF"
    and "pm_sals p = [StatusRequest \<lparr>sr_level_request = True, sr_group_address = ga, sr_child_application = app\<rparr>]"
    and "encode_packet (PointToMultipointPacket p) = Inr wire" and "c \<in> set CONFIRMATION_CODES"
  shows "\<exists>e' w pp states. emu_process_buffer (0x5C # wire @ [c] @ END_COMMAND) e = (Inr [], e') \<and>
    e_out e' = e_out e @ [w @ END_RESPONSE, [c, 0x2E] @ END_RESPONSE] \<and>
    decode_packet True True True (w @ END_RESPONSE) = Inr (Some (Packet (PointToPointPacket pp)), length w + 2) \<and>
    pp_cals pp = [ExtendedCAL True 0x73 7 (BinaryStatusReport states)] \<and> length states = 88 \<and>
    states = concat (map (\<lambda>i. rev (map (\<lambda>j. group_status (e_groups e) (7 + 4 * int i + int j)) [0..<4])) [0..<22])"
proof -
  from status_request_line [OF assms, of e] obtain e' w where
    "emu_process_buffer (0x5C # wire @ [c] @ END_COMMAND) e = (Inr [], e')"
    "e_out e' = e_out e @ [w @ END_RESPONSE, [c, 0x2E] @ END_RESPONSE]"
    "\<forall>strict rest. decode_packet True strict True (w @ END_RESPONSE @ rest) =
       Inr (Some (Packet (PointToPointPacket (status_packet 0x73 7 (e_groups e)))), length w + 2)" by blast
  moreover have "pp_cals (status_packet 0x73 7 (e_groups e)) =
      [ExtendedCAL True 0x73 7 (BinaryStatusReport (reported (e_groups e) 7))]" by (simp add: status_packet_def)
  ultimately show ?thesis
    using length_reported [of "e_groups e" 7] unfolding reported_def by (metis append_Nil2)
qed

end
