(* ===== verification/Transport.thy ===== *)
theory Transport
  imports Prelude
begin

text \<open>
  The connection state machine \<open>CBusTransport\<close> of \<open>cbus/transport/base.py\<close>. The
  coroutines are cut at their \<open>await\<close>s into atomic sections. An agent is one activation of
  \<open>connect\<close> or of \<open>_reconnect_loop\<close>; its phase says which \<open>await\<close> it
  stands at. \<open>_connect_lock\<close> is the agent that holds it, \<open>_reconnect_task\<close> the index
  of an agent. What \<open>_do_connect\<close> does, which is up to the subclass, is an outcome of the
  \<open>await\<close>. The calls of \<open>on_state_change\<close> and \<open>on_connection_lost\<close> are
  recorded; exceptions of these callbacks are caught by the code and have no effect.

  \<open>tstep\<close> interleaves the sections in any order. The lemmas give the invariant of its
  reachable states, that every reconnection task makes at most one attempt, and what becomes of a
  connection that is lost.
\<close>

section \<open>State\<close>

datatype transport_state = DISCONNECTED | CONNECTING | CONNECTED | RECONNECTING | ERROR

record transport_config =
  c_reconnect :: bool
  c_max_reconnect_attempts :: int

datatype phase = Created | Sleeping | AwaitLock | Connecting | Finished

record agent =
  a_reconnector :: bool
  a_phase :: phase
  a_attempts :: nat

record transport =
  t_config :: transport_config
  t_state :: transport_state
  t_asyncio_transport :: bool
  t_reconnect_task :: "nat option"
  t_reconnect_attempts :: nat
  t_lock :: "nat option"
  t_agents :: "agent list"
  t_changes :: "(transport_state \<times> transport_state) list"
  t_lost_calls :: nat

definition new_CBusTransport :: "transport_config \<Rightarrow> transport" where
  "new_CBusTransport cfg =
     \<lparr>t_config = cfg, t_state = DISCONNECTED, t_asyncio_transport = False, t_reconnect_task = None,
      t_reconnect_attempts = 0, t_lock = None, t_agents = [], t_changes = [], t_lost_calls = 0\<rparr>"

definition is_connected :: "transport \<Rightarrow> bool" where
  "is_connected st \<longleftrightarrow> t_state st = CONNECTED"

definition set_state :: "transport_state \<Rightarrow> transport \<Rightarrow> transport" where
  "set_state new_state st =
     (if t_state st = new_state then st
      else st\<lparr>t_state := new_state, t_changes := t_changes st @ [(t_state st, new_state)]\<rparr>)"

section \<open>Agents\<close>

definition set_phase :: "nat \<Rightarrow> phase \<Rightarrow> transport \<Rightarrow> transport" where
  "set_phase i ph st = st\<lparr>t_agents := (t_agents st)[i := (t_agents st ! i)\<lparr>a_phase := ph\<rparr>]\<rparr>"

definition add_agent :: "bool \<Rightarrow> phase \<Rightarrow> transport \<Rightarrow> transport" where
  "add_agent reconnector ph st =
     st\<lparr>t_agents := t_agents st @ [\<lparr>a_reconnector = reconnector, a_phase = ph, a_attempts = 0\<rparr>]\<rparr>"

definition at_phase :: "phase \<Rightarrow> nat \<Rightarrow> transport \<Rightarrow> bool" where
  "at_phase ph i st \<longleftrightarrow> i < length (t_agents st) \<and> a_phase (t_agents st ! i) = ph"

text \<open>\<open>connect\<close> from the lock to the \<open>await\<close> of \<open>_do_connect\<close>.\<close>

definition connect_locked :: "nat \<Rightarrow> transport \<Rightarrow> transport" where
  "connect_locked i st =
     (if t_state st = CONNECTED then set_phase i Finished st
      else set_phase i Connecting ((set_state CONNECTING st)\<lparr>t_lock := Some i\<rparr>))"

text \<open>How the \<open>await\<close> of \<open>_do_connect\<close> ends, and what \<open>connect\<close> does with it.\<close>

datatype outcome = Success | Cancelled | TimedOut | Failed

fun connect_end :: "outcome \<Rightarrow> transport \<Rightarrow> unit result \<times> transport" where
  "connect_end Success st =
     (Inr (), set_state CONNECTED (st\<lparr>t_asyncio_transport := True, t_reconnect_attempts := 0, t_lock := None\<rparr>))"
| "connect_end Cancelled st = (Inl CancelledError, set_state DISCONNECTED (st\<lparr>t_lock := None\<rparr>))"
| "connect_end TimedOut st = (Inl ConnectionTimeoutError, set_state ERROR (st\<lparr>t_lock := None\<rparr>))"
| "connect_end Failed st = (Inl TransportError, set_state ERROR (st\<lparr>t_lock := None\<rparr>))"

text \<open>The loop of \<open>_reconnect_loop\<close>: from its condition to the next \<open>await\<close>.\<close>

definition reconnect_top :: "nat \<Rightarrow> transport \<Rightarrow> transport" where
  "reconnect_top i st =
     (if t_state st \<noteq> RECONNECTING then set_phase i Finished st
      else let n = t_reconnect_attempts st + 1;
               mx = c_max_reconnect_attempts (t_config st);
               st = st\<lparr>t_reconnect_attempts := n\<rparr> in
           if 0 < mx \<and> mx < int n then set_phase i Finished (set_state ERROR st)
           else set_phase i Sleeping st)"

definition reconnect_start :: "nat \<Rightarrow> transport \<Rightarrow> transport" where
  "reconnect_start i st = reconnect_top i (set_state RECONNECTING st)"

definition reconnect_wake :: "nat \<Rightarrow> transport \<Rightarrow> transport" where
  "reconnect_wake i st =
     (if t_state st = DISCONNECTED then set_phase i Finished st
      else set_phase i AwaitLock
             (st\<lparr>t_agents := (t_agents st)[i := (t_agents st ! i)\<lparr>a_attempts := a_attempts (t_agents st ! i) + 1\<rparr>]\<rparr>))"

definition agent_result :: "nat \<Rightarrow> outcome \<Rightarrow> transport \<Rightarrow> transport" where
  "agent_result i out st =
     (case connect_end out st of (r, st) \<Rightarrow>
        if \<not> a_reconnector (t_agents st ! i) then set_phase i Finished st
        else case r of
          Inr _ \<Rightarrow> set_phase i Finished st
        | Inl e \<Rightarrow> if e = CancelledError then set_phase i Finished st else reconnect_top i st)"

text \<open>Cancelling a task throws \<open>CancelledError\<close> at the \<open>await\<close> it stands at.\<close>

definition agent_cancel :: "nat \<Rightarrow> transport \<Rightarrow> transport" where
  "agent_cancel i st =
     (if at_phase Connecting i st then set_phase i Finished (snd (connect_end Cancelled st))
      else set_phase i Finished st)"

section \<open>Operations\<close>

text \<open>\<open>connect\<close> up to the lock.\<close>

definition connect_call :: "transport \<Rightarrow> transport" where
  "connect_call st = add_agent False AwaitLock st"

text \<open>\<open>disconnect\<close> up to the \<open>await\<close> of \<open>_do_disconnect\<close>, and its \<open>finally\<close>.\<close>

definition disconnect_begin :: "transport \<Rightarrow> transport" where
  "disconnect_begin st =
     (if t_state st = DISCONNECTED then st
      else let st = (case t_reconnect_task st of
                       Some i \<Rightarrow> if \<not> at_phase Finished i st
                                 then (agent_cancel i st)\<lparr>t_reconnect_task := None\<rparr> else st
                     | None \<Rightarrow> st) in
           set_state DISCONNECTED st)"

definition disconnect_end :: "transport \<Rightarrow> transport" where
  "disconnect_end st = st\<lparr>t_asyncio_transport := False\<rparr>"

definition handle_connection_lost :: "transport \<Rightarrow> transport" where
  "handle_connection_lost st =
     (let st = st\<lparr>t_asyncio_transport := False, t_lost_calls := t_lost_calls st + 1\<rparr> in
      if c_reconnect (t_config st) \<and> t_state st \<noteq> DISCONNECTED
      then (add_agent True Created st)\<lparr>t_reconnect_task := Some (length (t_agents st))\<rparr>
      else st)"

section \<open>Interleavings\<close>

inductive tstep :: "transport \<Rightarrow> transport \<Rightarrow> bool" where
  call: "tstep st (connect_call st)"
| lock: "at_phase AwaitLock i st \<Longrightarrow> t_lock st = None \<Longrightarrow> tstep st (connect_locked i st)"
| result: "at_phase Connecting i st \<Longrightarrow> tstep st (agent_result i out st)"
| start: "at_phase Created i st \<Longrightarrow> tstep st (reconnect_start i st)"
| wake: "at_phase Sleeping i st \<Longrightarrow> tstep st (reconnect_wake i st)"
| cancel: "at_phase ph i st \<Longrightarrow> ph \<noteq> Finished \<Longrightarrow> tstep st (agent_cancel i st)"
| dis: "tstep st (disconnect_begin st)"
| dis_end: "tstep st (disconnect_end st)"
| lost: "tstep st (handle_connection_lost st)"

definition t_reachable :: "transport_config \<Rightarrow> transport \<Rightarrow> bool" where
  "t_reachable cfg st \<longleftrightarrow> tstep\<^sup>*\<^sup>* (new_CBusTransport cfg) st"

inductive_cases tstepE: "tstep st st'"

section \<open>Fields\<close>

lemma set_state_fields [simp]:
  "t_config (set_state s st) = t_config st" "t_state (set_state s st) = s"
  "t_asyncio_transport (set_state s st) = t_asyncio_transport st" "t_reconnect_task (set_state s st) = t_reconnect_task st"
  "t_reconnect_attempts (set_state s st) = t_reconnect_attempts st" "t_lock (set_state s st) = t_lock st"
  "t_agents (set_state s st) = t_agents st"
  by (simp_all add: set_state_def)

lemma set_phase_fields [simp]:
  "t_config (set_phase i ph st) = t_config st" "t_state (set_phase i ph st) = t_state st"
  "t_asyncio_transport (set_phase i ph st) = t_asyncio_transport st" "t_reconnect_task (set_phase i ph st) = t_reconnect_task st"
  "t_reconnect_attempts (set_phase i ph st) = t_reconnect_attempts st" "t_lock (set_phase i ph st) = t_lock st"
  "t_changes (set_phase i ph st) = t_changes st"
  by (simp_all add: set_phase_def)

lemma at_phase_set_phase [simp]:
  "at_phase ph j (set_phase i q st) \<longleftrightarrow> (if i = j then i < length (t_agents st) \<and> q = ph else at_phase ph j st)"
  by (auto simp: at_phase_def set_phase_def nth_list_update)

lemma at_phase_fields [simp]:
  "at_phase ph j (st\<lparr>t_lock := l\<rparr>) = at_phase ph j st" "at_phase ph j (st\<lparr>t_reconnect_task := r\<rparr>) = at_phase ph j st"
  "at_phase ph j (st\<lparr>t_asyncio_transport := b\<rparr>) = at_phase ph j st"
  "at_phase ph j (st\<lparr>t_reconnect_attempts := n\<rparr>) = at_phase ph j st"
  "at_phase ph j (st\<lparr>t_lost_calls := n\<rparr>) = at_phase ph j st"
  by (simp_all add: at_phase_def)

lemma at_phase_set_state [simp]: "at_phase ph i (set_state s st) = at_phase ph i st"
  by (simp add: at_phase_def)

section \<open>Invariants\<close>

text \<open>The reported state changes are a path.\<close>

fun changes_path :: "transport_state \<Rightarrow> (transport_state \<times> transport_state) list \<Rightarrow> transport_state \<Rightarrow> bool" where
  "changes_path a [] b \<longleftrightarrow> a = b"
| "changes_path a ((x, y) # r) b \<longleftrightarrow> x = a \<and> x \<noteq> y \<and> changes_path y r b"

definition path_inv :: "transport \<Rightarrow> bool" where
  "path_inv st \<longleftrightarrow> changes_path DISCONNECTED (t_changes st) (t_state st)"

text \<open>Only the holder of the lock is connecting.\<close>

definition lock_inv :: "transport \<Rightarrow> bool" where
  "lock_inv st \<longleftrightarrow> (\<forall>i. t_lock st = Some i \<longleftrightarrow> at_phase Connecting i st) \<and> (t_state st = CONNECTING \<longrightarrow> t_lock st \<noteq> None)"

text \<open>An activation calls \<open>connect\<close> at most once.\<close>

definition agent_ok :: "agent \<Rightarrow> bool" where
  "agent_ok a \<longleftrightarrow> a_attempts a \<le> 1 \<and> (a_phase a \<in> {Created, Sleeping} \<longrightarrow> a_attempts a = 0)"

definition agents_inv :: "transport \<Rightarrow> bool" where
  "agents_inv st \<longleftrightarrow> list_all agent_ok (t_agents st)"

lemma changes_path_snoc: "changes_path a (r @ [(x, y)]) b \<longleftrightarrow> changes_path a r x \<and> x \<noteq> y \<and> y = b"
  by (induction a r b rule: changes_path.induct) auto

lemma path_inv_set_state: "path_inv st \<Longrightarrow> path_inv (set_state s st)"
  by (auto simp: path_inv_def set_state_def changes_path_snoc)

lemma path_inv_fields [simp]:
  "path_inv (set_phase i ph st) = path_inv st" "path_inv (st\<lparr>t_lock := l\<rparr>) = path_inv st"
  "path_inv (st\<lparr>t_agents := as\<rparr>) = path_inv st" "path_inv (st\<lparr>t_reconnect_task := r\<rparr>) = path_inv st"
  "path_inv (st\<lparr>t_asyncio_transport := b\<rparr>) = path_inv st" "path_inv (st\<lparr>t_reconnect_attempts := n\<rparr>) = path_inv st"
  "path_inv (st\<lparr>t_lost_calls := n\<rparr>) = path_inv st"
  by (simp_all add: path_inv_def)

lemma path_connect_end: "path_inv st \<Longrightarrow> path_inv (snd (connect_end out st))"
  by (cases out) (auto intro!: path_inv_set_state)

lemma path_reconnect_top: "path_inv st \<Longrightarrow> path_inv (reconnect_top i st)"
  by (auto simp: reconnect_top_def Let_def intro!: path_inv_set_state)

lemma path_tstep:
  assumes "tstep st st'" "path_inv st"
  shows "path_inv st'"
  using assms
proof (cases rule: tstep.cases)
  case (result i out)
  with assms(2) path_connect_end [of st out] show ?thesis
    by (auto simp: agent_result_def split: prod.splits sum.splits intro!: path_inv_set_state path_reconnect_top)
next
  case (cancel ph i)
  with assms(2) path_connect_end [of st Cancelled] show ?thesis
    by (auto simp: agent_cancel_def intro!: path_inv_set_state simp del: connect_end.simps)
next
  case dis
  have "path_inv (agent_cancel i st)" for i
    using assms(2) path_connect_end [of st Cancelled]
    by (auto simp: agent_cancel_def intro!: path_inv_set_state simp del: connect_end.simps)
  with dis assms(2) show ?thesis
    by (auto simp: disconnect_begin_def Let_def intro!: path_inv_set_state split: option.splits)
qed (auto simp: connect_call_def add_agent_def connect_locked_def reconnect_start_def reconnect_wake_def
    disconnect_end_def handle_connection_lost_def Let_def intro!: path_inv_set_state path_reconnect_top)

lemma lock_connect_end:
  assumes "lock_inv st" "at_phase Connecting i st" "ph \<noteq> Connecting"
  shows "lock_inv (set_phase i ph (snd (connect_end out st)))"
proof -
  have "t_lock st = Some i" using assms by (simp add: lock_inv_def)
  then have "j = i" if "at_phase Connecting j st" for j using assms(1) that by (auto simp: lock_inv_def)
  moreover have "at_phase ph' j (snd (connect_end out st)) = at_phase ph' j st" for ph' j
    by (cases out) (simp_all add: at_phase_def)
  moreover have "t_lock (snd (connect_end out st)) = None" "t_state (snd (connect_end out st)) \<noteq> CONNECTING"
    by (cases out; simp)+
  ultimately show ?thesis using assms(3) by (auto simp: lock_inv_def)
qed

lemma lock_set_state: "lock_inv st \<Longrightarrow> s \<noteq> CONNECTING \<Longrightarrow> lock_inv (set_state s st)"
  by (simp add: lock_inv_def)

lemma lock_other_phase:
  assumes "lock_inv st" "\<not> at_phase Connecting i st" "ph \<noteq> Connecting"
  shows "lock_inv (set_phase i ph st)"
  using assms by (auto simp: lock_inv_def)

lemma lock_inv_fields [simp]:
  "lock_inv (st\<lparr>t_reconnect_task := r\<rparr>) = lock_inv st" "lock_inv (st\<lparr>t_asyncio_transport := b\<rparr>) = lock_inv st"
  "lock_inv (st\<lparr>t_reconnect_attempts := n\<rparr>) = lock_inv st" "lock_inv (st\<lparr>t_lost_calls := n\<rparr>) = lock_inv st"
  by (simp_all add: lock_inv_def at_phase_def)

lemma at_phase_exclusive: "at_phase ph i st \<Longrightarrow> ph \<noteq> ph' \<Longrightarrow> \<not> at_phase ph' i st"
  by (simp add: at_phase_def)

lemma at_phase_attempt [simp]:
  "at_phase ph j (st\<lparr>t_agents := (t_agents st)[i := (t_agents st ! i)\<lparr>a_attempts := n\<rparr>]\<rparr>) = at_phase ph j st"
  by (cases "i = j") (auto simp: at_phase_def)

lemma lock_attempt [simp]:
  "lock_inv (st\<lparr>t_agents := (t_agents st)[i := (t_agents st ! i)\<lparr>a_attempts := n\<rparr>]\<rparr>) = lock_inv st"
  by (simp add: lock_inv_def)

lemma lock_cancel:
  assumes "lock_inv st"
  shows "lock_inv (agent_cancel i st)"
  using assms lock_connect_end [of st i Finished Cancelled] lock_other_phase [of st i Finished]
  by (simp add: agent_cancel_def del: connect_end.simps)

lemma lock_add_agent: "lock_inv st \<Longrightarrow> ph \<noteq> Connecting \<Longrightarrow> lock_inv (add_agent r ph st)"
  unfolding lock_inv_def at_phase_def add_agent_def
  by (auto simp: nth_append less_Suc_eq)

text \<open>A failed attempt of a reconnection task ends it: the state is not \<open>RECONNECTING\<close> any more.\<close>

lemma agent_result_ends: "agent_result i out st = set_phase i Finished (snd (connect_end out st))"
  by (cases out) (simp_all add: agent_result_def reconnect_top_def)

lemma lock_tstep:
  assumes "tstep st st'" "lock_inv st"
  shows "lock_inv st'"
  using assms
proof (cases rule: tstep.cases)
  case call
  with assms(2) show ?thesis by (simp add: connect_call_def lock_add_agent)
next
  case (lock i)
  then show ?thesis using assms(2) 
    by (auto simp: connect_locked_def lock_inv_def at_phase_def [of AwaitLock] at_phase_exclusive)
next
  case (result i out)
  with assms(2) show ?thesis by (simp add: agent_result_ends lock_connect_end)
next
  case (start i)
  then show ?thesis using assms(2)
    by (auto simp: reconnect_start_def reconnect_top_def Let_def at_phase_exclusive
        intro!: lock_other_phase lock_set_state)
next
  case (wake i)
  then have "\<not> at_phase Connecting i st" by (simp add: at_phase_exclusive)
  with wake assms(2) show ?thesis by (simp add: reconnect_wake_def lock_attempt at_phase_exclusive lock_other_phase)
next
  case (cancel ph i)
  with assms(2) show ?thesis by (simp add: lock_cancel)
next
  case dis
  then show ?thesis using assms(2)
    by (auto simp: disconnect_begin_def Let_def intro!: lock_set_state lock_cancel split: option.split)
qed (auto simp: disconnect_end_def handle_connection_lost_def Let_def intro!: lock_add_agent)

lemma agents_set_phase:
  assumes "agents_inv st" "\<not> (ph = Created \<or> ph = Sleeping) \<or> at_phase Created i st"
  shows "agents_inv (set_phase i ph st)"
proof (cases "i < length (t_agents st)")
  case True
  then have "agent_ok (t_agents st ! i)" using assms(1) by (simp add: agents_inv_def list_all_length)
  then have "agent_ok ((t_agents st ! i)\<lparr>a_phase := ph\<rparr>)"
    using assms(2) by (auto simp: agent_ok_def at_phase_def)
  with assms(1) show ?thesis
    by (auto simp: agents_inv_def set_phase_def list_all_iff dest!: set_update_subset_insert [THEN subsetD])
qed (use assms in \<open>simp add: agents_inv_def set_phase_def not_less list_update_beyond\<close>)

lemma agents_inv_fields [simp]:
  "agents_inv (set_state s st) = agents_inv st" "agents_inv (st\<lparr>t_lock := l\<rparr>) = agents_inv st"
  "agents_inv (st\<lparr>t_reconnect_task := r\<rparr>) = agents_inv st"
  "agents_inv (st\<lparr>t_asyncio_transport := b\<rparr>) = agents_inv st"
  "agents_inv (st\<lparr>t_reconnect_attempts := n\<rparr>) = agents_inv st" "agents_inv (st\<lparr>t_lost_calls := n\<rparr>) = agents_inv st"
  by (simp_all add: agents_inv_def)

lemma agents_connect_end [simp]: "agents_inv (snd (connect_end out st)) = agents_inv st"
  by (cases out) simp_all

lemma agents_wake:
  assumes "agents_inv st" "at_phase Sleeping i st"
  shows "agents_inv (reconnect_wake i st)"
proof (cases "t_state st = DISCONNECTED")
  case False
  then have "reconnect_wake i st = st\<lparr>t_agents := (t_agents st)[i := (t_agents st ! i)\<lparr>
      a_attempts := a_attempts (t_agents st ! i) + 1, a_phase := AwaitLock\<rparr>]\<rparr>"
    using assms(2) by (simp add: reconnect_wake_def set_phase_def at_phase_def)
  moreover have "agent_ok (t_agents st ! i)" using assms by (simp add: agents_inv_def list_all_length at_phase_def)
  ultimately show ?thesis using assms
    by (auto simp: agents_inv_def list_all_length nth_list_update agent_ok_def at_phase_def)
qed (use assms in \<open>simp add: reconnect_wake_def agents_set_phase\<close>)

lemma agents_cancel: "agents_inv st \<Longrightarrow> agents_inv (agent_cancel i st)"
  by (simp add: agent_cancel_def agents_set_phase del: connect_end.simps)

lemma agents_tstep:
  assumes "tstep st st'" "agents_inv st"
  shows "agents_inv st'"
  using assms
proof (cases rule: tstep.cases)
  case (start i)
  then show ?thesis using assms(2)
    by (auto simp: reconnect_start_def reconnect_top_def Let_def intro!: agents_set_phase)
next
  case dis
  then show ?thesis using assms(2)
    by (auto simp: disconnect_begin_def Let_def agents_cancel split: option.split)
qed (auto simp: agents_wake agents_cancel agent_result_ends connect_locked_def disconnect_end_def
    handle_connection_lost_def connect_call_def Let_def agents_set_phase,
    auto simp: add_agent_def agents_inv_def agent_ok_def)

lemma reachable_inv:
  assumes "t_reachable cfg st"
  shows "path_inv st \<and> lock_inv st \<and> agents_inv st"
proof -
  have "tstep\<^sup>*\<^sup>* (new_CBusTransport cfg) st" using assms by (simp add: t_reachable_def)
  then show ?thesis
  proof (induction rule: rtranclp_induct)
    case base
    then show ?case
      by (simp add: new_CBusTransport_def path_inv_def lock_inv_def agents_inv_def at_phase_def)
  next
    case (step st st')
    then show ?case using path_tstep lock_tstep agents_tstep by blast
  qed
qed

section \<open>Properties\<close>

text \<open>
  C29: In every interleaving of connects, disconnects, lost connections, reconnection tasks and
  cancellations, \<open>on_state_change\<close> reports a path of real changes from
  \<open>DISCONNECTED\<close> to the current state, at most one activation is connecting, one is
  whenever the state is \<open>CONNECTING\<close>, and no activation of \<open>_reconnect_loop\<close> calls
  \<open>connect\<close> more than once.
\<close>

theorem transport_invariant:
  assumes "t_reachable cfg st"
  shows "changes_path DISCONNECTED (t_changes st) (t_state st) \<and>
    (at_phase Connecting i st \<longrightarrow> at_phase Connecting j st \<longrightarrow> i = j) \<and>
    (t_state st = CONNECTING \<longrightarrow> (\<exists>k. at_phase Connecting k st)) \<and>
    (i < length (t_agents st) \<longrightarrow> a_attempts (t_agents st ! i) \<le> 1)"
proof -
  have inv: "path_inv st" "lock_inv st" "agents_inv st" using reachable_inv [OF assms] by auto
  have "at_phase Connecting i st \<Longrightarrow> at_phase Connecting j st \<Longrightarrow> i = j"
    using inv(2) unfolding lock_inv_def by (metis option.inject)
  moreover have "t_state st = CONNECTING \<Longrightarrow> \<exists>k. at_phase Connecting k st"
    using inv(2) by (auto simp: lock_inv_def)
  ultimately show ?thesis
    using inv(1,3) by (auto simp: path_inv_def agents_inv_def agent_ok_def list_all_length)
qed

theorem transport_invariant_witness:
  "changes_path DISCONNECTED [(DISCONNECTED, CONNECTING)] CONNECTING \<and>
   (\<exists>k. at_phase Connecting k (connect_locked 0 (connect_call (new_CBusTransport \<lparr>c_reconnect = True, c_max_reconnect_attempts = 0\<rparr>))))"
proof -
  define st0 where "st0 = new_CBusTransport \<lparr>c_reconnect = True, c_max_reconnect_attempts = 0\<rparr>"
  have "tstep st0 (connect_call st0)" by (rule tstep.call)
  moreover have "tstep (connect_call st0) (connect_locked 0 (connect_call st0))"
    by (rule tstep.lock) (simp_all add: st0_def new_CBusTransport_def connect_call_def add_agent_def at_phase_def)
  ultimately have "t_reachable \<lparr>c_reconnect = True, c_max_reconnect_attempts = 0\<rparr> (connect_locked 0 (connect_call st0))"
    unfolding t_reachable_def st0_def [symmetric] by (meson r_into_rtranclp rtranclp.rtrancl_into_rtrancl)
  moreover have "t_changes (connect_locked 0 (connect_call st0)) = [(DISCONNECTED, CONNECTING)]"
    "t_state (connect_locked 0 (connect_call st0)) = CONNECTING"
    by (simp_all add: st0_def new_CBusTransport_def connect_call_def add_agent_def connect_locked_def set_state_def)
  ultimately show ?thesis
    using transport_invariant [of _ "connect_locked 0 (connect_call st0)" 0 0] unfolding st0_def by metis
qed

text \<open>
  C30: A lost connection is retried once. With reconnection enabled and the limit of attempts not
  reached, or no limit at all, the task that \<open>handle_connection_lost\<close> creates sleeps, wakes
  and connects; when that attempt fails or times out, the task ends in the state \<open>ERROR\<close>
  without another attempt, when it succeeds it ends connected.
\<close>

theorem reconnect_gives_up:
  assumes "c_reconnect (t_config st)" and "t_state st \<noteq> DISCONNECTED" and "t_lock st = None"
    and "c_max_reconnect_attempts (t_config st) \<le> 0 \<or>
      int (t_reconnect_attempts st) < c_max_reconnect_attempts (t_config st)"
  shows "let i = length (t_agents st); lost = handle_connection_lost st; sleeping = reconnect_start i lost;
      woken = reconnect_wake i sleeping; connecting = connect_locked i woken; ended = agent_result i out connecting in
    at_phase Created i lost \<and> at_phase Sleeping i sleeping \<and> at_phase AwaitLock i woken \<and>
    at_phase Connecting i connecting \<and> at_phase Finished i ended \<and>
    t_state ended = (case out of Success \<Rightarrow> CONNECTED | Cancelled \<Rightarrow> DISCONNECTED | _ \<Rightarrow> ERROR) \<and>
    a_attempts (t_agents ended ! i) = 1"
proof -
  define i where "i = length (t_agents st)"
  define lost where "lost = handle_connection_lost st"
  have l: "t_agents lost = t_agents st @ [\<lparr>a_reconnector = True, a_phase = Created, a_attempts = 0\<rparr>]"
    "t_state lost = t_state st" "t_config lost = t_config st" "t_reconnect_attempts lost = t_reconnect_attempts st"
    "t_lock lost = None"
    using assms by (simp_all add: lost_def handle_connection_lost_def add_agent_def Let_def)
  define sleeping where "sleeping = reconnect_start i lost"
  have s: "sleeping = set_phase i Sleeping ((set_state RECONNECTING lost)\<lparr>t_reconnect_attempts := t_reconnect_attempts st + 1\<rparr>)"
    using assms(4) l by (auto simp: sleeping_def reconnect_start_def reconnect_top_def Let_def)
  have sa: "t_agents sleeping = t_agents st @ [\<lparr>a_reconnector = True, a_phase = Sleeping, a_attempts = 0\<rparr>]"
    "t_state sleeping = RECONNECTING"
    using l(1) by (simp_all add: s set_phase_def i_def)
  define woken where "woken = reconnect_wake i sleeping"
  have wa: "t_agents woken = t_agents st @ [\<lparr>a_reconnector = True, a_phase = AwaitLock, a_attempts = 1\<rparr>]"
    "t_state woken = RECONNECTING"
    using sa by (simp_all add: woken_def reconnect_wake_def set_phase_def i_def)
  define connecting where "connecting = connect_locked i woken"
  have c: "t_agents connecting = t_agents st @ [\<lparr>a_reconnector = True, a_phase = Connecting, a_attempts = 1\<rparr>]"
    using wa by (simp add: connecting_def connect_locked_def set_phase_def i_def)
  have e: "t_agents (agent_result i out connecting) = t_agents st @ [\<lparr>a_reconnector = True, a_phase = Finished, a_attempts = 1\<rparr>]"
    "t_state (agent_result i out connecting) = (case out of Success \<Rightarrow> CONNECTED | Cancelled \<Rightarrow> DISCONNECTED | _ \<Rightarrow> ERROR)"
    unfolding agent_result_ends using c by (cases out; simp add: set_phase_def i_def)+
  show ?thesis
    unfolding Let_def i_def [symmetric] lost_def [symmetric] sleeping_def [symmetric] woken_def [symmetric]
      connecting_def [symmetric]
    using l(1) sa(1) wa(1) c e by (simp add: at_phase_def i_def)
qed

theorem reconnect_gives_up_witness:
  "\<exists>st. t_state (agent_result 0 Failed (connect_locked 0 (reconnect_wake 0 (reconnect_start 0
       (handle_connection_lost st))))) = ERROR \<and> c_max_reconnect_attempts (t_config st) = 0 \<and> is_connected st"
proof -
  define st where "st = (new_CBusTransport \<lparr>c_reconnect = True, c_max_reconnect_attempts = 0\<rparr>)\<lparr>t_state := CONNECTED\<rparr>"
  have "c_reconnect (t_config st)" "t_state st \<noteq> DISCONNECTED" "t_lock st = None"
    "c_max_reconnect_attempts (t_config st) \<le> 0 \<or>
      int (t_reconnect_attempts st) < c_max_reconnect_attempts (t_config st)" "t_agents st = []"
    by (simp_all add: st_def new_CBusTransport_def)
  from reconnect_gives_up [OF this(1-4), of Failed] this(5)
  have "t_state (agent_result 0 Failed (connect_locked 0 (reconnect_wake 0 (reconnect_start 0
       (handle_connection_lost st))))) = ERROR" by (simp add: Let_def)
  then show ?thesis by (intro exI [of _ st]) (simp add: st_def new_CBusTransport_def is_connected_def)
qed

text \<open>
  Two ways to a wrong state. With reconnection disabled, a lost connection leaves the transport
  connected in name, without an underlying connection, and a later \<open>connect\<close> returns at
  once without making one. And a \<open>disconnect\<close> that comes while a \<open>connect\<close> is
  waiting for its connection does not stop it: when the connection comes up, the transport is
  connected although it was told to disconnect.
\<close>

lemma stale_connected:
  "(\<not> c_reconnect (t_config st) \<and> is_connected st \<longrightarrow>
     (let lost = handle_connection_lost st; called = connect_locked (length (t_agents st)) (connect_call lost) in
      is_connected lost \<and> \<not> t_asyncio_transport lost \<and>
      at_phase Finished (length (t_agents st)) called \<and> is_connected called \<and> \<not> t_asyncio_transport called)) \<and>
   (at_phase Connecting i st \<and> t_reconnect_task st \<noteq> Some i \<longrightarrow>
     (let told = disconnect_end (disconnect_begin st) in
      t_state told = DISCONNECTED \<and> at_phase Connecting i told \<and> is_connected (agent_result i Success told)))"
proof -
  have 1: "at_phase Connecting i (agent_cancel j st)" if "at_phase Connecting i st" "j \<noteq> i" for j
  proof -
    have "at_phase Connecting i (snd (connect_end Cancelled st))" using that(1) by simp
    then show ?thesis using that by (simp add: agent_cancel_def del: connect_end.simps)
  qed
  have 2: "at_phase Connecting i (disconnect_begin st)" if "at_phase Connecting i st" "t_reconnect_task st \<noteq> Some i"
    using that 1 by (auto simp: disconnect_begin_def Let_def split: option.split)
  have 3: "t_state (disconnect_begin st) = DISCONNECTED" by (simp add: disconnect_begin_def Let_def)
  show ?thesis
    using 2 3
    by (auto simp: Let_def handle_connection_lost_def connect_call_def add_agent_def connect_locked_def is_connected_def
        disconnect_end_def agent_result_ends at_phase_def set_phase_def)
qed

end
