(* ===== verification/Simulator_State.thy ===== *)
theory Simulator_State
  imports Level_Store Py_Text
begin

text \<open>
  The simulated installation of \<open>cbus-simulator/simulator/state.py\<close>, with the data classes of
  \<open>models.py\<close> and the lighting application of \<open>applications/lighting.py\<close>: networks of
  applications of groups with levels, the flat table \<open>light_states\<close>, and the command history.
  Python dicts are association lists; the clock is an argument. A history entry is a command, its
  time and its source; the printed form of the time beside it is left out.

  A configuration is a record of the sections the code reads, each optional; the values have the
  types the data classes declare. Keys that name no attribute are skipped, as \<open>hasattr\<close> does.

  The lemmas show what reading a level after writing one gives, which other levels a write changes
  in each of the two tables, that levels stay in range and the history bounded, and what a
  configuration without networks does.
\<close>

section \<open>Models\<close>

record sim_group =
  gr_group_id :: int
  gr_name :: string
  gr_level :: int
  gr_last_updated :: int

record sim_application =
  ap_application_id :: int
  ap_name :: string
  ap_groups :: "(int \<times> sim_group) list"

record sim_network =
  ne_network_id :: int
  ne_name :: string
  ne_applications :: "(int \<times> sim_application) list"

record device_info =
  d_serial_number :: string
  d_type :: string
  d_firmware_version :: string
  d_pci_version :: string

record simulation_settings =
  ss_smart_mode :: bool
  ss_default_source_address :: int
  ss_delay_min_ms :: int
  ss_delay_max_ms :: int
  ss_packet_loss_probability :: rat
  ss_clock_drift :: int

record sim_unit =
  su_unit_address :: int
  su_type :: string
  su_group_address :: "int option"
  su_application_address :: "int option"
  su_zone_address :: "int option"

record simulator =
  m_device_info :: device_info
  m_settings :: simulation_settings
  m_networks :: "(int \<times> sim_network) list"
  m_light_states :: "(int \<times> int) list"
  m_smart_mode :: bool
  m_online :: bool
  m_last_reset :: int
  m_error_count :: nat
  m_units :: "(int \<times> sim_unit) list"
  m_history :: "(string \<times> int \<times> string option) list"

definition new_DeviceInfo :: device_info where
  "new_DeviceInfo = \<lparr>d_serial_number = ''00000000'', d_type = ''5500CN'', d_firmware_version = ''1.0.0'',
     d_pci_version = ''v3.7''\<rparr>"

definition new_SimulationSettings :: simulation_settings where
  "new_SimulationSettings = \<lparr>ss_smart_mode = True, ss_default_source_address = 5, ss_delay_min_ms = 10,
     ss_delay_max_ms = 50, ss_packet_loss_probability = 0, ss_clock_drift = 0\<rparr>"

definition max_command_history :: nat where "max_command_history = 100"

definition new_SimulatorState :: "int \<Rightarrow> simulator" where
  "new_SimulatorState now =
     \<lparr>m_device_info = new_DeviceInfo, m_settings = new_SimulationSettings,
      m_networks = [(254, \<lparr>ne_network_id = 254, ne_name = ''Default Network'', ne_applications = [(56, \<lparr>ap_application_id = 56, ap_name = ''Lighting'',
        ap_groups = map (\<lambda>gid. (gid, \<lparr>gr_group_id = gid, gr_name = ''Group '' @ py_str gid, gr_level = 0, gr_last_updated = now\<rparr>))
          [1, 2, 3, 4]\<rparr>)]\<rparr>)],
      m_light_states = map (\<lambda>gid. (gid, 0)) [1, 2, 3, 4],
      m_smart_mode = ss_smart_mode new_SimulationSettings, m_online = True, m_last_reset = now, m_error_count = 0,
      m_units = [], m_history = []\<rparr>"

section \<open>Configuration\<close>

datatype setting = SBool bool | SInt int | SRat rat

record group_config =
  gc_group_id :: "int option"
  gc_name :: "string option"
  gc_initial_level :: "int option"

record application_config =
  ac_application_id :: "int option"
  ac_name :: "string option"
  ac_groups :: "group_config list"

record network_config =
  nc_network_id :: "int option"
  nc_name :: "string option"
  nc_applications :: "application_config list"

record unit_config =
  uc_unit_address :: "int option"
  uc_type :: "string option"
  uc_group_address :: "int option"
  uc_application_address :: "int option"
  uc_zone_address :: "int option"

record sim_config =
  cf_device :: "(string \<times> string) list option"
  cf_networks :: "network_config list option"
  cf_units :: "unit_config list option"
  cf_simulation :: "(string \<times> setting) list option"

definition or_default :: "'a option \<Rightarrow> 'a \<Rightarrow> 'a" where
  "or_default x d = (case x of Some v \<Rightarrow> v | None \<Rightarrow> d)"

definition set_device :: "string \<times> string \<Rightarrow> device_info \<Rightarrow> device_info" where
  "set_device = (\<lambda>(key, v) d.
     if key = ''serial_number'' then d\<lparr>d_serial_number := v\<rparr>
     else if key = ''type'' then d\<lparr>d_type := v\<rparr>
     else if key = ''firmware_version'' then d\<lparr>d_firmware_version := v\<rparr>
     else if key = ''pci_version'' then d\<lparr>d_pci_version := v\<rparr>
     else d)"

text \<open>A value of another type than the declared one is not in the model and leaves the setting.\<close>

definition set_setting :: "string \<times> setting \<Rightarrow> simulation_settings \<Rightarrow> simulation_settings" where
  "set_setting = (\<lambda>(key, v) s.
     case v of
       SBool b \<Rightarrow> if key = ''smart_mode'' then s\<lparr>ss_smart_mode := b\<rparr> else s
     | SInt i \<Rightarrow>
         if key = ''default_source_address'' then s\<lparr>ss_default_source_address := i\<rparr>
         else if key = ''delay_min_ms'' then s\<lparr>ss_delay_min_ms := i\<rparr>
         else if key = ''delay_max_ms'' then s\<lparr>ss_delay_max_ms := i\<rparr>
         else if key = ''clock_drift_seconds_per_day'' then s\<lparr>ss_clock_drift := i\<rparr>
         else s
     | SRat r \<Rightarrow> if key = ''packet_loss_probability'' then s\<lparr>ss_packet_loss_probability := r\<rparr> else s)"

definition add_group :: "int \<Rightarrow> group_config \<Rightarrow> sim_application \<times> (int \<times> int) list \<Rightarrow> sim_application \<times> (int \<times> int) list" where
  "add_group now gc = (\<lambda>(app, lights).
     case gc_group_id gc of
       None \<Rightarrow> (app, lights)
     | Some gid \<Rightarrow>
         let level = or_default (gc_initial_level gc) 0 in
         (app\<lparr>ap_groups := AList.update gid
            \<lparr>gr_group_id = gid, gr_name = or_default (gc_name gc) (''Group '' @ py_str gid), gr_level = level, gr_last_updated = now\<rparr>
            (ap_groups app)\<rparr>,
          AList.update gid level lights))"

definition add_application ::
  "int \<Rightarrow> application_config \<Rightarrow> sim_network \<times> (int \<times> int) list \<Rightarrow> sim_network \<times> (int \<times> int) list" where
  "add_application now ac = (\<lambda>(net, lights).
     case ac_application_id ac of
       None \<Rightarrow> (net, lights)
     | Some aid \<Rightarrow>
         let (app, lights) = fold (add_group now) (ac_groups ac)
               (\<lparr>ap_application_id = aid, ap_name = or_default (ac_name ac) (''Application '' @ py_str aid), ap_groups = []\<rparr>, lights) in
         (net\<lparr>ne_applications := AList.update aid app (ne_applications net)\<rparr>, lights))"

definition add_network :: "int \<Rightarrow> network_config \<Rightarrow> simulator \<Rightarrow> simulator" where
  "add_network now nc st =
     (let nid = or_default (nc_network_id nc) 254;
          (net, lights) = fold (add_application now) (nc_applications nc)
            (\<lparr>ne_network_id = nid, ne_name = or_default (nc_name nc) (''Network '' @ py_str nid), ne_applications = []\<rparr>, m_light_states st) in
      st\<lparr>m_networks := AList.update nid net (m_networks st), m_light_states := lights\<rparr>)"

definition add_unit :: "unit_config \<Rightarrow> simulator \<Rightarrow> simulator" where
  "add_unit uc st =
     (case uc_unit_address uc of
        None \<Rightarrow> st
      | Some a \<Rightarrow> st\<lparr>m_units := AList.update a
          \<lparr>su_unit_address = a, su_type = or_default (uc_type uc) ''Unknown'', su_group_address = uc_group_address uc,
           su_application_address = uc_application_address uc, su_zone_address = uc_zone_address uc\<rparr> (m_units st)\<rparr>)"

definition apply_configuration :: "int \<Rightarrow> sim_config \<Rightarrow> simulator \<Rightarrow> simulator" where
  "apply_configuration now cfg st =
     (let st = (case cf_device cfg of
                  None \<Rightarrow> st | Some kvs \<Rightarrow> st\<lparr>m_device_info := fold set_device kvs (m_device_info st)\<rparr>);
          st = st\<lparr>m_networks := [], m_light_states := []\<rparr>;
          st = (case cf_networks cfg of
                  Some ncs \<Rightarrow> fold (add_network now) ncs st
                | None \<Rightarrow> new_SimulatorState now);
          st = (case cf_units cfg of None \<Rightarrow> st | Some ucs \<Rightarrow> fold add_unit ucs st) in
      case cf_simulation cfg of
        None \<Rightarrow> st
      | Some kvs \<Rightarrow>
          let settings = fold set_setting kvs (m_settings st) in
          st\<lparr>m_settings := settings, m_smart_mode := ss_smart_mode settings\<rparr>)"

section \<open>Levels\<close>

definition find_group :: "int \<Rightarrow> int \<Rightarrow> int \<Rightarrow> simulator \<Rightarrow> sim_group option" where
  "find_group network_id application_id group_id st =
     (case map_of (m_networks st) network_id of
        None \<Rightarrow> None
      | Some net \<Rightarrow>
          (case map_of (ne_applications net) application_id of
             None \<Rightarrow> None
           | Some app \<Rightarrow> map_of (ap_groups app) group_id))"

definition sim_get_group_level :: "int \<Rightarrow> int \<Rightarrow> int \<Rightarrow> simulator \<Rightarrow> int" where
  "sim_get_group_level network_id application_id group_id st =
     (case find_group network_id application_id group_id st of None \<Rightarrow> 0 | Some grp \<Rightarrow> gr_level grp)"

definition update_group :: "int \<Rightarrow> int \<Rightarrow> int \<Rightarrow> sim_group \<Rightarrow> simulator \<Rightarrow> simulator" where
  "update_group network_id application_id group_id grp st =
     st\<lparr>m_networks := AList.map_entry network_id (\<lambda>net.
          net\<lparr>ne_applications := AList.map_entry application_id (\<lambda>app.
            app\<lparr>ap_groups := AList.update group_id grp (ap_groups app)\<rparr>) (ne_applications net)\<rparr>) (m_networks st)\<rparr>"

definition sim_set_group_level :: "int \<Rightarrow> int \<Rightarrow> int \<Rightarrow> int \<Rightarrow> int \<Rightarrow> simulator \<Rightarrow> bool \<times> simulator" where
  "sim_set_group_level now network_id application_id group_id level st =
     (let level = max 0 (min 255 level);
          st = (case find_group network_id application_id group_id st of
                  Some grp \<Rightarrow> update_group network_id application_id group_id
                                (grp\<lparr>gr_level := level, gr_last_updated := now\<rparr>) st
                | None \<Rightarrow> st) in
      (True, st\<lparr>m_light_states := AList.update group_id level (m_light_states st)\<rparr>))"

definition get_all_group_levels :: "int \<Rightarrow> int \<Rightarrow> simulator \<Rightarrow> (int \<times> int) list" where
  "get_all_group_levels network_id application_id st =
     (case map_of (m_networks st) network_id of
        None \<Rightarrow> m_light_states st
      | Some net \<Rightarrow>
          (case map_of (ne_applications net) application_id of
             None \<Rightarrow> m_light_states st
           | Some app \<Rightarrow>
               fold (\<lambda>(gid, grp) result.
                 case map_of result gid of None \<Rightarrow> AList.update gid (gr_level grp) result | Some _ \<Rightarrow> result)
                 (ap_groups app) (m_light_states st)))"

section \<open>History and reset\<close>

definition log_command :: "int \<Rightarrow> string \<Rightarrow> string option \<Rightarrow> simulator \<Rightarrow> simulator" where
  "log_command now command source st =
     (let h = m_history st @ [(command, now, source)] in
      st\<lparr>m_history := (if length h > max_command_history then drop (length h - max_command_history) h else h)\<rparr>)"

text \<open>\<open>xs[-n:]\<close>, which is all of \<open>xs\<close> for \<open>n = 0\<close> and skips elements for a negative \<open>n\<close>.\<close>

definition get_command_history :: "int option \<Rightarrow> simulator \<Rightarrow> (string \<times> int \<times> string option) list" where
  "get_command_history limit st =
     (case limit of
        None \<Rightarrow> m_history st
      | Some n \<Rightarrow> if 0 < n then drop (length (m_history st) - nat n) (m_history st) else drop (nat (- n)) (m_history st))"

definition sim_reset :: "int \<Rightarrow> simulator \<Rightarrow> simulator" where
  "sim_reset now st =
     st\<lparr>m_networks := map (\<lambda>(nid, net). (nid, net\<lparr>ne_applications := map (\<lambda>(aid, app).
          (aid, app\<lparr>ap_groups := map (\<lambda>(gid, grp). (gid, grp\<lparr>gr_level := 0\<rparr>)) (ap_groups app)\<rparr>))
          (ne_applications net)\<rparr>)) (m_networks st),
        m_light_states := map (\<lambda>(gid, _). (gid, 0)) (m_light_states st),
        m_last_reset := now, m_error_count := 0\<rparr>"

section \<open>The lighting application\<close>

definition LIGHTING_APPLICATION_ID :: int where "LIGHTING_APPLICATION_ID = 56"

definition handle_on :: "int \<Rightarrow> int \<Rightarrow> int \<Rightarrow> simulator \<Rightarrow> bool \<times> simulator" where
  "handle_on now network_id group_id st = sim_set_group_level now network_id LIGHTING_APPLICATION_ID group_id 255 st"

definition handle_off :: "int \<Rightarrow> int \<Rightarrow> int \<Rightarrow> simulator \<Rightarrow> bool \<times> simulator" where
  "handle_off now network_id group_id st = sim_set_group_level now network_id LIGHTING_APPLICATION_ID group_id 0 st"

definition handle_ramp :: "int \<Rightarrow> int \<Rightarrow> int \<Rightarrow> int \<Rightarrow> simulator \<Rightarrow> bool \<times> simulator" where
  "handle_ramp now network_id group_id level st =
     sim_set_group_level now network_id LIGHTING_APPLICATION_ID group_id level st"

definition lighting_get_status :: "int \<Rightarrow> int \<Rightarrow> simulator \<Rightarrow> int" where
  "lighting_get_status network_id group_id st = sim_get_group_level network_id LIGHTING_APPLICATION_ID group_id st"

definition lighting_get_all_groups :: "int \<Rightarrow> simulator \<Rightarrow> (int \<times> int) list" where
  "lighting_get_all_groups network_id st = get_all_group_levels network_id LIGHTING_APPLICATION_ID st"

definition handle_terminate_ramp :: "int \<Rightarrow> int \<Rightarrow> int \<Rightarrow> simulator \<Rightarrow> bool \<times> simulator" where
  "handle_terminate_ramp now network_id group_id st =
     sim_set_group_level now network_id LIGHTING_APPLICATION_ID group_id
       (sim_get_group_level network_id LIGHTING_APPLICATION_ID group_id st) st"

section \<open>Reading what was written\<close>

lemma find_group_update_group:
  assumes "find_group n a g st = Some old"
  shows "find_group n' a' g' (update_group n a g grp st) =
    (if n' = n \<and> a' = a \<and> g' = g then Some grp else find_group n' a' g' st)"
  using assms
  by (auto simp: find_group_def update_group_def map_of_map_entry update_conv' split: option.splits)

lemma find_group_lights [simp]: "find_group n a g (st\<lparr>m_light_states := ls\<rparr>) = find_group n a g st"
  by (simp add: find_group_def)

lemma find_group_set_level:
  "find_group n' a' g' (snd (sim_set_group_level now n a g level st)) =
    (case find_group n' a' g' st of
       Some grp \<Rightarrow> Some (if n' = n \<and> a' = a \<and> g' = g then grp\<lparr>gr_level := max 0 (min 255 level), gr_last_updated := now\<rparr> else grp)
     | None \<Rightarrow> None)"
proof (cases "find_group n a g st")
  case None
  then show ?thesis by (auto simp: sim_set_group_level_def Let_def split: option.splits)
next
  case (Some grp)
  then show ?thesis
    by (auto simp: sim_set_group_level_def Let_def find_group_update_group [OF Some] split: option.splits)
qed

lemma light_states_set_level:
  "map_of (m_light_states (snd (sim_set_group_level now n a g level st))) =
    (map_of (m_light_states st))(g \<mapsto> max 0 (min 255 level))"
  by (auto simp: sim_set_group_level_def Let_def update_conv' update_group_def split: option.splits)

lemma level_after_write:
  "sim_get_group_level n' a' g' (snd (sim_set_group_level now n a g level st)) =
    (if n' = n \<and> a' = a \<and> g' = g \<and> find_group n a g st \<noteq> None then max 0 (min 255 level)
     else sim_get_group_level n' a' g' st)"
  by (auto simp: sim_get_group_level_def find_group_set_level split: option.splits)

lemma level_unknown: "find_group n a g st = None \<Longrightarrow> sim_get_group_level n a g st = 0"
  by (simp add: sim_get_group_level_def)

interpretation sim_levels: level_store "\<lambda>(n, a, g). sim_get_group_level n a g"
    "\<lambda>(n, a, g) level st. snd (sim_set_group_level now n a g level st)"
    "\<lambda>(n, a, g) st. find_group n a g st \<noteq> None" for now
  by unfold_locales
    (auto simp: level_after_write find_group_set_level level_unknown clamp_level_def split: option.splits if_splits)

text \<open>
  After any sequence of writes to groups of the installation, the level of a group that
  exists is the last level written to it, clamped to 0..255, or the old one if none was; a group that
  does not exist reads 0 whatever is written to it.
\<close>

lemma sim_last_write_wins:
  "sim_get_group_level n a g (fold (\<lambda>((n, a, g), level) st. snd (sim_set_group_level now n a g level st)) ws st) =
    (case (find_group n a g st, map_of (rev ws) (n, a, g)) of
       (None, _) \<Rightarrow> 0
     | (Some grp, None) \<Rightarrow> gr_level grp
     | (Some grp, Some level) \<Rightarrow> clamp_level level)"
proof -
  have "(\<lambda>((n, a, g), level) st. snd (sim_set_group_level now n a g level st)) =
      (\<lambda>(k, level). (\<lambda>(n, a, g) level st. snd (sim_set_group_level now n a g level st)) k level)"
    by (simp add: fun_eq_iff)
  moreover have "sim_get_group_level n a g st = (case find_group n a g st of None \<Rightarrow> 0 | Some grp \<Rightarrow> gr_level grp)"
    by (simp add: sim_get_group_level_def)
  ultimately show ?thesis
    using sim_levels.last_write_wins [of "(n, a, g)" now ws st]
    by (simp add: sim_levels.write_all_def split: option.splits)
qed

section \<open>What every operation keeps\<close>

definition level_in_range :: "int \<Rightarrow> bool" where
  "level_in_range l \<longleftrightarrow> 0 \<le> l \<and> l \<le> 255"

definition levels_ok :: "simulator \<Rightarrow> bool" where
  "levels_ok st \<longleftrightarrow>
     list_all (\<lambda>(_, net). list_all (\<lambda>(_, app). list_all (\<lambda>(_, grp). level_in_range (gr_level grp)) (ap_groups app))
       (ne_applications net)) (m_networks st) \<and>
     list_all (\<lambda>(_, l). level_in_range l) (m_light_states st)"

text \<open>The installation without its levels: which groups there are, under which names.\<close>

definition layout :: "simulator \<Rightarrow> (int \<times> string \<times> (int \<times> string \<times> (int \<times> string) list) list) list" where
  "layout st = map (\<lambda>(nid, net). (nid, ne_name net, map (\<lambda>(aid, app). (aid, ap_name app,
     map (\<lambda>(gid, grp). (gid, gr_name grp)) (ap_groups app))) (ne_applications net))) (m_networks st)"

definition sim_ok :: "simulator \<Rightarrow> bool" where
  "sim_ok st \<longleftrightarrow> levels_ok st \<and> length (m_history st) \<le> max_command_history"

text \<open>
  \<open>same_installation\<close> holds between two states that differ in levels, time stamps, history,
  error count and the time of the last reset only.
\<close>

definition same_installation :: "simulator \<Rightarrow> simulator \<Rightarrow> bool" where
  "same_installation st st' \<longleftrightarrow>
     layout st' = layout st \<and> m_device_info st' = m_device_info st \<and> m_settings st' = m_settings st \<and>
     m_smart_mode st' = m_smart_mode st \<and> m_units st' = m_units st \<and> m_online st' = m_online st"

lemma same_installation_refl [simp]: "same_installation st st"
  by (simp add: same_installation_def)

lemma same_installation_trans:
  "same_installation st st' \<Longrightarrow> same_installation st' st'' \<Longrightarrow> same_installation st st''"
  by (simp add: same_installation_def)

lemma list_all_update: "list_all P xs \<Longrightarrow> P (k, v) \<Longrightarrow> list_all P (AList.update k v xs)"
  by (induction xs) auto

lemma list_all_map_entry:
  "list_all P xs \<Longrightarrow> (\<And>v. P (k, v) \<Longrightarrow> P (k, f v)) \<Longrightarrow> list_all P (AList.map_entry k f xs)"
  by (induction xs) auto

lemma map_update_known:
  "map_of xs k = Some v\<^sub>0 \<Longrightarrow> h v = h v\<^sub>0 \<Longrightarrow>
   map (\<lambda>(k, v). (k, h v)) (AList.update k v xs) = map (\<lambda>(k, v). (k, h v)) xs"
  by (induction xs) (auto split: if_splits)

lemma map_map_entry:
  "(\<And>v. map_of xs k = Some v \<Longrightarrow> h (f v) = h v) \<Longrightarrow>
   map (\<lambda>(k, v). (k, h v)) (AList.map_entry k f xs) = map (\<lambda>(k, v). (k, h v)) xs"
  by (induction xs) (auto split: if_splits)

lemma update_group_ok:
  assumes "levels_ok st" "level_in_range (gr_level grp)"
  shows "levels_ok (update_group n a g grp st)"
  using assms unfolding levels_ok_def update_group_def
  by (auto intro!: list_all_map_entry list_all_update)

lemma update_group_layout:
  assumes "find_group n a g st = Some old" "gr_name grp = gr_name old"
  shows "layout (update_group n a g grp st) = layout st"
  using assms unfolding layout_def update_group_def find_group_def
  by (auto intro!: map_map_entry map_update_known split: option.splits)

lemma set_level_ok [inv_intros]:
  assumes "sim_ok st"
  shows "sim_ok (snd (sim_set_group_level now n a g level st))"
proof -
  have r: "level_in_range (max 0 (min 255 level))" by (simp add: level_in_range_def)
  have lights: "levels_ok (s\<lparr>m_light_states := AList.update g (max 0 (min 255 level)) (m_light_states s)\<rparr>)"
    if "levels_ok s" for s
    using that r by (auto simp: levels_ok_def intro!: list_all_update)
  show ?thesis
    using assms lights update_group_ok r
    by (auto simp: sim_ok_def sim_set_group_level_def Let_def update_group_def split: option.splits)
qed

lemma set_level_installation [inv_intros]:
  "same_installation st (snd (sim_set_group_level now n a g level st))"
proof (cases "find_group n a g st")
  case None
  then show ?thesis by (simp add: same_installation_def sim_set_group_level_def layout_def)
next
  case (Some grp)
  have "layout (s\<lparr>m_light_states := ls\<rparr>) = layout s" for s ls by (simp add: layout_def)
  with Some show ?thesis
    using update_group_layout [OF Some, of "grp\<lparr>gr_level := max 0 (min 255 level), gr_last_updated := now\<rparr>"]
    by (simp add: same_installation_def sim_set_group_level_def Let_def update_group_def)
qed

lemma log_command_ok [inv_intros]: "sim_ok st \<Longrightarrow> sim_ok (log_command now cmd src st)"
  by (simp add: sim_ok_def log_command_def levels_ok_def Let_def max_command_history_def)

lemma log_command_installation [inv_intros]: "same_installation st (log_command now cmd src st)"
  by (simp add: same_installation_def log_command_def layout_def Let_def)

lemma reset_installation [inv_intros]: "same_installation st (sim_reset now st)"
  by (simp add: same_installation_def sim_reset_def layout_def case_prod_unfold)

lemma reset_ok [inv_intros]: "sim_ok st \<Longrightarrow> sim_ok (sim_reset now st)"
  by (auto simp: sim_ok_def sim_reset_def levels_ok_def level_in_range_def list_all_iff)

lemma find_group_reset:
  "find_group n a g (sim_reset now st) = map_option (\<lambda>grp. grp\<lparr>gr_level := 0\<rparr>) (find_group n a g st)"
  by (auto simp: find_group_def sim_reset_def map_of_map split: option.splits)

lemma level_after_reset: "sim_get_group_level n a g (sim_reset now st) = 0"
  by (auto simp: sim_get_group_level_def find_group_reset split: option.splits)

section \<open>What a configuration means\<close>

text \<open>
  The reference reading of the networks section: entries without an id are skipped, a missing network
  id is 254, a missing level is 0, and of several entries with one id the last counts.
\<close>

definition config_groups :: "group_config list \<Rightarrow> (int \<times> int) list" where
  "config_groups gcs = List.map_filter
     (\<lambda>gc. map_option (\<lambda>gid. (gid, or_default (gc_initial_level gc) 0)) (gc_group_id gc)) gcs"

definition config_applications :: "application_config list \<Rightarrow> (int \<times> group_config list) list" where
  "config_applications acs = List.map_filter (\<lambda>ac. map_option (\<lambda>aid. (aid, ac_groups ac)) (ac_application_id ac)) acs"

definition config_networks :: "network_config list \<Rightarrow> (int \<times> application_config list) list" where
  "config_networks ncs = map (\<lambda>nc. (or_default (nc_network_id nc) 254, nc_applications nc)) ncs"

definition configured_level :: "network_config list \<Rightarrow> int \<Rightarrow> int \<Rightarrow> int \<Rightarrow> int option" where
  "configured_level ncs n a g =
     (case map_of (rev (config_networks ncs)) n of
        None \<Rightarrow> None
      | Some acs \<Rightarrow>
          (case map_of (rev (config_applications acs)) a of
             None \<Rightarrow> None
           | Some gcs \<Rightarrow> map_of (rev (config_groups gcs)) g))"

definition app_levels :: "sim_application \<Rightarrow> int \<Rightarrow> int option" where
  "app_levels app g = map_option gr_level (map_of (ap_groups app) g)"

lemma add_groups_levels:
  "app_levels (fst (fold (add_group now) gcs acc)) = app_levels (fst acc) ++ map_of (rev (config_groups gcs))"
proof (induction gcs arbitrary: acc)
  case Nil
  then show ?case by (simp add: config_groups_def map_filter_simps)
next
  case (Cons gc gcs)
  have step: "app_levels (fst (add_group now gc acc)) =
      app_levels (fst acc) ++ map_of (rev (config_groups [gc]))"
    by (cases acc) (auto simp: add_group_def app_levels_def config_groups_def map_filter_simps update_conv' Let_def
        fun_eq_iff split: option.splits)
  have "config_groups (gc # gcs) = config_groups [gc] @ config_groups gcs"
    by (simp add: config_groups_def map_filter_simps split: option.splits)
  then show ?case using Cons [of "add_group now gc acc"] step by simp
qed

lemma add_applications_levels:
  "map_option app_levels (map_of (ne_applications (fst (fold (add_application now) acs acc))) a) =
    (case map_of (rev (config_applications acs)) a of
       Some gcs \<Rightarrow> Some (map_of (rev (config_groups gcs)))
     | None \<Rightarrow> map_option app_levels (map_of (ne_applications (fst acc)) a))"
proof (induction acs arbitrary: acc)
  case Nil
  then show ?case by (simp add: config_applications_def map_filter_simps)
next
  case (Cons ac acs)
  have fresh: "app_levels \<lparr>ap_application_id = i, ap_name = nm, ap_groups = []\<rparr> = Map.empty" for i nm
    by (simp add: app_levels_def fun_eq_iff)
  have step: "map_option app_levels (map_of (ne_applications (fst (add_application now ac acc))) a) =
      (if ac_application_id ac = Some a then Some (map_of (rev (config_groups (ac_groups ac))))
       else map_option app_levels (map_of (ne_applications (fst acc)) a))"
    using add_groups_levels [of now "ac_groups ac"]
    by (cases acc) (auto simp: add_application_def update_conv' Let_def case_prod_unfold fresh split: option.splits)
  then show ?case using Cons [of "add_application now ac acc"]
    by (auto simp: config_applications_def map_filter_simps split: option.splits if_splits)
qed

lemma add_networks_levels:
  "map_option (\<lambda>net a. map_option app_levels (map_of (ne_applications net) a)) (map_of (m_networks (fold (add_network now) ncs st)) n) =
    (case map_of (rev (config_networks ncs)) n of
       Some acs \<Rightarrow> Some (\<lambda>a. map_option (\<lambda>gcs. map_of (rev (config_groups gcs))) (map_of (rev (config_applications acs)) a))
     | None \<Rightarrow> map_option (\<lambda>net a. map_option app_levels (map_of (ne_applications net) a)) (map_of (m_networks st) n))"
proof (induction ncs arbitrary: st)
  case Nil
  then show ?case by (simp add: config_networks_def)
next
  case (Cons nc ncs)
  have "map_option app_levels (map_of (ne_applications (fst (fold (add_application now) (nc_applications nc)
      (\<lparr>ne_network_id = i, ne_name = nm, ne_applications = []\<rparr>, ls)))) a) =
    map_option (\<lambda>gcs. map_of (rev (config_groups gcs))) (map_of (rev (config_applications (nc_applications nc))) a)" for i nm ls a
    by (simp add: add_applications_levels split: option.splits)
  then have step: "map_option (\<lambda>net a. map_option app_levels (map_of (ne_applications net) a))
        (map_of (m_networks (add_network now nc st)) n) =
      (if or_default (nc_network_id nc) 254 = n
       then Some (\<lambda>a. map_option (\<lambda>gcs. map_of (rev (config_groups gcs))) (map_of (rev (config_applications (nc_applications nc))) a))
       else map_option (\<lambda>net a. map_option app_levels (map_of (ne_applications net) a)) (map_of (m_networks st) n))"
    by (auto simp: add_network_def update_conv' Let_def case_prod_unfold)
  then show ?case using Cons [of "add_network now nc st"]
    by (auto simp: config_networks_def split: option.splits if_splits)
qed

lemma find_group_levels:
  "map_option gr_level (find_group n a g st) =
    (case map_option (\<lambda>net a. map_option app_levels (map_of (ne_applications net) a)) (map_of (m_networks st) n) of
       None \<Rightarrow> None
     | Some f \<Rightarrow> (case f a of None \<Rightarrow> None | Some h \<Rightarrow> h g))"
  by (auto simp: find_group_def app_levels_def split: option.splits)

lemma add_unit_networks: "m_networks (fold add_unit ucs st) = m_networks st"
  by (induction ucs arbitrary: st) (auto simp: add_unit_def split: option.splits)

text \<open>
  After a configuration with a networks section, the groups of the installation are exactly
  those the section lists, each with its initial level: entries without an id are skipped and of several
  entries with one id the last counts.
\<close>

lemma configured_levels:
  assumes "cf_networks cfg = Some ncs"
  shows "map_option gr_level (find_group n a g (apply_configuration now cfg st)) = configured_level ncs n a g"
proof -
  define st\<^sub>0 where "st\<^sub>0 = (case cf_device cfg of
      None \<Rightarrow> st | Some kvs \<Rightarrow> st\<lparr>m_device_info := fold set_device kvs (m_device_info st)\<rparr>)\<lparr>m_networks := [], m_light_states := []\<rparr>"
  have "m_networks (apply_configuration now cfg st) = m_networks (fold (add_network now) ncs st\<^sub>0)"
    using assms by (auto simp: apply_configuration_def st\<^sub>0_def Let_def add_unit_networks split: option.splits)
  moreover have "m_networks st\<^sub>0 = []" by (simp add: st\<^sub>0_def)
  ultimately show ?thesis
    by (simp add: find_group_levels add_networks_levels configured_level_def split: option.splits)
qed

section \<open>The flat table\<close>

lemma all_levels_lookup:
  "map_of (get_all_group_levels n a st) g =
    (case map_of (m_light_states st) g of
       Some l \<Rightarrow> Some l
     | None \<Rightarrow> map_option gr_level (find_group n a g st))"
proof -
  have "map_of (fold (\<lambda>(gid, grp) result.
          case map_of result gid of None \<Rightarrow> AList.update gid (gr_level grp) result | Some _ \<Rightarrow> result) gs ls) g =
      (case map_of ls g of Some l \<Rightarrow> Some l | None \<Rightarrow> map_option gr_level (map_of gs g))" for gs :: "(int \<times> sim_group) list" and ls
    by (induction gs arbitrary: ls) (auto simp: update_conv' split: option.splits)
  then show ?thesis by (auto simp: get_all_group_levels_def find_group_def split: option.splits)
qed

text \<open>
  The table of all levels is shared: a write to a group number under any network and
  application, even one the installation does not have, is what every application of every network
  then lists for that number, while reading the other groups of that number one by one still gives
  their own levels.
\<close>

lemma light_table_shared:
  assumes "(n', a') \<noteq> (n, a)"
  shows "map_of (get_all_group_levels n' a' (snd (sim_set_group_level now n a g level st))) g = Some (clamp_level level) \<and>
    sim_get_group_level n' a' g (snd (sim_set_group_level now n a g level st)) = sim_get_group_level n' a' g st"
  using assms by (auto simp: all_levels_lookup light_states_set_level level_after_write clamp_level_def)

section \<open>Configurations without networks\<close>

text \<open>
  A configuration without a networks section resets the whole state to its defaults after
  the device section was applied: the configured serial number, type and versions are lost, and so are
  units of an earlier configuration and the history.
\<close>

lemma no_networks_forgets_device:
  assumes "cf_networks cfg = None"
  shows "m_device_info (apply_configuration now cfg st) = new_DeviceInfo \<and>
    m_history (apply_configuration now cfg st) = [] \<and>
    apply_configuration now cfg st = apply_configuration now (cfg\<lparr>cf_device := None\<rparr>) (new_SimulatorState now)"
proof -
  have units: "m_device_info (fold add_unit ucs s) = m_device_info s \<and> m_history (fold add_unit ucs s) = m_history s" for ucs s
    by (induction ucs arbitrary: s) (auto simp: add_unit_def split: option.splits)
  show ?thesis
    using assms by (auto simp: apply_configuration_def Let_def units new_SimulatorState_def split: option.splits)
qed

end
