(* ===== verification/Patterns.thy ===== *)
theory Patterns
  imports Py_Text
begin

text \<open>
  The regular expressions the simulator matches commands with. All of them are sequences of literals,
  digit groups \<open>\d+\<close> and fixed digit groups \<open>\d{k}\<close>, anchored at both ends, behind an optional
  number sign. \<open>match_pieces\<close> runs such a sequence from left to right, each digit group taking all the
  digits it can; \<open>spells\<close> is the language of the expression with its captures. The two agree on
  sequences in which no digit group is followed by something that may begin with a digit
  (\<open>unambiguous\<close>), which every pattern of the simulator is.

  The subjects are stripped before they are matched, so the line feed that \<open>$\<close> tolerates at the
  end does not occur; \<open>\d\<close> is an ASCII digit since subjects are decoded from ASCII.
\<close>

datatype piece = Lit string | Digits | DigitsN nat

definition is_digit :: "char \<Rightarrow> bool" where
  "is_digit c \<longleftrightarrow> digit_val c \<noteq> None"

fun match_pieces :: "piece list \<Rightarrow> string \<Rightarrow> string list option" where
  "match_pieces [] s = (if s = [] then Some [] else None)"
| "match_pieces (Lit l # ps) s = (if starts_with l s then match_pieces ps (drop (length l) s) else None)"
| "match_pieces (Digits # ps) s =
     (let d = takeWhile is_digit s in
      if d = [] then None else map_option ((#) d) (match_pieces ps (dropWhile is_digit s)))"
| "match_pieces (DigitsN k # ps) s =
     (let d = take k s in
      if length d = k \<and> list_all is_digit d then map_option ((#) d) (match_pieces ps (drop k s)) else None)"

text \<open>The optional number sign in front, and whether it was there.\<close>

definition match_command :: "piece list \<Rightarrow> string \<Rightarrow> (bool \<times> string list) option" where
  "match_command ps s =
     (case s of
        c # t \<Rightarrow> if c = CHR ''#'' then map_option (Pair True) (match_pieces ps t)
                 else map_option (Pair False) (match_pieces ps s)
      | [] \<Rightarrow> map_option (Pair False) (match_pieces ps []))"

section \<open>The language\<close>

inductive spells :: "piece list \<Rightarrow> string list \<Rightarrow> string \<Rightarrow> bool" where
  empty: "spells [] [] []"
| lit: "spells ps cs s \<Longrightarrow> spells (Lit l # ps) cs (l @ s)"
| digits: "d \<noteq> [] \<Longrightarrow> list_all is_digit d \<Longrightarrow> spells ps cs s \<Longrightarrow> spells (Digits # ps) (d # cs) (d @ s)"
| digits_n: "length d = k \<Longrightarrow> list_all is_digit d \<Longrightarrow> spells ps cs s \<Longrightarrow> spells (DigitsN k # ps) (d # cs) (d @ s)"

inductive_simps spells_simps:
  "spells [] cs s" "spells (Lit l # ps) cs s" "spells (Digits # ps) cs s" "spells (DigitsN k # ps) cs s"

fun unambiguous :: "piece list \<Rightarrow> bool" where
  "unambiguous (Digits # Lit (c # l) # ps) = (\<not> is_digit c \<and> unambiguous ps)"
| "unambiguous [Digits] = True"
| "unambiguous (Digits # _ # ps) = False"
| "unambiguous (_ # ps) = unambiguous ps"
| "unambiguous [] = True"

lemma takeWhile_digits:
  assumes "list_all is_digit d" "s = [] \<or> \<not> is_digit (hd s)"
  shows "takeWhile is_digit (d @ s) = d" "dropWhile is_digit (d @ s) = s"
  using assms by (induction d; cases s; auto)+

lemma match_spells: "match_pieces ps s = Some cs \<Longrightarrow> spells ps cs s"
proof (induction ps s arbitrary: cs rule: match_pieces.induct)
  case (1 s)
  then show ?case by (auto simp: spells_simps split: if_splits)
next
  case (2 l ps s)
  then have "starts_with l s" "spells ps cs (drop (length l) s)" by (auto split: if_splits)
  then show ?case using lit [of ps cs "drop (length l) s" l] by (metis append_take_drop_id starts_with_def)
next
  case (3 ps s)
  then obtain cs' where d: "takeWhile is_digit s \<noteq> []" "spells ps cs' (dropWhile is_digit s)" "cs = takeWhile is_digit s # cs'"
    by (auto simp: Let_def split: if_splits)
  have "list_all is_digit (takeWhile is_digit s)" by (auto simp: list_all_iff dest: set_takeWhileD)
  with d digits [of "takeWhile is_digit s" ps cs' "dropWhile is_digit s"] show ?case by simp
next
  case (4 k ps s)
  then obtain cs' where d: "length (take k s) = k" "list_all is_digit (take k s)" "spells ps cs' (drop k s)" "cs = take k s # cs'"
    by (auto simp: Let_def split: if_splits)
  with digits_n [of "take k s" k ps cs' "drop k s"] show ?case by simp
qed

lemma spells_match: "spells ps cs s \<Longrightarrow> unambiguous ps \<Longrightarrow> match_pieces ps s = Some cs"
proof (induction rule: spells.induct)
  case (digits d ps cs s)
  have "s = [] \<or> \<not> is_digit (hd s)" "unambiguous ps"
    using digits.hyps(3) digits.prems
    by (cases "(Digits # ps)" rule: unambiguous.cases; auto simp: spells_simps)+
  then show ?case using digits by (simp add: takeWhile_digits Let_def)
next
  case (lit ps cs s l)
  have "unambiguous ps" using lit.prems by (cases "(Lit l # ps)" rule: unambiguous.cases; simp)
  then show ?case using lit.IH by (simp add: starts_with_def)
next
  case (digits_n d k ps cs s)
  have "unambiguous ps" using digits_n.prems by (cases "(DigitsN k # ps)" rule: unambiguous.cases; simp)
  then show ?case using digits_n by (simp add: Let_def)
qed simp

lemma match_iff_spells: "unambiguous ps \<Longrightarrow> match_pieces ps s = Some cs \<longleftrightarrow> spells ps cs s"
  using match_spells spells_match by blast

lemma match_command_iff:
  assumes "unambiguous (Digits # ps)"
  shows "match_command (Digits # ps) s = Some (flag, cs) \<longleftrightarrow>
    (\<exists>t. spells (Digits # ps) cs t \<and> s = (if flag then CHR ''#'' # t else t))"
proof -
  have "\<not> is_digit CHR ''#''" by (simp add: is_digit_def digit_val_def)
  then have no_hash: "\<not> spells (Digits # ps) cs (CHR ''#'' # t)" for t
    by (auto simp: spells_simps Cons_eq_append_conv list_all_iff)
  define q where "q = Digits # ps"
  have m: "match_pieces q t = Some c \<longleftrightarrow> spells q c t" for t c
    using match_iff_spells [OF assms] by (simp add: q_def)
  show ?thesis
    using no_hash m unfolding match_command_def q_def [symmetric] by (cases s) auto
qed

lemma match_digits_cons:
  assumes "all_digits d" "d \<noteq> []" "s = [] \<or> \<not> is_digit (hd s)"
  shows "match_pieces (Digits # ps) (d @ s) = map_option ((#) d) (match_pieces ps s)"
proof -
  have "list_all is_digit d" using assms(1) by (simp add: all_digits_def is_digit_def list_all_iff)
  then show ?thesis using assms takeWhile_digits [of d s] by (simp add: Let_def)
qed

end
