(* ===== verification/Simulator.thy ===== *)
theory Simulator
  imports Simulator_State Patterns Cbus_Common
begin

text \<open>
  The protocol of the simulator, \<open>cbus-simulator/simulator/protocol.py\<close>: the recovery of binary data
  from text, and \<open>PCISimulatorProtocol\<close> with its framing, its text commands and its heuristics for
  binary commands. A session is a record; its methods are actions over it, \<open>x_out\<close> is what was
  written to the client, and the time is an argument.

  The simulated installation is shared by all sessions of the server; \<open>x_state\<close> is its value while
  the session runs. One read is handled without interruption: the pauses of \<open>_simulate_delay\<close> have no
  effect of their own (simulated packet loss only lengthens them).

  A Python value of bytes is either a \<open>bytes\<close> or a \<open>bytearray\<close>, and the code treats them
  differently; where it asks, the flag \<open>is_bytes\<close> says which.
\<close>

section \<open>Constants and patterns\<close>

definition SIM_END_COMMAND :: bytes where "SIM_END_COMMAND = [0x0D, 0x0A]"

definition SIM_CONFIRMATION_CODES :: bytes where "SIM_CONFIRMATION_CODES = ascii ''hijklmnopqrstuvwxyzg''"

definition BASIC_MODE_PROMPT :: bytes where "BASIC_MODE_PROMPT = ascii ''>''"

definition SMART_MODE_NO_ECHO :: string where "SMART_MODE_NO_ECHO = ''+''"

definition LIGHTING_ON_PATTERN :: "piece list" where
  "LIGHTING_ON_PATTERN = [Digits, Lit ''//'', Digits, Lit ''A'', Digits, Lit ''N'', Digits]"

definition LIGHTING_OFF_PATTERN :: "piece list" where
  "LIGHTING_OFF_PATTERN = [Digits, Lit ''//'', Digits, Lit ''A'', Digits, Lit ''F'', Digits]"

definition LIGHTING_RAMP_PATTERN :: "piece list" where
  "LIGHTING_RAMP_PATTERN = [Digits, Lit ''//'', Digits, Lit ''A'', Digits, Lit ''R'', Digits, Lit ''D'', Digits]"

definition STATUS_REQUEST_PATTERN :: "piece list" where
  "STATUS_REQUEST_PATTERN = [Digits, Lit ''//'', Digits, Lit ''A'', Digits, Lit ''G'', Digits]"

definition CLOCK_UPDATE_PATTERN :: "piece list" where
  "CLOCK_UPDATE_PATTERN = [Digits, Lit ''//223A201T'', DigitsN 2, DigitsN 2, DigitsN 2, DigitsN 2, DigitsN 2, DigitsN 2,
     Lit ''W'', DigitsN 1]"

definition IDENTIFY_PATTERN :: "piece list" where
  "IDENTIFY_PATTERN = [Digits, Lit ''//'', Digits, Lit ''I'', Digits, Lit ''A'', Digits]"

definition MMI_REQUEST_PATTERN :: "piece list" where
  "MMI_REQUEST_PATTERN = [Digits, Lit ''//'', Digits, Lit ''MMI'', Digits]"

section \<open>Recovering binary data from text\<close>

definition is_alpha :: "char \<Rightarrow> bool" where
  "is_alpha c \<longleftrightarrow> (let n = of_char c :: nat in 65 \<le> n \<and> n \<le> 90 \<or> 97 \<le> n \<and> n \<le> 122)"

definition clean_ascii_bytes :: "bytes \<Rightarrow> string" where
  "clean_ascii_bytes data =
     (let kept = filter (\<lambda>b. b \<noteq> 0x0D \<and> b \<noteq> 0x0A) data in
      if list_all (\<lambda>b. b < 128) kept then map (\<lambda>b. char_of (unat b)) kept else [])"

text \<open>Appending a number to a bytearray.\<close>

definition byte_of_hex :: "string \<Rightarrow> byte result" where
  "byte_of_hex s = rbind (py_int16 s) py_byte"

fun backslash_pairs :: "string \<Rightarrow> bytes" where
  "backslash_pairs (c # d # e # cs) =
     (if c = CHR 0x5C
      then case byte_of_hex [d, e] of Inr b \<Rightarrow> b # backslash_pairs cs | Inl _ \<Rightarrow> backslash_pairs (d # e # cs)
      else backslash_pairs (d # e # cs))"
| "backslash_pairs _ = []"

definition parse_backslash_pairs :: "string \<Rightarrow> bytes option" where
  "parse_backslash_pairs hex_str = (let result = backslash_pairs hex_str in if result \<noteq> [] then Some result else None)"

fun hex_pairs :: "string \<Rightarrow> int list" where
  "hex_pairs (c # d # cs) = (case py_int16 [c, d] of Inr n \<Rightarrow> n # hex_pairs cs | Inl _ \<Rightarrow> hex_pairs cs)"
| "hex_pairs _ = []"

definition parse_slash05_format :: "string \<Rightarrow> bytes option result" where
  "parse_slash05_format hex_str =
     (if \<not> starts_with (CHR 0x5C # ''05'') hex_str then Inr None
      else if length hex_str < 5 then Inr None
      else case py_int16 (take 2 (drop 3 hex_str)) of
        Inl _ \<Rightarrow> Inr None
      | Inr cmd_byte \<Rightarrow>
          rbind (py_byte cmd_byte) (\<lambda>cb.
            let end_idx = (if is_alpha (last hex_str) then length hex_str - 1
                           else case find_sub ''h'' hex_str of Some i \<Rightarrow> i | None \<Rightarrow> length hex_str);
                payload = drop 5 (take end_idx hex_str) in
            rmap (\<lambda>ps. let result = 0x05 # cb # ps in if length result > 2 then Some result else None)
              (py_bytes (hex_pairs payload))))"

fun alnum_pairs :: "string \<Rightarrow> bytes" where
  "alnum_pairs (c # d # cs) =
     (if (is_alpha c \<or> is_digit c) \<and> (is_alpha d \<or> is_digit d)
      then case byte_of_hex [c, d] of Inr b \<Rightarrow> b # alnum_pairs cs | Inl _ \<Rightarrow> alnum_pairs cs
      else alnum_pairs cs)"
| "alnum_pairs _ = []"

definition parse_hex_pairs_no_backslash :: "string \<Rightarrow> bytes option" where
  "parse_hex_pairs_no_backslash hex_str =
     (let start = (if starts_with [CHR 0x5C] hex_str then 1 else 0);
          result = 0x05 # alnum_pairs (drop start hex_str) in
      if length result > 1 then Some result else None)"

definition preprocess_cbus_data :: "bool \<Rightarrow> bytes \<Rightarrow> bytes" where
  "preprocess_cbus_data is_bytes data =
     (if \<not> (is_bytes \<and> 0x5C \<in> set data) then data
      else let hex_str = clean_ascii_bytes data in
        if hex_str = [] then data
        else case parse_slash05_format hex_str of
          Inl _ \<Rightarrow> data
        | Inr (Some result) \<Rightarrow> result
        | Inr None \<Rightarrow>
            (case parse_backslash_pairs hex_str of
               Some result \<Rightarrow>
                 if length result > 2 then result
                 else (case parse_hex_pairs_no_backslash hex_str of Some result \<Rightarrow> result | None \<Rightarrow> data)
             | None \<Rightarrow> (case parse_hex_pairs_no_backslash hex_str of Some result \<Rightarrow> result | None \<Rightarrow> data)))"

section \<open>Sessions\<close>

record sim_session =
  x_state :: simulator
  x_buffer :: bytes
  x_smart_mode :: bool
  x_source_address :: int
  x_confirmation_index :: nat
  x_last_command_time :: int
  x_client_id :: string
  x_out :: "bytes list"

type_synonym 'a session_act = "(sim_session, 'a) act"

definition new_PCISimulatorProtocol :: "int \<Rightarrow> string \<Rightarrow> simulator \<Rightarrow> sim_session" where
  "new_PCISimulatorProtocol now client_id st =
     \<lparr>x_state = st, x_buffer = [], x_smart_mode = m_smart_mode st,
      x_source_address = ss_default_source_address (m_settings st), x_confirmation_index = 0,
      x_last_command_time = now, x_client_id = client_id, x_out = []\<rparr>"

definition sim_write :: "bytes \<Rightarrow> unit session_act" where
  "sim_write data = amodify (\<lambda>x. x\<lparr>x_out := x_out x @ [data]\<rparr>)"

definition sim_write_text :: "string \<Rightarrow> unit session_act" where
  "sim_write_text response = abind (alift (encode_ascii response)) sim_write"

definition update_state :: "(simulator \<Rightarrow> simulator) \<Rightarrow> unit session_act" where
  "update_state f = amodify (\<lambda>x. x\<lparr>x_state := f (x_state x)\<rparr>)"

definition set_level :: "int \<Rightarrow> int \<Rightarrow> int \<Rightarrow> int \<Rightarrow> int \<Rightarrow> bool session_act" where
  "set_level now network_id application_id group_id level x =
     (let (success, st) = sim_set_group_level now network_id application_id group_id level (x_state x) in
      (Inr success, x\<lparr>x_state := st\<rparr>))"

definition send_prompt :: "unit session_act" where
  "send_prompt x =
     (if x_smart_mode x then sim_write (ascii SMART_MODE_NO_ECHO @ SIM_END_COMMAND) x
      else sim_write BASIC_MODE_PROMPT x)"

definition next_confirmation_code :: "byte session_act" where
  "next_confirmation_code x =
     (Inr (SIM_CONFIRMATION_CODES ! x_confirmation_index x),
      x\<lparr>x_confirmation_index := (x_confirmation_index x + 1) mod length SIM_CONFIRMATION_CODES\<rparr>)"

definition sim_send_confirmation :: "byte \<Rightarrow> bool \<Rightarrow> unit session_act" where
  "sim_send_confirmation code success =
     athen (sim_write ([code] @ (if success then ascii ''.'' else ascii ''!'') @ SIM_END_COMMAND)) send_prompt"

definition sim_send_error :: "string \<Rightarrow> string \<Rightarrow> unit session_act" where
  "sim_send_error error_type cmd =
     athen (update_state (\<lambda>st. st\<lparr>m_error_count := m_error_count st + 1\<rparr>))
     (athen (sim_write_text (''!'' @ error_type @ '': '' @ cmd @ [CHR 0x0D, CHR 0x0A])) send_prompt)"

text \<open>\<open>if confirm_flag: ...\<close> of every handler.\<close>

definition confirm_if :: "bool \<Rightarrow> bool \<Rightarrow> unit session_act" where
  "confirm_if confirm_flag success =
     awhen confirm_flag (abind next_confirmation_code (\<lambda>code. sim_send_confirmation code success))"

section \<open>Responses\<close>

definition crlf :: string where "crlf = [CHR 0x0D, CHR 0x0A]"

definition broadcast_lighting_event :: "int \<Rightarrow> int \<Rightarrow> int \<Rightarrow> string \<Rightarrow> int \<Rightarrow> unit session_act" where
  "broadcast_lighting_event network_id application_id group_id event_type source_addr =
     (let address = py_str source_addr @ ''//'' @ py_str network_id @ ''A'' @ py_str application_id in
      if event_type = ''on'' then sim_write_text (address @ ''N'' @ py_str group_id @ crlf)
      else if event_type = ''off'' then sim_write_text (address @ ''F'' @ py_str group_id @ crlf)
      else if starts_with ''ramp:'' event_type
      then sim_write_text (address @ ''R'' @ py_str group_id @ ''L'' @ split_on CHR '':'' event_type ! 1 @ crlf)
      else areturn ())"

definition send_status_response :: "int \<Rightarrow> int \<Rightarrow> int \<Rightarrow> int \<Rightarrow> unit session_act" where
  "send_status_response network_id application_id group_id level x =
     (let address = py_str (x_source_address x) @ ''//'' @ py_str network_id @ ''A'' @ py_str application_id in
      sim_write_text
        (if level = 0 then address @ ''F'' @ py_str group_id @ crlf
         else if level = 255 then address @ ''N'' @ py_str group_id @ crlf
         else address @ ''L'' @ py_str group_id @ ''='' @ py_str level @ crlf) x)"

text \<open>\<open>networks.get(network_id, {}).get("name", "Default Network")\<close>.\<close>

definition network_name :: "int \<Rightarrow> simulator \<Rightarrow> string" where
  "network_name network_id st =
     (case map_of (m_networks st) network_id of Some net \<Rightarrow> ne_name net | None \<Rightarrow> ''Default Network'')"

definition send_identify_response :: "int \<Rightarrow> int \<Rightarrow> int \<Rightarrow> unit session_act" where
  "send_identify_response network_id unit_address attribute x =
     (let reply = (\<lambda>v. py_str (x_source_address x) @ ''//'' @ py_str network_id @ ''IC'' @ py_str unit_address @ ''A'' @
            py_str attribute @ ''='' @ [CHR 0x22] @ v @ [CHR 0x22] @ crlf) in
      sim_write_text
        (if attribute = 0 then reply ''5500CN''
         else if attribute = 1 then reply (d_firmware_version (m_device_info (x_state x)))
         else if attribute = 2 then reply (network_name network_id (x_state x))
         else reply ''Unknown'') x)"

section \<open>Text commands\<close>

text \<open>The conversions \<open>int(match.group(k))\<close> of a handler, in order.\<close>

fun py_ints :: "string list \<Rightarrow> int list result" where
  "py_ints [] = Inr []"
| "py_ints (s # ss) = rbind (py_int s) (\<lambda>n. rmap ((#) n) (py_ints ss))"

definition handle_reset :: "int \<Rightarrow> unit session_act" where
  "handle_reset now = athen (update_state (sim_reset now)) (athen (sim_write (ascii (''OK'' @ crlf))) send_prompt)"

definition handle_basic_mode :: "unit session_act" where
  "handle_basic_mode =
     athen (amodify (\<lambda>x. x\<lparr>x_smart_mode := False\<rparr>)) (athen (sim_write (ascii (''OK'' @ crlf))) send_prompt)"

definition handle_smart_mode :: "unit session_act" where
  "handle_smart_mode =
     athen (amodify (\<lambda>x. x\<lparr>x_smart_mode := True\<rparr>)) (athen (sim_write (ascii (''OK'' @ crlf))) send_prompt)"

definition handle_lighting_on :: "int \<Rightarrow> bool \<Rightarrow> string list \<Rightarrow> unit session_act" where
  "handle_lighting_on now confirm_flag groups =
     abind (alift (py_ints groups)) (\<lambda>args. case args of
       [source_addr, network_id, application_id, group_id] \<Rightarrow>
         abind (set_level now network_id application_id group_id 255) (\<lambda>success.
         athen (confirm_if confirm_flag success)
           (broadcast_lighting_event network_id application_id group_id ''on'' source_addr))
     | _ \<Rightarrow> araise IndexError)"

definition handle_lighting_off :: "int \<Rightarrow> bool \<Rightarrow> string list \<Rightarrow> unit session_act" where
  "handle_lighting_off now confirm_flag groups =
     abind (alift (py_ints groups)) (\<lambda>args. case args of
       [source_addr, network_id, application_id, group_id] \<Rightarrow>
         abind (set_level now network_id application_id group_id 0) (\<lambda>success.
         athen (confirm_if confirm_flag success)
           (broadcast_lighting_event network_id application_id group_id ''off'' source_addr))
     | _ \<Rightarrow> araise IndexError)"

definition handle_lighting_ramp :: "int \<Rightarrow> bool \<Rightarrow> string list \<Rightarrow> unit session_act" where
  "handle_lighting_ramp now confirm_flag groups =
     abind (alift (py_ints groups)) (\<lambda>args. case args of
       [source_addr, network_id, application_id, group_id, duration] \<Rightarrow>
         (let level = 128 in
          abind (set_level now network_id application_id group_id level) (\<lambda>success.
          athen (confirm_if confirm_flag success)
            (broadcast_lighting_event network_id application_id group_id (''ramp:'' @ py_str level) source_addr)))
     | _ \<Rightarrow> araise IndexError)"

definition handle_status_request :: "bool \<Rightarrow> string list \<Rightarrow> unit session_act" where
  "handle_status_request confirm_flag groups =
     abind (alift (py_ints groups)) (\<lambda>args. case args of
       [source_addr, network_id, application_id, group_id] \<Rightarrow>
         (\<lambda>x. let level = sim_get_group_level network_id application_id group_id (x_state x) in
            athen (confirm_if confirm_flag True) (send_status_response network_id application_id group_id level) x)
     | _ \<Rightarrow> araise IndexError)"

definition handle_clock_update :: "bool \<Rightarrow> string list \<Rightarrow> unit session_act" where
  "handle_clock_update confirm_flag groups =
     abind (alift (py_ints groups)) (\<lambda>_. confirm_if confirm_flag True)"

definition handle_identify :: "bool \<Rightarrow> string list \<Rightarrow> unit session_act" where
  "handle_identify confirm_flag groups =
     abind (alift (py_ints groups)) (\<lambda>args. case args of
       [source_addr, network_id, unit_address, attribute] \<Rightarrow>
         athen (confirm_if confirm_flag True) (send_identify_response network_id unit_address attribute)
     | _ \<Rightarrow> araise IndexError)"

definition handle_mmi_request :: "bool \<Rightarrow> string list \<Rightarrow> unit session_act" where
  "handle_mmi_request confirm_flag groups =
     abind (alift (py_ints groups)) (\<lambda>_. confirm_if confirm_flag True)"

definition process_command :: "int \<Rightarrow> string \<Rightarrow> unit session_act" where
  "process_command now cmd =
     (if cmd = ''~~~'' then handle_reset now
      else if cmd = ''X'' then handle_basic_mode
      else if cmd = ''Y'' then handle_smart_mode
      else case match_command LIGHTING_ON_PATTERN cmd of Some (flag, gs) \<Rightarrow> handle_lighting_on now flag gs | None \<Rightarrow>
      case match_command LIGHTING_OFF_PATTERN cmd of Some (flag, gs) \<Rightarrow> handle_lighting_off now flag gs | None \<Rightarrow>
      case match_command LIGHTING_RAMP_PATTERN cmd of Some (flag, gs) \<Rightarrow> handle_lighting_ramp now flag gs | None \<Rightarrow>
      case match_command STATUS_REQUEST_PATTERN cmd of Some (flag, gs) \<Rightarrow> handle_status_request flag gs | None \<Rightarrow>
      case match_command CLOCK_UPDATE_PATTERN cmd of Some (flag, gs) \<Rightarrow> handle_clock_update flag gs | None \<Rightarrow>
      case match_command IDENTIFY_PATTERN cmd of Some (flag, gs) \<Rightarrow> handle_identify flag gs | None \<Rightarrow>
      case match_command MMI_REQUEST_PATTERN cmd of Some (flag, gs) \<Rightarrow> handle_mmi_request flag gs | None \<Rightarrow>
      sim_send_error ''Unknown command'' cmd)"

section \<open>Binary commands\<close>

text \<open>\<open>data.decode('ascii', errors='ignore')\<close>.\<close>

definition decode_ignore :: "bytes \<Rightarrow> string" where
  "decode_ignore data = map (\<lambda>b. char_of (unat b)) (filter (\<lambda>b. b < 128) data)"

text \<open>Two characters of a string read as hex, with a default when they are missing or are not hex.\<close>

definition hex_at :: "string \<Rightarrow> nat \<Rightarrow> int \<Rightarrow> int" where
  "hex_at s i d =
     (if length s \<ge> i + 2 then (case py_int16 (take 2 (drop i s)) of Inr n \<Rightarrow> n | Inl _ \<Rightarrow> d) else d)"

text \<open>A lighting command in text form: the response, or \<open>None\<close> when this is not one.\<close>

definition string_lighting :: "int \<Rightarrow> string \<Rightarrow> bytes \<Rightarrow> bytes option session_act" where
  "string_lighting now ascii_str data =
     (case find_sub (CHR 0x5C # ''05'') ascii_str of
        None \<Rightarrow> areturn None
      | Some p \<Rightarrow>
          let cmd_type_pos = p + 3 in
          if \<not> length ascii_str \<ge> cmd_type_pos + 2 then areturn None
          else case py_int16 (take 2 (drop cmd_type_pos ascii_str)) of
            Inl _ \<Rightarrow> areturn None
          | Inr cmd_type \<Rightarrow>
              if cmd_type = 0x38 \<or> cmd_type = 0xFF
              then let group_addr = hex_at ascii_str (cmd_type_pos + 4) 1;
                       level = hex_at ascii_str (cmd_type_pos + 6) 255 in
                   athen (set_level now 254 56 group_addr level)
                     (if data \<noteq> [] \<and> last data \<in> set SIM_CONFIRMATION_CODES
                      then athen (sim_write ([last data] @ ascii ''.'' @ SIM_END_COMMAND))
                             (athen send_prompt (areturn (Some [])))
                      else areturn (Some [0x05, 0x86, 0, 1, 0, 0, 0, 1, 0]))
              else areturn None)"

text \<open>Data in binary form. The variable \<open>cmd_type\<close> is still 0 where the code asks for 0x38.\<close>

definition binary_lighting :: "int \<Rightarrow> bytes \<Rightarrow> bytes session_act" where
  "binary_lighting now data =
     (if data \<noteq> []
      then if data ! 0 = 0x05
        then let cmd_type = (if length data > 1 then data ! 1 else 0) in
          if cmd_type = 0xDF then areturn [0x05, 0x86, 0, 2, 0, 0, 0, 0, 0]
          else athen
            (if cmd_type = 0xFF \<and> length data \<ge> 6 \<and> data ! 3 = 56 \<and> length data > 6 \<and> data ! 4 = 0x38
             then athen (set_level now 254 56 (uint (data ! 5)) (uint (data ! 6))) (areturn ()) else areturn ())
            (areturn ([0x05, 0x86, 0, 1, 0, 0, 0, 1] @ [last data]))
        else let cmd_type = (0 :: byte) in
          if cmd_type = 0x38
          then athen (set_level now 254 56 (if length data > 4 then uint (data ! 4) else 1) 255)
            (areturn [0x05, 0x86, 0, 1, 0, 0, 0, 1, 0])
          else areturn [0x05, 0x86, 0, 1, 0, 0, 0, 0, 0]
      else case find_sub [0x38] data of
        Some idx \<Rightarrow>
          athen (set_level now 254 56 (if length data > idx + 2 then uint (data ! (idx + 2)) else 1) 255)
            (areturn [0x05, 0x86, 0, 1, 0, 0, 0, 0, 0])
      | None \<Rightarrow> areturn [0x05, 0x86, 0, 1, 0, 0, 0, 0, 0])"

definition handle_binary_command :: "int \<Rightarrow> bool \<Rightarrow> bytes \<Rightarrow> bytes session_act" where
  "handle_binary_command now is_bytes data =
     (let ascii_str = decode_ignore data;
          encoded = find_sub (CHR 0x5C # ''05'') ascii_str \<noteq> None;
          pre = preprocess_cbus_data is_bytes data;
          data = (if encoded \<and> pre \<noteq> [] \<and> pre ! 0 = 0x05 then pre else data) in
      abind (if encoded then string_lighting now ascii_str data else areturn None) (\<lambda>response.
        case response of Some r \<Rightarrow> areturn r | None \<Rightarrow> binary_lighting now data))"

section \<open>Framing\<close>

text \<open>The next command and what is left: a carriage return and line feed anywhere in the buffer go first.\<close>

definition next_command :: "bytes \<Rightarrow> (bytes \<times> bytes) option" where
  "next_command buf =
     (case find_sub SIM_END_COMMAND buf of
        Some cmd_end \<Rightarrow> Some (take cmd_end buf, drop (cmd_end + 2) buf)
      | None \<Rightarrow>
          (case find_sub [0x0D] buf of
             Some cmd_end \<Rightarrow> Some (take cmd_end buf, drop (cmd_end + 1) buf)
           | None \<Rightarrow> None))"

definition sim_text :: "int \<Rightarrow> bytes \<Rightarrow> unit session_act" where
  "sim_text now cmd_bytes =
     (let cmd = py_strip (decode_ignore cmd_bytes) in
      athen (\<lambda>x. update_state (log_command now cmd (Some (x_client_id x))) x)
      (athen (\<lambda>x. awhen (\<not> x_smart_mode x) (abind (alift (encode_ascii cmd)) (\<lambda>bs. sim_write (bs @ SIM_END_COMMAND))) x)
        (process_command now cmd)))"

definition sim_command :: "int \<Rightarrow> bytes \<Rightarrow> unit session_act" where
  "sim_command now cmd_bytes =
     (if cmd_bytes = [] then areturn ()
      else if starts_with [0x5C] cmd_bytes
      then abind (handle_binary_command now False (preprocess_cbus_data False cmd_bytes)) sim_write
      else sim_text now cmd_bytes)"

lemma next_command_shorter: "next_command buf = Some (cmd, rest) \<Longrightarrow> length rest < length buf"
  by (cases buf) (auto simp: next_command_def SIM_END_COMMAND_def split: option.splits if_splits)

function sim_commands :: "int \<Rightarrow> bytes \<Rightarrow> unit session_act" where
  "sim_commands now buf =
     (case next_command buf of
        None \<Rightarrow> areturn ()
      | Some (cmd, rest) \<Rightarrow>
          athen (amodify (\<lambda>x. x\<lparr>x_buffer := rest\<rparr>)) (athen (sim_command now cmd) (sim_commands now rest)))"
  by pat_completeness auto
termination
  by (relation "measure (\<lambda>(now, buf). length buf)") (auto dest!: next_command_shorter)

declare sim_commands.simps [simp del]

definition sim_process_buffer :: "int \<Rightarrow> unit session_act" where
  "sim_process_buffer now x = sim_commands now (x_buffer x) x"

text \<open>One read of the loop of \<open>process_client\<close>; an exception ends the loop.\<close>

definition sim_read :: "int \<Rightarrow> bytes \<Rightarrow> unit session_act" where
  "sim_read now data = athen (amodify (\<lambda>x. x\<lparr>x_buffer := x_buffer x @ data\<rparr>)) (sim_process_buffer now)"

section \<open>The server\<close>

text \<open>
  \<open>server.py\<close>: sessions over one installation. Every connection gets a session that begins with a
  prompt; a session that raises or whose client hangs up is removed.
\<close>

record sim_server =
  v_state :: simulator
  v_clients :: "(nat \<times> sim_session) list"

definition new_CBusSimulatorServer :: "int \<Rightarrow> sim_config option \<Rightarrow> sim_server" where
  "new_CBusSimulatorServer now cfg =
     \<lparr>v_state = (case cfg of Some c \<Rightarrow> apply_configuration now c (new_SimulatorState now) | None \<Rightarrow> new_SimulatorState now),
      v_clients = []\<rparr>"

definition client_connects :: "int \<Rightarrow> nat \<Rightarrow> string \<Rightarrow> sim_server \<Rightarrow> sim_server" where
  "client_connects now i client_id v =
     v\<lparr>v_clients := v_clients v @ [(i, snd (send_prompt (new_PCISimulatorProtocol now client_id (v_state v))))]\<rparr>"

definition client_sends :: "int \<Rightarrow> nat \<Rightarrow> bytes \<Rightarrow> sim_server \<Rightarrow> sim_server" where
  "client_sends now i data v =
     (case map_of (v_clients v) i of
        None \<Rightarrow> v
      | Some x \<Rightarrow>
          (case sim_read now data (x\<lparr>x_state := v_state v\<rparr>) of
             (Inr _, x') \<Rightarrow> v\<lparr>v_state := x_state x', v_clients := AList.update i x' (v_clients v)\<rparr>
           | (Inl _, x') \<Rightarrow> v\<lparr>v_state := x_state x', v_clients := AList.delete i (v_clients v)\<rparr>))"

definition client_closes :: "nat \<Rightarrow> sim_server \<Rightarrow> sim_server" where
  "client_closes i v = v\<lparr>v_clients := AList.delete i (v_clients v)\<rparr>"

inductive server_step :: "sim_server \<Rightarrow> sim_server \<Rightarrow> bool" where
  connect: "i \<notin> fst ` set (v_clients v) \<Longrightarrow> server_step v (client_connects now i client_id v)"
| sends: "data \<noteq> [] \<Longrightarrow> server_step v (client_sends now i data v)"
| close: "server_step v (client_closes i v)"

section \<open>What every command keeps\<close>

text \<open>
  The invariant of a session over an installation \<open>st\<close>: levels in range, history bounded, the same
  installation as \<open>st\<close>, and a confirmation index that names a code.
\<close>

definition session_ok :: "simulator \<Rightarrow> sim_session \<Rightarrow> bool" where
  "session_ok st x \<longleftrightarrow> sim_ok (x_state x) \<and> same_installation st (x_state x) \<and>
     x_confirmation_index x < length SIM_CONFIRMATION_CODES"

lemma session_write [intro]: "keeps (session_ok st) (sim_write data)"
  unfolding sim_write_def by (rule keeps_modify) (simp add: session_ok_def)

lemma session_write_text [intro]: "keeps (session_ok st) (sim_write_text s)"
  unfolding sim_write_text_def by (intro keeps_bind keeps_lift session_write)

lemma session_state:
  assumes "\<And>s. sim_ok s \<Longrightarrow> sim_ok (f s)" "\<And>s. same_installation s (f s)"
  shows "keeps (session_ok st) (update_state f)"
  unfolding update_state_def
  by (rule keeps_modify) (use assms same_installation_trans in \<open>auto simp: session_ok_def\<close>)

lemma session_level [intro]: "keeps (session_ok st) (set_level now n a g l)"
proof -
  have "session_ok st (x\<lparr>x_state := snd (sim_set_group_level now n a g l (x_state x))\<rparr>)" if "session_ok st x" for x
    using that set_level_ok [of "x_state x" now n a g l]
      same_installation_trans [OF _ set_level_installation [of "x_state x" now n a g l]]
    by (simp add: session_ok_def)
  then show ?thesis by (simp add: keeps_iff set_level_def case_prod_unfold Let_def)
qed

lemma session_prompt [intro]: "keeps (session_ok st) send_prompt"
  using session_write unfolding keeps_iff by (simp add: send_prompt_def)

lemma codes_length: "length SIM_CONFIRMATION_CODES = 20"
  by (simp add: SIM_CONFIRMATION_CODES_def ascii_def)

lemma session_code [intro]: "keeps (session_ok st) next_confirmation_code"
  by (simp add: keeps_iff next_confirmation_code_def session_ok_def codes_length)

lemma session_confirm [intro]: "keeps (session_ok st) (confirm_if f s)"
  unfolding confirm_if_def sim_send_confirmation_def by (intro keeps_when keeps_bind keeps_then session_code session_write session_prompt)

lemma session_broadcast [intro]: "keeps (session_ok st) (broadcast_lighting_event n a g ev src)"
  by (auto simp: broadcast_lighting_event_def Let_def)

lemma session_status [intro]: "keeps (session_ok st) (send_status_response n a g l)"
  using session_write_text by (auto simp: keeps_iff send_status_response_def Let_def)

lemma session_identify [intro]: "keeps (session_ok st) (send_identify_response n u a)"
  using session_write_text by (auto simp: keeps_iff send_identify_response_def Let_def)

lemma keeps_raise [intro]: "keeps I (araise e)"
  by (simp add: keeps_iff araise_def)

lemma session_reset: "keeps (session_ok st) (update_state (sim_reset now))"
  by (rule session_state) (simp_all add: reset_ok reset_installation)

lemma session_log: "keeps (session_ok st) (\<lambda>x. update_state (log_command now cmd (Some (x_client_id x))) x)"
  by (rule keeps_get, rule session_state) (simp_all add: log_command_ok log_command_installation)

lemma session_error [intro]: "keeps (session_ok st) (sim_send_error e cmd)"
  unfolding sim_send_error_def
  by (intro keeps_then session_state session_write_text session_prompt)
    (simp_all add: sim_ok_def levels_ok_def same_installation_def layout_def)

lemma session_status_level [intro]:
  "keeps (session_ok st) (\<lambda>x. athen (confirm_if f True) (send_status_response n a g (sim_get_group_level n a g (x_state x))) x)"
  by (rule keeps_get [where m = "\<lambda>y. athen (confirm_if f True) (send_status_response n a g (sim_get_group_level n a g (x_state y)))"])
    auto

lemma session_process [intro]: "keeps (session_ok st) (process_command now cmd)"
proof -
  have mode: "keeps (session_ok st) (amodify (\<lambda>x. x\<lparr>x_smart_mode := b\<rparr>))" for b
    by (rule keeps_modify) (simp add: session_ok_def)
  have "keeps (session_ok st) (handle_reset now)" "keeps (session_ok st) handle_basic_mode" "keeps (session_ok st) handle_smart_mode"
    unfolding handle_reset_def handle_basic_mode_def handle_smart_mode_def using session_reset mode by auto
  moreover have "keeps (session_ok st) (handle_lighting_on now f gs)" "keeps (session_ok st) (handle_lighting_off now f gs)"
      "keeps (session_ok st) (handle_lighting_ramp now f gs)" "keeps (session_ok st) (handle_identify f gs)"
      "keeps (session_ok st) (handle_clock_update f gs)" "keeps (session_ok st) (handle_mmi_request f gs)" for f gs
    unfolding handle_lighting_on_def handle_lighting_off_def handle_lighting_ramp_def handle_identify_def
      handle_clock_update_def handle_mmi_request_def Let_def
    by (intro keeps_bind keeps_lift; auto split: list.split)+
  moreover have "keeps (session_ok st) (handle_status_request f gs)" for f gs
    unfolding handle_status_request_def Let_def
    by (intro keeps_bind keeps_lift) (auto split: list.split)
  ultimately show ?thesis
    unfolding process_command_def by (auto split: option.split)
qed

lemma session_binary [intro]: "keeps (session_ok st) (handle_binary_command now b data)"
proof -
  have "keeps (session_ok st) (string_lighting now s d)" for s d
    unfolding string_lighting_def Let_def by (auto split: option.split sum.split)
  moreover have "keeps (session_ok st) (binary_lighting now d)" for d
    unfolding binary_lighting_def Let_def by (auto split: option.split)
  ultimately show ?thesis unfolding handle_binary_command_def Let_def
    by (intro keeps_bind) (auto split: option.split)
qed

lemma session_command: "keeps (session_ok st) (sim_command now cmd)"
proof -
  have echo: "keeps (session_ok st) (\<lambda>x. awhen (\<not> x_smart_mode x) (abind (alift r) (\<lambda>bs. sim_write (bs @ SIM_END_COMMAND))) x)" for r
    by (rule keeps_get [where m = "\<lambda>y. awhen (\<not> x_smart_mode y) (abind (alift r) (\<lambda>bs. sim_write (bs @ SIM_END_COMMAND)))"]) auto
  have "keeps (session_ok st) (sim_text now cmd)"
    unfolding sim_text_def Let_def by (intro keeps_then session_log echo session_process)
  then show ?thesis unfolding sim_command_def by auto
qed

lemma session_commands: "keeps (session_ok st) (sim_commands now buf)"
proof (induction buf rule: measure_induct_rule [of length])
  case (less buf)
  have buffer: "keeps (session_ok st) (amodify (\<lambda>x. x\<lparr>x_buffer := rest\<rparr>))" for rest
    by (rule keeps_modify) (simp add: session_ok_def)
  show ?case
  proof (cases "next_command buf")
    case None
    then show ?thesis unfolding sim_commands.simps [of now buf] by auto
  next
    case (Some p)
    then obtain cmd rest where p: "next_command buf = Some (cmd, rest)" by (cases p) auto
    then have "keeps (session_ok st) (sim_commands now rest)" using less next_command_shorter by blast
    then show ?thesis
      unfolding sim_commands.simps [of now buf] p option.case prod.case
      by (intro keeps_then buffer session_command)
  qed
qed

lemma session_read: "session_ok st x \<Longrightarrow> session_ok st (snd (sim_read now data x))"
  using session_commands [of st now] unfolding sim_read_def sim_process_buffer_def keeps_iff
  by (simp add: act_simps session_ok_def)

definition server_ok :: "simulator \<Rightarrow> sim_server \<Rightarrow> bool" where
  "server_ok st v \<longleftrightarrow> sim_ok (v_state v) \<and> same_installation st (v_state v) \<and>
     list_all (\<lambda>(_, x). x_confirmation_index x < length SIM_CONFIRMATION_CODES) (v_clients v)"

lemma list_all_delete: "list_all P xs \<Longrightarrow> list_all P (AList.delete k xs)"
  by (induction xs) auto

lemma server_ok_session:
  assumes "server_ok st v" "map_of (v_clients v) i = Some x"
  shows "session_ok st (x\<lparr>x_state := v_state v\<rparr>)"
  using assms by (auto simp: server_ok_def session_ok_def list_all_iff dest: map_of_SomeD)

lemma server_ok_sends: "server_ok st v \<Longrightarrow> server_ok st (client_sends now i data v)"
proof (cases "map_of (v_clients v) i")
  case (Some x)
  assume ok: "server_ok st v"
  obtain r x' where run: "sim_read now data (x\<lparr>x_state := v_state v\<rparr>) = (r, x')" by fastforce
  have "session_ok st x'" using session_read [OF server_ok_session [OF ok Some], of now data] run by simp
  then show ?thesis using ok Some run
    by (cases r) (auto simp: client_sends_def server_ok_def session_ok_def intro!: list_all_update list_all_delete)
qed (simp add: client_sends_def)

lemma server_step_ok: "server_step v v' \<Longrightarrow> server_ok st v \<Longrightarrow> server_ok st v'"
proof (induction rule: server_step.induct)
  case (connect i v now client_id)
  have "x_confirmation_index (snd (send_prompt x)) = x_confirmation_index x" for x
    by (simp add: send_prompt_def sim_write_def act_simps)
  then show ?case using connect codes_length
    by (simp add: server_ok_def client_connects_def new_PCISimulatorProtocol_def)
next
  case (close v i)
  then show ?case by (simp add: server_ok_def client_closes_def list_all_delete)
qed (simp add: server_ok_sends)

text \<open>
  C24: Whatever any number of clients connect, send and disconnect, in any order, the server
  keeps its installation: the networks, applications, groups and units with their names, the device
  data and the settings never change, every level stays in 0..255, the history never exceeds a
  hundred entries, and every session's confirmation index names one of the twenty codes.
\<close>

theorem server_invariant:
  assumes "server_step\<^sup>*\<^sup>* v v'" "sim_ok (v_state v)" "v_clients v = []"
  shows "server_ok (v_state v) v'"
  using assms(1)
proof (induction rule: rtranclp_induct)
  case base
  then show ?case using assms(2,3) by (simp add: server_ok_def)
qed (rule server_step_ok)

theorem server_invariant_witness:
  "server_ok (new_SimulatorState 0)
     (client_sends 1 0 (ascii ''junk'' @ SIM_END_COMMAND) (client_connects 0 0 ''c'' (new_CBusSimulatorServer 0 None)))"
proof -
  let ?v = "new_CBusSimulatorServer 0 None"
  have "server_step ?v (client_connects 0 0 ''c'' ?v)"
    by (rule server_step.connect) (simp add: new_CBusSimulatorServer_def)
  moreover have "server_step (client_connects 0 0 ''c'' ?v)
      (client_sends 1 0 (ascii ''junk'' @ SIM_END_COMMAND) (client_connects 0 0 ''c'' ?v))"
    by (rule server_step.sends) (simp add: ascii_def)
  ultimately have "server_step\<^sup>*\<^sup>* ?v (client_sends 1 0 (ascii ''junk'' @ SIM_END_COMMAND) (client_connects 0 0 ''c'' ?v))"
    by simp
  moreover have "sim_ok (v_state ?v)"
    by (simp add: new_CBusSimulatorServer_def sim_ok_def levels_ok_def new_SimulatorState_def level_in_range_def)
  ultimately show ?thesis using server_invariant [of ?v] by (simp add: new_CBusSimulatorServer_def)
qed

section \<open>Text commands\<close>

text \<open>A line a client types: printable characters without blanks.\<close>

definition printable_char :: "char \<Rightarrow> bool" where
  "printable_char c \<longleftrightarrow> 32 < (of_char c :: nat) \<and> of_char c < (127 :: nat)"

definition printable :: "string \<Rightarrow> bool" where
  "printable cmd \<longleftrightarrow> list_all printable_char cmd"

lemma printable_simps [simp]:
  "printable []"
  "printable (c # s) \<longleftrightarrow> printable_char c \<and> printable s"
  "printable (s @ t) \<longleftrightarrow> printable s \<and> printable t"
  by (simp_all add: printable_def)

lemma printable_chars [simp]:
  "printable_char CHR ''#''" "printable_char CHR ''/''" "printable_char CHR ''A''" "printable_char CHR ''N''"
  "printable_char CHR ''F''" "printable_char CHR ''G''" "printable_char CHR ''L''" "printable_char CHR ''=''"
  by (simp_all add: printable_char_def)

lemma printable_digits: "all_digits s \<Longrightarrow> printable s"
  by (auto simp: all_digits_def printable_def printable_char_def list_all_iff digit_val_def Let_def split: if_splits)

lemma printable_str [simp]: "printable (py_str x)"
proof -
  have "printable (show_nat n)" for n using show_nat_digits [of n] printable_digits by blast
  then show ?thesis by (simp add: py_str_def printable_char_def)
qed

lemma decode_printable: "printable cmd \<Longrightarrow> decode_ignore (ascii cmd) = cmd"
proof (induction cmd)
  case (Cons c cs)
  have "of_char c < (128 :: nat)" using Cons.prems by (simp add: printable_char_def)
  then have "unat (word_of_nat (of_char c) :: byte) = of_char c"
    by (simp add: unsigned_of_nat take_bit_nat_eq_self)
  then have "unat (of_char c :: byte) = of_char c" by (simp only: of_nat_of_char)
  moreover from this and \<open>of_char c < 128\<close> have "(of_char c :: byte) < 128" by (simp add: word_less_nat_alt)
  ultimately show ?case using Cons by (simp add: decode_ignore_def ascii_def)
qed (simp add: decode_ignore_def ascii_def)

lemma strip_printable: "printable cmd \<Longrightarrow> py_strip cmd = cmd"
proof -
  have "dropWhile is_space t = t" if "printable t" for t
    using that by (cases t) (auto simp: printable_char_def is_space_def Let_def)
  moreover have "printable (rev cmd) = printable cmd" by (simp add: printable_def)
  moreover assume "printable cmd"
  ultimately show ?thesis by (simp add: py_strip_def)
qed

lemma printable_no_cr: "printable cmd \<Longrightarrow> 0x0D \<notin> set (ascii cmd)"
proof (induction cmd)
  case (Cons c cs)
  have "unat (word_of_nat (of_char c) :: byte) = of_char c" using Cons.prems
    by (simp add: unsigned_of_nat take_bit_nat_eq_self printable_char_def)
  then have "unat (of_char c :: byte) = of_char c" by (simp only: of_nat_of_char)
  moreover have "of_char c \<noteq> (13 :: nat)" using Cons.prems by (auto simp: printable_char_def)
  ultimately have "(0x0D :: byte) \<noteq> of_char c" by (auto simp: word_unat_eq_iff)
  then show ?case using Cons by (simp add: ascii_def)
qed (simp add: ascii_def)

lemma encode_printable: "printable cmd \<Longrightarrow> encode_ascii (cmd @ crlf) = Inr (ascii (cmd @ crlf))"
  by (auto simp: encode_ascii_def printable_def printable_char_def crlf_def list_all_iff)

lemma next_command_line:
  assumes "0x0D \<notin> set line"
  shows "next_command (line @ SIM_END_COMMAND @ rest) = Some (line, rest)"
  using find_sub_skip [OF assms, of "[0x0A]" rest] by (simp add: next_command_def SIM_END_COMMAND_def)

lemma athen_unit: "athen m (areturn ()) = m"
  by (rule ext) (auto simp: athen_def abind_def areturn_def split: prod.split sum.split)

lemma sim_commands_none: "next_command buf = None \<Longrightarrow> sim_commands now buf = areturn ()"
  by (simp add: sim_commands.simps [of now buf])

text \<open>A complete line read into an empty buffer in smart mode is logged and processed.\<close>

lemma sim_read_line:
  assumes "printable cmd" "cmd \<noteq> []" "hd cmd \<noteq> CHR 0x5C" "x_buffer x = []" "x_smart_mode x"
  shows "sim_read now (ascii (cmd @ crlf)) x =
    process_command now cmd (x\<lparr>x_state := log_command now cmd (Some (x_client_id x)) (x_state x)\<rparr>)"
proof -
  have line: "ascii (cmd @ crlf) = ascii cmd @ SIM_END_COMMAND @ []"
    by (simp add: ascii_def crlf_def SIM_END_COMMAND_def)
  have "next_command [] = None" by (simp add: next_command_def SIM_END_COMMAND_def)
  then have commands: "sim_commands now (ascii (cmd @ crlf)) =
      athen (amodify (\<lambda>x. x\<lparr>x_buffer := []\<rparr>)) (athen (sim_command now (ascii cmd)) (areturn ()))"
    unfolding line sim_commands.simps [of now "ascii cmd @ SIM_END_COMMAND @ []"]
      next_command_line [OF printable_no_cr [OF assms(1)]] by (simp add: sim_commands_none)
  have "(of_char (hd cmd) :: byte) \<noteq> 0x5C"
  proof
    assume "(of_char (hd cmd) :: byte) = 0x5C"
    moreover have "char_of (92 :: nat) = CHR 0x5C" by code_simp
    ultimately have "decode_ignore (ascii [hd cmd]) = [CHR 0x5C]" by (simp add: decode_ignore_def ascii_def)
    moreover have "printable [hd cmd]" using assms(1,2) by (cases cmd) auto
    ultimately show False using decode_printable [of "[hd cmd]"] assms(3) by simp
  qed
  then have "sim_command now (ascii cmd) = sim_text now (ascii cmd)"
    using assms(2) by (cases cmd) (auto simp: sim_command_def ascii_def)
  moreover have "sim_text now (ascii cmd) x =
      process_command now cmd (x\<lparr>x_state := log_command now cmd (Some (x_client_id x)) (x_state x)\<rparr>)"
    using assms(1,5) by (simp add: sim_text_def Let_def decode_printable strip_printable update_state_def act_simps)
  moreover have buf: "x\<lparr>x_buffer := []\<rparr> = x" using assms(4) by simp
  ultimately show ?thesis
    using assms(4) unfolding sim_read_def sim_process_buffer_def
    by (simp add: commands [unfolded athen_unit] athen_def abind_def amodify_def buf)
qed

text \<open>How clients address a group: \<open>[#]source//network A application X group\<close>.\<close>

definition group_command :: "bool \<Rightarrow> int \<Rightarrow> int \<Rightarrow> int \<Rightarrow> char \<Rightarrow> int \<Rightarrow> string" where
  "group_command flag src n a c g =
     (if flag then ''#'' else []) @ py_str src @ ''//'' @ py_str n @ ''A'' @ py_str a @ [c] @ py_str g"

lemma str_digits: "0 \<le> x \<Longrightarrow> all_digits (py_str x) \<and> py_str x \<noteq> [] \<and> hd (py_str x) \<noteq> CHR ''#''"
proof -
  assume "0 \<le> x"
  then have d: "all_digits (py_str x)" "py_str x \<noteq> []" using all_digits_formats show_nat_digits by (auto simp: py_str_def)
  have "digit_val CHR ''#'' = None" by (simp add: digit_val_def)
  with d show ?thesis by (cases "py_str x") (auto simp: all_digits_def)
qed

lemma not_digits: "\<not> is_digit CHR ''/''" "\<not> is_digit CHR ''A''"
  by (simp_all add: is_digit_def digit_val_def)

lemma match_digits_str:
  assumes "0 \<le> x" "s = [] \<or> \<not> is_digit (hd s)"
  shows "match_pieces (Digits # ps) (py_str x @ s) = map_option ((#) (py_str x)) (match_pieces ps s)"
  using match_digits_cons str_digits [OF assms(1)] assms(2) by blast

lemma match_group_command:
  assumes "0 \<le> src" "0 \<le> n" "0 \<le> a" "0 \<le> g" "\<not> is_digit c"
  shows "match_command (Digits # Lit ''//'' # Digits # Lit ''A'' # Digits # Lit [k] # Digits # ps) (group_command flag src n a c g) =
    (if k = c \<and> ps = [] then Some (flag, [py_str src, py_str n, py_str a, py_str g])
     else if k = c then map_option (\<lambda>cs. (flag, py_str src # py_str n # py_str a # py_str g # cs)) (match_pieces ps [])
     else None)"
proof -
  define t where "t = py_str src @ ''//'' @ py_str n @ ''A'' @ py_str a @ [c] @ py_str g"
  define q where "q = Digits # Lit ''//'' # Digits # Lit ''A'' # Digits # Lit [k] # Digits # ps"
  obtain d ds where src: "py_str src = d # ds" "d \<noteq> CHR ''#''" using str_digits [OF assms(1)] by (cases "py_str src") auto
  have "match_pieces (Digits # ps) (py_str g @ []) = map_option ((#) (py_str g)) (match_pieces ps [])"
    using assms(4) by (intro match_digits_str) simp_all
  then have "match_pieces q t =
      (if k = c then map_option (\<lambda>cs. py_str src # py_str n # py_str a # py_str g # cs) (match_pieces ps []) else None)"
    using assms not_digits
    by (simp add: q_def t_def match_digits_str option.map_comp o_def del: match_pieces.simps(3))
  moreover have "match_command q (group_command flag src n a c g) = map_option (Pair flag) (match_pieces q t)"
    using src by (simp add: match_command_def group_command_def t_def [symmetric]) (simp add: t_def)
  ultimately show ?thesis unfolding q_def by (auto simp: option.map_comp o_def)
qed

definition prompt :: "sim_session \<Rightarrow> bytes" where
  "prompt x = (if x_smart_mode x then ascii SMART_MODE_NO_ECHO @ SIM_END_COMMAND else BASIC_MODE_PROMPT)"

text \<open>What a session writes for the confirmation a command asked for.\<close>

definition confirmation_writes :: "bool \<Rightarrow> sim_session \<Rightarrow> bytes list" where
  "confirmation_writes flag x =
     (if flag then [[SIM_CONFIRMATION_CODES ! x_confirmation_index x, 0x2E, 0x0D, 0x0A], prompt x] else [])"

definition after_confirmation :: "bool \<Rightarrow> sim_session \<Rightarrow> sim_session" where
  "after_confirmation flag x = x\<lparr>x_confirmation_index :=
       (if flag then (x_confirmation_index x + 1) mod 20 else x_confirmation_index x),
     x_out := x_out x @ confirmation_writes flag x\<rparr>"

lemma confirm_if_run: "confirm_if flag True x = (Inr (), after_confirmation flag x)"
  by (simp add: confirm_if_def sim_send_confirmation_def next_confirmation_code_def send_prompt_def sim_write_def act_simps
      after_confirmation_def confirmation_writes_def prompt_def codes_length ascii_def SIM_END_COMMAND_def)

lemma after_confirmation_simps [simp]:
  "x_state (after_confirmation flag x) = x_state x"
  "x_source_address (after_confirmation flag x) = x_source_address x"
  "x_out (after_confirmation flag x) = x_out x @ confirmation_writes flag x"
  "x_buffer (after_confirmation flag x) = x_buffer x"
  "x_smart_mode (after_confirmation flag x) = x_smart_mode x"
  by (simp_all add: after_confirmation_def)

lemma write_printable: "printable s \<Longrightarrow> sim_write_text (s @ crlf) x = (Inr (), x\<lparr>x_out := x_out x @ [ascii (s @ crlf)]\<rparr>)"
  by (simp add: sim_write_text_def encode_printable alift_def sim_write_def act_simps)

lemma set_level_run:
  "set_level now n a g l x = (Inr True, x\<lparr>x_state := snd (sim_set_group_level now n a g l (x_state x))\<rparr>)"
  by (simp add: set_level_def sim_set_group_level_def Let_def)

text \<open>The lines of the simulator about a group.\<close>

lemma printable_group_command: "printable_char c \<Longrightarrow> printable (group_command flag src n a c g)"
  by (simp add: group_command_def)

definition group_ids_ok :: "int \<Rightarrow> int \<Rightarrow> int \<Rightarrow> int \<Rightarrow> bool" where
  "group_ids_ok src n a g \<longleftrightarrow> list_all (\<lambda>x. 0 \<le> x \<and> x < 1000) [src, n, a, g]"

lemma not_specials: "group_command flag src n a c g \<notin> {''~~~'', ''X'', ''Y''}" if "0 \<le> src"
proof -
  have "CHR ''/'' \<in> set (group_command flag src n a c g)" by (simp add: group_command_def)
  then show ?thesis by auto
qed

lemma commands_not_digits: "\<not> is_digit CHR ''N''" "\<not> is_digit CHR ''F''" "\<not> is_digit CHR ''G''"
  by (simp_all add: is_digit_def digit_val_def)

lemmas pattern_defs = LIGHTING_ON_PATTERN_def LIGHTING_OFF_PATTERN_def LIGHTING_RAMP_PATTERN_def STATUS_REQUEST_PATTERN_def

lemma process_switch:
  assumes "group_ids_ok src n a g"
  shows "process_command now (group_command flag src n a (if on then CHR ''N'' else CHR ''F'') g) x =
    (Inr (), (after_confirmation flag (x\<lparr>x_state := snd (sim_set_group_level now n a g (if on then 255 else 0) (x_state x))\<rparr>))
       \<lparr>x_out := x_out x @ confirmation_writes flag x @
          [ascii (group_command False src n a (if on then CHR ''N'' else CHR ''F'') g @ crlf)]\<rparr>)"
proof -
  let ?c = "if on then CHR ''N'' else CHR ''F''"
  have nn: "0 \<le> src" "0 \<le> n" "0 \<le> a" "0 \<le> g" using assms by (simp_all add: group_ids_ok_def)
  have ints: "py_int (py_str src) = Inr src" "py_int (py_str n) = Inr n" "py_int (py_str a) = Inr a" "py_int (py_str g) = Inr g"
    using assms by (simp_all add: group_ids_ok_def py_int_formats)
  have conf: "confirmation_writes flag (x\<lparr>x_state := st\<rparr>) = confirmation_writes flag x" for st
    by (simp add: confirmation_writes_def prompt_def)
  have cmd: "process_command now (group_command flag src n a ?c g) x =
      (if on then handle_lighting_on now flag [py_str src, py_str n, py_str a, py_str g]
       else handle_lighting_off now flag [py_str src, py_str n, py_str a, py_str g]) x"
    using not_specials [OF nn(1)] nn commands_not_digits
    by (auto simp: process_command_def pattern_defs match_group_command)
  have out: "printable (group_command False src n a ?c g)" by (intro printable_group_command) simp
  have line: "group_command False src n a c g @ crlf = py_str src @ ''//'' @ py_str n @ ''A'' @ py_str a @ c # py_str g @ crlf" for c
    by (simp add: group_command_def)
  show ?thesis
    unfolding cmd using write_printable [OF out]
    by (cases on) (simp_all add: handle_lighting_on_def handle_lighting_off_def ints alift_def act_simps set_level_run
        confirm_if_run broadcast_lighting_event_def line conf)
qed

definition status_reply :: "int \<Rightarrow> int \<Rightarrow> int \<Rightarrow> int \<Rightarrow> int \<Rightarrow> string" where
  "status_reply src n a g level =
     (if level = 0 then group_command False src n a CHR ''F'' g
      else if level = 255 then group_command False src n a CHR ''N'' g
      else group_command False src n a CHR ''L'' g @ ''='' @ py_str level)"

lemma process_query:
  assumes "group_ids_ok src n a g"
  shows "process_command now (group_command flag src n a CHR ''G'' g) x =
    (Inr (), (after_confirmation flag x)\<lparr>x_out := x_out x @ confirmation_writes flag x @
       [ascii (status_reply (x_source_address x) n a g (sim_get_group_level n a g (x_state x)) @ crlf)]\<rparr>)"
proof -
  have nn: "0 \<le> src" "0 \<le> n" "0 \<le> a" "0 \<le> g" using assms by (simp_all add: group_ids_ok_def)
  have ints: "py_int (py_str src) = Inr src" "py_int (py_str n) = Inr n" "py_int (py_str a) = Inr a" "py_int (py_str g) = Inr g"
    using assms by (simp_all add: group_ids_ok_def py_int_formats)
  have cmd: "process_command now (group_command flag src n a CHR ''G'' g) x =
      handle_status_request flag [py_str src, py_str n, py_str a, py_str g] x"
    using not_specials [OF nn(1)] nn commands_not_digits
    by (auto simp: process_command_def pattern_defs match_group_command)
  have out: "printable (status_reply s n a g l)" for s l
    by (simp add: status_reply_def group_command_def)
  have line: "send_status_response n a g l y = sim_write_text (status_reply (x_source_address y) n a g l @ crlf) y" for l y
    by (simp add: send_status_response_def status_reply_def group_command_def)
  show ?thesis
    unfolding cmd
    by (simp add: handle_status_request_def ints alift_def act_simps confirm_if_run line write_printable [OF out] Let_def)
qed

text \<open>
  C25: Client \<open>i\<close> switches a group with a text command and client \<open>j\<close> then asks for the
  group's status. When \<open>i\<close> asked for a confirmation it gets one: the next letter of its cycle
  \<open>hijklmnopqrstuvwxyzg\<close>, then a full stop, CR and LF, and its prompt. (The simulator's protocol and
  testing documents show a full stop followed by a hexadecimal code from 80 to FF, as in \<open>.81+\<close>; its
  README shows the letter first, as the code has it.) Then \<open>i\<close> gets an echo of the event, and \<open>j\<close>
  is told the group is on or off as \<open>i\<close> set it, provided the group exists, and that it is off
  otherwise.
\<close>

theorem switch_then_query:
  assumes ids: "group_ids_ok src n a g" "group_ids_ok src' n a g"
    and clients: "map_of (v_clients v) i = Some x" "map_of (v_clients v) j = Some y" "i \<noteq> j"
    and ready: "x_buffer x = []" "x_smart_mode x" "x_buffer y = []" "x_smart_mode y"
  shows "let c = (if on then CHR ''N'' else CHR ''F'');
      v\<^sub>1 = client_sends t i (ascii (group_command flag src n a c g @ crlf)) v;
      v\<^sub>2 = client_sends t' j (ascii (group_command False src' n a CHR ''G'' g @ crlf)) v\<^sub>1 in
    map_option x_out (map_of (v_clients v\<^sub>2) i) =
      Some (x_out x @ confirmation_writes flag x @ [ascii (group_command False src n a c g @ crlf)]) \<and>
    map_option x_out (map_of (v_clients v\<^sub>2) j) =
      Some (x_out y @ [ascii (group_command False (x_source_address y) n a
        (if on \<and> find_group n a g (v_state v) \<noteq> None then CHR ''N'' else CHR ''F'') g @ crlf)])"
proof -
  define c where "c = (if on then CHR ''N'' else CHR ''F'')"
  define v\<^sub>1 where "v\<^sub>1 = client_sends t i (ascii (group_command flag src n a c g @ crlf)) v"
  define v\<^sub>2 where "v\<^sub>2 = client_sends t' j (ascii (group_command False src' n a CHR ''G'' g @ crlf)) v\<^sub>1"
  have hist: "find_group p q r (log_command t cmd s st) = find_group p q r st" for p q r t cmd s st
    by (simp add: find_group_def log_command_def Let_def)
  then have hist': "sim_get_group_level p q r (log_command t cmd s st) = sim_get_group_level p q r st" for p q r t cmd s st
    by (simp add: sim_get_group_level_def)
  have conf: "confirmation_writes f (x\<lparr>x_state := st\<rparr>) = confirmation_writes f x" for f st and x :: sim_session
    by (simp add: confirmation_writes_def prompt_def)
  have start: "hd (group_command f s n a k g) \<noteq> CHR 0x5C" "group_command f s n a k g \<noteq> []" if "0 \<le> s" for f s k
  proof -
    have "digit_val CHR 0x5C = None" by (simp add: digit_val_def)
    then show "hd (group_command f s n a k g) \<noteq> CHR 0x5C"
      using str_digits [OF that] by (cases "py_str s") (auto simp: group_command_def all_digits_def)
  qed (simp add: group_command_def)
  have src: "0 \<le> src" "0 \<le> src'" using ids by (simp_all add: group_ids_ok_def)
  define st where "st = snd (sim_set_group_level t n a g (if on then 255 else 0)
    (log_command t (group_command flag src n a c g) (Some (x_client_id x)) (v_state v)))"
  have v1: "v_state v\<^sub>1 = st" "map_of (v_clients v\<^sub>1) j = Some y"
      "map_option x_out (map_of (v_clients v\<^sub>1) i) =
        Some (x_out x @ confirmation_writes flag x @ [ascii (group_command False src n a c g @ crlf)])"
    using clients ready start [OF src(1)] ids(1)
    by (simp_all add: v\<^sub>1_def client_sends_def sim_read_line printable_group_command c_def process_switch st_def update_conv' conf)
  have level: "sim_get_group_level n a g st = (if on \<and> find_group n a g (v_state v) \<noteq> None then 255 else 0)"
    by (auto simp: st_def level_after_write hist hist' level_unknown)
  have "map_option x_out (map_of (v_clients v\<^sub>2) i) = map_option x_out (map_of (v_clients v\<^sub>1) i)"
    using v1(2) ready(3,4) start [OF src(2)] ids(2) clients(3)
    by (simp add: v\<^sub>2_def client_sends_def sim_read_line printable_group_command process_query update_conv')
  moreover have "map_option x_out (map_of (v_clients v\<^sub>2) j) =
      Some (x_out y @ [ascii (status_reply (x_source_address y) n a g (sim_get_group_level n a g st) @ crlf)])"
    using v1 ready(3,4) start [OF src(2)] ids(2)
    by (simp add: v\<^sub>2_def client_sends_def sim_read_line printable_group_command process_query update_conv' hist' confirmation_writes_def)
  moreover have "status_reply s n a g (sim_get_group_level n a g st) = group_command False s n a
      (if on \<and> find_group n a g (v_state v) \<noteq> None then CHR ''N'' else CHR ''F'') g" for s
    unfolding level status_reply_def by auto
  ultimately show ?thesis using v1(3)
    unfolding Let_def c_def [symmetric] v\<^sub>1_def [symmetric] v\<^sub>2_def [symmetric] by simp
qed

theorem switch_then_query_witness:
  "map_option x_out (map_of (v_clients (client_sends 2 1 (ascii (group_command False 9 254 56 CHR ''G'' 3 @ crlf))
     (client_sends 1 0 (ascii (group_command True 5 254 56 CHR ''N'' 3 @ crlf))
       (client_connects 0 1 ''d'' (client_connects 0 0 ''c'' (new_CBusSimulatorServer 0 None)))))) 1) =
   Some [ascii ''+'' @ SIM_END_COMMAND, ascii (group_command False 5 254 56 CHR ''N'' 3 @ crlf)]"
proof -
  let ?v = "client_connects 0 1 ''d'' (client_connects 0 0 ''c'' (new_CBusSimulatorServer 0 None))"
  let ?x = "\<lambda>c. (new_PCISimulatorProtocol 0 c (new_SimulatorState 0))\<lparr>x_out := [ascii ''+'' @ SIM_END_COMMAND]\<rparr>"
  have "snd (send_prompt (new_PCISimulatorProtocol 0 c (new_SimulatorState 0))) = ?x c" for c
    by (simp add: send_prompt_def new_PCISimulatorProtocol_def new_SimulatorState_def new_SimulationSettings_def
        sim_write_def act_simps SMART_MODE_NO_ECHO_def)
  then have c: "map_of (v_clients ?v) 0 = Some (?x ''c'')" "map_of (v_clients ?v) 1 = Some (?x ''d'')"
      "v_state ?v = new_SimulatorState 0"
    by (simp_all add: client_connects_def new_CBusSimulatorServer_def)
  have "find_group 254 56 3 (new_SimulatorState 0) \<noteq> None"
    by (simp add: find_group_def new_SimulatorState_def)
  then show ?thesis
    using switch_then_query [of 5 254 56 3 9 ?v 0 "?x ''c''" 1 "?x ''d''" True 1 True 2] c
    by (simp add: group_ids_ok_def Let_def)
      (simp add: new_PCISimulatorProtocol_def new_SimulatorState_def new_SimulationSettings_def)
qed

section \<open>Patterns\<close>

definition COMMAND_PATTERNS :: "piece list list" where
  "COMMAND_PATTERNS = [LIGHTING_ON_PATTERN, LIGHTING_OFF_PATTERN, LIGHTING_RAMP_PATTERN, STATUS_REQUEST_PATTERN,
     CLOCK_UPDATE_PATTERN, IDENTIFY_PATTERN, MMI_REQUEST_PATTERN]"

lemma patterns_unambiguous: "p \<in> set COMMAND_PATTERNS \<Longrightarrow> unambiguous p \<and> (\<exists>ps. p = Digits # ps)"
  by (auto simp: COMMAND_PATTERNS_def pattern_defs CLOCK_UPDATE_PATTERN_def IDENTIFY_PATTERN_def MMI_REQUEST_PATTERN_def
      is_digit_def digit_val_def)

text \<open>
  Every command pattern means what its regular expression says: the matcher accepts a
  command with captures \<open>cs\<close> exactly when the command is an optional number sign followed by a
  string of the expression with these captures.
\<close>

lemma patterns_mean_expressions:
  assumes "p \<in> set COMMAND_PATTERNS"
  shows "match_command p cmd = Some (flag, cs) \<longleftrightarrow>
    (\<exists>s. spells p cs s \<and> cmd = (if flag then CHR ''#'' # s else s))"
  using patterns_unambiguous [OF assms] match_command_iff by blast

end
