(* ===== verification/Simulator_Link.thy ===== *)
theory Simulator_Link
  imports Simulator Pci_Protocol
begin

text \<open>
  The client of \<open>protocol/pciprotocol.py\<close> talking to the simulator: what the simulator makes of the
  lines the client writes.
\<close>

section \<open>Hex text\<close>

definition hex_text :: "byte \<Rightarrow> string" where
  "hex_text b = [char_of (unat (hex_char (drop_bit 4 b))), char_of (unat (hex_char (b AND 0x0F)))]"

lemma hex_char_ascii: "n < 16 \<Longrightarrow> hex_char n < 128"
  by (erule nibble_cases) (simp_all add: hex_char_def)

lemma decode_hex_chars: "decode_ignore (b16encode bs @ tail) = concat (map hex_text bs) @ decode_ignore tail"
  by (induction bs) (simp_all add: decode_ignore_def hex_text_def hex_char_ascii drop4_less and15_less)

lemma hexdigit_code:
  "n < 16 \<Longrightarrow> hexdigit_val (char_of (unat (hex_char n))) = Some (unat n) \<and> \<not> is_space (char_of (unat (hex_char n))) \<and>
     of_char (char_of (unat (hex_char n))) \<notin> {45 :: nat, 43, 120, 88}"
  by (erule nibble_cases) (simp_all add: hexdigit_val_def is_space_def hex_char_def)

lemma hexdigit_char:
  assumes "n < 16"
  shows "hexdigit_val (char_of (unat (hex_char n))) = Some (unat n)"
    "\<not> is_space (char_of (unat (hex_char n)))"
    "char_of (unat (hex_char n)) \<notin> {CHR ''-'', CHR ''+'', CHR ''x'', CHR ''X''}"
proof -
  have "of_char CHR ''-'' = (45 :: nat)" "of_char CHR ''+'' = (43 :: nat)" "of_char CHR ''x'' = (120 :: nat)"
    "of_char CHR ''X'' = (88 :: nat)" by simp_all
  then show "char_of (unat (hex_char n)) \<notin> {CHR ''-'', CHR ''+'', CHR ''x'', CHR ''X''}"
    using hexdigit_code [OF assms] by (metis insertE insertI1 insertI2 empty_iff)
qed (use hexdigit_code [OF assms] in simp_all)

lemma int16_hex_text: "py_int16 (hex_text b) = Inr (uint b)"
proof -
  define h l where "h = drop_bit 4 b" and "l = b AND 0x0F"
  define c d where "c = char_of (unat (hex_char h))" and "d = char_of (unat (hex_char l))"
  have n: "h < 16" "l < 16" by (simp_all add: h_def l_def drop4_less and15_less)
  note cs = hexdigit_char [OF n(1), folded c_def] hexdigit_char [OF n(2), folded d_def]
  have "py_strip [c, d] = [c, d]" using cs by (simp add: py_strip_def)
  moreover have "\<not> starts_with ''0x'' [c, d]" "\<not> starts_with ''0X'' [c, d]" using cs by auto
  moreover have "unat h * 16 + unat l = unat b"
  proof -
    have "unat h = unat b div 16" by (simp add: h_def drop_bit_eq_div unat_div)
    moreover have "l = take_bit 4 b" by (simp add: l_def take_bit_eq_mask mask_eq_exp_minus_1)
    then have "unat l = unat b mod 16" by (simp add: take_bit_eq_mod unat_mod)
    ultimately show ?thesis by simp
  qed
  then have "16 * int (unat h) + int (unat l) = int (unat b)" by linarith
  ultimately have "py_int16 [c, d] = Inr (int (unat b))"
    using cs by (simp add: py_int16_def Let_def)
  then show ?thesis by (simp add: hex_text_def c_def d_def h_def l_def)
qed

lemma hex_at_text:
  "i = length s \<Longrightarrow> hex_at (s @ hex_text b @ t) i k = uint b"
proof -
  assume i: "i = length s"
  have "length (hex_text b) = 2" by (simp add: hex_text_def)
  then have "take 2 (drop i (s @ hex_text b @ t)) = hex_text b" "i + 2 \<le> length (s @ hex_text b @ t)" using i by simp_all
  then show ?thesis by (simp add: hex_at_def int16_hex_text)
qed

section \<open>A lighting command of the client\<close>

lemma lighting_on_wire:
  assumes "is_byte ga"
  shows "\<exists>p ck. rbind (lighting_sals new_LightingOnSAL [ga] 0x38) (new_PointToMultipointPacket True CLASS_4 None) = Inr p \<and>
    encode_packet (PointToMultipointPacket p) = Inr (b16encode [0x05, 0x38, 0, 0x79, byte_of ga, ck])"
proof -
  define p where "p = \<lparr>p_checksum = True, p_dat = POINT_TO_MULTIPOINT, p_rc = 0, p_dp = False, p_priority = CLASS_4,
    p_confirmation = None, p_source = None, pm_application = Some 0x38, pm_sals = [Lighting (LightingOnSAL ga 0x38)]\<rparr>"
  have ok: "sal_ok 0x38 (Lighting (LightingOnSAL ga 0x38))"
    using assms by (simp add: lighting_applications_def)
  have "rbind (lighting_sals new_LightingOnSAL [ga] 0x38) (new_PointToMultipointPacket True CLASS_4 None) = Inr p"
    using new_pm_packet [of "[Lighting (LightingOnSAL ga 0x38)]" "0x38"] ok assms
    by (simp add: p_def lighting_sals_def normalize_group_addrs_def new_lighting_defs lighting_applications_def)
  moreover have "\<exists>ck. pm_encode p = Inr [0x05, 0x38, 0, 0x79, byte_of ga, ck]"
    using assms
    by (simp add: pm_encode_def p_def base_encode_def flags_def add_checksum_if_def add_cbus_checksum_def is_byte_def)
  ultimately show ?thesis by auto
qed

lemma codes_agree: "SIM_CONFIRMATION_CODES = CONFIRMATION_CODES"
  by (simp add: SIM_CONFIRMATION_CODES_def CONFIRMATION_CODES_def ascii_def)

lemma no_line_end: "0x0D \<notin> set line \<Longrightarrow> find_sub SIM_END_COMMAND (line @ [0x0D]) = None"
  by (induction line) (auto simp: SIM_END_COMMAND_def)

lemma sim_read_cr:
  assumes "0x0D \<notin> set line" "line \<noteq> []" "x_buffer x = []"
  shows "sim_read now (line @ END_COMMAND) x = sim_command now line x"
proof -
  have "find_sub [0x0D] (line @ [0x0D]) = Some (length line)"
    using find_sub_skip [OF assms(1), of "[]" "[]"] by simp
  then have n: "next_command (line @ END_COMMAND) = Some (line, [])"
    using no_line_end [OF assms(1)] by (simp add: next_command_def END_COMMAND_def)
  have "next_command [] = None" by (simp add: next_command_def SIM_END_COMMAND_def)
  then have c: "sim_commands now (line @ END_COMMAND) = athen (amodify (\<lambda>x. x\<lparr>x_buffer := []\<rparr>)) (sim_command now line)"
    unfolding sim_commands.simps [of now "line @ END_COMMAND"] n by (simp add: sim_commands_none athen_unit)
  have buf: "x\<lparr>x_buffer := []\<rparr> = x" using assms(3) by simp
  show ?thesis
    using assms(3) unfolding sim_read_def sim_process_buffer_def by (simp add: c athen_def abind_def amodify_def buf)
qed

lemma binary_untouched: "preprocess_cbus_data False data = data"
  by (simp add: preprocess_cbus_data_def)

lemma sim_binary_lighting:
  assumes "code \<in> set CONFIRMATION_CODES"
  shows "sim_command now (0x5C # b16encode [0x05, 0x38, 0, op, g, ck] @ [code]) x =
    (Inr (), x\<lparr>x_state := snd (sim_set_group_level now 254 56 (uint op) (uint g) (x_state x)),
       x_out := x_out x @ [[code, 0x2E, 0x0D, 0x0A], prompt x, []]\<rparr>)"
proof -
  define data where "data = 0x5C # b16encode [0x05, 0x38, 0, op, g, ck] @ [code]"
  have bs: "char_of (92 :: nat) = CHR 0x5C" by code_simp
  have lits: "hex_text 0x05 = ''05''" "hex_text 0x38 = ''38''" "hex_text 0 = ''00''"
    by (simp add: hex_text_def hex_char_def; code_simp)+
  have "decode_ignore data = CHR 0x5C # decode_ignore (b16encode [0x05, 0x38, 0, op, g, ck] @ [code])"
    by (simp add: data_def decode_ignore_def bs)
  then have txt_eq: "decode_ignore data = CHR 0x5C # ''05'' @ ''38'' @ ''00'' @ hex_text op @ hex_text g @ hex_text ck @ decode_ignore [code]"
    unfolding decode_hex_chars by (simp add: lits)
  have len: "length (hex_text b) = 2" for b by (simp add: hex_text_def)
  have op: "hex_at (decode_ignore data) 7 k = uint op" for k
    using hex_at_text [of 7 "CHR 0x5C # ''05'' @ ''38'' @ ''00''" op "hex_text g @ hex_text ck @ decode_ignore [code]" k]
    by (simp add: txt_eq)
  have g: "hex_at (decode_ignore data) 9 k = uint g" for k
    using hex_at_text [of 9 "CHR 0x5C # ''05'' @ ''38'' @ ''00'' @ hex_text op" g "hex_text ck @ decode_ignore [code]" k]
    by (simp add: txt_eq len)
  have cmd: "py_int16 (take 2 (drop 3 (decode_ignore data))) = Inr 0x38"
    using int16_hex_text [of "0x38"] by (simp add: txt_eq lits)
  have at: "find_sub (CHR 0x5C # ''05'') (decode_ignore data) = Some 0" "5 \<le> length (decode_ignore data)"
    by (simp_all add: txt_eq)
  have last: "data \<noteq> []" "last data = code" "data ! 0 = 0x5C" by (simp_all add: data_def)
  have prompts: "send_prompt y = (Inr (), y\<lparr>x_out := x_out y @ [prompt y]\<rparr>)" for y
    by (simp add: send_prompt_def prompt_def sim_write_def act_simps)
  have "handle_binary_command now False data x =
      (Inr [], x\<lparr>x_state := snd (sim_set_group_level now 254 56 (uint op) (uint g) (x_state x)),
         x_out := x_out x @ [[code, 0x2E, 0x0D, 0x0A], prompt x]\<rparr>)"
    using assms at cmd op g last
    by (simp add: handle_binary_command_def binary_untouched string_lighting_def Let_def set_level_run act_simps
        codes_agree sim_write_def prompts prompt_def ascii_def SIM_END_COMMAND_def)
  then show ?thesis
    unfolding data_def [symmetric] using last
    by (simp add: sim_command_def binary_untouched abind_def sim_write_def amodify_def) (simp add: data_def)
qed

text \<open>
  C33: The simulator misreads the client's lighting commands: when the client switches a group of
  application 0x38 on, the simulator takes the command byte 0x79 for the group and the group for the
  level. It confirms the command, the client's group keeps its level unless it is group 121, and
  group 121 gets the client's group number as its level.
\<close>

theorem simulator_misreads_client:
  assumes "is_byte ga" "conf_inv cst" "connected cst" "x_buffer x = []"
  shows "\<exists>code cst' line x'. lighting_group_on now [ga] 0x38 cst = (Inr (Some code), cst') \<and> written cst' = written cst @ [line] \<and>
    sim_read t line x = (Inr (), x') \<and> x_out x' = x_out x @ [[code, 0x2E, 0x0D, 0x0A], prompt x, []] \<and>
    sim_get_group_level 254 56 121 (x_state x') = (if find_group 254 56 121 (x_state x) = None then 0 else ga) \<and>
    (ga \<noteq> 121 \<longrightarrow> sim_get_group_level 254 56 ga (x_state x') = sim_get_group_level 254 56 ga (x_state x))"
proof -
  obtain p ck where p: "rbind (lighting_sals new_LightingOnSAL [ga] 0x38) (new_PointToMultipointPacket True CLASS_4 None) = Inr p"
    "encode_packet (PointToMultipointPacket p) = Inr (b16encode [0x05, 0x38, 0, 0x79, byte_of ga, ck])"
    using lighting_on_wire [OF assms(1)] by blast
  obtain code cst' where s: "lighting_group_on now [ga] 0x38 cst = (Inr (Some code), cst')" "code \<in> set CONFIRMATION_CODES"
    "written cst' = written cst @ [(0x5C # b16encode [0x05, 0x38, 0, 0x79, byte_of ga, ck] @ [code]) @ END_COMMAND]"
    using send_seq_confirmed [OF assms(2,3) p(2), of now False] p(1)
    by (auto simp: lighting_group_on_def send_sals_def Let_def)
  let ?line = "0x5C # b16encode [0x05, 0x38, 0, 0x79, byte_of ga, ck] @ [code]"
  have "0x0D \<notin> set HEX_CHARS" "0x0D \<notin> set CONFIRMATION_CODES" by (simp_all add: HEX_CHARS_def CONFIRMATION_CODES_def)
  then have "0x0D \<notin> set ?line" using b16encode_hex [of "[0x05, 0x38, 0, 0x79, byte_of ga, ck]"] s(2)
    by (auto simp del: b16encode.simps)
  then have r: "sim_read t (?line @ END_COMMAND) x =
      (Inr (), x\<lparr>x_state := snd (sim_set_group_level t 254 56 121 ga (x_state x)),
         x_out := x_out x @ [[code, 0x2E, 0x0D, 0x0A], prompt x, []]\<rparr>)"
    using sim_binary_lighting [OF s(2), of t "0x79" "byte_of ga" ck x] assms(1,4)
    by (subst sim_read_cr) (simp_all add: uint_of_byte is_byte_def del: b16encode.simps)
  show ?thesis
    using s(1,3) r assms(1)
    by (intro exI conjI) (auto simp: level_after_write is_byte_def level_unknown simp del: b16encode.simps)
qed

theorem simulator_misreads_client_witness:
  "\<exists>code cst' line x'. lighting_group_on 0 [3] 0x38 (connection_made (new_PCIProtocol 0 None)) = (Inr (Some code), cst') \<and>
    written cst' = [line] \<and> sim_read 1 line (new_PCISimulatorProtocol 0 ''c'' (new_SimulatorState 0)) = (Inr (), x') \<and>
    sim_get_group_level 254 56 3 (x_state x') = 0"
proof -
  have "conf_inv (connection_made (new_PCIProtocol 0 None))" "connected (connection_made (new_PCIProtocol 0 None))"
    "written (connection_made (new_PCIProtocol 0 None)) = []"
    by (simp_all add: connection_made_def new_PCIProtocol_def cleanup_state_def conf_inv_def codes_facts)
  moreover have "x_buffer (new_PCISimulatorProtocol 0 ''c'' (new_SimulatorState 0)) = []"
    "sim_get_group_level 254 56 3 (x_state (new_PCISimulatorProtocol 0 ''c'' (new_SimulatorState 0))) = 0"
    by (simp_all add: new_PCISimulatorProtocol_def sim_get_group_level_def find_group_def new_SimulatorState_def)
  ultimately show ?thesis
    using simulator_misreads_client [of 3 "connection_made (new_PCIProtocol 0 None)"
        "new_PCISimulatorProtocol 0 ''c'' (new_SimulatorState 0)" 0 1] by fastforce
qed

end
