(* ===== verification/Proxy.thy ===== *)
theory Proxy
  imports Decode
begin

text \<open>
  The proxy of \<open>cbus-proxy/proxy.py\<close>, which relays one CNI (a PCI on the network) to several clients
  and keeps books on what passes.

  \<^item> \<open>analyzer\<close> is \<open>PacketAnalyzer\<close>: its counters and its table of unconfirmed commands. The
    report it returns for printing is not modelled; the description stored with a command is a value
    of \<open>command_desc\<close> instead of its text.
  \<^item> \<open>proxy\<close> is \<open>CBusProxy\<close>. The reader task of the CNI and the forwarding loop of each client run
    between two reads without interruption; their local buffers are part of the state. A client is an
    object shared by its loop and the table of clients. What the network does is an argument: whether
    a connection attempt succeeds, and whether writing to a peer fails (\<open>ci_broken\<close>, \<open>p_cni_broken\<close>).

  The lemmas show that the proxy neither loses nor reorders bytes in either direction, however they
  are cut into reads, what it does after the CNI's connection was lost, and what the analyzer counts.
\<close>

section \<open>Cutting a stream\<close>

text \<open>
  Both directions cut a buffer into packets with a function that takes the next one off its front.
  \<open>stream_cutter\<close> is what makes this lossless; a \<open>stable_cutter\<close>, whose decision is not changed by
  later bytes, makes the result independent of how the stream is cut into reads.
\<close>

locale stream_cutter =
  fixes cut_next :: "'a list \<Rightarrow> ('a list \<times> 'a list) option"
    and cut_all :: "'a list \<Rightarrow> 'a list list \<times> 'a list"
  assumes cut_split: "cut_next b = Some (p, r) \<Longrightarrow> b = p @ r \<and> length r < length b"
    and cut_unfold: "cut_all b = (case cut_next b of
      None \<Rightarrow> ([], b) | Some (p, r) \<Rightarrow> (let (ps, r') = cut_all r in (p # ps, r')))"
begin

lemma cut_none: "cut_next b = None \<Longrightarrow> cut_all b = ([], b)"
  by (simp add: cut_unfold [of b])

lemma cut_some: "cut_next b = Some (p, r) \<Longrightarrow> cut_all b = (p # fst (cut_all r), snd (cut_all r))"
  by (simp add: cut_unfold [of b] case_prod_unfold Let_def)

lemma cut_induct [case_names stop step]:
  assumes "\<And>b. cut_next b = None \<Longrightarrow> P b"
    and "\<And>b p r. cut_next b = Some (p, r) \<Longrightarrow> b = p @ r \<Longrightarrow> P r \<Longrightarrow> P b"
  shows "P b"
proof (induction b rule: measure_induct_rule [of length])
  case (less b)
  show ?case
  proof (cases "cut_next b")
    case (Some pr)
    then obtain p r where pr: "cut_next b = Some (p, r)" by (cases pr) auto
    note split = cut_split [OF pr]
    show ?thesis by (rule assms(2) [OF pr conjunct1 [OF split] less [OF conjunct2 [OF split]]])
  qed (rule assms(1))
qed

lemma cut_lossless: "concat (fst (cut_all b)) @ snd (cut_all b) = b"
  by (induction b rule: cut_induct) (simp_all add: cut_none cut_some)

lemma cut_settled: "cut_next (snd (cut_all b)) = None"
  by (induction b rule: cut_induct) (simp_all add: cut_none cut_some)

lemma cut_packets:
  assumes "\<And>b p r. cut_next b = Some (p, r) \<Longrightarrow> P p"
  shows "\<forall>p \<in> set (fst (cut_all b)). P p"
  by (induction b rule: cut_induct) (simp_all add: cut_none cut_some assms)

end

locale stable_cutter = stream_cutter +
  assumes cut_stable: "cut_next b = Some (p, r) \<Longrightarrow> cut_next (b @ x) = Some (p, r @ x)"
begin

lemma cut_append:
  "cut_all (b @ x) = (fst (cut_all b) @ fst (cut_all (snd (cut_all b) @ x)), snd (cut_all (snd (cut_all b) @ x)))"
proof (induction b rule: cut_induct)
  case (step b p r)
  show ?case unfolding cut_some [OF cut_stable [OF step(1)]] cut_some [OF step(1)] by (simp add: step(3))
qed (simp add: cut_none)

end

section \<open>The analyzer\<close>

datatype direction = FROM_CLIENT | FROM_CNI

datatype command_desc =
    LightOn int
  | LightOff int
  | LightRamp int int
  | StatusRequested int int int

record analyzer =
  a_packet_count :: nat
  a_error_count :: nat
  a_confirmation_map :: "(byte \<times> (int \<times> command_desc \<times> string option)) list"

definition new_PacketAnalyzer :: analyzer where
  "new_PacketAnalyzer = \<lparr>a_packet_count = 0, a_error_count = 0, a_confirmation_map = []\<rparr>"

text \<open>\<open>self.confirmation_map[ord(confirmation)] = ...\<close>.\<close>

definition note_command :: "int \<Rightarrow> bytes option \<Rightarrow> command_desc \<Rightarrow> string option \<Rightarrow> analyzer \<Rightarrow> analyzer" where
  "note_command now confirmation desc client_info an =
     (case confirmation of
        Some (code # _) \<Rightarrow> an\<lparr>a_confirmation_map := AList.update code (now, desc, client_info) (a_confirmation_map an)\<rparr>
      | _ \<Rightarrow> an)"

text \<open>
  A status request has the attribute \<open>application\<close>, which is 0xFF for all of them, and neither
  \<open>group_start\<close> nor \<open>group_count\<close>, for which the code then takes 0.
\<close>

fun analyze_sal :: "int \<Rightarrow> bytes option \<Rightarrow> string option \<Rightarrow> sal \<Rightarrow> analyzer \<Rightarrow> analyzer" where
  "analyze_sal now confirmation client_info (Lighting (LightingOnSAL ga app)) an =
     note_command now confirmation (LightOn ga) client_info an"
| "analyze_sal now confirmation client_info (Lighting (LightingOffSAL ga app)) an =
     note_command now confirmation (LightOff ga) client_info an"
| "analyze_sal now confirmation client_info (Lighting (LightingRampSAL ga app duration level)) an =
     note_command now confirmation (LightRamp ga level) client_info an"
| "analyze_sal now confirmation client_info (StatusRequest s) an =
     note_command now confirmation (StatusRequested 0xFF 0 0) client_info an"
| "analyze_sal now confirmation client_info _ an = an"

definition count_error :: "analyzer \<Rightarrow> analyzer" where
  "count_error an = an\<lparr>a_error_count := a_error_count an + 1\<rparr>"

fun analyze_decoded :: "int \<Rightarrow> string option \<Rightarrow> decoded \<Rightarrow> analyzer \<Rightarrow> analyzer" where
  "analyze_decoded now client_info (Packet (ConfirmationPacket code success)) an =
     (case code of
        c # _ \<Rightarrow> an\<lparr>a_confirmation_map := AList.delete c (a_confirmation_map an)\<rparr>
      | [] \<Rightarrow> count_error an)"
| "analyze_decoded now client_info (Packet PCIErrorPacket) an = count_error an"
| "analyze_decoded now client_info (Packet (PointToMultipointPacket p)) an =
     fold (analyze_sal now (p_confirmation p) client_info) (pm_sals p) an"
| "analyze_decoded now client_info (Packet (InvalidPacket _ _)) an = count_error an"
| "analyze_decoded now client_info _ an = an"

definition analyze_packet :: "int \<Rightarrow> bytes \<Rightarrow> direction \<Rightarrow> string option \<Rightarrow> analyzer \<Rightarrow> analyzer" where
  "analyze_packet now raw_data dir client_info an =
     (let an = an\<lparr>a_packet_count := a_packet_count an + 1\<rparr> in
      case decode_packet True True (dir = FROM_CNI) raw_data of
        Inl _ \<Rightarrow> count_error an
      | Inr (None, _) \<Rightarrow> an
      | Inr (Some packet, _) \<Rightarrow> analyze_decoded now client_info packet an)"

section \<open>State\<close>

record client_info =
  ci_packet_count :: nat
  ci_buffer :: bytes
  ci_out :: bytes
  ci_broken :: bool

datatype reader_task = Reading bytes | Finished

record proxy =
  p_analyzer :: analyzer
  p_loops :: "(string \<times> client_info) list"
  p_clients :: "string list"
  p_cni_writer :: bool
  p_cni_out :: bytes
  p_cni_broken :: bool
  p_running :: bool
  p_cni_connected :: bool
  p_cni_task :: "reader_task option"

definition new_CBusProxy :: proxy where
  "new_CBusProxy = \<lparr>p_analyzer = new_PacketAnalyzer, p_loops = [], p_clients = [], p_cni_writer = False, p_cni_out = [],
     p_cni_broken = False, p_running = False, p_cni_connected = False, p_cni_task = None\<rparr>"

section \<open>The CNI\<close>

text \<open>A connection that is made starts with an empty, unbroken stream.\<close>

definition connect_to_cni :: "bool \<Rightarrow> proxy \<Rightarrow> proxy" where
  "connect_to_cni ok p =
     (if ok then p\<lparr>p_cni_writer := True, p_cni_broken := False, p_cni_connected := True\<rparr>
      else p\<lparr>p_cni_connected := False\<rparr>)"

definition cni_init_commands :: "bytes list result" where
  "cni_init_commands =
     rbind (encode_packet SmartConnectShortcutPacket) (\<lambda>scs.
     rmap (\<lambda>dms. ([0x7E] @ END_COMMAND) # (scs @ END_COMMAND) # map (\<lambda>b. b @ END_COMMAND) dms)
       (foldr (\<lambda>(param, val) acc. rbind (encode_packet (DeviceManagementPacket
            (new_DeviceManagementPacket False CLASS_2 param val))) (\<lambda>b. rmap ((#) b) acc))
          [(0x21, 0xFF), (0x22, 0xFF), (0x42, 0x0E), (0x30, 0x79)] (Inr [])))"

text \<open>Encoding these constant packets never fails (\<open>init_commands_encode\<close> below).\<close>

definition initialize_cni :: "proxy \<Rightarrow> proxy" where
  "initialize_cni p =
     (if \<not> p_cni_connected p \<or> \<not> p_cni_writer p then p
      else case cni_init_commands of
        Inl _ \<Rightarrow> p
      | Inr cmds \<Rightarrow> if p_cni_broken p then p else p\<lparr>p_cni_out := p_cni_out p @ concat cmds\<rparr>)"

definition proxy_start :: "bool \<Rightarrow> proxy \<Rightarrow> proxy" where
  "proxy_start ok p =
     (let p = connect_to_cni ok (p\<lparr>p_running := True\<rparr>);
          p = (if p_cni_connected p then initialize_cni p else p) in
      if p_cni_connected p then p\<lparr>p_cni_task := Some (Reading [])\<rparr> else p)"

definition write_client :: "bytes \<Rightarrow> client_info \<Rightarrow> client_info" where
  "write_client data ci = (if ci_broken ci then ci else ci\<lparr>ci_out := ci_out ci @ data\<rparr>)"

definition broadcast_to_clients :: "bytes \<Rightarrow> proxy \<Rightarrow> proxy" where
  "broadcast_to_clients data p =
     p\<lparr>p_loops := map (\<lambda>(i, ci). (i, if i \<in> set (p_clients p) then write_client data ci else ci)) (p_loops p),
       p_clients := filter (\<lambda>i. case map_of (p_loops p) i of Some ci \<Rightarrow> \<not> ci_broken ci | None \<Rightarrow> True) (p_clients p)\<rparr>"

text \<open>The next packet from the CNI and the rest of the buffer; \<open>None\<close> where the loop stops to read more.\<close>

definition next_from_cni :: "bytes \<Rightarrow> (bytes \<times> bytes) option" where
  "next_from_cni buffer =
     (if buffer = [] then None
      else if length buffer \<ge> 2 \<and> buffer ! 0 \<in> set CONFIRMATION_CODES then Some (take 2 buffer, drop 2 buffer)
      else case find_sub END_RESPONSE buffer of
        None \<Rightarrow>
          if starts_with [0x2B] buffer then Some (take 1 buffer, drop 1 buffer)
          else if starts_with [0x21] buffer then Some (take 1 buffer, drop 1 buffer)
          else None
      | Some end_pos \<Rightarrow> Some (take (end_pos + length END_RESPONSE) buffer, drop (end_pos + length END_RESPONSE) buffer))"

lemma next_from_cni_split:
  "next_from_cni buffer = Some (packet, rest) \<Longrightarrow> buffer = packet @ rest \<and> length rest < length buffer"
proof -
  assume "next_from_cni buffer = Some (packet, rest)"
  then obtain n where "packet = take n buffer" "rest = drop n buffer" "0 < n" "buffer \<noteq> []"
    by (auto simp: next_from_cni_def END_RESPONSE_def split: option.splits if_splits)
  then show ?thesis by (cases buffer) auto
qed

function cni_packets :: "bytes \<Rightarrow> bytes list \<times> bytes" where
  "cni_packets buffer =
     (case next_from_cni buffer of
        None \<Rightarrow> ([], buffer)
      | Some (packet, rest) \<Rightarrow> (let (ps, rest') = cni_packets rest in (packet # ps, rest')))"
  by pat_completeness auto
termination
  by (relation "measure length") (auto dest!: next_from_cni_split)

declare cni_packets.simps [simp del]

interpretation cni_cutter: stream_cutter next_from_cni cni_packets
  by unfold_locales (simp_all add: next_from_cni_split cni_packets.simps)

definition relay_from_cni :: "int \<Rightarrow> bytes \<Rightarrow> proxy \<Rightarrow> proxy" where
  "relay_from_cni now packet p =
     broadcast_to_clients packet (p\<lparr>p_analyzer := analyze_packet now packet FROM_CNI None (p_analyzer p)\<rparr>)"

definition end_reader :: "proxy \<Rightarrow> proxy" where
  "end_reader p = p\<lparr>p_cni_connected := False, p_cni_broken := True, p_cni_task := Some Finished\<rparr>"

text \<open>One read of the reader task; no data means that the CNI closed the connection.\<close>

definition cni_read :: "int \<Rightarrow> bytes \<Rightarrow> proxy \<Rightarrow> proxy" where
  "cni_read now data p =
     (case p_cni_task p of
        Some (Reading buffer) \<Rightarrow>
          if data = [] then end_reader p
          else let (packets, rest) = cni_packets (buffer @ data); p = fold (relay_from_cni now) packets p in
            if p_running p \<and> p_cni_connected p then p\<lparr>p_cni_task := Some (Reading rest)\<rparr> else end_reader p
      | _ \<Rightarrow> p)"

section \<open>Clients\<close>

definition client_connected :: "string \<Rightarrow> bool \<Rightarrow> proxy \<Rightarrow> proxy" where
  "client_connected i ok p =
     (let p = p\<lparr>p_loops := p_loops p @ [(i, \<lparr>ci_packet_count = 0, ci_buffer = [], ci_out = [], ci_broken = False\<rparr>)],
                p_clients := p_clients p @ [i]\<rparr> in
      if p_cni_connected p then p
      else let p = connect_to_cni ok p in
        if \<not> p_cni_connected p then p
        else let p = initialize_cni p in
          case p_cni_task p of None \<Rightarrow> p\<lparr>p_cni_task := Some (Reading [])\<rparr> | Some _ \<Rightarrow> p)"

text \<open>\<open>str(client_info)\<close>.\<close>

definition client_tag :: "string \<Rightarrow> string" where
  "client_tag i = ''Client('' @ i @ '')''"

definition forward_packet :: "int \<Rightarrow> string \<Rightarrow> bytes \<Rightarrow> proxy \<Rightarrow> proxy" where
  "forward_packet now i packet p =
     (let p = p\<lparr>p_loops := AList.map_entry i (\<lambda>ci. ci\<lparr>ci_packet_count := ci_packet_count ci + 1\<rparr>) (p_loops p),
                p_analyzer := analyze_packet now packet FROM_CLIENT (Some (client_tag i)) (p_analyzer p)\<rparr> in
      if p_cni_connected p \<and> p_cni_writer p
      then if p_cni_broken p then p\<lparr>p_cni_connected := False\<rparr> else p\<lparr>p_cni_out := p_cni_out p @ packet\<rparr>
      else p)"

definition next_from_client :: "bytes \<Rightarrow> (bytes \<times> bytes) option" where
  "next_from_client buffer =
     (case find_sub END_COMMAND buffer of
        None \<Rightarrow> None
      | Some end_pos \<Rightarrow> Some (take (end_pos + length END_COMMAND) buffer, drop (end_pos + length END_COMMAND) buffer))"

lemma next_from_client_split:
  "next_from_client buffer = Some (packet, rest) \<Longrightarrow> buffer = packet @ rest \<and> length rest < length buffer"
proof -
  assume "next_from_client buffer = Some (packet, rest)"
  then obtain n where "packet = take n buffer" "rest = drop n buffer" "0 < n" "buffer \<noteq> []"
    by (cases "buffer = []") (auto simp: next_from_client_def END_COMMAND_def split: option.splits)
  then show ?thesis by (cases buffer) auto
qed

function client_packets :: "bytes \<Rightarrow> bytes list \<times> bytes" where
  "client_packets buffer =
     (case next_from_client buffer of
        None \<Rightarrow> ([], buffer)
      | Some (packet, rest) \<Rightarrow> (let (ps, rest') = client_packets rest in (packet # ps, rest')))"
  by pat_completeness auto
termination
  by (relation "measure length") (auto dest!: next_from_client_split)

declare client_packets.simps [simp del]

lemma next_from_client_stable:
  "next_from_client b = Some (p, r) \<Longrightarrow> next_from_client (b @ x) = Some (p, r @ x)"
  using find_sub_append [of END_COMMAND b _ x] find_sub_Some_bound [of END_COMMAND b]
  by (auto simp: next_from_client_def split: option.splits)

interpretation client_cutter: stable_cutter next_from_client client_packets
  by unfold_locales (simp_all add: next_from_client_split client_packets.simps next_from_client_stable)

text \<open>The end of a client's loop: \<open>finally\<close> unregisters it.\<close>

definition client_gone :: "string \<Rightarrow> proxy \<Rightarrow> proxy" where
  "client_gone i p = p\<lparr>p_loops := AList.delete i (p_loops p), p_clients := filter (\<lambda>j. j \<noteq> i) (p_clients p)\<rparr>"

definition client_read :: "int \<Rightarrow> string \<Rightarrow> bytes \<Rightarrow> proxy \<Rightarrow> proxy" where
  "client_read now i data p =
     (case map_of (p_loops p) i of
        None \<Rightarrow> p
      | Some ci \<Rightarrow>
          if data = [] then client_gone i p
          else let (packets, rest) = client_packets (ci_buffer ci @ data);
                   p = fold (forward_packet now i) packets
                         (p\<lparr>p_loops := AList.map_entry i (\<lambda>ci. ci\<lparr>ci_buffer := rest\<rparr>) (p_loops p)\<rparr>) in
            if p_running p then p else client_gone i p)"

definition shutdown :: "proxy \<Rightarrow> proxy" where
  "shutdown p =
     (let p = p\<lparr>p_running := False\<rparr>;
          p = (case p_cni_task p of Some (Reading _) \<Rightarrow> end_reader p | _ \<Rightarrow> p) in
      p\<lparr>p_cni_broken := True,
        p_loops := map (\<lambda>(i, ci). (i, if i \<in> set (p_clients p) then ci\<lparr>ci_broken := True\<rparr> else ci)) (p_loops p),
        p_clients := []\<rparr>)"

section \<open>Downstream\<close>

lemma relay_fields [simp]:
  "p_cni_task (relay_from_cni now packet p) = p_cni_task p"
  "p_running (relay_from_cni now packet p) = p_running p"
  "p_cni_connected (relay_from_cni now packet p) = p_cni_connected p"
  by (simp_all add: relay_from_cni_def broadcast_to_clients_def)

lemma relays_fields [simp]:
  "p_cni_task (fold (relay_from_cni now) ps p) = p_cni_task p"
  "p_running (fold (relay_from_cni now) ps p) = p_running p"
  "p_cni_connected (fold (relay_from_cni now) ps p) = p_cni_connected p"
  by (induction ps arbitrary: p) simp_all

definition listening :: "proxy \<Rightarrow> string \<Rightarrow> bool" where
  "listening p i \<longleftrightarrow> i \<in> set (p_clients p) \<and> (case map_of (p_loops p) i of Some ci \<Rightarrow> \<not> ci_broken ci | None \<Rightarrow> False)"

lemma relay_loops:
  "map_of (p_loops (relay_from_cni now packet p)) i =
     map_option (\<lambda>ci. if listening p i then ci\<lparr>ci_out := ci_out ci @ packet\<rparr> else ci) (map_of (p_loops p) i)"
proof -
  have "map_of (map (\<lambda>(i, ci). (i, f i ci)) xs) i = map_option (f i) (map_of xs i)" for f :: "string \<Rightarrow> client_info \<Rightarrow> client_info" and xs
    by (induction xs) auto
  then show ?thesis
    by (auto simp: relay_from_cni_def broadcast_to_clients_def listening_def write_client_def map_option_case split: option.splits)
qed

lemma relay_listening: "listening (relay_from_cni now packet p) i = listening p i"
  using relay_loops [of now packet p i]
  by (auto simp: listening_def) (auto simp: relay_from_cni_def broadcast_to_clients_def listening_def split: option.splits if_splits)

lemma relays_loops:
  "map_of (p_loops (fold (relay_from_cni now) ps p)) i =
     map_option (\<lambda>ci. if listening p i then ci\<lparr>ci_out := ci_out ci @ concat ps\<rparr> else ci) (map_of (p_loops p) i) \<and>
   listening (fold (relay_from_cni now) ps p) i = listening p i"
  by (induction ps arbitrary: p) (auto simp: relay_loops relay_listening option.map_comp o_def map_option_case split: option.splits)

text \<open>
  Nothing to send yet: no bytes, or the beginning of a line that has no end so far. It does not begin
  with the one byte of a power-up notification or an error, and a code letter waits for its second byte.
\<close>

definition unfinished :: "bytes \<Rightarrow> bool" where
  "unfinished b \<longleftrightarrow> (case b of [] \<Rightarrow> True
     | c # rest \<Rightarrow> find_sub END_RESPONSE b = None \<and> c \<noteq> 0x2B \<and> c \<noteq> 0x21 \<and> (c \<in> set CONFIRMATION_CODES \<longrightarrow> rest = []))"

lemma next_from_cni_None: "next_from_cni b = None \<longleftrightarrow> unfinished b"
  by (cases b) (auto simp: next_from_cni_def unfinished_def starts_with_def Suc_le_eq split: option.splits)

lemma cni_read_step:
  assumes "p_cni_task p = Some (Reading buf)" "p_running p" "p_cni_connected p" "data \<noteq> []"
  shows "\<exists>sent rest. sent @ rest = buf @ data \<and> p_cni_task (cni_read now data p) = Some (Reading rest) \<and>
    p_running (cni_read now data p) \<and> p_cni_connected (cni_read now data p) \<and> unfinished rest \<and>
    (\<forall>i. map_of (p_loops (cni_read now data p)) i =
       map_option (\<lambda>ci. if listening p i then ci\<lparr>ci_out := ci_out ci @ sent\<rparr> else ci) (map_of (p_loops p) i) \<and>
     listening (cni_read now data p) i = listening p i)"
proof -
  obtain ps rest where cut: "cni_packets (buf @ data) = (ps, rest)" by fastforce
  have upd: "listening (q\<lparr>p_cni_task := t\<rparr>) i = listening q i" for q t i by (simp add: listening_def)
  have "concat ps @ rest = buf @ data" using cni_cutter.cut_lossless [of "buf @ data"] by (simp add: cut)
  moreover have "unfinished rest" using cni_cutter.cut_settled [of "buf @ data"] by (simp add: cut next_from_cni_None)
  ultimately show ?thesis
    using assms relays_loops [of now ps p] by (intro exI [of _ "concat ps"] exI [of _ rest]) (simp add: cni_read_def cut upd)
qed

text \<open>
  C18: Downstream the proxy is transparent: however the CNI's output is cut into reads, every
  client that is registered and reachable receives the same bytes, in order, nothing added and nothing
  lost. What the reader still holds is an unfinished tail: after a read it contains no complete line,
  confirmation, notification or error. Clients that are not registered or reachable get nothing.
\<close>

theorem downstream_transparent:
  assumes "p_cni_task p = Some (Reading buf)" "p_running p" "p_cni_connected p" "list_all (\<lambda>d. d \<noteq> []) datas"
  shows "\<exists>sent rest. sent @ rest = buf @ concat datas \<and> p_cni_task (fold (cni_read now) datas p) = Some (Reading rest) \<and>
    (unfinished buf \<or> datas \<noteq> [] \<longrightarrow> unfinished rest) \<and>
    (\<forall>i. map_of (p_loops (fold (cni_read now) datas p)) i =
       map_option (\<lambda>ci. if listening p i then ci\<lparr>ci_out := ci_out ci @ sent\<rparr> else ci) (map_of (p_loops p) i))"
  using assms
proof (induction datas arbitrary: p buf)
  case Nil
  then show ?case by (auto simp: map_option_case split: option.splits intro!: exI [of _ "[]"])
next
  case (Cons data datas)
  obtain sent rest where s: "sent @ rest = buf @ data" "p_cni_task (cni_read now data p) = Some (Reading rest)"
    "p_running (cni_read now data p)" "p_cni_connected (cni_read now data p)" "unfinished rest"
    "\<And>i. map_of (p_loops (cni_read now data p)) i =
       map_option (\<lambda>ci. if listening p i then ci\<lparr>ci_out := ci_out ci @ sent\<rparr> else ci) (map_of (p_loops p) i)"
    "\<And>i. listening (cni_read now data p) i = listening p i"
    using cni_read_step [OF Cons.prems(1-3), of data now] Cons.prems(4) by auto
  obtain sent' rest' where t: "sent' @ rest' = rest @ concat datas"
    "p_cni_task (fold (cni_read now) datas (cni_read now data p)) = Some (Reading rest')"
    "unfinished rest'"
    "\<And>i. map_of (p_loops (fold (cni_read now) datas (cni_read now data p))) i =
       map_option (\<lambda>ci. if listening p i then ci\<lparr>ci_out := ci_out ci @ sent'\<rparr> else ci) (map_of (p_loops (cni_read now data p)) i)"
    using Cons.IH [OF s(2-4)] Cons.prems(4) s(5,7) by auto
  have "sent @ sent' @ rest' = buf @ data @ concat datas" using s(1) t(1) by (metis append.assoc)
  then show ?case using s(6) t(2-4)
    by (intro exI [of _ "sent @ sent'"] exI [of _ rest']) (simp add: option.map_comp o_def map_option_case split: option.splits)
qed

section \<open>Upstream\<close>

definition cni_up :: "proxy \<Rightarrow> bool" where
  "cni_up p \<longleftrightarrow> p_running p \<and> p_cni_connected p \<and> p_cni_writer p \<and> \<not> p_cni_broken p"

lemma forwards_up:
  assumes "cni_up p"
  shows "cni_up (fold (forward_packet now i) ps p) \<and>
    p_cni_out (fold (forward_packet now i) ps p) = p_cni_out p @ concat ps \<and>
    map_of (p_loops (fold (forward_packet now i) ps p)) j =
      map_option (\<lambda>ci. if j = i then ci\<lparr>ci_packet_count := ci_packet_count ci + length ps\<rparr> else ci) (map_of (p_loops p) j)"
  using assms
proof (induction ps arbitrary: p)
  case Nil
  then show ?case by (auto simp: map_option_case split: option.splits)
next
  case (Cons packet ps)
  have step: "cni_up (forward_packet now i packet p)" "p_cni_out (forward_packet now i packet p) = p_cni_out p @ packet"
    "map_of (p_loops (forward_packet now i packet p)) j =
      map_option (\<lambda>ci. if j = i then ci\<lparr>ci_packet_count := ci_packet_count ci + 1\<rparr> else ci) (map_of (p_loops p) j)"
    using Cons.prems by (auto simp: cni_up_def forward_packet_def Let_def map_of_map_entry map_option_case split: option.splits)
  from Cons.IH [OF step(1)] step(2,3) show ?case by (auto simp: map_option_case split: option.splits)
qed

lemma client_read_up:
  assumes "cni_up p" "map_of (p_loops p) i = Some ci" "data \<noteq> []"
  defines "ps \<equiv> fst (client_packets (ci_buffer ci @ data))" and "rest \<equiv> snd (client_packets (ci_buffer ci @ data))"
  shows "cni_up (client_read now i data p) \<and> p_cni_out (client_read now i data p) = p_cni_out p @ concat ps \<and>
    map_of (p_loops (client_read now i data p)) j =
      (if j = i then Some (ci\<lparr>ci_buffer := rest, ci_packet_count := ci_packet_count ci + length ps\<rparr>) else map_of (p_loops p) j)"
proof -
  define q where "q = p\<lparr>p_loops := AList.map_entry i (\<lambda>ci. ci\<lparr>ci_buffer := rest\<rparr>) (p_loops p)\<rparr>"
  have q: "cni_up q" "p_cni_out q = p_cni_out p" using assms(1) by (simp_all add: q_def cni_up_def)
  have "client_read now i data p = fold (forward_packet now i) ps q"
    using assms(2,3) forwards_up [OF q(1), of now i ps]
    by (auto simp: client_read_def ps_def rest_def q_def Let_def case_prod_unfold cni_up_def)
  then show ?thesis
    using forwards_up [OF q(1), of now i ps j] q(2) assms(2)
    by (auto simp: q_def map_of_map_entry map_option_case split: option.splits)
qed

lemma client_line_shape:
  assumes "next_from_client b = Some (l, r)"
  shows "\<exists>body. l = body @ END_COMMAND \<and> 0x0D \<notin> set body"
proof -
  have mem: "0x0D \<in> set b"
    using assms by (auto simp: next_from_client_def END_COMMAND_def find_sub_single split: if_splits)
  then obtain ys zs where b: "b = ys @ 0x0D # zs" "0x0D \<notin> set ys" by (metis split_list_first)
  then have "l = ys @ [0x0D]"
    using assms find_sub_skip [OF b(2), of "[]" zs] by (simp add: next_from_client_def END_COMMAND_def)
  with b(2) show ?thesis by (auto simp: END_COMMAND_def)
qed

text \<open>What a log of pairs holds of one client.\<close>

definition of_client :: "string \<Rightarrow> (string \<times> bytes) list \<Rightarrow> bytes" where
  "of_client i lines = concat (map snd (filter (\<lambda>(j, _). j = i) lines))"

lemma of_client_simps [simp]:
  "of_client i [] = []"
  "of_client i ((j, b) # lines) = (if j = i then b else []) @ of_client i lines"
  "of_client i (xs @ ys) = of_client i xs @ of_client i ys"
  "of_client i (map (Pair j) ps) = (if j = i then concat ps else [])"
  by (simp_all add: of_client_def) (induction ps; auto)

lemma next_from_client_None: "next_from_client b = None \<longleftrightarrow> 0x0D \<notin> set b"
  by (auto simp: next_from_client_def END_COMMAND_def find_sub_single split: option.splits)

text \<open>
  C17: Upstream the proxy is transparent: however the reads of its clients interleave and wherever
  they cut, what reaches the CNI is a sequence of complete command lines, each from one client; the
  lines of each client and then what is still in its buffer are exactly the bytes it sent, in order,
  and that buffer holds no end of line. So every line a client completed has been forwarded, once and
  as it was, and counted; lines of different clients are never mixed.
\<close>

theorem upstream_transparent:
  assumes "cni_up p" and "list_all (\<lambda>(i, d). d \<noteq> [] \<and> map_of (p_loops p) i \<noteq> None) reads"
  shows "\<exists>lines. p_cni_out (fold (\<lambda>(i, d). client_read now i d) reads p) = p_cni_out p @ concat (map snd lines) \<and>
    list_all (\<lambda>(i, l). \<exists>body. l = body @ END_COMMAND \<and> 0x0D \<notin> set body) lines \<and>
    (\<forall>i ci. map_of (p_loops p) i = Some ci \<longrightarrow>
      (\<exists>ci'. map_of (p_loops (fold (\<lambda>(i, d). client_read now i d) reads p)) i = Some ci' \<and>
         of_client i lines @ ci_buffer ci' = ci_buffer ci @ of_client i reads \<and>
         (0x0D \<in> set (ci_buffer ci') \<longrightarrow> 0x0D \<in> set (ci_buffer ci)) \<and>
         ci_packet_count ci' = ci_packet_count ci + length (filter (\<lambda>(j, _). j = i) lines) \<and>
         ci_out ci' = ci_out ci))"
  using assms
proof (induction reads arbitrary: p)
  case Nil
  show ?case by (intro exI [of _ "[]"]) simp
next
  case (Cons r reads)
  obtain i d where r: "r = (i, d)" by fastforce
  obtain ci where ci: "map_of (p_loops p) i = Some ci" "d \<noteq> []" using Cons.prems(2) r by auto
  define ps rest where "ps = fst (client_packets (ci_buffer ci @ d))" and "rest = snd (client_packets (ci_buffer ci @ d))"
  note step = client_read_up [OF Cons.prems(1) ci, of now, folded ps_def rest_def]
  have cut: "concat ps @ rest = ci_buffer ci @ d" unfolding ps_def rest_def by (rule client_cutter.cut_lossless)
  have settled: "0x0D \<notin> set rest"
    using client_cutter.cut_settled [of "ci_buffer ci @ d"] by (simp add: rest_def next_from_client_None)
  have shape: "list_all (\<lambda>(j, l). \<exists>body. l = body @ END_COMMAND \<and> 0x0D \<notin> set body) (map (Pair i) ps)"
    using client_cutter.cut_packets [where P = "\<lambda>l. \<exists>body. l = body @ END_COMMAND \<and> 0x0D \<notin> set body", of "ci_buffer ci @ d"]
      client_line_shape by (fastforce simp: ps_def list_all_iff)
  have known: "list_all (\<lambda>(j, d). d \<noteq> [] \<and> map_of (p_loops (client_read now i d' p)) j \<noteq> None) reads" if "d' = d" for d'
    using Cons.prems(2) step that by (auto simp: list_all_iff)
  let ?last = "fold (\<lambda>(i, d). client_read now i d) reads (client_read now i d p)"
  obtain lines where lines: "p_cni_out ?last = p_cni_out (client_read now i d p) @ concat (map snd lines)"
    "list_all (\<lambda>(i, l). \<exists>body. l = body @ END_COMMAND \<and> 0x0D \<notin> set body) lines"
    "\<forall>j cj. map_of (p_loops (client_read now i d p)) j = Some cj \<longrightarrow>
      (\<exists>cj'. map_of (p_loops ?last) j = Some cj' \<and>
         of_client j lines @ ci_buffer cj' = ci_buffer cj @ of_client j reads \<and>
         (0x0D \<in> set (ci_buffer cj') \<longrightarrow> 0x0D \<in> set (ci_buffer cj)) \<and>
         ci_packet_count cj' = ci_packet_count cj + length (filter (\<lambda>(k, _). k = j) lines) \<and> ci_out cj' = ci_out cj)"
    using Cons.IH [OF conjunct1 [OF step] known [OF refl]] by (elim exE conjE) (rule that; assumption)
  have own: "filter (\<lambda>(k, _). k = j) (map (Pair i) ps) = (if j = i then map (Pair i) ps else [])" for j
    by (simp add: filter_map o_def)
  have each: "\<exists>cj'. map_of (p_loops ?last) j = Some cj' \<and>
       of_client j (map (Pair i) ps @ lines) @ ci_buffer cj' = ci_buffer cj @ of_client j ((i, d) # reads) \<and>
       (0x0D \<in> set (ci_buffer cj') \<longrightarrow> 0x0D \<in> set (ci_buffer cj)) \<and>
       ci_packet_count cj' = ci_packet_count cj + length (filter (\<lambda>(k, _). k = j) (map (Pair i) ps @ lines)) \<and> ci_out cj' = ci_out cj"
    if "map_of (p_loops p) j = Some cj" for j cj
  proof (cases "j = i")
    case True
    with that ci have cj: "cj = ci" by simp
    obtain cj' where "map_of (p_loops ?last) i = Some cj'"
      "of_client i lines @ ci_buffer cj' = rest @ of_client i reads" "0x0D \<notin> set (ci_buffer cj')"
      "ci_packet_count cj' = ci_packet_count ci + length ps + length (filter (\<lambda>(k, _). k = i) lines)" "ci_out cj' = ci_out ci"
      using spec [OF spec [OF lines(3), of i], of "ci\<lparr>ci_buffer := rest, ci_packet_count := ci_packet_count ci + length ps\<rparr>"]
        step [of i] settled by auto
    moreover from this(2) have "concat ps @ of_client i lines @ ci_buffer cj' = ci_buffer ci @ d @ of_client i reads"
      using cut by (metis append.assoc)
    ultimately show ?thesis using True cj own [of i] by simp
  next
    case False
    with that spec [OF spec [OF lines(3), of j], of cj] step [of j] own [of j] show ?thesis by auto
  qed
  show ?case
    unfolding r fold_simps prod.case
    by (rule exI [of _ "map (Pair i) ps @ lines"]) (use lines(1,2) step shape each in \<open>simp add: o_def\<close>)
qed

section \<open>Losing the CNI\<close>

text \<open>Everything that can happen to a running proxy, in any order.\<close>

inductive proxy_step :: "proxy \<Rightarrow> proxy \<Rightarrow> bool" where
  cni_data: "proxy_step p (cni_read now data p)"
| connects: "i \<notin> fst ` set (p_loops p) \<Longrightarrow> p_running p \<Longrightarrow> proxy_step p (client_connected i ok p)"
| client_data: "proxy_step p (client_read now i data p)"
| client_breaks: "proxy_step p (p\<lparr>p_loops := AList.map_entry i (\<lambda>ci. ci\<lparr>ci_broken := True\<rparr>) (p_loops p)\<rparr>)"
| cni_breaks: "proxy_step p (p\<lparr>p_cni_broken := True\<rparr>)"
| stops: "proxy_step p (shutdown p)"

text \<open>No client has been sent anything between the two states.\<close>

definition silent :: "proxy \<Rightarrow> proxy \<Rightarrow> bool" where
  "silent p p' \<longleftrightarrow> (\<forall>(i, ci') \<in> set (p_loops p'). ci_out ci' = [] \<or> (\<exists>ci. (i, ci) \<in> set (p_loops p) \<and> ci_out ci' = ci_out ci))"

lemma silent_refl [simp]: "silent p p"
  by (auto simp: silent_def)

lemma silent_trans: "silent p p' \<Longrightarrow> silent p' p'' \<Longrightarrow> silent p p''"
  unfolding silent_def by (fastforce split: prod.splits)

lemma silent_map_entry:
  assumes "\<And>ci. ci_out (f ci) = ci_out ci" "set (p_loops q) \<subseteq> set (AList.map_entry i f (p_loops p))"
  shows "silent p q"
proof -
  have "(j, cj) \<in> set (AList.map_entry i f xs) \<Longrightarrow> \<exists>cj'. (j, cj') \<in> set xs \<and> ci_out cj = ci_out cj'" for j cj xs
    by (induction xs) (auto simp: assms(1) split: if_splits)
  with assms(2) show ?thesis by (auto simp: silent_def)
qed

lemma forward_silent: "silent p (forward_packet now i packet p)" "p_cni_task (forward_packet now i packet p) = p_cni_task p"
  by (rule silent_map_entry [of "\<lambda>ci. ci\<lparr>ci_packet_count := ci_packet_count ci + 1\<rparr>" _ i])
    (simp_all add: forward_packet_def Let_def)

lemma forwards_silent:
  "silent p (fold (forward_packet now i) ps p) \<and> p_cni_task (fold (forward_packet now i) ps p) = p_cni_task p"
proof (induction ps arbitrary: p)
  case (Cons a ps)
  then show ?case using forward_silent silent_trans by simp blast
qed simp

lemma gone_silent: "silent p (client_gone i p)" "p_cni_task (client_gone i p) = p_cni_task p"
proof -
  have "set (AList.delete i xs) \<subseteq> set xs" for xs :: "(string \<times> client_info) list" by (induction xs) auto
  then show "silent p (client_gone i p)" by (auto simp: silent_def client_gone_def)
qed (simp add: client_gone_def)

lemma client_read_silent: "silent p (client_read now i data p) \<and> p_cni_task (client_read now i data p) = p_cni_task p"
proof (cases "map_of (p_loops p) i")
  case (Some ci)
  define ps rest where "ps = fst (client_packets (ci_buffer ci @ data))" and "rest = snd (client_packets (ci_buffer ci @ data))"
  define q where "q = p\<lparr>p_loops := AList.map_entry i (\<lambda>ci. ci\<lparr>ci_buffer := rest\<rparr>) (p_loops p)\<rparr>"
  have "silent p q" by (rule silent_map_entry [of "\<lambda>ci. ci\<lparr>ci_buffer := rest\<rparr>" _ i]) (simp_all add: q_def)
  then have q: "silent p (fold (forward_packet now i) ps q)" "p_cni_task (fold (forward_packet now i) ps q) = p_cni_task p"
    using forwards_silent [of q now i ps] silent_trans by (auto simp: q_def)
  have "client_read now i data p = (if data = [] then client_gone i p
      else let p = fold (forward_packet now i) ps q in if p_running p then p else client_gone i p)"
    using Some by (simp add: client_read_def q_def ps_def rest_def case_prod_unfold Let_def)
  then show ?thesis using q gone_silent silent_trans by (simp add: Let_def)
qed (simp add: client_read_def)

lemma finished_step:
  assumes "proxy_step p p'" "p_cni_task p = Some Finished"
  shows "p_cni_task p' = Some Finished \<and> silent p p'"
  using assms
proof (induction rule: proxy_step.induct)
  case (connects i p ok)
  then show ?case
    by (simp add: client_connected_def connect_to_cni_def initialize_cni_def silent_def Let_def split: sum.splits) auto
next
  case (client_data p now i data)
  then show ?case using client_read_silent by simp
next
  case (client_breaks p i)
  then show ?case by (simp add: silent_map_entry [of "\<lambda>ci. ci\<lparr>ci_broken := True\<rparr>" _ i])
next
  case (stops p)
  then show ?case by (auto simp: shutdown_def silent_def)
qed (auto simp: cni_read_def silent_def)

text \<open>
  C26: Once the CNI closes its connection no client is ever sent anything again: in every state
  the proxy can reach from there, however often the connection to the CNI is made again, the reader
  task stays finished and no client's output has grown. A client that connects while the CNI is
  reachable nevertheless makes the proxy connect to it and forward commands, whose answers are lost.
\<close>

theorem reader_never_restarts:
  assumes "p_cni_task p = Some (Reading buf)" "proxy_step\<^sup>*\<^sup>* (cni_read now [] p) p'"
  shows "p_cni_task p' = Some Finished \<and> silent p p' \<and> p_cni_connected (client_connected i True p')"
proof -
  have start: "p_cni_task (cni_read now [] p) = Some Finished" "silent p (cni_read now [] p)"
    using assms(1) by (simp_all add: cni_read_def end_reader_def silent_def) auto
  have "p_cni_task p' = Some Finished \<and> silent p p'"
    using assms(2)
  proof (induction rule: rtranclp_induct)
    case (step y z)
    then show ?case using finished_step [OF step(2)] silent_trans by blast
  qed (use start in simp)
  moreover have "p_cni_connected (client_connected i True p')"
    by (simp add: client_connected_def connect_to_cni_def initialize_cni_def Let_def split: sum.splits option.splits)
  ultimately show ?thesis by blast
qed

section \<open>The initialisation\<close>

lemma init_commands_encode:
  "cni_init_commands = Inr (map ascii [[CHR ''~'', CHR 0x0D], [CHR ''|'', CHR 0x0D], ''A32100FF'' @ [CHR 0x0D],
     ''A32200FF'' @ [CHR 0x0D], ''A342000E'' @ [CHR 0x0D], ''A3300079'' @ [CHR 0x0D]])"
  by (simp add: cni_init_commands_def dm_encode_def new_DeviceManagementPacket_def base_encode_def flags_def
      add_checksum_if_def hex_char_def END_COMMAND_def ascii_def)

section \<open>Examples\<close>

text \<open>A proxy that reached its CNI, with one client.\<close>

definition example_proxy :: proxy where
  "example_proxy = client_connected ''c'' True (proxy_start True new_CBusProxy)"

lemma example_proxy_facts:
  "p_cni_task example_proxy = Some (Reading [])" "p_running example_proxy" "p_cni_connected example_proxy"
  "listening example_proxy ''c''" "cni_up example_proxy"
  "map_of (p_loops example_proxy) ''c'' = Some \<lparr>ci_packet_count = 0, ci_buffer = [], ci_out = [], ci_broken = False\<rparr>"
  by (simp_all add: example_proxy_def client_connected_def proxy_start_def new_CBusProxy_def connect_to_cni_def
      initialize_cni_def init_commands_encode listening_def cni_up_def Let_def)

theorem downstream_transparent_witness:
  "p_cni_task (fold (cni_read 0) [ascii ''h'', ascii ''.05''] example_proxy) = Some (Reading (ascii ''05'')) \<and>
   unfinished (ascii ''05'') \<and>
   map_option ci_out (map_of (p_loops (fold (cni_read 0) [ascii ''h'', ascii ''.05''] example_proxy)) ''c'') = Some (ascii ''h.'')"
proof -
  have c: "list_all (\<lambda>d. d \<noteq> []) [ascii ''h'', ascii ''.05'']" "[] @ concat [ascii ''h'', ascii ''.05''] = ascii ''h.05''"
    by (simp_all add: ascii_def)
  obtain sent rest where s: "sent @ rest = ascii ''h.05''" "unfinished rest"
    "p_cni_task (fold (cni_read 0) [ascii ''h'', ascii ''.05''] example_proxy) = Some (Reading rest)"
    "\<forall>i. map_of (p_loops (fold (cni_read 0) [ascii ''h'', ascii ''.05''] example_proxy)) i =
       map_option (\<lambda>ci. if listening example_proxy i then ci\<lparr>ci_out := ci_out ci @ sent\<rparr> else ci) (map_of (p_loops example_proxy) i)"
    using downstream_transparent [OF example_proxy_facts(1-3) c(1), of 0] unfolding c(2) by auto
  have "next_from_cni (ascii ''h'') = None" "next_from_cni (ascii ''h.05'') = Some (ascii ''h.'', ascii ''05'')"
    "next_from_cni (ascii ''05'') = None"
    by (simp_all add: next_from_cni_def ascii_def END_RESPONSE_def CONFIRMATION_CODES_def)
  then have "cni_packets (ascii ''h'') = ([], ascii ''h'')" "cni_packets (ascii ''h.05'') = ([ascii ''h.''], ascii ''05'')"
    by (simp_all add: cni_cutter.cut_unfold)
  then have "p_cni_task (fold (cni_read 0) [ascii ''h'', ascii ''.05''] example_proxy) = Some (Reading (ascii ''05''))"
    using example_proxy_facts(1-3) by (simp add: cni_read_def Let_def) (simp add: ascii_def)
  with s(1,3) have "rest = ascii ''05''" "sent = ascii ''h.''" by (simp_all add: ascii_def)
  with s show ?thesis using example_proxy_facts(4,6) by auto
qed

text \<open>Two clients whose lines are cut and interleave; the first has begun another.\<close>

theorem upstream_transparent_witness:
  "\<exists>lines p'. p' = fold (\<lambda>(i, d). client_read 0 i d)
       [(''c'', ascii ''~''), (''d'', ascii ''|''), (''c'', END_COMMAND @ ascii ''A3''), (''d'', END_COMMAND)]
       (client_connected ''d'' True example_proxy) \<and>
     p_cni_out p' = p_cni_out (client_connected ''d'' True example_proxy) @ concat (map snd lines) \<and>
     of_client ''c'' lines = ascii ''~'' @ END_COMMAND \<and> of_client ''d'' lines = ascii ''|'' @ END_COMMAND \<and>
     map_option ci_buffer (map_of (p_loops p') ''c'') = Some (ascii ''A3'')"
proof -
  let ?p = "client_connected ''d'' True example_proxy"
  let ?reads = "[(''c'', ascii ''~''), (''d'', ascii ''|''), (''c'', END_COMMAND @ ascii ''A3''), (''d'', END_COMMAND)]"
  let ?last = "fold (\<lambda>(i, d). client_read 0 i d) ?reads ?p"
  let ?new = "\<lparr>ci_packet_count = 0, ci_buffer = [], ci_out = [], ci_broken = False\<rparr>"
  have p: "cni_up ?p" "map_of (p_loops ?p) ''c'' = Some ?new" "map_of (p_loops ?p) ''d'' = Some ?new"
    by (simp_all add: example_proxy_def client_connected_def proxy_start_def new_CBusProxy_def connect_to_cni_def
        initialize_cni_def init_commands_encode cni_up_def Let_def)
  have reads: "list_all (\<lambda>(i, d). d \<noteq> [] \<and> map_of (p_loops ?p) i \<noteq> None) ?reads"
    using p(2,3) by (simp add: ascii_def END_COMMAND_def)
  obtain lines where lines: "p_cni_out ?last = p_cni_out ?p @ concat (map snd lines)"
    "list_all (\<lambda>(i, l). \<exists>body. l = body @ END_COMMAND \<and> 0x0D \<notin> set body) lines"
    "\<And>i ci. map_of (p_loops ?p) i = Some ci \<Longrightarrow> \<exists>ci'. map_of (p_loops ?last) i = Some ci' \<and>
       of_client i lines @ ci_buffer ci' = ci_buffer ci @ of_client i ?reads \<and>
       (0x0D \<in> set (ci_buffer ci') \<longrightarrow> 0x0D \<in> set (ci_buffer ci))"
    using upstream_transparent [OF p(1) reads, of 0] by (elim exE conjE) (rule that, assumption+, blast)
  have ends: "of_client i lines = [] \<or> last (of_client i lines) = 0x0D" for i
    using lines(2) by (induction lines rule: rev_induct) (auto simp: END_COMMAND_def last_append split: if_splits)
  have cut: "xs = pre @ [0x0D] \<and> ys = suf"
    if "xs @ ys = pre @ 0x0D # suf" "0x0D \<notin> set ys" "0x0D \<notin> set suf" "xs = [] \<or> last xs = 0x0D" for xs ys pre suf :: bytes
    using that by (auto simp: append_eq_append_conv2 append_eq_Cons_conv Cons_eq_append_conv split: if_splits) (metis last_in_set)+
  obtain c' where c': "map_of (p_loops ?last) ''c'' = Some c'"
    "of_client ''c'' lines @ ci_buffer c' = ascii ''~'' @ 0x0D # ascii ''A3''" "0x0D \<notin> set (ci_buffer c')"
    using lines(3) [OF p(2)] by (auto simp: END_COMMAND_def ascii_def)
  obtain d' :: client_info where d': "of_client ''d'' lines @ ci_buffer d' = ascii ''|'' @ 0x0D # []" "0x0D \<notin> set (ci_buffer d')"
    using lines(3) [OF p(3)] by (auto simp: END_COMMAND_def ascii_def)
  have "of_client ''c'' lines = ascii ''~'' @ [0x0D] \<and> ci_buffer c' = ascii ''A3''"
    by (rule cut [OF c'(2,3) _ ends]) (simp add: ascii_def)
  moreover have "of_client ''d'' lines = ascii ''|'' @ [0x0D] \<and> ci_buffer d' = []"
    by (rule cut [OF d' _ ends]) simp
  ultimately show ?thesis using lines(1) c'(1) by (intro exI [of _ lines] exI [of _ ?last]) (simp add: END_COMMAND_def)
qed

theorem reader_never_restarts_witness:
  "p_cni_task (client_connected ''d'' True (cni_read 0 [] example_proxy)) = Some Finished"
proof -
  have "''d'' \<notin> fst ` set (p_loops (cni_read 0 [] example_proxy))" "p_running (cni_read 0 [] example_proxy)"
    by (simp_all add: example_proxy_def client_connected_def proxy_start_def new_CBusProxy_def connect_to_cni_def
        initialize_cni_def init_commands_encode cni_read_def end_reader_def Let_def)
  then have "proxy_step\<^sup>*\<^sup>* (cni_read 0 [] example_proxy) (client_connected ''d'' True (cni_read 0 [] example_proxy))"
    by (intro r_into_rtranclp proxy_step.connects)
  then show ?thesis using reader_never_restarts [OF example_proxy_facts(1)] by blast
qed

end
