(* ===== verification/Proxy_Link.thy ===== *)
theory Proxy_Link
  imports Proxy Pci_Protocol
begin

text \<open>
  Clients of \<open>protocol/pciprotocol.py\<close> behind the proxy: how the proxy carries and books a client's
  command and its confirmation, and what the confirmation does to the other clients.
\<close>

lemma confirmation_packet:
  assumes "c \<in> set CONFIRMATION_CODES"
  shows "cni_packets [c, 0x2E] = ([[c, 0x2E]], [])"
    "decode_packet True True True [c, 0x2E] = Inr (Some (Packet (ConfirmationPacket [c] True)), 2)"
proof -
  have "next_from_cni [c, 0x2E] = Some ([c, 0x2E], [])" "next_from_cni [] = None"
    using assms by (simp_all add: next_from_cni_def)
  then show "cni_packets [c, 0x2E] = ([[c, 0x2E]], [])"
    by (simp add: cni_packets.simps [of "[c, 0x2E]"] cni_packets.simps [of "[]"])
  have "c \<noteq> 0x2B" "c \<noteq> 0x21" using assms by (auto simp: CONFIRMATION_CODES_def)
  then show "decode_packet True True True [c, 0x2E] = Inr (Some (Packet (ConfirmationPacket [c] True)), 2)"
    using assms by (simp add: decode_packet_def special_prefix_def MIN_MESSAGE_SIZE_def)
qed

lemma confirmation_read:
  assumes "c \<in> set CONFIRMATION_CODES" "p_cni_task p = Some (Reading [])" "p_running p" "p_cni_connected p"
  shows "cni_read t [c, 0x2E] p = (relay_from_cni t [c, 0x2E] p)\<lparr>p_cni_task := Some (Reading [])\<rparr>"
  using assms by (simp add: cni_read_def confirmation_packet Let_def)

section \<open>Confirmations are shared\<close>

text \<open>
  C31: A confirmation the CNI sends reaches every client, and a client takes it for its own: with
  the same code pending at two clients behind one proxy, the confirmation of one client's command makes
  both drop their pending packet and free the code, so the other's command is never sent again even if
  the CNI did not accept it.
\<close>

theorem confirmations_are_shared:
  assumes "c \<in> set CONFIRMATION_CODES" "p_cni_task p = Some (Reading [])" "p_running p" "p_cni_connected p"
    and "listening p i" "listening p j" "tasks a = []" "tasks b = []"
  shows "list_all (\<lambda>k. map_option ci_out (map_of (p_loops (cni_read t [c, 0x2E] p)) k) =
       map_option (\<lambda>ci. ci_out ci @ [c, 0x2E]) (map_of (p_loops p) k)) [i, j] \<and>
    list_all (\<lambda>st. let s = b_state (data_received pci_handle_data [c, 0x2E] (new_BufferedProtocol MAX_BUFFER_SIZE st));
        s' = fold run_task (tasks s) s in
      map_of (pending s') = (map_of (pending st))(c := None) \<and> map_of (in_use s') = (map_of (in_use st))(c := None)) [a, b]"
proof -
  have down: "map_option ci_out (map_of (p_loops (cni_read t [c, 0x2E] p)) k) =
      map_option (\<lambda>ci. ci_out ci @ [c, 0x2E]) (map_of (p_loops p) k)" if "listening p k" for k
    using that by (simp add: confirmation_read [OF assms(1-4)] relay_loops option.map_comp o_def)
  have freed: "map_of (pending s') = (map_of (pending st))(c := None) \<and> map_of (in_use s') = (map_of (in_use st))(c := None)"
    if "tasks st = []" and s: "s = b_state (data_received pci_handle_data [c, 0x2E] (new_BufferedProtocol MAX_BUFFER_SIZE st))"
      and "s' = fold run_task (tasks s) s" for st s s'
    using confirmation_received [OF assms(1), of "new_BufferedProtocol MAX_BUFFER_SIZE st"] that confirmation_tasks_maps
    by (auto simp: new_BufferedProtocol_def)
  show ?thesis using down [OF assms(5)] down [OF assms(6)] freed [OF assms(7) refl refl] freed [OF assms(8) refl refl]
    by (simp add: Let_def)
qed

text \<open>Two fresh clients behind one proxy choose the same first code.\<close>

theorem confirmations_are_shared_witness:
  "list_all (\<lambda>k. map_option ci_out (map_of (p_loops (cni_read 0 [0x68, 0x2E] (client_connected ''d'' True example_proxy))) k) =
       Some [0x68, 0x2E]) [''c'', ''d''] \<and>
   (let s = b_state (data_received pci_handle_data [0x68, 0x2E] (new_BufferedProtocol MAX_BUFFER_SIZE
        ((new_PCIProtocol 0 None)\<lparr>in_use := [(0x68, 0)], pending := [(0x68, ([0x30], 1, 0))]\<rparr>)));
        s' = fold run_task (tasks s) s in map_of (pending s') = Map.empty)"
proof -
  let ?p = "client_connected ''d'' True example_proxy"
  let ?b = "(new_PCIProtocol 0 None)\<lparr>in_use := [(0x68, 0)], pending := [(0x68, ([0x30], 1, 0))]\<rparr>"
  have p: "p_cni_task ?p = Some (Reading [])" "p_running ?p" "p_cni_connected ?p" "listening ?p ''c''" "listening ?p ''d''"
    "map_option ci_out (map_of (p_loops ?p) ''c'') = Some []" "map_option ci_out (map_of (p_loops ?p) ''d'') = Some []"
    by (simp_all add: example_proxy_def client_connected_def proxy_start_def new_CBusProxy_def connect_to_cni_def
        initialize_cni_def init_commands_encode listening_def Let_def)
  have "0x68 \<in> set CONFIRMATION_CODES" "tasks ?b = []" "tasks (new_PCIProtocol 0 None) = []"
    by (simp_all add: CONFIRMATION_CODES_def new_PCIProtocol_def)
  from confirmations_are_shared [OF this(1) p(1-5) this(2,3), of 0] p(6,7) show ?thesis
    by (auto simp: Let_def)
qed

section \<open>Bookkeeping\<close>

fun described :: "lighting_sal \<Rightarrow> command_desc option" where
  "described (LightingOnSAL ga app) = Some (LightOn ga)"
| "described (LightingOffSAL ga app) = Some (LightOff ga)"
| "described (LightingRampSAL ga app duration level) = Some (LightRamp ga level)"
| "described (LightingTerminateRampSAL ga app) = None"

lemma single_line:
  assumes "0x0D \<notin> set body"
  shows "client_packets (body @ END_COMMAND) = ([body @ END_COMMAND], [])"
proof -
  have "next_from_client (body @ END_COMMAND) = Some (body @ END_COMMAND, [])"
    using find_sub_skip [OF assms, of "[]" "[]"] by (simp add: next_from_client_def END_COMMAND_def)
  moreover have "next_from_client [] = None" by (simp add: next_from_client_def END_COMMAND_def)
  ultimately show ?thesis
    by (simp add: client_packets.simps [of "body @ END_COMMAND"] client_packets.simps [of "[]"])
qed

lemma forwarded_line:
  assumes "cni_up p" "map_of (p_loops p) i = Some ci" "ci_buffer ci = []" "0x0D \<notin> set body"
  shows "p_analyzer (client_read t i (body @ END_COMMAND) p) =
      analyze_packet t (body @ END_COMMAND) FROM_CLIENT (Some (client_tag i)) (p_analyzer p) \<and>
    p_cni_out (client_read t i (body @ END_COMMAND) p) = p_cni_out p @ body @ END_COMMAND \<and>
    cni_up (client_read t i (body @ END_COMMAND) p) \<and> p_cni_task (client_read t i (body @ END_COMMAND) p) = p_cni_task p"
  using assms single_line [OF assms(4)]
  by (simp add: client_read_def forward_packet_def Let_def cni_up_def END_COMMAND_def)

text \<open>
  C32: The proxy's books follow a client's lighting command: the line the client writes is
  forwarded unchanged and, if it switches or ramps a group, recorded under its confirmation code with
  what it does and which client sent it. A command that terminates a ramp is forwarded but not recorded:
  the books stay as they were. The confirmation of the CNI then removes the entry under that code and no
  other, without an error being counted.
\<close>

theorem analyzer_tracks_command:
  assumes "conf_inv st" "connected st" "sal_ok app (Lighting s)" "get_application app = Inr cls"
    and "cni_up p" "p_cni_task p = Some (Reading [])" "map_of (p_loops p) i = Some ci" "ci_buffer ci = []"
  shows "\<exists>code st' line. send_sals now (Inr [Lighting s]) st = (Inr (Some code), st') \<and> written st' = written st @ [line] \<and>
    (let p\<^sub>1 = client_read t i line p; p\<^sub>2 = cni_read t' [code, 0x2E] p\<^sub>1;
         books = map_of (a_confirmation_map (p_analyzer p)) in
     p_cni_out p\<^sub>1 = p_cni_out p @ line \<and>
     map_of (a_confirmation_map (p_analyzer p\<^sub>1)) =
       (case described s of Some desc \<Rightarrow> books(code \<mapsto> (t, desc, Some (client_tag i))) | None \<Rightarrow> books) \<and>
     map_of (a_confirmation_map (p_analyzer p\<^sub>2)) = books(code := None) \<and>
     a_error_count (p_analyzer p\<^sub>2) = a_error_count (p_analyzer p))"
proof -
  define q where "q = \<lparr>p_checksum = True, p_dat = POINT_TO_MULTIPOINT, p_rc = 0, p_dp = False,
    p_priority = CLASS_4, p_confirmation = None, p_source = None, pm_application = Some app, pm_sals = [Lighting s]\<rparr>"
  have new: "new_PointToMultipointPacket True CLASS_4 None [Lighting s] = Inr q"
    using new_pm_packet [of "[Lighting s]" app] assms(3) by (simp add: q_def)
  have q: "pm_wf q" "p_source q = None" "p_checksum q" using assms(3,4) by (simp_all add: pm_wf_def q_def)
  obtain code st' line wire where send: "send_seq now (PointToMultipointPacket q) True False st = (Inr (Some code), st')"
    "code \<in> set CONFIRMATION_CODES" "encode_packet (PointToMultipointPacket q) = Inr wire"
    "line = 0x5C # wire @ [code] @ END_COMMAND" "written st' = written st @ [line]"
    "\<forall>strict rest. decode_packet (p_checksum q) strict False (line @ rest) =
       Inr (Some (Packet (PointToMultipointPacket (q\<lparr>p_confirmation := Some [code]\<rparr>))), length line)"
    using send_reaches_pci [OF assms(1,2) q(1,2), of now] by (elim exE conjE) (rule that; assumption)
  have snd: "send_sals now (Inr [Lighting s]) st = (Inr (Some code), st')" "code \<in> set CONFIRMATION_CODES"
    "encode_packet (PointToMultipointPacket q) = Inr wire"
    "written st' = written st @ [line]"
    "decode_packet True True False line =
       Inr (Some (Packet (PointToMultipointPacket (q\<lparr>p_confirmation := Some [code]\<rparr>))), length line)"
    using send spec [OF spec [OF send(6), of True], of "[]"] q(3) new by (simp_all add: send_sals_def)
  have line: "(0x5C # wire @ [code]) @ END_COMMAND = line" using send(4) by simp
  define p\<^sub>1 where "p\<^sub>1 = client_read t i line p"
  obtain raw where "wire = b16encode raw" using snd(3) by (auto simp: result_simps)
  then have "0x0D \<notin> set (0x5C # wire @ [code])"
    using b16encode_hex [of raw] snd(2) by (auto simp: HEX_CHARS_def CONFIRMATION_CODES_def)
  note fwd = forwarded_line [OF assms(5,7,8) this, of t, unfolded line, folded p\<^sub>1_def]
  have an: "map_of (a_confirmation_map (p_analyzer p\<^sub>1)) = (case described s of
        Some desc \<Rightarrow> (map_of (a_confirmation_map (p_analyzer p)))(code \<mapsto> (t, desc, Some (client_tag i)))
      | None \<Rightarrow> map_of (a_confirmation_map (p_analyzer p)))"
    "a_error_count (p_analyzer p\<^sub>1) = a_error_count (p_analyzer p)"
    using fwd snd(5) by (cases s; simp add: analyze_packet_def Let_def q_def note_command_def update_conv')+
  have "cni_read t' [code, 0x2E] p\<^sub>1 = (relay_from_cni t' [code, 0x2E] p\<^sub>1)\<lparr>p_cni_task := Some (Reading [])\<rparr>"
    using fwd assms(6) by (intro confirmation_read [OF snd(2)]) (simp_all add: cni_up_def)
  then have "p_analyzer (cni_read t' [code, 0x2E] p\<^sub>1) = analyze_packet t' [code, 0x2E] FROM_CNI None (p_analyzer p\<^sub>1)"
    by (simp add: relay_from_cni_def broadcast_to_clients_def)
  then have "p_analyzer (cni_read t' [code, 0x2E] p\<^sub>1) = (p_analyzer p\<^sub>1)\<lparr>a_packet_count := a_packet_count (p_analyzer p\<^sub>1) + 1,
      a_confirmation_map := AList.delete code (a_confirmation_map (p_analyzer p\<^sub>1))\<rparr>"
    by (simp add: analyze_packet_def confirmation_packet [OF snd(2)] Let_def)
  then show ?thesis
    using snd(1,4) conjunct1 [OF conjunct2 [OF fwd]] an line
    by (intro exI [of _ code] exI [of _ st'] exI [of _ line])
      (auto simp: p\<^sub>1_def [symmetric] Let_def delete_conv' split: option.splits)
qed

theorem analyzer_tracks_command_witness:
  "\<exists>code st' line. send_sals 0 (Inr [Lighting (LightingOnSAL 5 0x38)]) (connection_made (new_PCIProtocol 0 None)) =
       (Inr (Some code), st') \<and> written st' = [line] \<and>
     map_of (a_confirmation_map (p_analyzer (client_read 1 ''c'' line example_proxy))) =
       [code \<mapsto> (1, LightOn 5, Some (client_tag ''c''))]"
proof -
  have c: "conf_inv (connection_made (new_PCIProtocol 0 None))" "connected (connection_made (new_PCIProtocol 0 None))"
    "written (connection_made (new_PCIProtocol 0 None)) = []"
    by (simp_all add: connection_made_def new_PCIProtocol_def cleanup_state_def conf_inv_def codes_facts)
  have app: "(0x38 :: int) \<in> set lighting_applications" by (simp add: lighting_applications_def)
  then have s: "sal_ok 0x38 (Lighting (LightingOnSAL 5 0x38))" "get_application 0x38 = Inr LightingApplication"
    by (simp, simp only: application_ids)
  have p: "a_confirmation_map (p_analyzer example_proxy) = []"
    by (simp add: example_proxy_def client_connected_def proxy_start_def new_CBusProxy_def connect_to_cni_def
        initialize_cni_def init_commands_encode new_PacketAnalyzer_def Let_def)
  obtain code st' line where
    "send_sals 0 (Inr [Lighting (LightingOnSAL 5 0x38)]) (connection_made (new_PCIProtocol 0 None)) = (Inr (Some code), st')"
    "written st' = [line]"
    "map_of (a_confirmation_map (p_analyzer (client_read 1 ''c'' line example_proxy))) =
       [code \<mapsto> (1, LightOn 5, Some (client_tag ''c''))]"
    using analyzer_tracks_command [OF c(1,2) s example_proxy_facts(5,1,6), of 0 1 2] c(3) p
    by (auto simp: Let_def)
  then show ?thesis by blast
qed

end
