(* ===== verification/Packet_Json.thy ===== *)
theory Packet_Json
  imports Decode Json
begin

text \<open>
  The canonical JSON of C-Bus packets of \<open>rust-migration-harness/lib/pyjson.py\<close>, the schema of
  the golden vectors: \<open>*_to_json\<close> describes a packet, CAL, SAL or status report and
  \<open>*_from_json\<close> builds it again.

  The packets of the model have typed fields. Where \<open>from_json\<close> stores a member of another JSON
  type than the schema's in an object that does not look at it, the model raises
  \<open>TypeError\<close> at once, which Python does when the object is encoded.

  The lemmas show that the description of every well-formed packet can be read back, and what is
  lost otherwise.
\<close>

section \<open>Members\<close>

text \<open>Strings on the way to and from bytes: \<open>decode('ascii')\<close>, \<open>hex\<close>, \<open>fromhex\<close>.\<close>

definition text_of :: "bytes \<Rightarrow> string" where
  "text_of = map (\<lambda>b. char_of (unat b))"

definition decode_strict :: "bytes \<Rightarrow> string result" where
  "decode_strict bs = (if list_all (\<lambda>b. b < 128) bs then Inr (text_of bs) else Inl ValueError)"

definition json_hex :: "json \<Rightarrow> bytes result" where
  "json_hex j =
     (case j of
        JString s \<Rightarrow> (case fromhex (ascii s) of None \<Rightarrow> Inl ValueError | Some bs \<Rightarrow> Inr bs)
      | _ \<Rightarrow> Inl TypeError)"

definition json_encode :: "json \<Rightarrow> bytes result" where
  "json_encode j = (case j of JString s \<Rightarrow> encode_ascii s | _ \<Rightarrow> Inl AttributeError)"

fun json_int :: "json \<Rightarrow> int result" where
  "json_int (JInt i) = Inr i"
| "json_int (JBool b) = Inr (if b then 1 else 0)"
| "json_int _ = Inl TypeError"

definition json_rat :: "json \<Rightarrow> rat result" where
  "json_rat j = (case number_of_json j of Some q \<Rightarrow> Inr q | None \<Rightarrow> Inl TypeError)"

text \<open>\<open>Enum(value)\<close>: any number that equals a member's value, \<open>ValueError\<close> for the rest.\<close>

definition json_enum :: "(int \<Rightarrow> 'a result) \<Rightarrow> json \<Rightarrow> 'a result" where
  "json_enum member j =
     (case number_of_json j of
        Some q \<Rightarrow> if q = of_int \<lfloor>q\<rfloor> then member \<lfloor>q\<rfloor> else Inl ValueError
      | None \<Rightarrow> Inl ValueError)"

definition int_at :: "json \<Rightarrow> string \<Rightarrow> int result" where
  "int_at d k = rbind (jget d k) json_int"

definition flag_at :: "json \<Rightarrow> string \<Rightarrow> bool result" where
  "flag_at d k = rmap truthy (jget d k)"

section \<open>SALs\<close>

fun sal_to_json :: "sal \<Rightarrow> json result" where
  "sal_to_json (Lighting (LightingRampSAL ga app duration level)) =
     Inr (JObject [(''sal'', JString ''lighting_ramp''), (''application'', JInt app),
       (''group_address'', JInt ga), (''duration'', JInt duration), (''level'', JInt level)])"
| "sal_to_json (Lighting (LightingOnSAL ga app)) =
     Inr (JObject [(''sal'', JString ''lighting_on''), (''application'', JInt app),
       (''group_address'', JInt ga)])"
| "sal_to_json (Lighting (LightingOffSAL ga app)) =
     Inr (JObject [(''sal'', JString ''lighting_off''), (''application'', JInt app),
       (''group_address'', JInt ga)])"
| "sal_to_json (Lighting (LightingTerminateRampSAL ga app)) =
     Inr (JObject [(''sal'', JString ''lighting_terminate_ramp''), (''application'', JInt app),
       (''group_address'', JInt ga)])"
| "sal_to_json (Clock ClockRequestSAL) = Inr (JObject [(''sal'', JString ''clock_request'')])"
| "sal_to_json (Clock (ClockUpdateSAL (DateVal d))) =
     Inr (JObject [(''sal'', JString ''clock_update_date''), (''year'', JInt (year d)),
       (''month'', JInt (month d)), (''day'', JInt (day d))])"
| "sal_to_json (Clock (ClockUpdateSAL (TimeVal t))) =
     Inr (JObject [(''sal'', JString ''clock_update_time''), (''hour'', JInt (hour t)),
       (''minute'', JInt (minute t)), (''second'', JInt (second t))])"
| "sal_to_json (Clock (ClockUpdateSAL OtherVal)) = Inl AttributeError"
| "sal_to_json (Temperature (TemperatureBroadcastSAL ga t)) =
     Inr (JObject [(''sal'', JString ''temperature_broadcast''), (''group_address'', JInt ga),
       (''temperature'', JFloat (FFin t))])"
| "sal_to_json (Enable (EnableSetNetworkVariableSAL variable val)) =
     Inr (JObject [(''sal'', JString ''enable_set_network_variable''), (''variable'', JInt variable),
       (''value'', JInt val)])"
| "sal_to_json (StatusRequest s) =
     Inr (JObject [(''sal'', JString ''status_request''), (''level_request'', JBool (sr_level_request s)),
       (''group_address'', JInt (sr_group_address s)),
       (''child_application'', JInt (sr_child_application s))])"

definition sal_from_json :: "json \<Rightarrow> sal result" where
  "sal_from_json d =
     rbind (jget d ''sal'') (\<lambda>k.
     if k = JString ''lighting_on'' then
       rbind (int_at d ''group_address'') (\<lambda>g. rbind (int_at d ''application'') (\<lambda>a.
       rmap Lighting (new_LightingOnSAL g a)))
     else if k = JString ''lighting_off'' then
       rbind (int_at d ''group_address'') (\<lambda>g. rbind (int_at d ''application'') (\<lambda>a.
       rmap Lighting (new_LightingOffSAL g a)))
     else if k = JString ''lighting_terminate_ramp'' then
       rbind (int_at d ''group_address'') (\<lambda>g. rbind (int_at d ''application'') (\<lambda>a.
       rmap Lighting (new_LightingTerminateRampSAL g a)))
     else if k = JString ''lighting_ramp'' then
       rbind (int_at d ''group_address'') (\<lambda>g. rbind (int_at d ''application'') (\<lambda>a.
       rbind (int_at d ''duration'') (\<lambda>t. rbind (int_at d ''level'') (\<lambda>l.
       rmap Lighting (new_LightingRampSAL g a t l)))))
     else if k = JString ''clock_request'' then Inr (Clock ClockRequestSAL)
     else if k = JString ''clock_update_date'' then
       rbind (int_at d ''year'') (\<lambda>y. rbind (int_at d ''month'') (\<lambda>m. rbind (int_at d ''day'') (\<lambda>dd.
       rmap (\<lambda>v. Clock (ClockUpdateSAL (DateVal v))) (new_date y m dd))))
     else if k = JString ''clock_update_time'' then
       rbind (int_at d ''hour'') (\<lambda>h. rbind (int_at d ''minute'') (\<lambda>m. rbind (int_at d ''second'') (\<lambda>s.
       rmap (\<lambda>v. Clock (ClockUpdateSAL (TimeVal v))) (new_time h m s))))
     else if k = JString ''temperature_broadcast'' then
       rbind (int_at d ''group_address'') (\<lambda>g.
       rbind (rbind (jget d ''temperature'') json_rat) (\<lambda>t.
       Inr (Temperature (TemperatureBroadcastSAL g t))))
     else if k = JString ''enable_set_network_variable'' then
       rbind (int_at d ''variable'') (\<lambda>v. rbind (int_at d ''value'') (\<lambda>x.
       Inr (Enable (EnableSetNetworkVariableSAL v x))))
     else if k = JString ''status_request'' then
       rbind (flag_at d ''level_request'') (\<lambda>l. rbind (int_at d ''group_address'') (\<lambda>g.
       rbind (int_at d ''child_application'') (\<lambda>a.
       Inr (StatusRequest \<lparr>sr_level_request = l, sr_group_address = g, sr_child_application = a\<rparr>))))
     else Inl ValueError)"

section \<open>Status reports and CALs\<close>

fun report_to_json :: "status_report \<Rightarrow> json" where
  "report_to_json (BinaryStatusReport gs) =
     JObject [(''report'', JString ''binary''),
       (''group_states'', JList (map (\<lambda>g. JInt (group_state_value g)) gs))]"
| "report_to_json (LevelStatusReport ls) =
     JObject [(''report'', JString ''level''),
       (''levels'', JList (map (\<lambda>l. case l of None \<Rightarrow> JNull | Some v \<Rightarrow> JInt v) ls))]"

definition json_level :: "json \<Rightarrow> int option result" where
  "json_level j = (if j = JNull then Inr None else rmap Some (json_int j))"

definition report_from_json :: "json \<Rightarrow> status_report result" where
  "report_from_json d =
     rbind (jget d ''report'') (\<lambda>k.
     if k = JString ''binary'' then
       rbind (rbind (jget d ''group_states'') elements) (\<lambda>gs.
       rmap BinaryStatusReport (rmapM (json_enum GroupState) gs))
     else if k = JString ''level'' then
       rbind (rbind (jget d ''levels'') elements) (\<lambda>ls.
       rmap LevelStatusReport (rmapM json_level ls))
     else Inl ValueError)"

text \<open>The members of a CAL's object; \<open>packet_to_json\<close> puts a \<open>type\<close> before them.\<close>

fun cal_members :: "cal \<Rightarrow> (string \<times> json) list" where
  "cal_members (IdentifyCAL attribute) =
     [(''cal'', JString ''identify''), (''attribute'', JInt attribute)]"
| "cal_members (RecallCAL param count) =
     [(''cal'', JString ''recall''), (''param'', JInt param), (''count'', JInt count)]"
| "cal_members (ReplyCAL parameter data) =
     [(''cal'', JString ''reply''), (''parameter'', JInt parameter),
      (''data_hex'', JString (text_of (hex_lower data)))]"
| "cal_members (ExtendedCAL externally_initated child_application block_start report) =
     [(''cal'', JString ''extended_status''), (''externally_initiated'', JBool externally_initated),
      (''child_application'', JInt child_application), (''block_start'', JInt block_start),
      (''report'', report_to_json report)]"

definition cal_to_json :: "cal \<Rightarrow> json" where
  "cal_to_json c = JObject (cal_members c)"

definition cal_from_json :: "json \<Rightarrow> cal result" where
  "cal_from_json d =
     rbind (jget d ''cal'') (\<lambda>k.
     if k = JString ''identify'' then rmap IdentifyCAL (int_at d ''attribute'')
     else if k = JString ''recall'' then
       rbind (int_at d ''param'') (\<lambda>p. rmap (RecallCAL p) (int_at d ''count''))
     else if k = JString ''reply'' then
       rbind (int_at d ''parameter'') (\<lambda>p.
       rmap (ReplyCAL p) (rbind (jget d ''data_hex'') json_hex))
     else if k = JString ''extended_status'' then
       rbind (flag_at d ''externally_initiated'') (\<lambda>x.
       rbind (int_at d ''child_application'') (\<lambda>a.
       rbind (int_at d ''block_start'') (\<lambda>b.
       rmap (ExtendedCAL x a b) (rbind (jget d ''report'') report_from_json))))
     else Inl ValueError)"

section \<open>Packets\<close>

definition conf_to_json :: "bytes option \<Rightarrow> json result" where
  "conf_to_json c = (case c of None \<Rightarrow> Inr JNull | Some bs \<Rightarrow> rmap JString (decode_strict bs))"

definition optional_int :: "int option \<Rightarrow> json" where
  "optional_int x = (case x of None \<Rightarrow> JNull | Some i \<Rightarrow> JInt i)"

text \<open>The members the three addressed packets share, after their \<open>type\<close>.\<close>

definition base_members :: "'a base_packet_scheme \<Rightarrow> (string \<times> json) list result" where
  "base_members p =
     rmap (\<lambda>c. [(''checksum'', JBool (p_checksum p)),
                 (''priority_class'', JInt (priority_value (p_priority p))),
                 (''source_address'', optional_int (p_source p)),
                 (''confirmation'', c)])
       (conf_to_json (p_confirmation p))"

definition typed :: "string \<Rightarrow> (string \<times> json) list \<Rightarrow> json" where
  "typed t ms = JObject ((''type'', JString t) # ms)"

fun packet_members :: "packet \<Rightarrow> json result" where
  "packet_members (InvalidPacket payload e) = Inr (typed ''invalid'' [])"
| "packet_members PowerOnPacket = Inr (typed ''power_on'' [])"
| "packet_members PCIErrorPacket = Inr (typed ''pci_error'' [])"
| "packet_members (ConfirmationPacket code success) =
     rmap (\<lambda>c. typed ''confirmation'' [(''code'', JString c), (''success'', JBool success)])
       (decode_strict code)"
| "packet_members ResetPacket = Inr (typed ''reset'' [])"
| "packet_members SmartConnectShortcutPacket = Inr (typed ''smart_connect'' [])"
| "packet_members (DeviceManagementPacket p) =
     rmap (\<lambda>ms. typed ''device_management''
              (ms @ [(''parameter'', JInt (dm_parameter p)), (''value'', JInt (dm_value p))]))
       (base_members p)"
| "packet_members (PointToMultipointPacket p) =
     rbind (base_members p) (\<lambda>ms.
     rmap (\<lambda>js. typed ''point_to_multipoint''
              (ms @ [(''application'', optional_int (pm_application p)), (''sals'', JList js)]))
       (rmapM sal_to_json (pm_sals p)))"
| "packet_members (PointToPointPacket p) =
     rmap (\<lambda>ms. typed ''point_to_point''
              (ms @ [(''unit_address'', JInt (pp_unit_address p)), (''bridged'', JBool (pp_bridged p)),
                     (''hops'', JList (map JInt (pp_hops p))),
                     (''cals'', JList (map cal_to_json (pp_cals p)))]))
       (base_members p)"

fun packet_to_json :: "decoded option \<Rightarrow> json result" where
  "packet_to_json None = Inr JNull"
| "packet_to_json (Some (Packet p)) = packet_members p"
| "packet_to_json (Some (DirectCAL c)) = Inr (typed ''cal'' (cal_members c))"

text \<open>What \<open>packet_from_json\<close> may return: a packet, or a bare CAL, SAL or status report.\<close>

datatype harness_obj = HPacket packet | HCal cal | HSal sal | HReport status_report

definition with_origin :: "json \<Rightarrow> 'a base_packet_scheme \<Rightarrow> 'a base_packet_scheme result" where
  "with_origin d p =
     (let conf = jget_or d ''confirmation''; source = jget_or d ''source_address'' in
      rbind (if source = JNull then Inr None else rmap Some (json_int source)) (\<lambda>s.
      rbind (if truthy conf then rmap Some (json_encode conf) else Inr None) (\<lambda>c.
      Inr (p\<lparr>p_source := s, p_confirmation := c\<rparr>))))"

definition packet_from_json :: "json \<Rightarrow> harness_obj result" where
  "packet_from_json d =
     rbind (jget d ''type'') (\<lambda>t.
     if t = JString ''reset'' then Inr (HPacket ResetPacket)
     else if t = JString ''smart_connect'' then Inr (HPacket SmartConnectShortcutPacket)
     else if t = JString ''power_on'' then Inr (HPacket PowerOnPacket)
     else if t = JString ''pci_error'' then Inr (HPacket PCIErrorPacket)
     else if t = JString ''confirmation'' then
       rbind (rbind (jget d ''code'') json_encode) (\<lambda>code.
       rbind (flag_at d ''success'') (\<lambda>success.
       rmap HPacket (new_ConfirmationPacket code success)))
     else if t = JString ''device_management'' then
       rbind (flag_at d ''checksum'') (\<lambda>checksum.
       rbind (rbind (jget d ''priority_class'') (json_enum PriorityClass)) (\<lambda>prio.
       rbind (int_at d ''parameter'') (\<lambda>parameter.
       rbind (int_at d ''value'') (\<lambda>val.
       rmap (\<lambda>p. HPacket (DeviceManagementPacket p))
         (with_origin d (new_DeviceManagementPacket checksum prio parameter val))))))
     else if t = JString ''point_to_multipoint'' then
       rbind (flag_at d ''checksum'') (\<lambda>checksum.
       rbind (rbind (jget d ''priority_class'') (json_enum PriorityClass)) (\<lambda>prio.
       rbind (rbind (jget d ''sals'') elements) (\<lambda>js.
       rbind (rmapM sal_from_json js) (\<lambda>sals.
       rbind (new_PointToMultipointPacket checksum prio None sals) (\<lambda>p.
       rmap (\<lambda>p. HPacket (PointToMultipointPacket p)) (with_origin d p))))))
     else if t = JString ''point_to_point'' then
       rbind (flag_at d ''checksum'') (\<lambda>checksum.
       rbind (rbind (jget d ''priority_class'') (json_enum PriorityClass)) (\<lambda>prio.
       rbind (int_at d ''unit_address'') (\<lambda>unit_address.
       rbind (rbind (jget d ''cals'') elements) (\<lambda>js.
       rbind (rmapM cal_from_json js) (\<lambda>cals.
       rbind (new_PointToPointPacket checksum prio unit_address 0 None cals) (\<lambda>p.
       rmap (\<lambda>p. HPacket (PointToPointPacket p)) (with_origin d p)))))))
     else if t = JString ''cal'' then rmap HCal (cal_from_json d)
     else if t = JString ''sal'' then rmap HSal (sal_from_json d)
     else if t = JString ''binary_report'' then
       rbind (jget d ''group_states'') (\<lambda>gs.
       rmap HReport (report_from_json (JObject [(''report'', JString ''binary''), (''group_states'', gs)])))
     else if t = JString ''level_report'' then
       rbind (jget d ''levels'') (\<lambda>ls.
       rmap HReport (report_from_json (JObject [(''report'', JString ''level''), (''levels'', ls)])))
     else Inl ValueError)"

section \<open>Reading back\<close>

lemma jget_object [simp]:
  "jget (JObject ((k, v) # ms)) k' = (if k = k' then Inr v else jget (JObject ms) k')"
  by (simp add: jget_def)

lemma of_char_nat_byte [simp]: "of_char (char_of (unat (b :: byte))) = unat b"
  using unsigned_less [of b, where 'a = nat] by (simp add: take_bit_nat_eq_self)

lemma of_char_byte [simp]: "of_char (char_of (unat b)) = (b :: byte)"
proof -
  have "of_char (char_of (unat b)) = (of_nat (unat b) :: byte)"
    by (subst of_nat_of_char [symmetric], subst of_char_nat_byte) simp
  then show ?thesis by simp
qed

lemma ascii_text_of [simp]: "ascii (text_of bs) = bs"
  by (induction bs) (simp_all add: ascii_def text_of_def)

lemma text_of_Nil_iff [simp]: "text_of bs = [] \<longleftrightarrow> bs = []"
  by (simp add: text_of_def)

lemma encode_decode_strict:
  "decode_strict bs = Inr s \<Longrightarrow> encode_ascii s = Inr bs \<and> (s = [] \<longleftrightarrow> bs = [])"
proof -
  assume *: "decode_strict bs = Inr s"
  then have "list_all (\<lambda>c. of_char c < (128 :: nat)) (text_of bs)"
    by (auto simp: decode_strict_def text_of_def list_all_iff word_less_nat_alt split: if_splits)
  with * show ?thesis by (auto simp: decode_strict_def encode_ascii_def split: if_splits)
qed

lemma json_enum_int [simp]: "json_enum member (JInt i) = member i"
  by (simp add: json_enum_def)

lemma report_json_inverse [simp]: "report_from_json (report_to_json r) = Inr r"
proof (cases r)
  case (BinaryStatusReport gs)
  then show ?thesis
    by (simp add: report_from_json_def rmapM_map rmapM_Inr [where g = id])
next
  case (LevelStatusReport ls)
  have "rmapM (\<lambda>x. json_level (case x of None \<Rightarrow> JNull | Some v \<Rightarrow> JInt v)) ls = Inr (map id ls)"
    by (rule rmapM_Inr) (simp add: json_level_def split: option.splits)
  with LevelStatusReport show ?thesis by (simp add: report_from_json_def rmapM_map)
qed

lemma cal_json_inverse:
  assumes "\<And>k. k \<in> {''cal'', ''attribute'', ''param'', ''count'', ''parameter'', ''data_hex'',
      ''externally_initiated'', ''child_application'', ''block_start'', ''report''} \<Longrightarrow>
    jget d k = jget (JObject (cal_members c)) k"
  shows "cal_from_json d = Inr c"
  using assms
  by (cases c) (simp_all add: cal_from_json_def int_at_def flag_at_def json_hex_def)

lemma new_moment_inverse:
  "date_valid d \<Longrightarrow> new_date (year d) (month d) (day d) = Inr d"
  "time_valid t \<Longrightarrow> microsecond t = 0 \<Longrightarrow> new_time (hour t) (minute t) (second t) = Inr t"
  by (cases d, simp add: new_date_def) (cases t, simp add: new_time_def)

lemma sal_json_inverse:
  assumes "sal_ok a s"
  shows "\<exists>j. sal_to_json s = Inr j \<and> sal_from_json j = Inr s"
  using assms
  by (cases "(a, s)" rule: sal_ok.cases; cases s rule: sal_to_json.cases)
    (auto simp: sal_from_json_def int_at_def flag_at_def json_rat_def new_lighting_defs new_moment_inverse)

text \<open>
  The packets whose description can be read back: well formed, with SALs where the application
  is read off them, and a confirmation code that is text.
\<close>

definition conf_text :: "bytes option \<Rightarrow> bool" where
  "conf_text c = (case c of None \<Rightarrow> True | Some bs \<Rightarrow> bs \<noteq> [] \<and> list_all (\<lambda>b. b < 128) bs)"

fun describable :: "decoded \<Rightarrow> bool" where
  "describable (Packet (PointToMultipointPacket p)) \<longleftrightarrow> pm_wf p \<and> pm_sals p \<noteq> [] \<and> conf_text (p_confirmation p)"
| "describable (Packet (PointToPointPacket p)) \<longleftrightarrow> pp_wf p \<and> conf_text (p_confirmation p)"
| "describable (Packet (DeviceManagementPacket p)) \<longleftrightarrow> dm_wf p \<and> conf_text (p_confirmation p)"
| "describable (Packet (ConfirmationPacket code success)) \<longleftrightarrow>
     (case code of [c] \<Rightarrow> c \<in> set CONFIRMATION_CODES | _ \<Rightarrow> False)"
| "describable (Packet (InvalidPacket payload e)) \<longleftrightarrow> False"
| "describable _ \<longleftrightarrow> True"

fun obj_of :: "decoded \<Rightarrow> harness_obj" where
  "obj_of (Packet p) = HPacket p"
| "obj_of (DirectCAL c) = HCal c"

lemma base_jsonE:
  assumes "conf_text (p_confirmation p)"
  obtains c where "base_members p = Inr [(''checksum'', JBool (p_checksum p)),
      (''priority_class'', JInt (priority_value (p_priority p))),
      (''source_address'', optional_int (p_source p)), (''confirmation'', c)]"
    and "case p_confirmation p of None \<Rightarrow> c = JNull | Some bs \<Rightarrow> truthy c \<and> json_encode c = Inr bs"
proof (cases "p_confirmation p")
  case None
  with that show ?thesis by (simp add: base_members_def conf_to_json_def)
next
  case (Some bs)
  then obtain s where s: "decode_strict bs = Inr s" using assms by (auto simp: conf_text_def decode_strict_def)
  with Some assms that [of "JString s"] show ?thesis
    using encode_decode_strict [OF s]
    by (auto simp: base_members_def conf_to_json_def conf_text_def json_encode_def)
qed

lemma with_origin_eq:
  assumes "jget d ''source_address'' = Inr (optional_int s)" "jget d ''confirmation'' = Inr j"
    and "case c of None \<Rightarrow> j = JNull | Some bs \<Rightarrow> truthy j \<and> json_encode j = Inr bs"
  shows "with_origin d p = Inr (p\<lparr>p_source := s, p_confirmation := c\<rparr>)"
  using assms
  by (auto simp: with_origin_def jget_or_def optional_int_def Let_def split: option.splits)

lemma append_sals_fresh:
  assumes "list_all (sal_ok a) sals" "sals \<noteq> []" "pm_application p = None" "pm_sals p = []"
  shows "append_sals sals p = Inr (p\<lparr>pm_application := Some a, pm_sals := sals\<rparr>)"
proof -
  from assms obtain s rest where s: "sals = s # rest" "sal_application s = a" "list_all (sal_ok a) rest"
    by (cases sals) (auto simp: sal_ok_application)
  with assms show ?thesis by (simp add: append_sal_def append_sals_ok [where a = a])
qed

lemma pm_json:
  assumes "pm_wf p" "pm_sals p \<noteq> []" "conf_text (p_confirmation p)"
  shows "\<exists>j. packet_members (PointToMultipointPacket p) = Inr j \<and>
    packet_from_json j = Inr (HPacket (PointToMultipointPacket p))"
proof -
  from assms(1) obtain a where a: "pm_application p = Some a" "list_all (sal_ok a) (pm_sals p)"
    by (auto simp: pm_wf_def split: option.splits)
  then have "\<exists>js. rmapM sal_to_json (pm_sals p) = Inr js \<and> rmapM sal_from_json js = Inr (pm_sals p)"
    by (intro rmapM_inverse sal_json_inverse) (auto simp: list_all_iff)
  then obtain js where js: "rmapM sal_to_json (pm_sals p) = Inr js"
    "rmapM sal_from_json js = Inr (pm_sals p)" by blast
  obtain c where c: "case p_confirmation p of None \<Rightarrow> c = JNull | Some bs \<Rightarrow> truthy c \<and> json_encode c = Inr bs"
    and base: "base_members p = Inr [(''checksum'', JBool (p_checksum p)),
      (''priority_class'', JInt (priority_value (p_priority p))),
      (''source_address'', optional_int (p_source p)), (''confirmation'', c)]"
    by (rule base_jsonE [OF assms(3)])
  have "new_PointToMultipointPacket (p_checksum p) (p_priority p) None (pm_sals p) =
      Inr (p\<lparr>p_source := None, p_confirmation := None\<rparr>)"
    using assms(1) a unfolding new_PointToMultipointPacket_def
    by (subst append_sals_fresh [OF a(2) assms(2)]) (cases p, simp_all add: pm_wf_def)
  with c base js a show ?thesis
    by (simp add: typed_def packet_from_json_def flag_at_def with_origin_eq [where s = "p_source p" and c = "p_confirmation p" and j = c])
qed

lemma pp_json:
  assumes "pp_wf p" "conf_text (p_confirmation p)"
  shows "\<exists>j. packet_members (PointToPointPacket p) = Inr j \<and>
    packet_from_json j = Inr (HPacket (PointToPointPacket p))"
proof -
  obtain c where c: "case p_confirmation p of None \<Rightarrow> c = JNull | Some bs \<Rightarrow> truthy c \<and> json_encode c = Inr bs"
    and base: "base_members p = Inr [(''checksum'', JBool (p_checksum p)),
      (''priority_class'', JInt (priority_value (p_priority p))),
      (''source_address'', optional_int (p_source p)), (''confirmation'', c)]"
    by (rule base_jsonE [OF assms(2)])
  have cals: "rmapM (\<lambda>c. cal_from_json (cal_to_json c)) (pp_cals p) = Inr (map id (pp_cals p))"
    by (rule rmapM_Inr) (simp add: cal_json_inverse cal_to_json_def)
  have "new_PointToPointPacket (p_checksum p) (p_priority p) (pp_unit_address p) 0 None (pp_cals p) =
      Inr (p\<lparr>p_source := None, p_confirmation := None\<rparr>)"
    using assms(1) by (cases p) (simp add: new_PointToPointPacket_def pp_wf_def)
  with c base cals show ?thesis
    by (simp add: typed_def packet_from_json_def flag_at_def int_at_def rmapM_map
        with_origin_eq [where s = "p_source p" and c = "p_confirmation p" and j = c])
qed

lemma dm_json:
  assumes "dm_wf p" "conf_text (p_confirmation p)"
  shows "\<exists>j. packet_members (DeviceManagementPacket p) = Inr j \<and>
    packet_from_json j = Inr (HPacket (DeviceManagementPacket p))"
proof -
  obtain c where c: "case p_confirmation p of None \<Rightarrow> c = JNull | Some bs \<Rightarrow> truthy c \<and> json_encode c = Inr bs"
    and base: "base_members p = Inr [(''checksum'', JBool (p_checksum p)),
      (''priority_class'', JInt (priority_value (p_priority p))),
      (''source_address'', optional_int (p_source p)), (''confirmation'', c)]"
    by (rule base_jsonE [OF assms(2)])
  have "new_DeviceManagementPacket (p_checksum p) (p_priority p) (dm_parameter p) (dm_value p) =
      p\<lparr>p_source := None, p_confirmation := None\<rparr>"
    using assms(1) by (cases p) (simp add: new_DeviceManagementPacket_def dm_wf_def)
  with c base show ?thesis
    by (simp add: typed_def packet_from_json_def flag_at_def int_at_def
        with_origin_eq [where s = "p_source p" and c = "p_confirmation p" and j = c])
qed

lemma decoded_json_inverse:
  assumes "describable x"
  shows "\<exists>j. packet_to_json (Some x) = Inr j \<and> packet_from_json j = Inr (obj_of x)"
proof (cases x)
  case (DirectCAL c)
  have "cal_from_json (JObject ((''type'', JString ''cal'') # cal_members c)) = Inr c"
    by (rule cal_json_inverse) auto
  with DirectCAL show ?thesis by (simp add: packet_from_json_def typed_def)
next
  case (Packet p)
  show ?thesis
  proof (cases p)
    case (ConfirmationPacket code success)
    with assms Packet obtain c where c: "code = [c]" "c \<in> set CONFIRMATION_CODES"
      by (auto split: list.splits)
    have "decode_strict [c] = Inr (text_of [c])" "find_sub [c] CONFIRMATION_CODES \<noteq> None"
      using c(2) by (auto simp: CONFIRMATION_CODES_def decode_strict_def)
    with Packet ConfirmationPacket c encode_decode_strict [of "[c]"] show ?thesis
      by (auto simp: packet_from_json_def typed_def flag_at_def json_encode_def new_ConfirmationPacket_def)
  qed (use assms Packet pm_json pp_json dm_json in \<open>auto simp: packet_from_json_def typed_def\<close>)
qed

section \<open>Descriptions are plain values\<close>

lemma sal_json_plain: "sal_to_json s = Inr j \<Longrightarrow> plain j"
  by (cases s rule: sal_to_json.cases) auto

lemma report_json_plain: "plain (report_to_json r)"
  by (cases r) (auto simp: plain_list_iff list_all_iff split: option.splits)

lemma cal_json_plain: "plain (JObject (cal_members c))" "''type'' \<notin> fst ` set (cal_members c)"
  by (cases c; simp add: report_json_plain)+

lemma conf_json_plain: "conf_to_json c = Inr j \<Longrightarrow> plain j"
  by (auto simp: conf_to_json_def result_simps split: option.splits)

lemma optional_int_plain [simp]: "plain (optional_int i)"
  by (simp add: optional_int_def split: option.splits)

lemma packet_json_plain:
  assumes "packet_to_json x = Inr j"
  shows "plain j"
  using assms
proof (cases x rule: packet_to_json.cases)
  case (2 p)
  have "plain_list (map cal_to_json cs)" "plain_list (map JInt is)" for cs "is"
    by (simp_all add: plain_list_iff list_all_iff cal_to_json_def cal_json_plain(1) del: plain.simps(3))
  moreover have "plain_list js" if "rmapM sal_to_json ss = Inr js" for ss js
    using that unfolding plain_list_iff by (rule rmapM_all) (rule sal_json_plain)
  ultimately show ?thesis using 2 assms
    by (cases p) (auto simp: typed_def base_members_def result_simps dest: conf_json_plain)
next
  case (3 c)
  with assms cal_json_plain [of c] show ?thesis by (auto simp: typed_def)
qed auto

section \<open>Equal descriptions\<close>

text \<open>
  Two fallible computations agree up to a relation when no two values they return are unrelated.
  Reading equal JSON values agrees step by step, so that Python's comparison of descriptions is
  as sharp as a comparison of packets.
\<close>

definition agree :: "('a \<Rightarrow> 'b \<Rightarrow> bool) \<Rightarrow> 'a result \<Rightarrow> 'b result \<Rightarrow> bool" where
  "agree R m n \<longleftrightarrow> (\<forall>x y. m = Inr x \<longrightarrow> n = Inr y \<longrightarrow> R x y)"

lemma agree_bind:
  assumes "agree R m n" and "\<And>x y. R x y \<Longrightarrow> agree S (f x) (g y)"
  shows "agree S (rbind m f) (rbind n g)"
  using assms by (auto simp: agree_def result_simps)

lemma agree_map:
  assumes "agree R m n" and "\<And>x y. R x y \<Longrightarrow> S (f x) (g y)"
  shows "agree S (rmap f m) (rmap g n)"
  using assms by (auto simp: agree_def result_simps)

lemma agree_if:
  "b = c \<Longrightarrow> (c \<Longrightarrow> agree R m n) \<Longrightarrow> (\<not> c \<Longrightarrow> agree R m' n') \<Longrightarrow>
    agree R (if b then m else m') (if c then n else n')"
  by simp

lemma agree_refl: "(\<And>x. R x x) \<Longrightarrow> agree R m m"
  by (simp add: agree_def)

lemma agree_eq [simp]: "agree (=) m m"
  by (simp add: agree_def)

lemma agree_Inr [simp]: "agree R (Inr x) (Inr y) \<longleftrightarrow> R x y"
  by (simp add: agree_def)

lemma agree_Inl [simp]: "agree R (Inl e) n" "agree R m (Inl e)"
  by (simp_all add: agree_def)

lemma json_eq_string: "json_eq a b \<Longrightarrow> a = JString s \<longleftrightarrow> b = JString s"
  by (cases "(a, b)" rule: json_eq.cases) (auto split: json.splits)

lemma json_eq_null: "json_eq a b \<Longrightarrow> a = JNull \<longleftrightarrow> b = JNull"
  by (cases a; cases b; auto elim: json_eq.elims)

lemma list_eq_Nil [simp]: "list_eq xs [] \<longleftrightarrow> xs = []"
  by (cases xs) simp_all

lemma json_eq_truthy: "json_eq a b \<Longrightarrow> truthy a = truthy b"
  by (cases "(a, b)" rule: json_eq.cases; cases b rule: number_of_json.cases) (auto split: if_splits)

lemma json_eq_number: "json_eq a b \<Longrightarrow> number_of_json a = number_of_json b"
  by (cases "(a, b)" rule: json_eq.cases; cases b rule: number_of_json.cases) (auto split: if_splits)

lemma members_eq_lookup:
  "members_eq ms ns \<Longrightarrow> map_of ms k = Some v \<Longrightarrow> \<exists>w. map_of ns k = Some w \<and> json_eq v w"
  by (induction ms) (auto split: if_splits option.splits)

lemma agree_jget: "json_eq d e \<Longrightarrow> agree json_eq (jget d k) (jget e k)"
  by (cases "(d, e)" rule: json_eq.cases)
    (auto simp: jget_def agree_def split: json.splits option.splits dest: members_eq_lookup)

lemma agree_int: "json_eq a b \<Longrightarrow> agree (=) (json_int a) (json_int b)"
  using json_eq_number [of a b]
  by (cases a rule: json_int.cases; cases b rule: json_int.cases) (auto split: if_splits)

lemma agree_int_at: "json_eq d e \<Longrightarrow> agree (=) (int_at d k) (int_at e k)"
  unfolding int_at_def by (intro agree_bind [OF agree_jget] agree_int)

lemma agree_flag_at: "json_eq d e \<Longrightarrow> agree (=) (flag_at d k) (flag_at e k)"
  unfolding flag_at_def by (intro agree_map [OF agree_jget] json_eq_truthy)

lemma agree_enum: "json_eq a b \<Longrightarrow> agree (=) (json_enum member a) (json_enum member b)"
  by (simp add: json_enum_def json_eq_number)

lemma agree_rat: "json_eq a b \<Longrightarrow> agree (=) (json_rat a) (json_rat b)"
  by (simp add: json_rat_def json_eq_number)

lemma agree_text: "json_eq a b \<Longrightarrow> agree (=) (json_hex a) (json_hex b)"
  "json_eq a b \<Longrightarrow> agree (=) (json_encode a) (json_encode b)"
  using json_eq_string [of a b] by (cases a; cases b; auto simp: json_hex_def json_encode_def)+

lemma agree_level: "json_eq a b \<Longrightarrow> agree (=) (json_level a) (json_level b)"
  unfolding json_level_def by (intro agree_if agree_map [OF agree_int] json_eq_null) simp_all

lemma agree_rmapM:
  assumes "list_eq xs ys" and "\<And>x y. json_eq x y \<Longrightarrow> agree (=) (f x) (f y)"
  shows "agree (=) (rmapM f xs) (rmapM f ys)"
  using assms(1)
proof (induction xs arbitrary: ys)
  case (Cons x xs)
  then obtain z zs where "ys = z # zs" "json_eq x z" "list_eq xs zs" by (auto split: list.splits)
  with Cons.IH assms(2) show ?case
    by (auto intro!: agree_bind [where R = "(=)"] agree_map [where R = "(=)"])
qed simp

text \<open>
  The elements of a string or an object are strings, which none of the readers takes.
\<close>

lemma rmapM_strings:
  assumes "\<And>s. f (JString s) \<in> range Inl"
  shows "rmapM f (map (JString \<circ> h) xs) \<in> range Inl \<or> xs = []"
  using assms [of "h (hd xs)"] by (cases xs) auto

lemma agree_elements:
  assumes "json_eq a b" and "\<And>x y. json_eq x y \<Longrightarrow> agree (=) (f x) (f y)"
    and "\<And>s. f (JString s) \<in> range Inl"
  shows "agree (=) (rbind (elements a) (rmapM f)) (rbind (elements b) (rmapM f))"
proof (cases a)
  case (JString s)
  with assms(1) show ?thesis by simp
next
  case (JList xs)
  with assms(1,2) show ?thesis by (auto intro: agree_rmapM split: json.splits)
next
  case (JObject ms)
  with assms(1) obtain ns where b: "b = JObject ns" "length ms = length ns" by (auto split: json.splits)
  have "rmapM f (map (JString \<circ> fst) ms) \<in> range Inl \<or> ms = []"
    by (rule rmapM_strings) (rule assms(3))
  with b JObject show ?thesis by auto
qed simp_all

lemma agree_each:
  assumes "json_eq d e" and "\<And>x y. json_eq x y \<Longrightarrow> agree (=) (f x) (f y)"
    and "\<And>s. f (JString s) \<in> range Inl" and "\<And>xs. agree S (h xs) (h' xs)"
  shows "agree S (rbind (rbind (jget d k) elements) (\<lambda>js. rbind (rmapM f js) h))
    (rbind (rbind (jget e k) elements) (\<lambda>js. rbind (rmapM f js) h'))"
proof -
  have "agree (=) (rbind (jget d k) (\<lambda>v. rbind (elements v) (rmapM f)))
      (rbind (jget e k) (\<lambda>v. rbind (elements v) (rmapM f)))"
    by (rule agree_bind [OF agree_jget [OF assms(1)]]) (rule agree_elements, assumption, erule assms(2), rule assms(3))
  then have "agree S (rbind (rbind (jget d k) (\<lambda>v. rbind (elements v) (rmapM f))) h)
      (rbind (rbind (jget e k) (\<lambda>v. rbind (elements v) (rmapM f))) h')"
    by (rule agree_bind) (simp add: assms(4))
  then show ?thesis by (simp add: rbind_assoc)
qed

lemmas agree_readers =
  agree_bind [OF agree_int_at] agree_bind [OF agree_flag_at] agree_map [OF agree_int_at]

lemma agree_report: "json_eq d e \<Longrightarrow> agree (=) (report_from_json d) (report_from_json e)"
  unfolding report_from_json_def rmap_def
  by (rule agree_bind [OF agree_jget], assumption)
    (intro agree_if json_eq_string agree_each agree_enum agree_level;
      simp add: json_enum_def json_level_def)

lemma agree_cal: "json_eq d e \<Longrightarrow> agree (=) (cal_from_json d) (cal_from_json e)"
  unfolding cal_from_json_def
  by (rule agree_bind [OF agree_jget], assumption)
    (intro agree_if json_eq_string agree_readers agree_map [OF agree_bind [OF agree_jget]];
      simp add: agree_text agree_report)

lemma agree_sal: "json_eq d e \<Longrightarrow> agree (=) (sal_from_json d) (sal_from_json e)"
  unfolding sal_from_json_def
  by (rule agree_bind [OF agree_jget], assumption)
    (intro agree_if json_eq_string agree_readers agree_bind [OF agree_bind [OF agree_jget]];
      simp add: agree_rat)

lemma jget_or_eq:
  "jget_or d k = (case d of JObject ms \<Rightarrow> (case map_of ms k of None \<Rightarrow> JNull | Some v \<Rightarrow> v) | _ \<Rightarrow> JNull)"
  by (auto simp: jget_or_def jget_def split: json.splits option.splits)

text \<open>
  \<open>d.get\<close> needs a member of the right in every one on the left and no other, which a
  comparison by number of members gives when the keys of both objects are distinct.
\<close>

lemma members_eq_keys:
  assumes "members_eq ms ns" "length ms = length ns" "distinct (map fst ms)"
  shows "fst ` set ms = fst ` set ns"
proof -
  have "fst ` set ms \<subseteq> fst ` set ns"
  proof
    fix k
    assume "k \<in> fst ` set ms"
    then obtain v where "map_of ms k = Some v" by (metis map_of_eq_None_iff option.exhaust)
    from members_eq_lookup [OF assms(1) this] show "k \<in> fst ` set ns"
      by (metis map_of_eq_None_iff option.distinct(1))
  qed
  moreover have "card (fst ` set ns) \<le> card (fst ` set ms)"
    using assms(2) distinct_card [OF assms(3)] card_length [of "map fst ns"] by simp
  ultimately show ?thesis by (intro card_seteq) auto
qed

lemma agree_jget_or:
  assumes "json_eq d e" "plain d"
  shows "json_eq (jget_or d k) (jget_or e k)"
proof (cases d)
  case (JObject ms)
  with assms(1) obtain ns where e: "e = JObject ns" "length ms = length ns" "members_eq ms ns"
    by (auto split: json.splits)
  then have keys: "fst ` set ms = fst ` set ns" using assms(2) JObject by (intro members_eq_keys) simp_all
  show ?thesis
  proof (cases "map_of ms k")
    case None
    then have "map_of ns k = None" using keys by (simp add: map_of_eq_None_iff)
    with None JObject e show ?thesis by (simp add: jget_or_eq)
  next
    case (Some v)
    from members_eq_lookup [OF e(3) Some] Some JObject e show ?thesis by (auto simp: jget_or_eq)
  qed
qed (use assms(1) in \<open>auto simp: jget_or_eq split: json.splits elim: json_eq.elims\<close>)

lemma agree_origin:
  assumes "json_eq d e" "plain d"
  shows "agree (=) (with_origin d p) (with_origin e p)"
proof -
  note origin = agree_jget_or [OF assms]
  have source: "agree (=) (if a = JNull then Inr None else rmap Some (json_int a))
      (if b = JNull then Inr None else rmap Some (json_int b))" if "json_eq a b" for a b
    using that by (intro agree_if agree_map [OF agree_int] json_eq_null) simp_all
  have conf: "agree (=) (if truthy a then rmap Some (json_encode a) else Inr None)
      (if truthy b then rmap Some (json_encode b) else Inr None)" if "json_eq a b" for a b
    using that by (intro agree_if agree_map [OF agree_text(2)] json_eq_truthy) simp_all
  show ?thesis unfolding with_origin_def Let_def
    by (intro agree_bind [OF source [OF origin]] agree_bind [OF conf [OF origin]]) simp
qed

lemma agree_packet:
  assumes "json_eq d e" "plain d"
  shows "agree (=) (packet_from_json d) (packet_from_json e)"
proof -
  have strings: "sal_from_json (JString s) \<in> range Inl" "cal_from_json (JString s) \<in> range Inl" for s
    by (simp_all add: sal_from_json_def cal_from_json_def jget_def)
  have member: "agree (=) (rmap HReport (report_from_json (JObject [(''report'', k), (m, a)])))
      (rmap HReport (report_from_json (JObject [(''report'', k), (m, b)])))"
    if "json_eq a b" "m \<noteq> ''report''" "json_eq k k" for a b m k
    by (rule agree_map [OF agree_report]) (use that in simp_all)
  have code: "agree (=) (rbind (jget d ''code'') json_encode) (rbind (jget e ''code'') json_encode)"
    by (rule agree_bind [OF agree_jget [OF assms(1)] agree_text(2)])
  have prio: "agree (=) (rbind (jget d k) (json_enum PriorityClass)) (rbind (jget e k) (json_enum PriorityClass))"
    for k by (rule agree_bind [OF agree_jget [OF assms(1)] agree_enum])
  note origin = agree_map [OF agree_origin [OF assms]]
  show ?thesis unfolding packet_from_json_def
    by (rule agree_bind [OF agree_jget [OF assms(1)]],
        intro agree_if json_eq_string agree_readers agree_each agree_sal agree_cal strings
          agree_bind [OF code] agree_bind [OF prio] agree_bind [OF agree_jget]
          agree_map [OF agree_cal] agree_map [OF agree_sal] member)
      (use assms in \<open>auto intro: origin simp: agree_refl intro!: agree_bind [where R = "(=)"]\<close>)
qed

section \<open>Properties\<close>

text \<open>
  C20: The canonical JSON of a packet says everything about it. The description of a well-formed
  packet, whatever its kind, its addresses and the CALs or SALs in it, is read back by
  \<open>packet_from_json\<close> as exactly that packet; and two such packets whose descriptions Python
  compares as equal are equal, although the comparison ignores the order of members and takes
  \<open>True\<close>, \<open>1\<close> and \<open>1.0\<close> for each other.
\<close>

theorem json_roundtrip:
  assumes "describable x" "describable y"
  shows "\<exists>j k. packet_to_json (Some x) = Inr j \<and> packet_to_json (Some y) = Inr k \<and>
    packet_from_json j = Inr (obj_of x) \<and> (json_eq j k \<longleftrightarrow> x = y)"
proof -
  from decoded_json_inverse [OF assms(1)] obtain j where
    j: "packet_to_json (Some x) = Inr j" "packet_from_json j = Inr (obj_of x)" by blast
  from decoded_json_inverse [OF assms(2)] obtain k where
    k: "packet_to_json (Some y) = Inr k" "packet_from_json k = Inr (obj_of y)" by blast
  have "x = y" if "json_eq j k"
  proof -
    have "obj_of x = obj_of y"
      using agree_packet [OF that packet_json_plain [OF j(1)]] j(2) k(2) by (simp add: agree_def)
    then show ?thesis by (cases x; cases y) simp_all
  qed
  moreover have "json_eq j j" by (rule json_eq_refl(1)) (rule packet_json_plain [OF j(1)])
  ultimately show ?thesis using j k by auto
qed

definition example_ramp :: packet where
  "example_ramp = PointToMultipointPacket
     \<lparr>p_checksum = True, p_dat = POINT_TO_MULTIPOINT, p_rc = 0, p_dp = False, p_priority = CLASS_4,
      p_confirmation = Some [0x68], p_source = None, pm_application = Some LIGHTING,
      pm_sals = [Lighting (LightingRampSAL 10 LIGHTING 12 128)]\<rparr>"

definition example_reply :: cal where
  "example_reply = ReplyCAL 2 [0x4B, 0xFF]"

theorem json_roundtrip_witness:
  "\<exists>j k. packet_to_json (Some (Packet example_ramp)) = Inr j \<and>
    packet_to_json (Some (DirectCAL example_reply)) = Inr k \<and>
    packet_from_json j = Inr (HPacket example_ramp) \<and> \<not> json_eq j k"
proof -
  have "get_application LIGHTING = Inr LightingApplication"
    by (simp add: get_application_iff lighting_applications_def)
  then have "describable (Packet example_ramp)"
    by (simp add: example_ramp_def pm_wf_def conf_text_def lighting_applications_def is_byte_def
        LIGHT_RAMP_RATES_def)
  from json_roundtrip [OF this, of "DirectCAL example_reply"] show ?thesis by auto
qed

text \<open>
  The application of a packet is read off its SALs: one that has none, as a decoder returns for
  data it skips, is read back without its application.
\<close>

lemma empty_packet_loses_application:
  assumes "pm_wf p" "pm_sals p = []" "conf_text (p_confirmation p)"
  shows "\<exists>j. packet_members (PointToMultipointPacket p) = Inr j \<and>
    packet_from_json j = Inr (HPacket (PointToMultipointPacket (p\<lparr>pm_application := None\<rparr>)))"
proof -
  obtain c where c: "case p_confirmation p of None \<Rightarrow> c = JNull | Some bs \<Rightarrow> truthy c \<and> json_encode c = Inr bs"
    and base: "base_members p = Inr [(''checksum'', JBool (p_checksum p)),
      (''priority_class'', JInt (priority_value (p_priority p))),
      (''source_address'', optional_int (p_source p)), (''confirmation'', c)]"
    by (rule base_jsonE [OF assms(3)])
  have "new_PointToMultipointPacket (p_checksum p) (p_priority p) None [] =
      Inr (p\<lparr>p_source := None, p_confirmation := None, pm_application := None\<rparr>)"
    using assms by (cases p) (simp add: new_PointToMultipointPacket_def pm_wf_def)
  with c base assms(2) show ?thesis
    by (simp add: typed_def packet_from_json_def flag_at_def
        with_origin_eq [where s = "p_source p" and c = "p_confirmation p" and j = c])
qed

end
