(* ===== verification/Vectors.thy ===== *)
theory Vectors
  imports Packet_Json Pci_Protocol
begin

text \<open>
  The golden vectors of the migration harness: how \<open>generate_vectors.py\<close> makes a decode vector
  and an encode vector, how it writes a packet as either side of the serial line does, and how
  \<open>suites/verify_vectors.py\<close> checks a vector against the implementation. A vector is a record
  with the keys of its JSON object; its \<open>id\<close> and \<open>note\<close> are left out. The text of an
  error message is the constructor of \<open>vector_error\<close> it stands for.

  The lemmas show that every vector made passes its check, and that the vector of a packet on the
  line is passed by no decoder that reads another packet off it.
\<close>

section \<open>Wires\<close>

fun set_source :: "int \<Rightarrow> packet \<Rightarrow> packet" where
  "set_source s (PointToMultipointPacket p) = PointToMultipointPacket (p\<lparr>p_source := Some s\<rparr>)"
| "set_source s (PointToPointPacket p) = PointToPointPacket (p\<lparr>p_source := Some s\<rparr>)"
| "set_source s (DeviceManagementPacket p) = DeviceManagementPacket (p\<lparr>p_source := Some s\<rparr>)"
| "set_source s p = p"

definition server_wire :: "packet \<Rightarrow> int option \<Rightarrow> bytes result" where
  "server_wire p source_address =
     rmap (\<lambda>w. w @ END_RESPONSE)
       (encode_packet (case source_address of None \<Rightarrow> p | Some s \<Rightarrow> set_source s p))"

definition client_wire :: "packet \<Rightarrow> bytes option \<Rightarrow> bool \<Rightarrow> bytes result" where
  "client_wire p confirmation basic =
     rmap (\<lambda>body.
         (if \<not> is_special_client p \<and> \<not> basic then 0x5C # body else body)
           @ (case confirmation of None \<Rightarrow> [] | Some c \<Rightarrow> c) @ END_COMMAND)
       (encode_packet p)"

section \<open>Making vectors\<close>

record decode_vector =
  v_wire_hex :: string
  v_checksum :: bool
  v_strict :: bool
  v_from_pci :: bool
  v_expect_consumed :: nat
  v_expect_packet :: json
  v_expect_reencode :: "string option"

fun decoded_encode_packet :: "decoded option \<Rightarrow> bytes result" where
  "decoded_encode_packet (Some (Packet p)) = encode_packet p"
| "decoded_encode_packet _ = Inl AttributeError"

definition reencoded :: "bool \<Rightarrow> decoded option \<Rightarrow> json \<Rightarrow> string option result" where
  "reencoded expect_reencodable p pj =
     (if expect_reencodable \<and> p \<noteq> None \<and> pj \<noteq> JNull \<and>
         jget_or pj ''type'' \<noteq> JString ''invalid'' \<and> jget_or pj ''type'' \<noteq> JString ''cal''
      then case decoded_encode_packet p of
             Inr out \<Rightarrow> Inr (Some (text_of out))
           | Inl e \<Rightarrow> if e = NotImplementedError \<or> e = ValueError then Inr None else Inl e
      else Inr None)"

definition make_decode_vector :: "bytes \<Rightarrow> bool \<Rightarrow> bool \<Rightarrow> bool \<Rightarrow> bool \<Rightarrow> decode_vector result" where
  "make_decode_vector wire checksum strict from_pci expect_reencodable =
     rbind (decode_packet checksum strict from_pci wire) (\<lambda>(p, consumed).
     rbind (packet_to_json p) (\<lambda>pj.
     rbind (reencoded expect_reencodable p pj) (\<lambda>reencode.
     Inr \<lparr>v_wire_hex = text_of (hex_lower wire), v_checksum = checksum, v_strict = strict,
          v_from_pci = from_pci, v_expect_consumed = consumed, v_expect_packet = pj,
          v_expect_reencode = reencode\<rparr>)))"

record encode_vector =
  e_packet :: json
  e_expect_encode_hex :: string
  e_expect_encode_packet :: "string option"

fun obj_encode :: "harness_obj \<Rightarrow> bytes result" where
  "obj_encode (HPacket p) = packet_encode p"
| "obj_encode (HCal c) = cal_encode c"
| "obj_encode (HSal s) = sal_encode s"
| "obj_encode (HReport r) = report_encode r"

fun obj_encode_packet :: "harness_obj \<Rightarrow> bytes result" where
  "obj_encode_packet (HPacket p) = encode_packet p"
| "obj_encode_packet _ = Inl AttributeError"

definition emit :: "harness_obj \<Rightarrow> json \<Rightarrow> bool \<Rightarrow> encode_vector result" where
  "emit obj pjson packet_level =
     rbind (obj_encode obj) (\<lambda>raw.
     rmap (\<lambda>line. \<lparr>e_packet = pjson, e_expect_encode_hex = text_of (hex_lower raw),
                   e_expect_encode_packet = line\<rparr>)
       (if packet_level then rmap (\<lambda>w. Some (text_of w)) (obj_encode_packet obj) else Inr None))"

section \<open>Checking vectors\<close>

datatype vector_error =
    ConsumedDiffers | PacketDiffers | ReencodeRaised | ReencodeDiffers | EncodeDiffers | EncodePacketDiffers

text \<open>
  The vectors are meant for any implementation; \<open>check_decode_with\<close> checks one against the decoder
  it is given, and \<open>check_decode\<close> against \<open>decode_packet\<close>.
\<close>

type_synonym decoder = "bool \<Rightarrow> bool \<Rightarrow> bool \<Rightarrow> bytes \<Rightarrow> decode_out result"

definition check_decode_with :: "decoder \<Rightarrow> decode_vector \<Rightarrow> vector_error option result" where
  "check_decode_with dec v =
     rbind (json_hex (JString (v_wire_hex v))) (\<lambda>wire.
     rbind (dec (v_checksum v) (v_strict v) (v_from_pci v) wire) (\<lambda>(p, consumed).
     if consumed \<noteq> v_expect_consumed v then Inr (Some ConsumedDiffers)
     else rbind (packet_to_json p) (\<lambda>got.
          if \<not> json_eq got (v_expect_packet v) then Inr (Some PacketDiffers)
          else case v_expect_reencode v of
                 None \<Rightarrow> Inr None
               | Some expected \<Rightarrow>
                   (case decoded_encode_packet p of
                      Inl e \<Rightarrow> Inr (Some ReencodeRaised)
                    | Inr re \<Rightarrow> Inr (if text_of re \<noteq> expected then Some ReencodeDiffers else None)))))"

definition check_decode :: "decode_vector \<Rightarrow> vector_error option result" where
  "check_decode = check_decode_with decode_packet"

definition check_encode :: "encode_vector \<Rightarrow> vector_error option result" where
  "check_encode v =
     rbind (packet_from_json (e_packet v)) (\<lambda>obj.
     rbind (obj_encode obj) (\<lambda>got.
     if text_of (hex_lower got) \<noteq> e_expect_encode_hex v then Inr (Some EncodeDiffers)
     else case e_expect_encode_packet v of
            None \<Rightarrow> Inr None
          | Some expected \<Rightarrow>
              rmap (\<lambda>got2. if text_of got2 \<noteq> expected then Some EncodePacketDiffers else None)
                (obj_encode_packet obj)))"

section \<open>The client's lines\<close>

text \<open>
  \<open>client_wire\<close> writes what \<open>PCIProtocol._prepare_packet\<close> does: the same line under the
  code the client takes, and a special packet as it is, although the client then asks for no code.
\<close>

lemma client_wire_prepare:
  "\<not> is_special_client cmd \<Longrightarrow>
     rmap fst (fst (prepare_packet_seq now cmd True basic_mode st)) =
     client_wire cmd (Some [fst (get_confirmation_code_seq now st)]) basic_mode"
  "rmap fst (fst (prepare_packet_seq now cmd False basic_mode st)) = client_wire cmd None basic_mode"
  "is_special_client cmd \<Longrightarrow>
     rmap fst (fst (prepare_packet_seq now cmd True basic_mode st)) = client_wire cmd None basic_mode"
  by (auto simp: prepare_packet_seq_def client_wire_def Let_def split: sum.splits prod.splits)

lemma client_wire_decodes:
  assumes "packet_wf P" "packet_base P = Some b" "sent_by_client b conf" "conf_ok conf"
  shows "\<exists>wire. client_wire P conf False = Inr wire \<and>
    decode_packet (p_checksum b) strict False wire = Inr (Some (Packet P), length wire)"
proof -
  have special: "\<not> is_special_client P" using assms(1) by (cases P) simp_all
  from to_pci_roundtrip [OF assms] obtain w where w: "encode_packet P = Inr w"
    "decode_packet (p_checksum b) strict False (0x5C # w @ conf_suffix conf @ END_COMMAND @ []) =
      Inr (Some (Packet P), length w + length (conf_suffix conf) + 2)" by blast
  with special show ?thesis
    by (auto simp: client_wire_def conf_suffix_def END_COMMAND_def split: option.splits)
qed

section \<open>Made vectors pass\<close>

lemma json_hex_wire [simp]: "json_hex (JString (text_of (hex_lower wire))) = Inr wire"
  by (simp add: json_hex_def)

lemma made_vectorE:
  assumes "make_decode_vector wire c strict from_pci r = Inr v"
  obtains p n pj re where "decode_packet c strict from_pci wire = Inr (p, n)"
    "packet_to_json p = Inr pj" "json_eq pj pj" "reencoded r p pj = Inr re"
    "v = \<lparr>v_wire_hex = text_of (hex_lower wire), v_checksum = c, v_strict = strict,
      v_from_pci = from_pci, v_expect_consumed = n, v_expect_packet = pj, v_expect_reencode = re\<rparr>"
proof -
  from assms obtain p n pj re where *: "decode_packet c strict from_pci wire = Inr (p, n)"
    "packet_to_json p = Inr pj" "reencoded r p pj = Inr re"
    "v = \<lparr>v_wire_hex = text_of (hex_lower wire), v_checksum = c, v_strict = strict,
      v_from_pci = from_pci, v_expect_consumed = n, v_expect_packet = pj, v_expect_reencode = re\<rparr>"
    by (auto simp: make_decode_vector_def result_simps)
  from that [OF *(1,2) json_eq_refl(1) [OF packet_json_plain [OF *(2)]] *(3,4)] show ?thesis .
qed

text \<open>The check of a made vector after its expected packet has been exchanged for another.\<close>

lemma check_exchanged:
  assumes "make_decode_vector wire c strict from_pci r = Inr v"
    and "decode_packet c strict from_pci wire = Inr (p, n)" "packet_to_json p = Inr j"
  shows "check_decode (v\<lparr>v_expect_packet := k\<rparr>) = Inr (if json_eq j k then None else Some PacketDiffers)"
proof -
  obtain re where re: "reencoded r p j = Inr re"
    and v: "v = \<lparr>v_wire_hex = text_of (hex_lower wire), v_checksum = c, v_strict = strict,
      v_from_pci = from_pci, v_expect_consumed = n, v_expect_packet = j, v_expect_reencode = re\<rparr>"
    by (rule made_vectorE [OF assms(1)]) (use assms(2,3) in auto)
  from re have "case re of None \<Rightarrow> True | Some t \<Rightarrow> (\<exists>w. decoded_encode_packet p = Inr w \<and> t = text_of w)"
    by (auto simp: reencoded_def split: option.splits sum.splits if_splits)
  with v assms(2,3) show ?thesis by (auto simp: check_decode_def check_decode_with_def split: option.splits)
qed

lemma made_decode_passes:
  assumes "make_decode_vector wire c strict from_pci r = Inr v"
  shows "check_decode v = Inr None"
proof -
  obtain p n j where d: "decode_packet c strict from_pci wire = Inr (p, n)"
    "packet_to_json p = Inr j" "json_eq j j" "v_expect_packet v = j"
    by (rule made_vectorE [OF assms]) simp
  then have "v\<lparr>v_expect_packet := j\<rparr> = v" by (cases v) simp
  with check_exchanged [OF assms d(1,2), of j] d(3) show ?thesis by simp
qed

lemma emitted_passes:
  assumes "emit obj j l = Inr v" "packet_from_json j = Inr obj"
  shows "check_encode v = Inr None"
  using assms by (auto simp: emit_def check_encode_def result_simps split: if_splits)

text \<open>Two describable packets have equal descriptions only if they are equal.\<close>

lemma descriptions_differ:
  assumes "describable x" "describable y" "packet_to_json (Some x) = Inr j" "packet_to_json (Some y) = Inr k"
  shows "json_eq j k \<longleftrightarrow> y = x"
proof
  assume eq: "json_eq j k"
  have "packet_from_json j = Inr (obj_of x)" "packet_from_json k = Inr (obj_of y)"
    using decoded_json_inverse [OF assms(1)] decoded_json_inverse [OF assms(2)] assms(3,4) by auto
  with agree_packet [OF eq packet_json_plain [OF assms(3)]] show "y = x"
    by (cases x; cases y) (simp_all add: agree_def)
next
  assume "y = x"
  with assms(3,4) json_eq_refl(1) [OF packet_json_plain [OF assms(3)]] show "json_eq j k" by simp
qed

text \<open>A vector that expects the description of another packet than the one decoded fails.\<close>

lemma check_decode_sharp:
  assumes "make_decode_vector wire c strict from_pci r = Inr v"
    and "decode_packet c strict from_pci wire = Inr (Some x, n)"
    and "describable x" "describable y" "packet_to_json (Some y) = Inr k"
  shows "check_decode (v\<lparr>v_expect_packet := k\<rparr>) = Inr (if y = x then None else Some PacketDiffers)"
proof -
  from decoded_json_inverse [OF assms(3)] obtain j where j: "packet_to_json (Some x) = Inr j" by blast
  from check_exchanged [OF assms(1,2) j, of k] descriptions_differ [OF assms(3,4) j assms(5)] show ?thesis by auto
qed

text \<open>A vector is passed by exactly the decoders that read its packet off the line, and all of it.\<close>

lemma check_decoder:
  assumes made: "make_decode_vector wire c strict from_pci r = Inr v"
    and x: "decode_packet c strict from_pci wire = Inr (Some x, n)" "describable x"
    and y: "dec c strict from_pci wire = Inr (Some y, m)" "describable y"
  shows "check_decode_with dec v = Inr None \<longleftrightarrow> y = x \<and> m = n"
proof -
  from decoded_json_inverse [OF x(2)] obtain j where j: "packet_to_json (Some x) = Inr j" by blast
  from decoded_json_inverse [OF y(2)] obtain k where k: "packet_to_json (Some y) = Inr k" by blast
  obtain re where re: "reencoded r (Some x) j = Inr re"
    and v: "v = \<lparr>v_wire_hex = text_of (hex_lower wire), v_checksum = c, v_strict = strict,
      v_from_pci = from_pci, v_expect_consumed = n, v_expect_packet = j, v_expect_reencode = re\<rparr>"
    by (rule made_vectorE [OF made]) (use x(1) j in auto)
  have "check_decode_with dec v = Inr None" if "y = x" "m = n"
    using made_decode_passes [OF made] x(1) y(1) that by (simp add: check_decode_def check_decode_with_def v)
  moreover have "check_decode_with dec v \<noteq> Inr None" if "y \<noteq> x \<or> m \<noteq> n"
    using that descriptions_differ [OF y(2) x(2) k j] y(1) k by (auto simp: check_decode_with_def v)
  ultimately show ?thesis by blast
qed

section \<open>Vectors of addressed packets\<close>

lemma set_source_wf:
  assumes "packet_wf P" "packet_base P = Some b"
  shows "packet_wf (set_source s P)" "packet_base (set_source s P) = Some (b\<lparr>p_source := Some s\<rparr>)"
proof -
  show "packet_wf (set_source s P)"
    using assms(1) by (cases P) (simp_all add: pm_wf_def pp_wf_def dm_wf_def split: option.splits)
  show "packet_base (set_source s P) = Some (b\<lparr>p_source := Some s\<rparr>)"
    using assms(2) by (cases P) (simp_all add: base_packet.defs, clarsimp+)
qed

lemma set_source_describable: "describable (Packet P) \<Longrightarrow> describable (Packet (set_source s P))"
  by (cases P) (simp_all add: pm_wf_def pp_wf_def dm_wf_def split: option.splits)

lemma describable_reencoded:
  assumes "packet_wf P" "packet_members P = Inr j" "encode_packet P = Inr w"
  shows "reencoded True (Some (Packet P)) j = Inr (Some (text_of w))"
  using assms
  by (cases P) (auto simp: reencoded_def typed_def jget_or_def result_simps simp del: encode_packet.simps)

lemma encode_packet_raw:
  assumes "packet_wf P" "encode_packet P = Inr w"
  shows "\<exists>raw. packet_encode P = Inr raw \<and> w = b16encode raw"
  using assms by (cases P) (auto simp: result_simps)

section \<open>Properties\<close>

text \<open>
  C19: The golden vector of a packet pins down its wire format in both directions. Take a
  well-formed packet with no confirmation code as a PCI writes it on the line with a source address
  from 1 to 255. The generator makes a decode vector of the line that consumes all of it, and an
  encode vector of the description in it, and both pass their checks. The description is read back as
  the packet that was written, and its expected line is the line. Of all decoders that read a
  describable packet off the line, the vector is passed by those that read this packet and consume the
  whole line, and by no other; and when its expected packet is exchanged for the description of any
  other describable packet, the check reports that the packets differ.
\<close>

theorem golden_vectors:
  assumes "packet_wf P" "packet_base P = Some b" "describable (Packet P)"
    and "p_confirmation b = None" "0 < s" "s < 256"
  shows "\<exists>wire v ev. server_wire P (Some s) = Inr wire \<and>
    make_decode_vector wire (p_checksum b) strict True True = Inr v \<and>
    v_expect_consumed v = length wire \<and> check_decode v = Inr None \<and>
    packet_from_json (v_expect_packet v) = Inr (HPacket (set_source s P)) \<and>
    emit (HPacket (set_source s P)) (v_expect_packet v) True = Inr ev \<and> check_encode ev = Inr None \<and>
    map_option ascii (e_expect_encode_packet ev) = Some (take (length wire - 2) wire) \<and>
    (\<forall>dec y m. dec (p_checksum b) strict True wire = Inr (Some y, m) \<and> describable y \<longrightarrow>
       (check_decode_with dec v = Inr None \<longleftrightarrow> y = Packet (set_source s P) \<and> m = length wire)) \<and>
    (\<forall>y k. describable y \<and> packet_to_json (Some y) = Inr k \<longrightarrow>
       check_decode (v\<lparr>v_expect_packet := k\<rparr>) =
         Inr (if y = Packet (set_source s P) then None else Some PacketDiffers))"
proof -
  let ?Q = "set_source s P"
  have Q: "packet_wf ?Q" "packet_base ?Q = Some (b\<lparr>p_source := Some s\<rparr>)" "describable (Packet ?Q)"
    using assms by (simp_all add: set_source_wf set_source_describable)
  have "sent_by_pci (b\<lparr>p_source := Some s\<rparr>) (Some s)"
    using assms(4-6) by (simp add: sent_by_pci_def is_byte_def)
  from from_pci_roundtrip [OF Q(1,2) this] obtain w where w1: "encode_packet ?Q = Inr w"
    "\<forall>strict rest. decode_packet (p_checksum b) strict True (w @ END_RESPONSE @ rest) =
      Inr (Some (Packet ?Q), length w + 2)" by auto
  from w1(2) [rule_format, of strict "[]"] w1(1) have w: "encode_packet ?Q = Inr w"
    "decode_packet (p_checksum b) strict True (w @ END_RESPONSE) = Inr (Some (Packet ?Q), length w + 2)"
    by simp_all
  from decoded_json_inverse [OF Q(3)] obtain j where j: "packet_members ?Q = Inr j"
    "packet_from_json j = Inr (HPacket ?Q)" by auto
  from encode_packet_raw [OF Q(1) w(1)] obtain raw where raw: "packet_encode ?Q = Inr raw" by blast
  from describable_reencoded [OF Q(1) j(1) w(1)] w j obtain v where v:
    "make_decode_vector (w @ END_RESPONSE) (p_checksum b) strict True True = Inr v"
    "v_expect_consumed v = length w + 2" "v_expect_packet v = j"
    by (simp add: make_decode_vector_def)
  from raw w(1) obtain ev where ev: "emit (HPacket ?Q) j True = Inr ev"
    "e_expect_encode_packet ev = Some (text_of w)"
    by (simp add: emit_def)
  have "server_wire P (Some s) = Inr (w @ END_RESPONSE)" using w(1) by (simp add: server_wire_def)
  then show ?thesis
    using v ev j(2) made_decode_passes [OF v(1)] emitted_passes [OF ev(1) j(2)]
      check_decode_sharp [OF v(1) w(2) Q(3)] check_decoder [OF v(1) w(2) Q(3)]
    by (intro exI conjI) (auto simp: END_RESPONSE_def)
qed

definition example_level_report :: packet where
  "example_level_report = PointToPointPacket
     \<lparr>p_checksum = True, p_dat = POINT_TO_POINT, p_rc = 0, p_dp = False, p_priority = CLASS_4,
      p_confirmation = None, p_source = None, pp_unit_address = 0x10, pp_bridged = False, pp_hops = [],
      pp_cals = [ExtendedCAL False LIGHTING 0 (LevelStatusReport [None, Some 255, Some 0, Some 128])]\<rparr>"

theorem golden_vectors_witness:
  "\<exists>wire v. server_wire example_level_report (Some 0x99) = Inr wire \<and>
    make_decode_vector wire True True True True = Inr v \<and> v_expect_consumed v = length wire \<and>
    check_decode v = Inr None \<and>
    packet_from_json (v_expect_packet v) = Inr (HPacket (set_source 0x99 example_level_report)) \<and>
    check_decode (v\<lparr>v_expect_packet := typed ''reset'' []\<rparr>) = Inr (Some PacketDiffers) \<and>
    check_decode_with (\<lambda>c strict from_pci w. Inr (Some (Packet ResetPacket), length w)) v \<noteq> Inr None"
proof -
  define b where "b = \<lparr>p_checksum = True, p_dat = POINT_TO_POINT, p_rc = 0, p_dp = False,
    p_priority = CLASS_4, p_confirmation = None, p_source = None\<rparr>"
  have wf: "packet_wf example_level_report" "describable (Packet example_level_report)"
    "packet_base example_level_report = Some b"
    by (simp_all add: example_level_report_def b_def pp_wf_def conf_text_def is_byte_def base_packet.defs)
  have "describable (Packet ResetPacket)" "packet_to_json (Some (Packet ResetPacket)) = Inr (typed ''reset'' [])"
    "Packet ResetPacket \<noteq> Packet (set_source 0x99 example_level_report)"
    by (simp_all add: example_level_report_def)
  note reset = this
  have b: "p_confirmation b = None" "(0 :: int) < 0x99" "(0x99 :: int) < 256" "p_checksum b = True"
    by (simp_all add: b_def)
  obtain wire v where w: "server_wire example_level_report (Some 0x99) = Inr wire"
    "make_decode_vector wire True True True True = Inr v" "v_expect_consumed v = length wire" "check_decode v = Inr None"
    "packet_from_json (v_expect_packet v) = Inr (HPacket (set_source 0x99 example_level_report))"
    "\<forall>dec y m. dec True True True wire = Inr (Some y, m) \<and> describable y \<longrightarrow>
       (check_decode_with dec v = Inr None \<longleftrightarrow> y = Packet (set_source 0x99 example_level_report) \<and> m = length wire)"
    "\<forall>y k. describable y \<and> packet_to_json (Some y) = Inr k \<longrightarrow> check_decode (v\<lparr>v_expect_packet := k\<rparr>) =
       Inr (if y = Packet (set_source 0x99 example_level_report) then None else Some PacketDiffers)"
    using golden_vectors [OF wf(1,3,2) b(1-3), of True, unfolded b(4)] by (elim exE conjE) (rule that; assumption)
  have "check_decode (v\<lparr>v_expect_packet := typed ''reset'' []\<rparr>) = Inr (Some PacketDiffers)"
    using w(7) [rule_format, OF conjI, OF reset(1,2)] reset(3) by simp
  moreover have "check_decode_with (\<lambda>c strict from_pci w. Inr (Some (Packet ResetPacket), length w)) v \<noteq> Inr None"
    using spec [OF spec [OF spec [OF w(6), of "\<lambda>c strict from_pci w. Inr (Some (Packet ResetPacket), length w)"],
      of "Packet ResetPacket"], of "length wire"] reset(1,3) by simp
  ultimately show ?thesis using w(1-5) by blast
qed

end
