(* ===== verification/Fake_Pci.thy ===== *)
theory Fake_Pci
  imports Vectors
begin

text \<open>
  The scripted PCI of the behavioural suite, \<open>rust-migration-harness/lib/fake_pci.py\<close>, and its
  own framing of a client's commands in \<open>lib/wire.py\<close>, written without the \<open>cbus\<close> package.

  \<open>split_client_frames\<close> takes the complete lines off a buffer; \<open>client_data\<close> is one turn of
  the loop of \<open>_on_client\<close>, which has a buffer of its own for every connection and shares the
  record of the server. A write is logged with the number of the connection it goes to. Listening
  and the time stamps of recorded frames are left out.

  The lemmas show that framing does not depend on how the line is cut into reads, and what the
  suite relies on: a command of the client is recorded as one frame with its payload and code,
  acknowledged with that code, and a command whose acknowledgement is withheld is repeated byte
  for byte until the client gives up.
\<close>

section \<open>Checksum\<close>

text \<open>
  \<open>wire.py\<close> has the checksum of \<open>cbus/common.py\<close> word for word; only its validation
  answers where the package's raises.
\<close>

definition wire_validate_cbus_checksum :: "bytes \<Rightarrow> bool" where
  "wire_validate_cbus_checksum data \<longleftrightarrow>
     1 \<le> length data \<and> uint (last data) = cbus_checksum (butlast data)"

lemma wire_validate_agrees:
  "validate_cbus_checksum data =
     (if data = [] then Inl IndexError else Inr (wire_validate_cbus_checksum data))"
  by (simp add: validate_cbus_checksum_def wire_validate_cbus_checksum_def py_last_def Suc_le_eq)

section \<open>Frames\<close>

record client_frame =
  f_raw :: bytes
  f_is_reset :: bool
  f_is_smart_connect :: bool
  f_basic :: bool
  f_conf :: "bytes option"
  f_payload :: string

definition ClientFrame :: "bytes \<Rightarrow> client_frame" where
  "ClientFrame raw =
     (let is_reset = (raw = [0x7E]);
          is_smart_connect = (raw = [0x7C] \<or> raw = [0x7C, 0x7C]);
          body = (if starts_with [0x5C] raw then drop 1 raw else raw);
          body = (if starts_with [0x40] body then drop 1 body else body);
          has_conf = (body \<noteq> [] \<and> \<not> is_reset \<and> \<not> is_smart_connect \<and> last body \<notin> set HEX_CHARS) in
      \<lparr>f_raw = raw, f_is_reset = is_reset, f_is_smart_connect = is_smart_connect,
       f_basic = (\<not> starts_with [0x5C] raw),
       f_conf = (if has_conf then Some [last body] else None),
       f_payload = text_of (if has_conf then butlast body else body)\<rparr>)"

definition payload_bytes :: "client_frame \<Rightarrow> bytes option" where
  "payload_bytes f = fromhex (ascii (f_payload f))"

text \<open>The frames of one line: a reset for each leading tilde, then the rest if there is any.\<close>

fun chunk_frames :: "bytes \<Rightarrow> client_frame list" where
  "chunk_frames [] = []"
| "chunk_frames (b # bs) = (if b = 0x7E then ClientFrame [0x7E] # chunk_frames bs else [ClientFrame (b # bs)])"

lemma find_cr_shorter: "find_sub [0x0D] buf = Some idx \<Longrightarrow> length (drop (Suc idx) buf) < length buf"
  by (cases buf) (auto dest: find_sub_Some_bound)

function split_client_frames :: "bytes \<Rightarrow> client_frame list \<times> bytes" where
  "split_client_frames buf =
     (case find_sub [0x0D] buf of
        None \<Rightarrow> if buf = [0x7E] then ([ClientFrame [0x7E]], []) else ([], buf)
      | Some idx \<Rightarrow>
          let (frames, left) = split_client_frames (drop (Suc idx) buf) in
          (chunk_frames (take idx buf) @ frames, left))"
  by pat_completeness auto
termination
  by (relation "measure length") (auto dest: find_cr_shorter)

declare split_client_frames.simps [simp del]

section \<open>The server\<close>

record fake_pci =
  fp_frames :: "client_frame list"
  fp_reset_count :: nat
  fp_smart_connect_count :: nat
  fp_connections :: nat
  fp_writer :: "nat option"
  fp_withhold_first_conf :: bool
  fp_withheld :: "(string \<times> bytes) option"
  fp_withheld_seen :: nat
  fp_out :: "(nat \<times> bytes) list"

definition new_FakePCI :: "bool \<Rightarrow> fake_pci" where
  "new_FakePCI withhold_first_conf =
     \<lparr>fp_frames = [], fp_reset_count = 0, fp_smart_connect_count = 0, fp_connections = 0,
      fp_writer = None, fp_withhold_first_conf = withhold_first_conf, fp_withheld = None,
      fp_withheld_seen = 0, fp_out = []\<rparr>"

definition handle_frame :: "nat \<Rightarrow> client_frame \<Rightarrow> fake_pci \<Rightarrow> fake_pci" where
  "handle_frame conn f st =
     (let st = st\<lparr>fp_frames := fp_frames st @ [f]\<rparr> in
      if f_is_reset f then st\<lparr>fp_reset_count := fp_reset_count st + 1\<rparr>
      else if f_is_smart_connect f then st\<lparr>fp_smart_connect_count := fp_smart_connect_count st + 1\<rparr>
      else case f_conf f of
             None \<Rightarrow> st
           | Some conf \<Rightarrow>
               if fp_withhold_first_conf st \<and> fp_withheld st = None
               then st\<lparr>fp_withheld := Some (f_payload f, conf), fp_withheld_seen := 1\<rparr>
               else if fp_withheld st = Some (f_payload f, conf)
               then st\<lparr>fp_withheld_seen := fp_withheld_seen st + 1\<rparr>
               else st\<lparr>fp_out := fp_out st @ [(conn, conf @ [0x2E])]\<rparr>)"

definition accept :: "fake_pci \<Rightarrow> nat \<times> fake_pci" where
  "accept st =
     (let conn = fp_connections st + 1 in (conn, st\<lparr>fp_connections := conn, fp_writer := Some conn\<rparr>))"

definition client_data :: "nat \<Rightarrow> bytes \<Rightarrow> bytes \<times> fake_pci \<Rightarrow> bytes \<times> fake_pci" where
  "client_data conn data s =
     (let (frames, buf) = split_client_frames (fst s @ data) in
      (buf, fold (handle_frame conn) frames (snd s)))"

definition fake_inject :: "bytes \<Rightarrow> (fake_pci, unit) act" where
  "fake_inject wire_bytes st =
     (case fp_writer st of
        None \<Rightarrow> (Inl RuntimeError, st)
      | Some conn \<Rightarrow> (Inr (), st\<lparr>fp_out := fp_out st @ [(conn, wire_bytes)]\<rparr>))"

definition payloads :: "fake_pci \<Rightarrow> string list" where
  "payloads st =
     map f_payload (filter (\<lambda>f. \<not> f_is_reset f \<and> \<not> f_is_smart_connect f) (fp_frames st))"

definition count_payload :: "string \<Rightarrow> fake_pci \<Rightarrow> nat" where
  "count_payload payload st = length (filter (\<lambda>f. f_payload f = payload) (fp_frames st))"

section \<open>Framing\<close>

lemma split_Nil [simp]: "split_client_frames [] = ([], [])"
  by (subst split_client_frames.simps) simp

lemma find_cr_append:
  "0x0D \<notin> set xs \<Longrightarrow> find_sub [0x0D] (xs @ 0x0D # ys) = Some (length xs)"
  by (induction xs) auto

lemma split_line:
  assumes "0x0D \<notin> set xs"
  shows "split_client_frames (xs @ 0x0D # ys) =
    (chunk_frames xs @ fst (split_client_frames ys), snd (split_client_frames ys))"
  by (subst split_client_frames.simps) (simp add: find_cr_append assms split_beta)

lemma split_partial:
  assumes "0x0D \<notin> set xs"
  shows "split_client_frames xs = (if xs = [0x7E] then ([ClientFrame [0x7E]], []) else ([], xs))"
proof -
  have "find_sub [0x0D] xs = None" using assms by (induction xs) auto
  then show ?thesis by (subst split_client_frames.simps) simp
qed

text \<open>A line that is complete in the end may be cut anywhere, also after a tilde.\<close>

lemma split_append:
  assumes "0x0D \<in> set ys"
  shows "split_client_frames (xs @ ys) =
    (let (fs, left) = split_client_frames xs in
     (fs @ fst (split_client_frames (left @ ys)), snd (split_client_frames (left @ ys))))"
proof (induction "length xs" arbitrary: xs rule: less_induct)
  case less
  show ?case
  proof (cases "0x0D \<in> set xs")
    case True
    then obtain as bs where xs: "xs = as @ 0x0D # bs" "0x0D \<notin> set as" by (meson split_list_first)
    with less [of bs] show ?thesis by (simp add: split_line split_beta)
  next
    case False
    show ?thesis
    proof (cases "xs = [0x7E]")
      case True
      from assms obtain as bs where ys: "ys = as @ 0x0D # bs" "0x0D \<notin> set as" by (meson split_list_first)
      with True split_line [of "0x7E # as" bs] split_line [OF ys(2), of bs] show ?thesis
        by (simp add: split_partial)
    qed (simp add: split_partial [OF False])
  qed
qed

lemma split_complete: "snd (split_client_frames (xs @ [0x0D])) = []"
proof (induction "length xs" arbitrary: xs rule: less_induct)
  case less
  from split_list_first [of "0x0D" "xs @ [0x0D]"] obtain as bs where
    s: "xs @ [0x0D] = as @ 0x0D # bs" "0x0D \<notin> set as" by auto
  show ?case
  proof (cases "bs = []")
    case False
    then obtain cs where bs: "bs = cs @ [0x0D]" using s(1) by (cases bs rule: rev_cases) auto
    with s(1) have "length cs < length xs" by (auto dest: arg_cong [where f = length])
    with less [of cs] s(2) show ?thesis unfolding s(1) bs by (simp add: split_line)
  qed (use s in \<open>simp add: split_line\<close>)
qed

lemma reads_any_cut:
  assumes "concat chunks = xs @ [0x0D]"
  shows "fold (client_data conn) chunks (buf, st) =
    ([], fold (handle_frame conn) (fst (split_client_frames (buf @ xs @ [0x0D]))) st)"
  using assms
proof (induction chunks arbitrary: buf st xs)
  case (Cons c chunks)
  obtain fs left where f: "split_client_frames (buf @ c) = (fs, left)" by fastforce
  then have step: "client_data conn c (buf, st) = (left, fold (handle_frame conn) fs st)"
    by (simp add: client_data_def)
  show ?case
  proof (cases "concat chunks = []")
    case True
    have "fold (client_data conn) cs ([], st') = ([], st')" if "concat cs = []" for cs :: "bytes list" and st'
      using that by (induction cs) (simp_all add: client_data_def)
    moreover have "c = xs @ [0x0D]" using Cons.prems unfolding concat.simps True by simp
    moreover with f split_complete [of "buf @ xs"] have "left = []" by simp
    ultimately show ?thesis using f step True by simp
  next
    case False
    then obtain ys where ys: "concat chunks = ys @ [0x0D]" using Cons.prems by (cases "concat chunks" rule: rev_cases) auto
    with Cons.prems have xs: "xs @ [0x0D] = c @ ys @ [0x0D]" by simp
    from split_append [of "ys @ [0x0D]" "buf @ c"] f
    have "fst (split_client_frames (buf @ c @ ys @ [0x0D])) = fs @ fst (split_client_frames (left @ ys @ [0x0D]))"
      by simp
    with Cons.IH [OF ys] step show ?thesis unfolding xs by simp
  qed
qed simp

section \<open>A client's lines\<close>

definition command_line :: "bool \<Rightarrow> bytes \<Rightarrow> byte \<Rightarrow> bytes" where
  "command_line basic_mode b code = (if basic_mode then b else 0x5C # b) @ [code] @ END_COMMAND"

definition command_frame :: "bool \<Rightarrow> bytes \<Rightarrow> byte \<Rightarrow> client_frame" where
  "command_frame basic_mode b code =
     \<lparr>f_raw = (if basic_mode then b else 0x5C # b) @ [code], f_is_reset = False,
      f_is_smart_connect = False, f_basic = basic_mode, f_conf = Some [code], f_payload = text_of b\<rparr>"

lemma hex_not_special: "set HEX_CHARS \<inter> {0x7E, 0x7C, 0x5C, 0x40, 0x0D} = {}"
  "set CONFIRMATION_CODES \<inter> ({0x7E, 0x7C, 0x5C, 0x40, 0x0D} \<union> set HEX_CHARS) = {}"
  by (simp_all add: HEX_CHARS_def CONFIRMATION_CODES_def)

lemma command_line_frame:
  assumes "set b \<subseteq> set HEX_CHARS" "b \<noteq> []" "code \<in> set CONFIRMATION_CODES"
  shows "split_client_frames (command_line basic_mode b code @ rest) =
    (command_frame basic_mode b code # fst (split_client_frames rest), snd (split_client_frames rest))"
proof -
  let ?raw = "(if basic_mode then b else 0x5C # b) @ [code]"
  from assms obtain h t where b: "b = h # t" "h \<in> set HEX_CHARS" by (cases b) auto
  have n: "h \<notin> {0x7E, 0x7C, 0x5C, 0x40, 0x0D}" "code \<notin> set HEX_CHARS" "code \<noteq> 0x0D" "0x0D \<notin> set b"
    using hex_not_special assms b by auto
  then have "ClientFrame ?raw = command_frame basic_mode b code"
    using b by (simp add: ClientFrame_def command_frame_def starts_with_def Let_def)
  moreover have "chunk_frames ?raw = [ClientFrame ?raw]" using n b by simp
  moreover have "0x0D \<notin> set ?raw" using n by simp
  ultimately show ?thesis using split_line [of ?raw rest]
    by (simp add: command_line_def END_COMMAND_def)
qed

lemma packet_line_hex:
  assumes "packet_wf P"
  shows "\<exists>b. encode_packet P = Inr b \<and> set b \<subseteq> set HEX_CHARS \<and> b \<noteq> [] \<and> \<not> is_special_client P"
proof -
  from packet_wf_base [OF assms] obtain bp where "packet_base P = Some bp" by blast
  from addressed_roundtrip [OF assms this] obtain raw where raw: "packet_encode P = Inr raw" "raw \<noteq> []"
    by (auto simp: header_def with_checksum_def)
  then show ?thesis using assms b16encode_hex [of raw] by (cases P) (auto simp: result_simps)
qed

text \<open>
  \<open>awaiting code line n t\<close> is the pool of a client with one packet under way.
\<close>

definition awaiting :: "byte \<Rightarrow> bytes \<Rightarrow> nat \<Rightarrow> int \<Rightarrow> int \<Rightarrow> 'a conf_state_scheme \<Rightarrow> bool" where
  "awaiting code line n t0 t st \<longleftrightarrow> in_use st = [(code, t0)] \<and> pending st = [(code, line, n, t)]"

lemma first_send:
  assumes "conf_inv st" "connected st" "in_use st = []" "pending st = []"
    and "encode_packet cmd = Inr b" "\<not> is_special_client cmd"
  shows "\<exists>code st'. send_seq now cmd True basic_mode st = (Inr (Some code), st') \<and>
    code \<in> set CONFIRMATION_CODES \<and> connected st' \<and>
    written st' = written st @ [command_line basic_mode b code] \<and>
    awaiting code (command_line basic_mode b code) 1 now now st'"
proof -
  have "check_and_release_timed_out now st = st"
    using assms(3) by (simp add: check_and_release_timed_out_def timed_out_codes_def force_threshold_def)
  with get_confirmation_code_seq_fresh [OF assms(1), of now] obtain code i where
    "get_confirmation_code_seq now st = (code, take_code code now (st\<lparr>next_index := i\<rparr>))"
    "code \<in> set CONFIRMATION_CODES" by auto
  with assms show ?thesis
    by (auto simp: send_seq_def prepare_packet_seq_def send_packet_def take_code_def add_pending_def
        awaiting_def command_line_def Let_def)
qed

lemma retry_awaiting:
  assumes "awaiting code line n t0 t st" "connected st" "t + RETRY_INTERVAL \<le> now"
    and "now \<le> t0 + CONFIRMATION_TIMEOUT" "n < MAX_PACKET_RETRIES"
  shows "\<exists>st'. check_pending_seq now st = (Inr (), st') \<and> connected st' \<and>
    written st' = written st @ [line] \<and> awaiting code line (Suc n) t0 now st'"
  using assms
  by (auto simp: awaiting_def check_pending_seq_def check_and_release_timed_out_def timed_out_codes_def
      force_threshold_def codes_facts note_retry_def send_packet_def Let_def)

lemma abandon_awaiting:
  assumes "awaiting code line n t0 t st" "t + RETRY_INTERVAL \<le> now"
    and "now \<le> t0 + CONFIRMATION_TIMEOUT" "n = MAX_PACKET_RETRIES"
  shows "\<exists>st'. check_pending_seq now st = (Inr (), st') \<and> written st' = written st \<and>
    in_use st' = [] \<and> pending st' = []"
  using assms
  by (auto simp: awaiting_def check_pending_seq_def check_and_release_timed_out_def timed_out_codes_def
      force_threshold_def codes_facts abandon_def remove_from_pending_def release_confirmation_code_def
      drop_code_def Let_def)

section \<open>What the fake PCI makes of them\<close>

lemma command_frame_fields [simp]:
  "f_is_reset (command_frame m b c) = False" "f_is_smart_connect (command_frame m b c) = False"
  "f_conf (command_frame m b c) = Some [c]" "f_payload (command_frame m b c) = text_of b"
  by (simp_all add: command_frame_def)

lemma handle_command:
  "handle_frame conn (command_frame basic_mode b code) st =
     (let st = st\<lparr>fp_frames := fp_frames st @ [command_frame basic_mode b code]\<rparr> in
      if fp_withhold_first_conf st \<and> fp_withheld st = None
      then st\<lparr>fp_withheld := Some (text_of b, [code]), fp_withheld_seen := 1\<rparr>
      else if fp_withheld st = Some (text_of b, [code])
      then st\<lparr>fp_withheld_seen := fp_withheld_seen st + 1\<rparr>
      else st\<lparr>fp_out := fp_out st @ [(conn, [code, 0x2E])]\<rparr>)"
  by (simp add: handle_frame_def Let_def)

lemma thrice:
  fixes conn m b code withhold
  defines "fake \<equiv> fold (handle_frame conn) (replicate 3 (command_frame m b code)) (new_FakePCI withhold)"
  shows "payloads fake = replicate 3 (text_of b)" "fp_withheld_seen fake = (if withhold then 3 else 0)"
    "fp_out fake = (if withhold then [] else replicate 3 (conn, [code, 0x2E]))"
  unfolding fake_def
  by (simp_all add: numeral_3_eq_3 handle_command new_FakePCI_def payloads_def Let_def)

lemma reads_commands:
  assumes "set b \<subseteq> set HEX_CHARS" "b \<noteq> []" "code \<in> set CONFIRMATION_CODES"
    and "concat chunks = concat (replicate (Suc n) (command_line basic_mode b code))"
  shows "fold (client_data conn) chunks ([], fake) =
    ([], fold (handle_frame conn) (replicate (Suc n) (command_frame basic_mode b code)) fake)"
proof -
  let ?line = "command_line basic_mode b code"
  have frames: "split_client_frames (concat (replicate k ?line)) = (replicate k (command_frame basic_mode b code), [])" for k
    by (induction k) (simp_all add: command_line_frame [OF assms(1-3)])
  have "concat (replicate (Suc n) ?line) = concat (replicate n ?line) @ ?line" by (induction n) simp_all
  then obtain xs where xs: "concat chunks = xs @ [0x0D]"
    unfolding assms(4) by (simp add: command_line_def END_COMMAND_def)
  from reads_any_cut [OF xs, of conn "[]" fake] show ?thesis
    using frames [of "Suc n"] xs assms(4) by simp
qed

section \<open>Properties\<close>

text \<open>
  C22: A command the harness does not acknowledge is repeated and then given up. Let a client with
  nothing under way send a well-formed packet that asks for a confirmation, and let its retry task
  run three times, at least a retry interval apart and within the lifetime of a code. The client
  writes the same line three times and is left with no packet pending and no code in use. However
  these bytes are cut into reads, a fake PCI that withholds the first confirmation records three
  frames with the packet's text, counts all three as the withheld one and answers none; one that
  does not withhold answers each with the client's code and a dot.
\<close>

theorem withheld_is_retried:
  assumes "packet_wf cmd" "conf_inv st" "connected st" "in_use st = []" "pending st = []"
    and "now + RETRY_INTERVAL \<le> t1" "t1 + RETRY_INTERVAL \<le> t2" "t2 + RETRY_INTERVAL \<le> t3"
    and "t3 \<le> now + CONFIRMATION_TIMEOUT"
  shows "\<exists>code b st1 st2 st3 st4. encode_packet cmd = Inr b \<and>
    send_seq now cmd True basic_mode st = (Inr (Some code), st1) \<and> check_pending_seq t1 st1 = (Inr (), st2) \<and>
    check_pending_seq t2 st2 = (Inr (), st3) \<and> check_pending_seq t3 st3 = (Inr (), st4) \<and>
    written st4 = written st @ replicate 3 (command_line basic_mode b code) \<and>
    in_use st4 = [] \<and> pending st4 = [] \<and>
    (\<forall>chunks conn withhold. concat chunks = concat (replicate 3 (command_line basic_mode b code)) \<longrightarrow>
       (\<exists>fake. fold (client_data conn) chunks ([], new_FakePCI withhold) = ([], fake) \<and>
          payloads fake = replicate 3 (text_of b) \<and> fp_withheld_seen fake = (if withhold then 3 else 0) \<and>
          fp_out fake = (if withhold then [] else replicate 3 (conn, [code, 0x2E]))))"
proof -
  from packet_line_hex [OF assms(1)] obtain b where b: "encode_packet cmd = Inr b"
    "set b \<subseteq> set HEX_CHARS" "b \<noteq> []" "\<not> is_special_client cmd" by blast
  from first_send [OF assms(2-5) b(1,4), of now basic_mode] obtain code st1 where
    s1: "send_seq now cmd True basic_mode st = (Inr (Some code), st1)" "code \<in> set CONFIRMATION_CODES"
      "connected st1" "written st1 = written st @ [command_line basic_mode b code]"
      "awaiting code (command_line basic_mode b code) 1 now now st1" by blast
  from retry_awaiting [OF s1(5,3), of t1] assms obtain st2 where
    s2: "check_pending_seq t1 st1 = (Inr (), st2)" "connected st2"
      "written st2 = written st1 @ [command_line basic_mode b code]"
      "awaiting code (command_line basic_mode b code) (Suc 1) now t1 st2" by auto
  from retry_awaiting [OF s2(4,2), of t2] assms obtain st3 where
    s3: "check_pending_seq t2 st2 = (Inr (), st3)" "connected st3"
      "written st3 = written st2 @ [command_line basic_mode b code]"
      "awaiting code (command_line basic_mode b code) (Suc (Suc 1)) now t2 st3" by auto
  from abandon_awaiting [OF s3(4), of t3] assms obtain st4 where
    s4: "check_pending_seq t3 st3 = (Inr (), st4)" "written st4 = written st3" "in_use st4 = []" "pending st4 = []"
    by auto
  have "\<exists>fake. fold (client_data conn) chunks ([], new_FakePCI withhold) = ([], fake) \<and>
      payloads fake = replicate 3 (text_of b) \<and> fp_withheld_seen fake = (if withhold then 3 else 0) \<and>
      fp_out fake = (if withhold then [] else replicate 3 (conn, [code, 0x2E]))"
    if "concat chunks = concat (replicate 3 (command_line basic_mode b code))" for chunks conn withhold
    using reads_commands [OF b(2,3) s1(2), of chunks 2 basic_mode conn "new_FakePCI withhold"] that
      thrice [of conn basic_mode b code withhold] by (simp add: numeral_3_eq_3)
  with b(1) s1(1,4) s2(1,3) s3(1,3) s4 show ?thesis by (auto simp: numeral_3_eq_3)
qed

theorem withheld_is_retried_witness:
  "\<exists>code b st1 st2 st3 st4. encode_packet example_level_report = Inr b \<and>
    send_seq 0 example_level_report True False (connection_made (new_PCIProtocol 0 None)) = (Inr (Some code), st1) \<and>
    check_pending_seq 1000000 st1 = (Inr (), st2) \<and> check_pending_seq 2000000 st2 = (Inr (), st3) \<and>
    check_pending_seq 3000000 st3 = (Inr (), st4) \<and>
    written st4 = replicate 3 (command_line False b code) \<and> pending st4 = [] \<and>
    (\<exists>fake. fold (client_data 1) [concat (replicate 3 (command_line False b code))] ([], new_FakePCI True) = ([], fake) \<and>
       fp_withheld_seen fake = 3)"
proof -
  let ?st = "connection_made (new_PCIProtocol 0 None)"
  have "packet_wf example_level_report"
    by (simp add: example_level_report_def pp_wf_def is_byte_def)
  moreover have "conf_inv ?st" "connected ?st" "in_use ?st = []" "pending ?st = []" "written ?st = []"
    by (simp_all add: connection_made_def new_PCIProtocol_def cleanup_state_def conf_inv_def codes_facts)
  ultimately obtain code b st1 st2 st3 st4 where *: "encode_packet example_level_report = Inr b"
    "send_seq 0 example_level_report True False ?st = (Inr (Some code), st1)"
    "check_pending_seq 1000000 st1 = (Inr (), st2)" "check_pending_seq 2000000 st2 = (Inr (), st3)"
    "check_pending_seq 3000000 st3 = (Inr (), st4)" "written st4 = replicate 3 (command_line False b code)"
    "pending st4 = []"
    "\<And>chunks conn withhold. concat chunks = concat (replicate 3 (command_line False b code)) \<Longrightarrow>
       \<exists>fake. fold (client_data conn) chunks ([], new_FakePCI withhold) = ([], fake) \<and>
          payloads fake = replicate 3 (text_of b) \<and> fp_withheld_seen fake = (if withhold then 3 else 0) \<and>
          fp_out fake = (if withhold then [] else replicate 3 (conn, [code, 0x2E]))"
    using withheld_is_retried [of example_level_report ?st 0 1000000 2000000 3000000 False] by auto
  from *(8) [of "[concat (replicate 3 (command_line False b code))]" 1 True] obtain fake where
    "fold (client_data 1) [concat (replicate 3 (command_line False b code))] ([], new_FakePCI True) = ([], fake)"
    "fp_withheld_seen fake = 3" by auto
  with *(1-7) show ?thesis by blast
qed

text \<open>
  The framing of the fake PCI does not depend on how the stream is cut. Whatever bytes clients
  send, as long as the last of them ends a command, and wherever the reads cut them, also between
  the bare tildes of a reset, the server ends in the same state and with an empty buffer.
\<close>

lemma frames_any_cut:
  assumes "concat chunks = xs @ END_COMMAND" "concat chunks' = xs @ END_COMMAND"
  shows "fold (client_data conn) chunks ([], st) = fold (client_data conn) chunks' ([], st) \<and>
    fst (fold (client_data conn) chunks ([], st)) = []"
  using reads_any_cut [of chunks xs conn "[]" st] reads_any_cut [of chunks' xs conn "[]" st] assms
  by (simp add: END_COMMAND_def)

end
