(* ===== verification/Utf8.thy ===== *)
theory Utf8
  imports Prelude
begin

text \<open>
  UTF-8 as Python's \<open>str.encode()\<close> and \<open>bytes.decode()\<close> compute it with their default
  arguments. A string is the list of its code points. Both are strict: a surrogate or a point
  beyond the last plane cannot be encoded, and a stray or missing continuation byte, an overlong
  form, a surrogate or a byte that starts nothing cannot be decoded (\<open>UnicodeError\<close> is a
  \<open>ValueError\<close>). Decoding inverts encoding.
\<close>

type_synonym unicode = "nat list"

definition scalar :: "nat \<Rightarrow> bool" where
  "scalar n \<longleftrightarrow> n < 0xD800 \<or> 0xE000 \<le> n \<and> n < 0x110000"

definition utf8_char :: "nat \<Rightarrow> bytes" where
  "utf8_char n =
     (if n < 0x80 then [of_nat n]
      else if n < 0x800 then [of_nat (0xC0 + n div 64), of_nat (0x80 + n mod 64)]
      else if n < 0x10000 then
        [of_nat (0xE0 + n div 4096), of_nat (0x80 + n div 64 mod 64), of_nat (0x80 + n mod 64)]
      else
        [of_nat (0xF0 + n div 262144), of_nat (0x80 + n div 4096 mod 64),
         of_nat (0x80 + n div 64 mod 64), of_nat (0x80 + n mod 64)])"

definition utf8_encode :: "unicode \<Rightarrow> bytes result" where
  "utf8_encode s = (if list_all scalar s then Inr (concat (map utf8_char s)) else Inl ValueError)"

text \<open>\<open>continuation k bs\<close> reads \<open>k\<close> continuation bytes onto the bits read so far.\<close>

fun continuation :: "nat \<Rightarrow> nat \<Rightarrow> bytes \<Rightarrow> (nat \<times> bytes) option" where
  "continuation 0 n bs = Some (n, bs)"
| "continuation (Suc k) n [] = None"
| "continuation (Suc k) n (b # bs) =
     (if 0x80 \<le> unat b \<and> unat b < 0xC0 then continuation k (n * 64 + (unat b - 0x80)) bs else None)"

lemma continuation_shorter: "continuation k n bs = Some (m, rest) \<Longrightarrow> length rest \<le> length bs"
  by (induction k n bs rule: continuation.induct) (auto split: if_splits)

text \<open>One character: how many bytes follow its first, and the least point that needs them.\<close>

definition utf8_next :: "byte \<Rightarrow> bytes \<Rightarrow> (nat \<times> bytes) option" where
  "utf8_next b bs =
     (let u = unat b;
          read = (\<lambda>k lead least.
            case continuation k (u - lead) bs of
              Some (n, rest) \<Rightarrow> if least \<le> n \<and> scalar n then Some (n, rest) else None
            | None \<Rightarrow> None) in
      if u < 0x80 then Some (u, bs)
      else if u < 0xC0 then None
      else if u < 0xE0 then read 1 0xC0 0x80
      else if u < 0xF0 then read 2 0xE0 0x800
      else if u < 0xF8 then read 3 0xF0 0x10000
      else None)"

lemma utf8_next_shorter: "utf8_next b bs = Some (n, rest) \<Longrightarrow> length rest < length (b # bs)"
  by (auto simp: utf8_next_def Let_def dest!: continuation_shorter split: if_splits option.splits prod.splits)

function utf8_decode :: "bytes \<Rightarrow> unicode result" where
  "utf8_decode [] = Inr []"
| "utf8_decode (b # bs) =
     (case utf8_next b bs of
        None \<Rightarrow> Inl ValueError
      | Some (n, rest) \<Rightarrow> rmap ((#) n) (utf8_decode rest))"
  by pat_completeness auto
termination
  by (relation "measure length") (auto dest: utf8_next_shorter)

section \<open>Round trip\<close>

lemma unat_byte_nat: "n < 256 \<Longrightarrow> unat (of_nat n :: byte) = n"
  by (simp add: unat_of_nat)

lemma continuation_byte:
  "m < 64 \<Longrightarrow> continuation (Suc k) n (of_nat (0x80 + m) # bs) = continuation k (n * 64 + m) bs"
  by (simp add: unat_byte_nat del: of_nat_add)

lemma div_digits:
  fixes n :: nat
  shows "n div 64 * 64 + n mod 64 = n" "n div 4096 * 64 + n div 64 mod 64 = n div 64"
    "n div 262144 * 64 + n div 4096 mod 64 = n div 4096"
proof -
  have "n div 64 div 64 * 64 + n div 64 mod 64 = n div 64" by (rule div_mult_mod_eq)
  moreover have "n div 4096 div 64 * 64 + n div 4096 mod 64 = n div 4096" by (rule div_mult_mod_eq)
  ultimately show "n div 64 * 64 + n mod 64 = n" "n div 4096 * 64 + n div 64 mod 64 = n div 64"
    "n div 262144 * 64 + n div 4096 mod 64 = n div 4096"
    by (simp_all add: div_mult2_eq [symmetric] div_mult_mod_eq)
qed

lemma utf8_char_decode:
  assumes "scalar n"
  shows "utf8_decode (utf8_char n @ bs) = rmap ((#) n) (utf8_decode bs)"
proof -
  have n: "n < 0x110000" using assms by (auto simp: scalar_def)
  consider "n < 0x80" | "0x80 \<le> n" "n < 0x800" | "0x800 \<le> n" "n < 0x10000" | "0x10000 \<le> n" by linarith
  then show ?thesis
  proof cases
    case 1
    then show ?thesis by (simp add: utf8_char_def utf8_next_def unat_byte_nat)
  next
    case 2
    then have "n div 64 < 32" by (simp add: div_less_iff_less_mult)
    with 2 assms show ?thesis
      by (simp add: utf8_char_def utf8_next_def Let_def unat_byte_nat continuation_byte div_digits
          One_nat_def del: of_nat_add continuation.simps(3))
  next
    case 3
    then have "n div 4096 < 16" by (simp add: div_less_iff_less_mult)
    with 3 assms show ?thesis
      by (simp add: utf8_char_def utf8_next_def Let_def unat_byte_nat continuation_byte div_digits
          numeral_2_eq_2 del: of_nat_add)
  next
    case 4
    then have "n div 262144 < 8" using n by (simp add: div_less_iff_less_mult)
    with 4 assms show ?thesis
      by (simp add: utf8_char_def utf8_next_def Let_def unat_byte_nat continuation_byte div_digits
          numeral_3_eq_3 del: of_nat_add)
  qed
qed

lemma utf8_decode_encode: "utf8_encode s = Inr bs \<Longrightarrow> utf8_decode bs = Inr s"
proof -
  have "utf8_decode (concat (map utf8_char s)) = Inr s" if "list_all scalar s"
    using that by (induction s) (simp_all add: utf8_char_decode)
  moreover assume "utf8_encode s = Inr bs"
  ultimately show ?thesis by (auto simp: utf8_encode_def split: if_splits)
qed

lemma utf8_encode_ascii: "utf8_encode (map of_char s) = Inr (ascii s)" if "list_all (\<lambda>c. of_char c < (128 :: nat)) s"
  using that
  by (induction s) (auto simp: utf8_encode_def ascii_def utf8_char_def scalar_def of_nat_of_char split: if_splits)

end
