(* ===== verification/Broker.thy ===== *)
theory Broker
  imports Utf8 Topics
begin

text \<open>
  The MQTT broker of the behavioural suite, \<open>rust-migration-harness/lib/mini_broker.py\<close>: topic
  filters, the framing of MQTT packets, and the session of every client, over one record. A
  client's entry holds its \<open>_Client\<close> object, the bytes of its stream that have arrived and not
  been read, and what was written to it; an entry is never removed, as in the code, and a write to
  one whose connection is closed is lost.

  \<open>serve\<close> is the loop of \<open>_on_client\<close> up to the point where the stream runs out.
  An exception the handler does not catch ends the session like the ones it catches, so only the
  end of the session is modelled. Topics are lists of code points.

  The lemmas relate topic filters to the levels of a topic, read packets back that were written,
  and show what the broker records and delivers.
\<close>

section \<open>Topic filters\<close>

definition levels :: "unicode \<Rightarrow> unicode list" where
  "levels = split_on 0x2F"

fun match_levels :: "unicode list \<Rightarrow> unicode list \<Rightarrow> bool" where
  "match_levels [] tp \<longleftrightarrow> tp = []"
| "match_levels (seg # fp) tp \<longleftrightarrow>
     seg = [0x23] \<or>
     (case tp of [] \<Rightarrow> False | t # tp' \<Rightarrow> (seg = [0x2B] \<or> seg = t) \<and> match_levels fp tp')"

definition topic_matches :: "unicode \<Rightarrow> unicode \<Rightarrow> bool" where
  "topic_matches filt topic = match_levels (levels filt) (levels topic)"

section \<open>Packets\<close>

fun encode_remaining :: "nat \<Rightarrow> bytes" where
  "encode_remaining n =
     (if n div 128 \<noteq> 0 then (of_nat (n mod 128) OR 0x80) # encode_remaining (n div 128)
      else [of_nat (n mod 128)])"

declare encode_remaining.simps [simp del]

definition two_bytes :: "nat \<Rightarrow> bytes result" where
  "two_bytes n = (if n < 65536 then Inr [of_nat (n div 256), of_nat (n mod 256)] else Inl OverflowError)"

definition from_big :: "bytes \<Rightarrow> nat" where
  "from_big bs = foldl (\<lambda>n b. n * 256 + unat b) 0 bs"

definition publish_packet :: "unicode \<Rightarrow> bytes \<Rightarrow> nat \<Rightarrow> bool \<Rightarrow> bytes result" where
  "publish_packet topic payload qos retain =
     rbind (utf8_encode topic) (\<lambda>tb.
     rbind (two_bytes (length tb)) (\<lambda>len.
     let var = len @ tb @ (if qos > 0 then [0, 1] else []);
         body = var @ payload;
         hdr = 0x30 OR push_bit 1 (of_nat qos) OR (if retain then 1 else 0) in
     Inr ([hdr] @ encode_remaining (length body) @ body)))"

text \<open>
  Reading a packet off the bytes that have arrived: not enough yet, a remaining length of more
  than four bytes, or a packet and the bytes after it.
\<close>

datatype 'a reading = More | BadLength | Got 'a bytes

fun read_remaining :: "nat \<Rightarrow> nat \<Rightarrow> nat \<Rightarrow> bytes \<Rightarrow> nat reading" where
  "read_remaining mult rem i [] = More"
| "read_remaining mult rem i (b # bs) =
     (let rem = rem + unat (b AND 0x7F) * mult in
      if b AND 0x80 = 0 then Got rem bs
      else if i + 1 > 3 then BadLength
      else read_remaining (mult * 128) rem (i + 1) bs)"

fun read_packet :: "bytes \<Rightarrow> (byte \<times> bytes) reading" where
  "read_packet [] = More"
| "read_packet (h # bs) =
     (case read_remaining 1 0 0 bs of
        More \<Rightarrow> More
      | BadLength \<Rightarrow> BadLength
      | Got rem bs \<Rightarrow> if length bs < rem then More else Got (h, take rem bs) (drop rem bs))"

section \<open>State\<close>

record publish_record =
  pr_topic :: unicode
  pr_payload :: bytes
  pr_qos :: nat
  pr_retain :: bool

record mqtt_client =
  cl_subscriptions :: "unicode list"
  cl_connected :: bool
  cl_buf :: bytes
  cl_out :: "bytes list"
  cl_closed :: bool

datatype broker_error = WrongLevel nat | Unhandled nat

record mini_broker =
  br_clients :: "mqtt_client list"
  br_publishes :: "publish_record list"
  br_subscriptions :: "unicode list"
  br_errors :: "broker_error list"
  br_retained :: "unicode \<rightharpoonup> bytes"

definition new_MiniBroker :: mini_broker where
  "new_MiniBroker =
     \<lparr>br_clients = [], br_publishes = [], br_subscriptions = [], br_errors = [], br_retained = Map.empty\<rparr>"

definition new_client :: mqtt_client where
  "new_client = \<lparr>cl_subscriptions = [], cl_connected = False, cl_buf = [], cl_out = [], cl_closed = False\<rparr>"

definition update_client :: "nat \<Rightarrow> (mqtt_client \<Rightarrow> mqtt_client) \<Rightarrow> mini_broker \<Rightarrow> mini_broker" where
  "update_client i f br = br\<lparr>br_clients := (br_clients br)[i := f (br_clients br ! i)]\<rparr>"

definition client_write :: "bytes \<Rightarrow> mqtt_client \<Rightarrow> mqtt_client" where
  "client_write data c = (if cl_closed c then c else c\<lparr>cl_out := cl_out c @ [data]\<rparr>)"

definition reply :: "nat \<Rightarrow> bytes \<Rightarrow> (mini_broker, unit) act" where
  "reply i data = amodify (update_client i (client_write data))"

definition add_error :: "broker_error \<Rightarrow> (mini_broker, unit) act" where
  "add_error e = amodify (\<lambda>br. br\<lparr>br_errors := br_errors br @ [e]\<rparr>)"

definition wants :: "unicode \<Rightarrow> mqtt_client \<Rightarrow> bool" where
  "wants topic c \<longleftrightarrow> list_ex (\<lambda>f. topic_matches f topic) (cl_subscriptions c)"

definition fanout :: "unicode \<Rightarrow> bytes \<Rightarrow> (mini_broker, unit) act" where
  "fanout topic payload =
     abind (alift (publish_packet topic payload 0 False)) (\<lambda>pkt.
     amodify (\<lambda>br. br\<lparr>br_clients :=
       map (\<lambda>c. if wants topic c then client_write pkt c else c) (br_clients br)\<rparr>))"

section \<open>Handling a packet\<close>

text \<open>Each handler returns whether the loop goes on; \<open>break\<close> is \<open>False\<close>.\<close>

definition on_connect :: "nat \<Rightarrow> bytes \<Rightarrow> (mini_broker, bool) act" where
  "on_connect i body =
     abind (alift (py_get body (2 + from_big (take 2 body)))) (\<lambda>level.
     if level \<noteq> 4 then
       athen (add_error (WrongLevel (unat level))) (athen (reply i [0x20, 2, 0, 1]) (areturn False))
     else
       athen (amodify (update_client i (\<lambda>c. c\<lparr>cl_connected := True\<rparr>)))
         (athen (reply i [0x20, 2, 0, 0]) (areturn True)))"

definition pid_bytes :: "bytes \<Rightarrow> bytes" where
  "pid_bytes bs = (let pid = from_big bs in [of_nat (pid div 256), of_nat (pid mod 256)])"

definition on_publish :: "nat \<Rightarrow> byte \<Rightarrow> bytes \<Rightarrow> (mini_broker, bool) act" where
  "on_publish i ptype body =
     (let qos = unat (drop_bit 1 ptype AND 3);
          retain = (ptype AND 1 \<noteq> 0);
          tlen = from_big (take 2 body) in
      abind (alift (utf8_decode (take tlen (drop 2 body)))) (\<lambda>topic.
      let off = 2 + tlen;
          pid = take 2 (drop off body);
          payload = drop (if qos > 0 then off + 2 else off) body in
      athen (amodify (\<lambda>br. br\<lparr>br_publishes := br_publishes br @
               [\<lparr>pr_topic = topic, pr_payload = payload, pr_qos = qos, pr_retain = retain\<rparr>]\<rparr>))
     (athen (awhen retain (amodify (\<lambda>br. br\<lparr>br_retained := (br_retained br)(topic \<mapsto> payload)\<rparr>)))
     (athen (awhen (qos = 1) (reply i ([0x40, 2] @ pid_bytes pid)))
     (athen (awhen (qos = 2) (reply i ([0x50, 2] @ pid_bytes pid)))
     (athen (fanout topic payload) (areturn True)))))))"

text \<open>The loop over the filters of a SUBSCRIBE; it returns the granted levels.\<close>

function subscribe_loop :: "nat \<Rightarrow> bytes \<Rightarrow> nat \<Rightarrow> (mini_broker, bytes) act" where
  "subscribe_loop i body off =
     (if off < length body then
        (let tlen = from_big (take 2 (drop off body)) in
         abind (alift (utf8_decode (take tlen (drop (off + 2) body)))) (\<lambda>topic.
         abind (alift (py_get body (off + 2 + tlen))) (\<lambda>rq.
         athen (amodify (update_client i (\<lambda>c. c\<lparr>cl_subscriptions := cl_subscriptions c @ [topic]\<rparr>)))
        (athen (amodify (\<lambda>br. br\<lparr>br_subscriptions := br_subscriptions br @ [topic]\<rparr>))
        (abind (subscribe_loop i body (off + 3 + tlen)) (\<lambda>granted. areturn (min rq 1 # granted)))))))
      else areturn [])"
  by pat_completeness auto
termination
  by (relation "measure (\<lambda>(i, body, off). length body - off)") auto

declare subscribe_loop.simps [simp del]

definition on_subscribe :: "nat \<Rightarrow> bytes \<Rightarrow> (mini_broker, bool) act" where
  "on_subscribe i body =
     abind (subscribe_loop i body 2) (\<lambda>granted.
     athen (reply i ([0x90] @ encode_remaining (2 + length granted) @ pid_bytes (take 2 body) @ granted))
       (areturn True))"

definition handle_mqtt :: "nat \<Rightarrow> byte \<Rightarrow> bytes \<Rightarrow> (mini_broker, bool) act" where
  "handle_mqtt i ptype body =
     (let kind = unat (drop_bit 4 ptype) in
      if kind = 1 then on_connect i body
      else if kind = 3 then on_publish i ptype body
      else if kind = 6 then athen (reply i ([0x70, 2] @ pid_bytes (take 2 body))) (areturn True)
      else if kind = 8 then on_subscribe i body
      else if kind = 10 then athen (reply i ([0xB0, 2] @ pid_bytes (take 2 body))) (areturn True)
      else if kind = 12 then athen (reply i [0xD0, 0]) (areturn True)
      else if kind = 14 then areturn False
      else if kind = 4 then areturn True
      else athen (add_error (Unhandled kind)) (areturn True))"

section \<open>Sessions\<close>

definition close_client :: "nat \<Rightarrow> mini_broker \<Rightarrow> mini_broker" where
  "close_client i = update_client i (\<lambda>c. c\<lparr>cl_buf := [], cl_closed := True\<rparr>)"

lemma read_remaining_shorter: "read_remaining m r i bs = Got n rest \<Longrightarrow> length rest \<le> length bs"
  by (induction m r i bs rule: read_remaining.induct) (auto simp: Let_def split: if_splits)

lemma read_packet_shorter: "read_packet bs = Got p rest \<Longrightarrow> length rest < length bs"
  by (cases bs) (auto dest!: read_remaining_shorter split: reading.splits if_splits)

function serve :: "nat \<Rightarrow> bytes \<Rightarrow> mini_broker \<Rightarrow> mini_broker" where
  "serve i buf br =
     (case read_packet buf of
        More \<Rightarrow> update_client i (\<lambda>c. c\<lparr>cl_buf := buf\<rparr>) br
      | BadLength \<Rightarrow> close_client i br
      | Got (ptype, body) rest \<Rightarrow>
          (case handle_mqtt i ptype body br of
             (Inr True, br) \<Rightarrow> serve i rest br
           | (_, br) \<Rightarrow> close_client i br))"
  by pat_completeness auto
termination
  by (relation "measure (\<lambda>(i, buf, br). length buf)") (auto dest: read_packet_shorter)

declare serve.simps [simp del]

definition accept_client :: "mini_broker \<Rightarrow> mini_broker" where
  "accept_client br = br\<lparr>br_clients := br_clients br @ [new_client]\<rparr>"

definition receive :: "nat \<Rightarrow> bytes \<Rightarrow> mini_broker \<Rightarrow> mini_broker" where
  "receive i data br =
     (if i < length (br_clients br) \<and> \<not> cl_closed (br_clients br ! i)
      then serve i (cl_buf (br_clients br ! i) @ data) br else br)"

definition inject :: "unicode \<Rightarrow> bytes \<Rightarrow> (mini_broker, unit) act" where
  "inject topic payload = fanout topic payload"

definition find_publishes :: "unicode \<Rightarrow> mini_broker \<Rightarrow> publish_record list" where
  "find_publishes topic br = filter (\<lambda>p. pr_topic p = topic) (br_publishes br)"

definition has_subscription :: "unicode \<Rightarrow> mini_broker \<Rightarrow> bool" where
  "has_subscription topic_filter br \<longleftrightarrow> topic_filter \<in> set (br_subscriptions br)"

section \<open>Remaining length\<close>

lemma seven_bits:
  assumes "k < 128"
  shows "unat ((of_nat k OR 0x80 :: byte) AND 0x7F) = k" "(of_nat k OR 0x80 :: byte) AND 0x80 \<noteq> 0"
    "unat ((of_nat k :: byte) AND 0x7F) = k" "(of_nat k :: byte) AND 0x80 = 0"
proof -
  define w :: byte where "w = of_nat k"
  have k: "unat w = k" using assms by (simp add: w_def unat_of_nat)
  then have "take_bit 7 w = w"
    using assms by (simp add: word_unat_eq_iff unsigned_take_bit_eq take_bit_nat_eq_self)
  then have low: "w AND 0x7F = w" by (simp add: take_bit_eq_mask mask_eq_exp_minus_1)
  have "w AND 0x80 = (w AND 0x7F) AND 0x80" by (simp only: low)
  also have "\<dots> = 0" by (simp add: and.assoc)
  finally have high: "w AND 0x80 = 0" .
  show "unat ((of_nat k OR 0x80 :: byte) AND 0x7F) = k" "(of_nat k OR 0x80 :: byte) AND 0x80 \<noteq> 0"
    "unat ((of_nat k :: byte) AND 0x7F) = k" "(of_nat k :: byte) AND 0x80 = 0"
    using low high k by (simp_all add: bit.conj_disj_distrib2 flip: w_def)
qed

lemma read_encoded_remaining:
  "i \<le> 3 \<Longrightarrow> read_remaining m r i (encode_remaining n @ bs) =
     (if n < 128 ^ (4 - i) then Got (r + n * m) bs else BadLength)"
proof (induction n arbitrary: m r i rule: encode_remaining.induct)
  case (1 n)
  show ?case
  proof (cases "n div 128 = 0")
    case True
    then have "n < 128" by (simp add: div_eq_0_iff)
    moreover have "(128 :: nat) ^ 1 \<le> 128 ^ (4 - i)" using 1(2) by (intro power_increasing) auto
    ultimately show ?thesis using seven_bits(3,4) [of n] by (simp add: encode_remaining.simps [of n])
  next
    case False
    show ?thesis
    proof (cases "i = 3")
      case True
      with False seven_bits(1,2) [of "n mod 128"] show ?thesis
        by (simp add: encode_remaining.simps [of n] div_eq_0_iff)
    next
      case i: False
      have "n div 128 < 128 ^ (4 - Suc i) \<longleftrightarrow> n < 128 ^ (4 - i)"
      proof -
        have "(128 :: nat) ^ (4 - i) = 128 ^ (4 - Suc i) * 128" using i 1(2) by (auto simp: le_Suc_eq numeral_3_eq_3 simp flip: power_Suc2)
        then show ?thesis by (simp add: div_less_iff_less_mult)
      qed
      moreover have "r + n mod 128 * m + n div 128 * (m * 128) = r + n * m"
      proof -
        have "n mod 128 * m + n div 128 * (m * 128) = (n mod 128 + 128 * (n div 128)) * m"
          by (simp only: add_mult_distrib add_mult_distrib2 mult.commute mult.left_commute mult.assoc)
        then show ?thesis by (simp only: mod_mult_div_eq add.assoc)
      qed
      ultimately show ?thesis
        using False i 1(1) [OF False, of "Suc i" "m * 128" "r + n mod 128 * m"] 1(2) seven_bits(1,2) [of "n mod 128"]
        by (simp add: encode_remaining.simps [of n])
    qed
  qed
qed

lemma from_big_two: "n < 65536 \<Longrightarrow> from_big [of_nat (n div 256), of_nat (n mod 256)] = n"
  by (simp add: from_big_def unat_of_nat div_less_iff_less_mult)

section \<open>Published packets are read back\<close>

definition publish_header :: "nat \<Rightarrow> bool \<Rightarrow> byte" where
  "publish_header qos retain = 0x30 OR push_bit 1 (of_nat qos) OR (if retain then 1 else 0)"

definition publish_body :: "bytes \<Rightarrow> bytes \<Rightarrow> nat \<Rightarrow> bytes" where
  "publish_body tb payload qos =
     [of_nat (length tb div 256), of_nat (length tb mod 256)] @ tb @ (if qos > 0 then [0, 1] else []) @ payload"

lemma publish_packetE:
  assumes "publish_packet topic payload qos retain = Inr pkt"
  obtains tb where "utf8_encode topic = Inr tb" "length tb < 65536"
    "pkt = publish_header qos retain # encode_remaining (length (publish_body tb payload qos)) @ publish_body tb payload qos"
  using assms
  by (auto simp: publish_packet_def two_bytes_def publish_header_def publish_body_def result_simps Let_def
      split: if_splits)

lemma publish_header_bits:
  assumes "qos \<le> 2"
  shows "unat (drop_bit 1 (publish_header qos retain) AND 3) = qos"
    "(publish_header qos retain AND 1 \<noteq> 0) = retain" "unat (drop_bit 4 (publish_header qos retain)) = 3"
proof -
  from assms have "qos = 0 \<or> qos = 1 \<or> qos = 2" by auto
  then show "unat (drop_bit 1 (publish_header qos retain) AND 3) = qos"
    "(publish_header qos retain AND 1 \<noteq> 0) = retain" "unat (drop_bit 4 (publish_header qos retain)) = 3"
    by (auto simp: publish_header_def)
qed

lemma read_written:
  assumes "length body < 128 ^ 4"
  shows "read_packet (h # encode_remaining (length body) @ body @ rest) = Got (h, body) rest"
  using assms read_encoded_remaining [of 0 1 0 "length body" "body @ rest"] by simp

text \<open>What the broker makes of a published message: recorded, retained, acknowledged, passed on.\<close>

definition acknowledgement :: "nat \<Rightarrow> bytes list" where
  "acknowledgement qos = (if qos = 1 then [[0x40, 2, 0, 1]] else if qos = 2 then [[0x50, 2, 0, 1]] else [])"

definition published :: "nat \<Rightarrow> publish_record \<Rightarrow> bytes \<Rightarrow> mini_broker \<Rightarrow> mini_broker" where
  "published i p pkt br =
     (let br = br\<lparr>br_publishes := br_publishes br @ [p],
                  br_retained := (if pr_retain p then (br_retained br)(pr_topic p \<mapsto> pr_payload p) else br_retained br)\<rparr>;
          br = update_client i (\<lambda>c. fold client_write (acknowledgement (pr_qos p)) c) br in
      br\<lparr>br_clients := map (\<lambda>c. if wants (pr_topic p) c then client_write pkt c else c) (br_clients br)\<rparr>)"

lemma update_client_id: "i < length (br_clients br) \<Longrightarrow> update_client i (\<lambda>c. c) br = br"
  by (simp add: update_client_def)

lemma handle_publish:
  assumes "utf8_encode topic = Inr tb" "length tb < 65536" "qos \<le> 2" "i < length (br_clients br)"
    and "publish_packet topic payload 0 False = Inr pkt"
  shows "handle_mqtt i (publish_header qos retain) (publish_body tb payload qos) br =
    (Inr True, published i \<lparr>pr_topic = topic, pr_payload = payload, pr_qos = qos, pr_retain = retain\<rparr> pkt br)"
proof -
  let ?body = "publish_body tb payload qos"
  have body: "from_big (take 2 ?body) = length tb" "take (length tb) (drop 2 ?body) = tb"
    using from_big_two [OF assms(2)] by (simp_all add: publish_body_def numeral_2_eq_2)
  have rest: "0 < qos \<Longrightarrow> take 2 (drop (2 + length tb) ?body) = [0, 1]"
    "drop (if qos > 0 then 2 + length tb + 2 else 2 + length tb) ?body = payload"
    by (simp_all add: publish_body_def numeral_2_eq_2)
  have pid: "pid_bytes [0, 1] = [0, 1]" by (simp add: pid_bytes_def from_big_def)
  have "qos = 0 \<or> qos = 1 \<or> qos = 2" using assms(3) by auto
  then show ?thesis
    using body rest pid assms(4,5) utf8_decode_encode [OF assms(1)] publish_header_bits [OF assms(3), of retain]
    by (auto simp: handle_mqtt_def on_publish_def Let_def act_simps alift_def reply_def fanout_def published_def
        acknowledgement_def update_client_def)
qed

lemma client_write_out: "cl_out (client_write d c) = cl_out c @ (if cl_closed c then [] else [d])"
  "cl_subscriptions (client_write d c) = cl_subscriptions c" "cl_closed (client_write d c) = cl_closed c"
  by (simp_all add: client_write_def)

lemma wants_write [simp]: "wants t (client_write d c) = wants t c"
  by (simp add: wants_def client_write_out)

lemma acknowledged:
  "cl_out (fold client_write (acknowledgement q) c) = cl_out c @ (if cl_closed c then [] else acknowledgement q)"
  "cl_subscriptions (fold client_write (acknowledgement q) c) = cl_subscriptions c"
  "cl_closed (fold client_write (acknowledgement q) c) = cl_closed c"
  "wants t (fold client_write (acknowledgement q) c) = wants t c"
  by (simp_all add: acknowledgement_def client_write_out)

lemma published_client:
  assumes "i < length (br_clients br)" "j < length (br_clients br)"
  defines "c \<equiv> br_clients br ! j"
  shows "cl_out (br_clients (published i p pkt br) ! j) = cl_out c @
      (if cl_closed c then []
       else (if j = i then acknowledgement (pr_qos p) else []) @ (if wants (pr_topic p) c then [pkt] else []))"
    "cl_subscriptions (br_clients (published i p pkt br) ! j) = cl_subscriptions c"
  using assms
  by (simp_all add: published_def update_client_def nth_list_update acknowledged client_write_out Let_def)

section \<open>Filters without wildcards\<close>

lemma match_exact: "list_all (\<lambda>l. l \<noteq> [0x23] \<and> l \<noteq> [0x2B]) fp \<Longrightarrow> match_levels fp tp \<longleftrightarrow> fp = tp"
  by (induction fp tp rule: match_levels.induct) (auto split: list.splits)

lemma split_on_ne: "split_on c xs \<noteq> []"
  by (induction xs) (auto split: list.splits)

lemma split_on_inj: "split_on c xs = split_on c ys \<Longrightarrow> xs = ys"
proof (induction xs arbitrary: ys)
  case Nil
  with split_on_ne [of c] show ?case by (cases ys) (auto split: if_splits list.splits dest: sym)
next
  case (Cons x xs)
  from split_on_ne [of c xs] obtain p ps where p: "split_on c xs = p # ps" by (cases "split_on c xs") auto
  show ?case
  proof (cases ys)
    case Nil
    with Cons.prems p split_on_ne [of c xs] show ?thesis by (auto split: if_splits)
  next
    case ys: (Cons y zs)
    from split_on_ne [of c zs] obtain q qs where q: "split_on c zs = q # qs" by (cases "split_on c zs") auto
    with Cons.prems ys p have "x = y" "split_on c xs = split_on c zs" by (auto split: if_splits)
    with Cons.IH ys show ?thesis by simp
  qed
qed

lemma split_on_parts: "l \<in> set (split_on c xs) \<Longrightarrow> set l \<subseteq> set xs"
  by (induction xs arbitrary: l) (fastforce split: if_splits list.splits)+

lemma matches_exact:
  assumes "0x23 \<notin> set filt" "0x2B \<notin> set filt"
  shows "topic_matches filt topic \<longleftrightarrow> filt = topic"
proof -
  have "list_all (\<lambda>l. l \<noteq> [0x23] \<and> l \<noteq> [0x2B]) (levels filt)"
    using assms by (auto simp: levels_def list_all_iff dest!: split_on_parts)
  then show ?thesis using split_on_inj [of "0x2F" filt topic]
    by (auto simp: topic_matches_def match_exact levels_def)
qed

text \<open>A command topic of the bridge as the code points of its characters.\<close>

definition uni :: "string \<Rightarrow> unicode" where
  "uni = map of_char"

lemma uni_inj: "uni s = uni t \<longleftrightarrow> s = t"
  unfolding uni_def by (intro inj_map_eq_map injI) (metis char_of_char)

lemma set_topic_filter:
  assumes "is_byte ga" "is_byte app"
  shows "topic_matches (uni (set_topic ga app)) (uni t) \<longleftrightarrow> set_topic ga app = t"
proof -
  have "c \<notin> {CHR ''#'', CHR ''+''}" if "c \<in> set (set_topic ga app)" for c
  proof -
    have "all_digits (py_str ga)" "all_digits (fmt_03d ga)" "all_digits (fmt_03d app)"
      using assms by (auto simp: is_byte_def intro: all_digits_formats)
    moreover have "digit_val (CHR ''#'') = None" "digit_val (CHR ''+'') = None" by (simp_all add: digit_val_def)
    ultimately have "CHR ''#'' \<notin> set (ga_string ga app False)" "CHR ''+'' \<notin> set (ga_string ga app False)"
      by (auto simp: ga_string_def all_digits_def list_all_iff)
    with that show ?thesis
      by (auto simp: set_topic_def LIGHT_TOPIC_PREFIX_def TOPIC_SET_SUFFIX_def)
  qed
  moreover have "char_of (0x23 :: nat) = CHR ''#''" "char_of (0x2B :: nat) = CHR ''+''" by code_simp+
  ultimately have "0x23 \<notin> set (uni (set_topic ga app))" "0x2B \<notin> set (uni (set_topic ga app))"
    unfolding uni_def set_map by (metis (no_types, lifting) char_of_char image_iff insert_iff)+
  then show ?thesis by (simp add: matches_exact uni_inj)
qed

lemma set_topic_matches:
  assumes "is_byte ga" "is_byte app" "is_byte ga'" "is_byte app'"
  shows "topic_matches (uni (set_topic ga app)) (uni (set_topic ga' app')) \<longleftrightarrow> ga = ga' \<and> app = app'"
proof -
  have "ga = ga' \<and> app = app'" if eq: "set_topic ga app = set_topic ga' app'"
    using set_topic_address [OF assms(1,2)] unfolding eq set_topic_address [OF assms(3,4)] by simp
  then show ?thesis by (auto simp: set_topic_filter [OF assms(1,2)])
qed

section \<open>Subscribing\<close>

text \<open>The body of a SUBSCRIBE: a packet identifier, then each filter with its quality of service.\<close>

definition filter_entry :: "unicode \<times> byte \<Rightarrow> bytes" where
  "filter_entry e =
     (let tb = projr (utf8_encode (fst e)) in
      [of_nat (length tb div 256), of_nat (length tb mod 256)] @ tb @ [snd e])"

definition subscribe_body :: "(unicode \<times> byte) list \<Rightarrow> bytes" where
  "subscribe_body es = [0, 1] @ concat (map filter_entry es)"

definition filter_ok :: "unicode \<Rightarrow> bool" where
  "filter_ok f = (case utf8_encode f of Inl _ \<Rightarrow> False | Inr tb \<Rightarrow> length tb < 65536)"

definition subscribed :: "nat \<Rightarrow> unicode list \<Rightarrow> mini_broker \<Rightarrow> mini_broker" where
  "subscribed i fs br =
     (update_client i (\<lambda>c. c\<lparr>cl_subscriptions := cl_subscriptions c @ fs\<rparr>) br)
       \<lparr>br_subscriptions := br_subscriptions br @ fs\<rparr>"

lemma subscribed_simps:
  "i < length (br_clients br) \<Longrightarrow> subscribed i [] br = br"
  "i < length (br_clients br) \<Longrightarrow> subscribed i fs (subscribed i [f] br) = subscribed i (f # fs) br"
  "length (br_clients (subscribed i fs br)) = length (br_clients br)"
  by (simp_all add: subscribed_def update_client_def)

lemma subscribe_loop_entries:
  assumes "list_all (\<lambda>e. filter_ok (fst e)) es" "i < length (br_clients br)" "off = length pre"
  shows "subscribe_loop i (pre @ concat (map filter_entry es)) off br =
    (Inr (map (\<lambda>e. min (snd e) 1) es), subscribed i (map fst es) br)"
  using assms
proof (induction es arbitrary: pre off br)
  case Nil
  then show ?case by (simp add: subscribe_loop.simps act_simps subscribed_simps)
next
  case (Cons e es)
  from Cons.prems(1) obtain tb where tb: "utf8_encode (fst e) = Inr tb" "length tb < 65536"
    by (auto simp: filter_ok_def split: sum.splits)
  define body where "body = pre @ concat (map filter_entry (e # es))"
  have entry: "filter_entry e = [of_nat (length tb div 256), of_nat (length tb mod 256)] @ tb @ [snd e]"
    using tb by (simp add: filter_entry_def)
  then have parts: "off < length body" "from_big (take 2 (drop off body)) = length tb"
    "take (length tb) (drop (off + 2) body) = tb" "py_get body (off + 2 + length tb) = Inr (snd e)"
    using from_big_two [OF tb(2)] Cons.prems(3)
    by (simp_all add: body_def numeral_2_eq_2 py_get_def nth_append)
  have "subscribe_loop i ((pre @ filter_entry e) @ concat (map filter_entry es)) (off + 3 + length tb) (subscribed i [fst e] br) =
      (Inr (map (\<lambda>e. min (snd e) 1) es), subscribed i (map fst es) (subscribed i [fst e] br))"
    by (rule Cons.IH) (use Cons.prems entry in \<open>simp_all add: subscribed_simps\<close>)
  then have IH: "subscribe_loop i body (off + 3 + length tb) (subscribed i [fst e] br) =
      (Inr (map (\<lambda>e. min (snd e) 1) es), subscribed i (map fst (e # es)) br)"
    using Cons.prems(2) by (simp add: body_def subscribed_simps)
  have "subscribe_loop i body off br =
      (Inr (map (\<lambda>e. min (snd e) 1) (e # es)), subscribed i (map fst (e # es)) br)"
    using parts utf8_decode_encode [OF tb(1)] IH [unfolded subscribed_def [of i "[fst e]"]]
    by (subst subscribe_loop.simps) (simp add: act_simps alift_def Let_def update_client_def)
  then show ?case unfolding body_def .
qed

section \<open>Command topics on the wire\<close>

lemma digit_ascii: "digit_val c \<noteq> None \<Longrightarrow> of_char c < (128 :: nat)"
  by (auto simp: digit_val_def Let_def split: if_splits)

lemma set_topic_ascii:
  assumes "is_byte ga" "is_byte app"
  shows "list_all (\<lambda>c. of_char c < (128 :: nat)) (set_topic ga app)"
proof -
  have "all_digits (py_str ga)" "all_digits (fmt_03d ga)" "all_digits (fmt_03d app)"
    using assms by (auto simp: is_byte_def intro: all_digits_formats)
  then have "list_all (\<lambda>c. of_char c < (128 :: nat)) (ga_string ga app False)"
    using digit_ascii by (auto simp: ga_string_def all_digits_def list_all_iff)
  then show ?thesis by (simp add: set_topic_def LIGHT_TOPIC_PREFIX_def TOPIC_SET_SUFFIX_def)
qed

lemma set_topic_short:
  assumes "is_byte ga" "is_byte app"
  shows "length (set_topic ga app) < 100"
proof -
  have "length (show_nat (nat ga)) \<le> 3" "length (show_nat (nat app)) \<le> 3"
    using assms by (auto simp: is_byte_def intro!: show_nat_length)
  then show ?thesis using assms
    by (simp add: set_topic_def ga_string_def py_str_def fmt_03d_def zero_pad_def is_byte_def
        LIGHT_TOPIC_PREFIX_def TOPIC_SET_SUFFIX_def)
qed

lemma set_topic_wire:
  assumes "is_byte ga" "is_byte app"
  shows "utf8_encode (uni (set_topic ga app)) = Inr (ascii (set_topic ga app))" "filter_ok (uni (set_topic ga app))"
    "length (ascii (set_topic ga app)) < 100"
proof -
  show *: "utf8_encode (uni (set_topic ga app)) = Inr (ascii (set_topic ga app))"
    unfolding uni_def using set_topic_ascii [OF assms] by (rule utf8_encode_ascii)
  show "length (ascii (set_topic ga app)) < 100" using set_topic_short [OF assms] by (simp add: ascii_def)
  then show "filter_ok (uni (set_topic ga app))" by (simp add: filter_ok_def *)
qed

lemma publish_again:
  assumes "utf8_encode topic = Inr tb" "length tb < 65536"
  shows "publish_packet topic payload q r =
    Inr (publish_header q r # encode_remaining (length (publish_body tb payload q)) @ publish_body tb payload q)"
  using assms by (simp add: publish_packet_def two_bytes_def publish_header_def publish_body_def Let_def)

section \<open>Properties\<close>

text \<open>
  A published message goes through the broker unchanged. Take any topic, payload, quality of
  service up to two and retain flag, framed as \<open>publish_packet\<close> frames them in fewer than
  \<open>128 ^ 4\<close> bytes. When a client sends the packet, the broker records exactly that message,
  keeps it as the retained one of its topic when it is flagged so, and goes on with the bytes
  behind it. Every open connection gets one packet that frames the same topic and payload at
  quality zero if one of its filters matches, the sender gets its acknowledgement before that, and
  no closed connection gets anything.
\<close>

lemma publish_recorded:
  assumes "publish_packet topic payload qos retain = Inr pkt" "qos \<le> 2" "length pkt < 128 ^ 4"
    and "i < length (br_clients br)"
  shows "\<exists>d br'. serve i (pkt @ rest) br = serve i rest br' \<and>
    br_publishes br' = br_publishes br @ [\<lparr>pr_topic = topic, pr_payload = payload, pr_qos = qos, pr_retain = retain\<rparr>] \<and>
    br_retained br' = (if retain then (br_retained br)(topic \<mapsto> payload) else br_retained br) \<and>
    publish_packet topic payload 0 False = Inr d \<and>
    (\<forall>j < length (br_clients br). let c = br_clients br ! j in
       cl_out (br_clients br' ! j) = cl_out c @
         (if cl_closed c then []
          else (if j = i then acknowledgement qos else []) @ (if wants topic c then [d] else [])))"
proof -
  from assms(1) obtain tb where tb: "utf8_encode topic = Inr tb" "length tb < 65536"
    and pkt: "pkt = publish_header qos retain # encode_remaining (length (publish_body tb payload qos)) @ publish_body tb payload qos"
    by (rule publish_packetE)
  from publish_again [OF tb, of payload 0 False] obtain d where d: "publish_packet topic payload 0 False = Inr d" by blast
  define p where "p = \<lparr>pr_topic = topic, pr_payload = payload, pr_qos = qos, pr_retain = retain\<rparr>"
  have "length (publish_body tb payload qos) < 128 ^ 4" using assms(3) unfolding pkt by simp
  from read_written [OF this] have "read_packet (pkt @ rest) = Got (publish_header qos retain, publish_body tb payload qos) rest"
    unfolding pkt by simp
  with handle_publish [OF tb assms(2,4) d, of retain] have "serve i (pkt @ rest) br = serve i rest (published i p d br)"
    by (subst serve.simps) (simp add: p_def)
  moreover have "br_publishes (published i p d br) = br_publishes br @ [p]"
    "br_retained (published i p d br) = (if retain then (br_retained br)(topic \<mapsto> payload) else br_retained br)"
    by (simp_all add: published_def update_client_def p_def Let_def)
  moreover have "cl_out (br_clients (published i p d br) ! j) = cl_out (br_clients br ! j) @
      (if cl_closed (br_clients br ! j) then []
       else (if j = i then acknowledgement qos else []) @ (if wants topic (br_clients br ! j) then [d] else []))"
    if "j < length (br_clients br)" for j
    using published_client(1) [OF assms(4) that, of p d] by (simp add: p_def)
  ultimately show ?thesis using d unfolding p_def Let_def by blast
qed

text \<open>
  C35: A bridge connected through the broker gets exactly the commands of the lights it announced.
  Let a client without filters subscribe, in one packet, to the command topics of some groups. The
  broker grants each with quality of service at most one. Whatever message is then injected on the
  command topic of any group of any application, the client gets it once, in a packet that frames
  that topic and payload, when the group is among those it subscribed to, and not otherwise.
\<close>

theorem command_delivery:
  assumes "i < length (br_clients br)" "\<not> cl_closed (br_clients br ! i)" "cl_subscriptions (br_clients br ! i) = []"
    and "list_all (\<lambda>((g, a), q). is_byte g \<and> is_byte a) gs"
    and "body = subscribe_body (map (\<lambda>((g, a), q). (uni (set_topic g a), q)) gs)" "length body < 128 ^ 4"
  shows "\<exists>br'. serve i (0x82 # encode_remaining (length body) @ body @ rest) br = serve i rest br' \<and>
    cl_out (br_clients br' ! i) = cl_out (br_clients br ! i) @
      [0x90 # encode_remaining (2 + length gs) @ [0, 1] @ map (\<lambda>e. min (snd e) 1) gs] \<and>
    (\<forall>g a payload. is_byte g \<and> is_byte a \<longrightarrow>
       (\<exists>br'' d. inject (uni (set_topic g a)) payload br' = (Inr (), br'') \<and>
          publish_packet (uni (set_topic g a)) payload 0 False = Inr d \<and>
          cl_out (br_clients br'' ! i) = cl_out (br_clients br' ! i) @ (if (g, a) \<in> fst ` set gs then [d] else [])))"
proof -
  define es where "es = map (\<lambda>((g, a), q). (uni (set_topic g a), q)) gs"
  define granted where "granted = map (\<lambda>e. min (snd e) 1) gs"
  let ?ack = "0x90 # encode_remaining (2 + length gs) @ [0, 1] @ granted"
  define br' where "br' = update_client i (client_write ?ack) (subscribed i (map fst es) br)"
  have "list_all (\<lambda>e. filter_ok (fst e)) es"
    using assms(4) set_topic_wire(2) by (auto simp: es_def list_all_iff split: prod.splits)
  moreover have "map (\<lambda>e. min (snd e) 1) es = granted" "length granted = length gs"
    by (auto simp: es_def granted_def split: prod.splits)
  ultimately have "subscribe_loop i body 2 br = (Inr granted, subscribed i (map fst es) br)" "length granted = length gs"
    using subscribe_loop_entries [of es i br 2 "[0, 1]"] assms(1,5) by (simp_all add: subscribe_body_def es_def)
  moreover have "take 2 body = [0, 1]" "pid_bytes [0, 1] = [0, 1]"
    using assms(5) by (simp_all add: subscribe_body_def pid_bytes_def from_big_def numeral_2_eq_2)
  moreover have "unat (drop_bit 4 (0x82 :: byte)) = 8" by simp
  ultimately have h: "handle_mqtt i 0x82 body br = (Inr True, br')"
    by (simp add: handle_mqtt_def on_subscribe_def act_simps reply_def br'_def)
  have s: "serve i (0x82 # encode_remaining (length body) @ body @ rest) br = serve i rest br'"
    by (subst serve.simps) (simp only: read_written [OF assms(6)] h reading.case prod.case sum.case bool.case)
  have c: "cl_out (br_clients br' ! i) = cl_out (br_clients br ! i) @ [?ack]"
    "cl_subscriptions (br_clients br' ! i) = map fst es" "\<not> cl_closed (br_clients br' ! i)" "i < length (br_clients br')"
    using assms(1-3) by (simp_all add: br'_def subscribed_def update_client_def client_write_def)
  have "\<exists>br'' d. inject (uni (set_topic g a)) payload br' = (Inr (), br'') \<and>
      publish_packet (uni (set_topic g a)) payload 0 False = Inr d \<and>
      cl_out (br_clients br'' ! i) = cl_out (br_clients br' ! i) @ (if (g, a) \<in> fst ` set gs then [d] else [])"
    if ga: "is_byte g" "is_byte a" for g a payload
  proof -
    have "length (ascii (set_topic g a)) < 65536" using set_topic_wire(3) [OF ga] by simp
    from publish_again [OF set_topic_wire(1) [OF ga] this, of payload 0 False] obtain d where
      d: "publish_packet (uni (set_topic g a)) payload 0 False = Inr d" by blast
    have "wants (uni (set_topic g a)) (br_clients br' ! i) \<longleftrightarrow> (g, a) \<in> fst ` set gs"
      using assms(4) set_topic_matches [OF _ _ ga]
      by (force simp: wants_def c(2) es_def list_ex_iff list_all_iff split: prod.splits)
    with d c(3,4) show ?thesis
      by (simp add: inject_def fanout_def act_simps alift_def client_write_out)
  qed
  with s c(1) show ?thesis unfolding granted_def by blast
qed

theorem command_delivery_witness:
  "\<exists>br' br'' br3 d. serve 0 (0x82 # encode_remaining (length (subscribe_body [(uni (set_topic 10 0x38), 1)])) @
        subscribe_body [(uni (set_topic 10 0x38), 1)] @ []) (accept_client new_MiniBroker) = serve 0 [] br' \<and>
    inject (uni (set_topic 10 0x38)) [0x7B, 0x7D] br' = (Inr (), br'') \<and>
    cl_out (br_clients br'' ! 0) = cl_out (br_clients br' ! 0) @ [d] \<and>
    inject (uni (set_topic 11 0x30)) [0x7B, 0x7D] br' = (Inr (), br3) \<and>
    cl_out (br_clients br3 ! 0) = cl_out (br_clients br' ! 0)"
proof -
  let ?body = "subscribe_body [(uni (set_topic 10 0x38), 1)]"
  have ok: "is_byte 10" "is_byte 0x38" "is_byte 11" "is_byte 0x30" by (simp_all add: is_byte_def)
  have len: "length ?body < 128 ^ 4"
    using set_topic_wire [OF ok(1,2)] by (simp add: subscribe_body_def filter_entry_def Let_def)
  have client: "0 < length (br_clients (accept_client new_MiniBroker))"
    "\<not> cl_closed (br_clients (accept_client new_MiniBroker) ! 0)"
    "cl_subscriptions (br_clients (accept_client new_MiniBroker) ! 0) = []"
    by (simp_all add: accept_client_def new_MiniBroker_def new_client_def)
  have "list_all (\<lambda>((g, a), q). is_byte g \<and> is_byte a) [((10, 0x38), 1 :: byte)]"
    "?body = subscribe_body (map (\<lambda>((g, a), q). (uni (set_topic g a), q)) [((10, 0x38), 1)])"
    by (simp_all add: ok)
  from command_delivery [OF client this len, of "[]"] obtain br' where
    s: "serve 0 (0x82 # encode_remaining (length ?body) @ ?body @ []) (accept_client new_MiniBroker) = serve 0 [] br'"
    and deliver: "\<forall>g a payload. is_byte g \<and> is_byte a \<longrightarrow>
       (\<exists>br'' d. inject (uni (set_topic g a)) payload br' = (Inr (), br'') \<and>
          publish_packet (uni (set_topic g a)) payload 0 False = Inr d \<and>
          cl_out (br_clients br'' ! 0) = cl_out (br_clients br' ! 0) @
            (if (g, a) \<in> fst ` set [((10, 0x38), 1 :: byte)] then [d] else []))"
    by blast
  have d: "\<exists>br'' d. inject (uni (set_topic g a)) payload br' = (Inr (), br'') \<and>
      cl_out (br_clients br'' ! 0) = cl_out (br_clients br' ! 0) @ (if (g, a) = (10, 0x38) then [d] else [])"
    if "is_byte g" "is_byte a" for g a payload
    using deliver [rule_format, OF conjI [OF that], of payload] by auto
  from d [OF ok(1,2), of "[0x7B, 0x7D]"] obtain br'' pkt where
    "inject (uni (set_topic 10 0x38)) [0x7B, 0x7D] br' = (Inr (), br'')"
    "cl_out (br_clients br'' ! 0) = cl_out (br_clients br' ! 0) @ [pkt]" by auto
  moreover from d [OF ok(3,4), of "[0x7B, 0x7D]"] obtain br3 where
    "inject (uni (set_topic 11 0x30)) [0x7B, 0x7D] br' = (Inr (), br3)"
    "cl_out (br_clients br3 ! 0) = cl_out (br_clients br' ! 0)" by auto
  ultimately show ?thesis using s by blast
qed

text \<open>
  Unsubscribing is acknowledged and does nothing else: the client still gets every message its
  filters matched before.
\<close>

lemma unsubscribe_keeps_filters:
  assumes "unat (drop_bit 4 ptype) = 10" "i < length (br_clients br)"
  shows "\<exists>br'. handle_mqtt i ptype body br = (Inr True, br') \<and>
    cl_subscriptions (br_clients br' ! i) = cl_subscriptions (br_clients br ! i) \<and>
    br_subscriptions br' = br_subscriptions br \<and> wants topic (br_clients br' ! i) = wants topic (br_clients br ! i)"
  using assms
  by (simp add: handle_mqtt_def act_simps reply_def update_client_def client_write_out)

end
