(* ===== verification/Ha_Discovery.thy ===== *)
theory Ha_Discovery
  imports Broker Json
begin

text \<open>
  The discovery override of the ESP32 bridge, \<open>cbus/esp32/ha_discovery.py\<close>: the labelled groups
  of a configuration file, the Home Assistant discovery messages for them, and the topics on which
  the firmware's generic discovery of the other groups is cleared. The parsed file is an argument
  of \<open>load_group_labels\<close>; a payload is the value that \<open>json.dumps\<close> prints. The model's
  addresses are integers and its labels strings, so a file with others raises \<open>TypeError\<close> when it
  is read.

  The lemmas show that every topic of the default application is announced or cleared and none
  both, and which command topics are the ones the MQTT gateway listens to.
\<close>

section \<open>Groups\<close>

abbreviation (input) DEFAULT_LIGHTING_APP :: int where "DEFAULT_LIGHTING_APP \<equiv> LIGHTING"

record labelled_group =
  gc_group_addr :: int
  gc_app_addr :: int
  gc_label :: string

definition id_suffix :: "labelled_group \<Rightarrow> string" where
  "id_suffix g =
     (if gc_app_addr g = DEFAULT_LIGHTING_APP then py_str (gc_group_addr g)
      else py_str (gc_app_addr g) @ ''_'' @ fmt_03d (gc_group_addr g))"

definition topic_id :: "labelled_group \<Rightarrow> string" where
  "topic_id g = ''cbus_'' @ id_suffix g"

definition light_unique_id :: "labelled_group \<Rightarrow> string" where
  "light_unique_id g = ''cbus_light_'' @ id_suffix g"

definition sensor_unique_id :: "labelled_group \<Rightarrow> string" where
  "sensor_unique_id g = ''cbus_bin_sensor_'' @ id_suffix g"

section \<open>Reading the labels\<close>

fun json_members :: "json \<Rightarrow> (string \<times> json) list result" where
  "json_members (JObject ms) = Inr ms"
| "json_members _ = Inl AttributeError"

fun label_of :: "json \<Rightarrow> string result" where
  "label_of (JString s) = Inr s"
| "label_of _ = Inl TypeError"

fun address_of :: "json \<Rightarrow> int result" where
  "address_of (JInt i) = Inr i"
| "address_of _ = Inl TypeError"

definition load_section :: "json \<Rightarrow> labelled_group list result" where
  "load_section section =
     rbind (rbind (jget section ''application_address'') address_of) (\<lambda>app_addr.
     rbind (rbind (jget section ''groups'') json_members) (\<lambda>ms.
     rmapM (\<lambda>(ga_str, label).
         rbind (py_int ga_str) (\<lambda>ga.
         rmap (\<lambda>l. \<lparr>gc_group_addr = ga, gc_app_addr = app_addr, gc_label = l\<rparr>) (label_of label))) ms))"

definition load_group_labels :: "json \<Rightarrow> labelled_group list result" where
  "load_group_labels data = rbind (json_members data) (\<lambda>ms. rconcat (\<lambda>m. load_section (snd m)) ms)"

section \<open>Discovery messages\<close>

definition removeprefix :: "'a list \<Rightarrow> 'a list \<Rightarrow> 'a list" where
  "removeprefix pre s = (if starts_with pre s then drop (length pre) s else s)"

definition device_name :: "labelled_group \<Rightarrow> string" where
  "device_name g =
     (if gc_app_addr g = DEFAULT_LIGHTING_APP then ''C-Bus Light '' @ fmt_03d (gc_group_addr g)
      else ''C-Bus Light '' @ py_str (gc_app_addr g) @ ''_'' @ fmt_03d (gc_group_addr g))"

definition discovery_set_topic :: "labelled_group \<Rightarrow> string" where
  "discovery_set_topic g = LIGHT_TOPIC_PREFIX @ removeprefix ''cbus_'' (topic_id g) @ ''/set''"

definition build_light_discovery :: "labelled_group \<Rightarrow> string \<times> json" where
  "build_light_discovery g =
     (let tid = removeprefix ''cbus_'' (topic_id g) in
      (LIGHT_TOPIC_PREFIX @ tid @ ''/config'',
       JObject
         [(''name'', JString (gc_label g)), (''unique_id'', JString (light_unique_id g)),
          (''cmd_t'', JString (LIGHT_TOPIC_PREFIX @ tid @ ''/set'')),
          (''stat_t'', JString (LIGHT_TOPIC_PREFIX @ tid @ ''/state'')),
          (''schema'', JString ''json''), (''brightness'', JBool True),
          (''device'', JObject
            [(''identifiers'', JList [JString (light_unique_id g)]),
             (''connections'', JList
               [JList [JString ''cbus_group_address'', JString (py_str (gc_group_addr g))],
                JList [JString ''cbus_application_address'', JString (py_str (gc_app_addr g))]]),
             (''sw_version'', JString ''cbus-esp32 https://github.com/mitchell-johnson/cbus''),
             (''name'', JString (device_name g)), (''manufacturer'', JString ''Clipsal''),
             (''model'', JString ''C-Bus Lighting Application''), (''via_device'', JString ''cmqttd'')])]))"

definition build_binary_sensor_discovery :: "labelled_group \<Rightarrow> string \<times> json" where
  "build_binary_sensor_discovery g =
     (let tid = removeprefix ''cbus_'' (topic_id g) in
      (BINSENSOR_TOPIC_PREFIX @ tid @ ''/config'',
       JObject
         [(''name'', JString (gc_label g @ '' (as binary sensor)'')), (''unique_id'', JString (sensor_unique_id g)),
          (''stat_t'', JString (BINSENSOR_TOPIC_PREFIX @ tid @ ''/state'')),
          (''device'', JObject
            [(''identifiers'', JList [JString (sensor_unique_id g)]), (''sw_version'', JString ''cbus-esp32''),
             (''name'', JString (device_name g)), (''manufacturer'', JString ''Clipsal''),
             (''model'', JString ''C-Bus Lighting Application''), (''via_device'', JString ''cmqttd'')])]))"

definition generate_all_discovery :: "labelled_group list \<Rightarrow> (string \<times> json) list" where
  "generate_all_discovery groups =
     concat (map (\<lambda>g. [build_light_discovery g, build_binary_sensor_discovery g]) groups)"

definition generate_removal_topics :: "labelled_group list \<Rightarrow> int \<Rightarrow> string list" where
  "generate_removal_topics groups max_group =
     (let configured_gas = set (map gc_group_addr (filter (\<lambda>g. gc_app_addr g = DEFAULT_LIGHTING_APP) groups)) in
      concat (map (\<lambda>ga.
          if ga \<notin> configured_gas
          then [LIGHT_TOPIC_PREFIX @ py_str ga @ ''/config'', BINSENSOR_TOPIC_PREFIX @ py_str ga @ ''/config'']
          else []) [0..max_group - 1]))"

section \<open>Topic identifiers\<close>

lemma removeprefix_topic_id [simp]: "removeprefix ''cbus_'' (topic_id g) = id_suffix g"
  by (simp add: removeprefix_def topic_id_def starts_with_def)

lemma show_nat_inj: "show_nat m = show_nat n \<longleftrightarrow> m = n"
  using show_nat_digits by metis

lemma py_str_inj:
  assumes "0 \<le> y"
  shows "py_str x = py_str y \<longleftrightarrow> x = y"
proof (cases "x < 0")
  case True
  have "digit_val (CHR ''-'') = None" by (simp add: digit_val_def)
  with show_nat_digits [of "nat y"] have "py_str x \<noteq> py_str y"
    using True assms by (cases "show_nat (nat y)") (auto simp: py_str_def all_digits_def)
  with True assms show ?thesis by auto
qed (use assms in \<open>auto simp: py_str_def show_nat_inj\<close>)

lemma py_str_plain: "0 \<le> x \<Longrightarrow> CHR ''_'' \<notin> set (py_str x)"
  using digits_no_separator [OF all_digits_formats(1)] by blast

lemma id_suffix_default:
  assumes "0 \<le> ga"
  shows "id_suffix g = py_str ga \<longleftrightarrow> gc_app_addr g = DEFAULT_LIGHTING_APP \<and> gc_group_addr g = ga"
proof (cases "gc_app_addr g = DEFAULT_LIGHTING_APP")
  case False
  then have "CHR ''_'' \<in> set (id_suffix g)" by (simp add: id_suffix_def)
  with False py_str_plain [OF assms] show ?thesis by metis
qed (simp add: id_suffix_def py_str_inj [OF assms])

text \<open>The two kinds of configuration topics, by what stands between prefix and suffix.\<close>

definition light_conf :: "string \<Rightarrow> string" where
  "light_conf s = LIGHT_TOPIC_PREFIX @ s @ ''/config''"

definition sensor_conf :: "string \<Rightarrow> string" where
  "sensor_conf s = BINSENSOR_TOPIC_PREFIX @ s @ ''/config''"

lemma conf_topics_simps [simp]:
  "light_conf s = light_conf t \<longleftrightarrow> s = t" "sensor_conf s = sensor_conf t \<longleftrightarrow> s = t"
  "light_conf s \<noteq> sensor_conf t" "sensor_conf s \<noteq> light_conf t"
  by (simp_all add: light_conf_def sensor_conf_def LIGHT_TOPIC_PREFIX_def BINSENSOR_TOPIC_PREFIX_def)

lemma announced_topics:
  "fst ` set (generate_all_discovery groups) = (\<Union>g \<in> set groups. {light_conf (id_suffix g), sensor_conf (id_suffix g)})"
  by (auto simp: generate_all_discovery_def build_light_discovery_def build_binary_sensor_discovery_def
      light_conf_def sensor_conf_def Let_def image_iff)

definition default_group :: "labelled_group list \<Rightarrow> int \<Rightarrow> bool" where
  "default_group groups ga \<longleftrightarrow> (\<exists>g \<in> set groups. gc_app_addr g = DEFAULT_LIGHTING_APP \<and> gc_group_addr g = ga)"

lemma cleared_topics:
  "set (generate_removal_topics groups n) =
     (\<Union>ga \<in> {ga. 0 \<le> ga \<and> ga < n \<and> \<not> default_group groups ga}. {light_conf (py_str ga), sensor_conf (py_str ga)})"
proof -
  have "ga \<in> set (map gc_group_addr (filter (\<lambda>g. gc_app_addr g = DEFAULT_LIGHTING_APP) groups)) \<longleftrightarrow> default_group groups ga"
    for ga by (auto simp: default_group_def)
  then show ?thesis
    unfolding generate_removal_topics_def Let_def light_conf_def [symmetric] sensor_conf_def [symmetric]
    by (auto split: if_splits)
qed

lemma announced_default:
  assumes "0 \<le> ga"
  shows "light_conf (py_str ga) \<in> fst ` set (generate_all_discovery groups) \<longleftrightarrow> default_group groups ga"
    "sensor_conf (py_str ga) \<in> fst ` set (generate_all_discovery groups) \<longleftrightarrow> default_group groups ga"
  using id_suffix_default [OF assms] unfolding announced_topics default_group_def by (auto dest: sym)

section \<open>Topics of the gateway\<close>

lemma length_fmt_03d: "0 \<le> x \<Longrightarrow> 3 \<le> length (fmt_03d x)"
  by (simp add: fmt_03d_def zero_pad_def)

lemma py_str_short: "0 \<le> x \<Longrightarrow> x < 100 \<Longrightarrow> length (py_str x) \<le> 2"
  by (simp add: py_str_def show_nat.simps [of "nat x"] show_nat.simps [of "nat x div 10"])

lemma three_digits: "100 \<le> x \<Longrightarrow> x < 1000 \<Longrightarrow> fmt_03d x = py_str x"
proof -
  assume x: "100 \<le> x" "x < 1000"
  then have "\<not> nat x < 10" "\<not> nat x div 10 < 10" by linarith+
  then have "3 \<le> length (show_nat (nat x))"
    by (simp add: show_nat.simps [of "nat x"] show_nat.simps [of "nat x div 10"] show_nat.simps [of "nat x div 10 div 10"])
  with x show "fmt_03d x = py_str x" by (simp add: fmt_03d_def py_str_def zero_pad_def)
qed

text \<open>
  An application with a two-digit address is written with three digits by the gateway and with
  two here, so no command topic of the gateway is the discovered one.
\<close>

lemma two_digits_differ:
  assumes "0 \<le> gc_app_addr g" "gc_app_addr g < 100" "gc_app_addr g \<noteq> DEFAULT_LIGHTING_APP"
    and "0 \<le> ga" "0 \<le> app"
  shows "id_suffix g \<noteq> ga_string ga app False"
proof (cases "app = LIGHTING")
  case True
  have "CHR ''_'' \<in> set (id_suffix g)" using assms(3) by (simp add: id_suffix_def)
  with True py_str_plain [OF assms(4)] show ?thesis by (auto simp: ga_string_def)
next
  case False
  have "CHR ''_'' \<notin> set (py_str (gc_app_addr g))" "CHR ''_'' \<notin> set (fmt_03d app)"
    using py_str_plain [OF assms(1)] digits_no_separator [OF all_digits_formats(2) [OF assms(5)]] by auto
  then have "takeWhile (\<lambda>c. c \<noteq> CHR ''_'') (id_suffix g) = py_str (gc_app_addr g)"
    "takeWhile (\<lambda>c. c \<noteq> CHR ''_'') (ga_string ga app False) = fmt_03d app"
    using assms(3) False by (simp_all add: id_suffix_def ga_string_def takeWhile_before)
  moreover have "py_str (gc_app_addr g) \<noteq> fmt_03d app"
    using py_str_short [OF assms(1,2)] length_fmt_03d [OF assms(5)] by auto
  ultimately show ?thesis by auto
qed

lemma discovered_address:
  assumes "is_byte (gc_group_addr g)" "0 \<le> gc_app_addr g" "gc_app_addr g < 1000"
  shows "get_topic_group_address (discovery_set_topic g) = Inr (gc_group_addr g, gc_app_addr g)"
proof -
  have d: "all_digits (py_str (gc_group_addr g))" "all_digits (py_str (gc_app_addr g))" "all_digits (fmt_03d (gc_group_addr g))"
    using assms by (auto simp: is_byte_def intro: all_digits_formats)
  note n = d [THEN digits_no_separator]
  have "CHR ''/'' \<notin> set (id_suffix g)" using n by (simp add: id_suffix_def)
  then have "takeWhile (\<lambda>c. c \<noteq> CHR ''/'') (id_suffix g @ ''/set'') = id_suffix g" by (simp add: takeWhile_before)
  then show ?thesis using assms n
    by (simp add: discovery_set_topic_def get_topic_group_address_def id_suffix_def is_byte_def
        split_on_none split_on_append py_int_formats)
qed

section \<open>Properties\<close>

text \<open>
  The discovery topics partition the default lighting application. No topic is both announced
  and cleared, and of the light and sensor configuration topics of every group address below
  \<open>max_group\<close> either both are announced, when the group is labelled, or both are cleared. Groups
  of other applications are never cleared.
\<close>

lemma discovery_partition:
  assumes "0 \<le> ga" "ga < max_group"
  shows "fst ` set (generate_all_discovery groups) \<inter> set (generate_removal_topics groups max_group) = {} \<and>
    {light_conf (py_str ga), sensor_conf (py_str ga)} \<subseteq>
      (if default_group groups ga then fst ` set (generate_all_discovery groups)
       else set (generate_removal_topics groups max_group))"
proof
  have "light_conf (py_str ga) \<notin> fst ` set (generate_all_discovery groups)"
    "sensor_conf (py_str ga) \<notin> fst ` set (generate_all_discovery groups)"
    if "0 \<le> ga" "\<not> default_group groups ga" for ga
    using announced_default [OF that(1), of groups] that(2) by blast+
  then show "fst ` set (generate_all_discovery groups) \<inter> set (generate_removal_topics groups max_group) = {}"
    unfolding cleared_topics disjoint_iff by (metis (no_types, lifting) UN_E insertE mem_Collect_eq singletonD)
  show "{light_conf (py_str ga), sensor_conf (py_str ga)} \<subseteq>
      (if default_group groups ga then fst ` set (generate_all_discovery groups)
       else set (generate_removal_topics groups max_group))"
  proof (cases "default_group groups ga")
    case True
    with announced_default [OF assms(1), of groups] show ?thesis by simp
  next
    case False
    with assms show ?thesis unfolding cleared_topics by auto
  qed
qed

text \<open>
  C27: The command topic a discovered light is given reaches the gateway only for the default
  application and for applications with three-digit addresses. The gateway reads the topic as the
  group that was announced, but of the command topics it subscribes to, the broker matches it with
  the group's own one exactly if the application is the default one or its address is at least
  100; otherwise it matches none, and commands for the light are lost.
\<close>

theorem discovered_commands_reach_gateway:
  assumes "is_byte (gc_group_addr g)" "is_byte (gc_app_addr g)" "is_byte ga" "is_byte app"
  shows "get_topic_group_address (discovery_set_topic g) = Inr (gc_group_addr g, gc_app_addr g) \<and>
    (topic_matches (uni (set_topic ga app)) (uni (discovery_set_topic g)) \<longleftrightarrow>
      ga = gc_group_addr g \<and> app = gc_app_addr g \<and> (app = DEFAULT_LIGHTING_APP \<or> 100 \<le> app))"
proof (intro conjI iffI)
  show read: "get_topic_group_address (discovery_set_topic g) = Inr (gc_group_addr g, gc_app_addr g)"
    using assms by (intro discovered_address) (simp_all add: is_byte_def)
  {
    assume m: "topic_matches (uni (set_topic ga app)) (uni (discovery_set_topic g))"
    then have eq: "set_topic ga app = discovery_set_topic g" by (simp add: set_topic_filter [OF assms(3,4)])
    with read set_topic_address [OF assms(3,4)] show "ga = gc_group_addr g" "app = gc_app_addr g" by simp_all
    then show "app = DEFAULT_LIGHTING_APP \<or> 100 \<le> app"
      using two_digits_differ [of g ga app] assms eq
      unfolding set_topic_def discovery_set_topic_def TOPIC_SET_SUFFIX_def is_byte_def
      by (cases "app = DEFAULT_LIGHTING_APP"; cases "app < 100") auto
  next
    assume "ga = gc_group_addr g \<and> app = gc_app_addr g \<and> (app = DEFAULT_LIGHTING_APP \<or> 100 \<le> app)"
    then have "set_topic ga app = discovery_set_topic g" using three_digits [of app] assms(4)
      by (auto simp: set_topic_def discovery_set_topic_def TOPIC_SET_SUFFIX_def id_suffix_def ga_string_def is_byte_def)
    then show "topic_matches (uni (set_topic ga app)) (uni (discovery_set_topic g))"
      unfolding set_topic_filter [OF assms(3,4)] .
  }
qed

theorem discovered_commands_reach_gateway_witness:
  "let g = \<lparr>gc_group_addr = 2, gc_app_addr = 0x30, gc_label = ''Fan''\<rparr> in
   get_topic_group_address (discovery_set_topic g) = Inr (2, 0x30) \<and>
   \<not> topic_matches (uni (set_topic 2 0x30)) (uni (discovery_set_topic g))"
  using discovered_commands_reach_gateway [of "\<lparr>gc_group_addr = 2, gc_app_addr = 0x30, gc_label = ''Fan''\<rparr>" 2 "0x30"]
  by (simp add: is_byte_def)

end
