(* ===== verification/Esp32.thy ===== *)
theory Esp32
  imports Transport Pci_Protocol Py_Text Json
begin

text \<open>
  The connection manager of ESP32 bridges, \<open>cbus/esp32/connection.py\<close>, over the transports
  \<open>cbus/transport/tcp.py\<close> and \<open>cbus/transport/serial.py\<close>, whose base class is in
  \<open>Transport\<close>. The keyword arguments of \<open>ESP32Config.wifi\<close> and \<open>serial\<close> are record
  updates of their result. The operations run a coroutine from start to end, so \<open>connect\<close>
  finds the lock of the transport free; how its \<open>await\<close> ends is the argument \<open>out\<close>. The
  protocol of the transport is the one of the connection, which is kept once.

  The lemmas give the result and the state of a connection after each outcome, and show that the
  address of a device is read back from its printed form.
\<close>

section \<open>Addresses\<close>

definition DEFAULT_CBUS_TCP_PORT :: int where "DEFAULT_CBUS_TCP_PORT = 10001"

text \<open>\<open>s.rsplit(c, 1)\<close> and \<open>s.split(c, 1)\<close>, where they have two parts.\<close>

definition split_first :: "'a \<Rightarrow> 'a list \<Rightarrow> ('a list \<times> 'a list) option" where
  "split_first c s =
     (if c \<in> set s then let a = takeWhile (\<lambda>x. x \<noteq> c) s in Some (a, drop (length a + 1) s) else None)"

definition split_last :: "'a \<Rightarrow> 'a list \<Rightarrow> ('a list \<times> 'a list) option" where
  "split_last c s = map_option (\<lambda>(a, b). (rev b, rev a)) (split_first c (rev s))"

definition from_address :: "string \<Rightarrow> (string \<times> int) result" where
  "from_address address =
     (case split_last (CHR '':'') address of
        Some (host, port_str) \<Rightarrow> rmap (\<lambda>port. (host, port)) (py_int port_str)
      | None \<Rightarrow> Inr (address, DEFAULT_CBUS_TCP_PORT))"

section \<open>Configuration\<close>

datatype connection_mode = WIFI | SERIAL

record esp32_config =
  ec_mode :: connection_mode
  ec_host :: string
  ec_port :: int
  ec_device :: string
  ec_baudrate :: int
  ec_reconnect :: bool
  ec_reconnect_interval :: rat
  ec_max_reconnect_attempts :: int
  ec_connect_timeout :: rat
  ec_heartbeat_interval :: rat
  ec_timesync_frequency :: int
  ec_handle_clock_requests :: bool

definition new_ESP32Config :: esp32_config where
  "new_ESP32Config =
     \<lparr>ec_mode = WIFI, ec_host = ''127.0.0.1'', ec_port = 10001, ec_device = [], ec_baudrate = 9600, ec_reconnect = True,
      ec_reconnect_interval = 5, ec_max_reconnect_attempts = 0, ec_connect_timeout = 10, ec_heartbeat_interval = 30,
      ec_timesync_frequency = 300, ec_handle_clock_requests = True\<rparr>"

definition ESP32Config_wifi :: "string \<Rightarrow> int \<Rightarrow> esp32_config" where
  "ESP32Config_wifi host port = new_ESP32Config\<lparr>ec_mode := WIFI, ec_host := host, ec_port := port\<rparr>"

definition ESP32Config_serial :: "string \<Rightarrow> int \<Rightarrow> esp32_config" where
  "ESP32Config_serial device baudrate = new_ESP32Config\<lparr>ec_mode := SERIAL, ec_device := device, ec_baudrate := baudrate\<rparr>"

text \<open>What \<open>TCPTransportConfig\<close> and \<open>SerialTransportConfig\<close> add to the base class.\<close>

datatype endpoint = TCPTransport string int | SerialTransport string int

section \<open>Connections\<close>

record esp32_connection =
  x_config :: esp32_config
  x_ip_address :: string
  x_endpoint :: endpoint
  x_transport :: transport
  x_protocol :: "pci_state option"

definition new_ESP32Connection :: "esp32_config \<Rightarrow> esp32_connection" where
  "new_ESP32Connection config =
     \<lparr>x_config = config, x_ip_address = [],
      x_endpoint = (if ec_mode config = WIFI then TCPTransport (ec_host config) (ec_port config)
                    else SerialTransport (ec_device config) (ec_baudrate config)),
      x_transport = new_CBusTransport
        \<lparr>c_reconnect = ec_reconnect config, c_max_reconnect_attempts = ec_max_reconnect_attempts config\<rparr>,
      x_protocol = None\<rparr>"

fun transport_type :: "endpoint \<Rightarrow> string" where
  "transport_type (TCPTransport host port) = ''tcp''"
| "transport_type (SerialTransport device baudrate) = ''serial''"

fun transport_info :: "endpoint \<Rightarrow> (string \<times> json) list" where
  "transport_info (TCPTransport host port) =
     [(''type'', JString ''tcp''), (''host'', JString host), (''port'', JInt port)]"
| "transport_info (SerialTransport device baudrate) =
     [(''type'', JString ''serial''), (''device'', JString device), (''baudrate'', JInt baudrate)]"

fun mode_value :: "connection_mode \<Rightarrow> string" where
  "mode_value WIFI = ''wifi''"
| "mode_value SERIAL = ''serial''"

definition connection_info :: "esp32_connection \<Rightarrow> json" where
  "connection_info x =
     JObject (transport_info (x_endpoint x) @ [(''esp32_mode'', JString (mode_value (ec_mode (x_config x))))])"

definition create_protocol :: "esp32_connection \<Rightarrow> pci_state" where
  "create_protocol x = new_PCIProtocol (ec_timesync_frequency (x_config x)) (Some False)"

text \<open>\<open>_do_connect\<close> that succeeds: the factory is called, and the protocol gets its transport.\<close>

definition do_connect :: "esp32_connection \<Rightarrow> esp32_connection" where
  "do_connect x = x\<lparr>x_protocol := Some (connection_made (create_protocol x))\<rparr>"

definition esp32_connect :: "outcome \<Rightarrow> (esp32_connection, unit) act" where
  "esp32_connect out x =
     (let i = length (t_agents (x_transport x));
          st = connect_locked i (connect_call (x_transport x));
          connected = (\<lambda>x. if ec_mode (x_config x) = WIFI then x\<lparr>x_ip_address := ec_host (x_config x)\<rparr> else x) in
      if at_phase Finished i st then (Inr (), connected (x\<lparr>x_transport := st\<rparr>))
      else let x' = x\<lparr>x_transport := agent_result i out st\<rparr> in
           case connect_end out st of
             (Inl e, _) \<Rightarrow> (Inl e, x')
           | (Inr _, _) \<Rightarrow> (Inr (), connected (do_connect x')))"

definition esp32_disconnect :: "esp32_connection \<Rightarrow> esp32_connection" where
  "esp32_disconnect x =
     x\<lparr>x_transport := (if t_state (x_transport x) = DISCONNECTED then x_transport x
                       else disconnect_end (disconnect_begin (x_transport x))),
       x_protocol := None\<rparr>"

section \<open>Outcomes\<close>

lemma fresh_connect:
  assumes "x = new_ESP32Connection config"
  shows "fst (esp32_connect out x) = fst (connect_end out (x_transport x))"
    "t_state (x_transport (snd (esp32_connect out x))) =
       (case out of Success \<Rightarrow> CONNECTED | Cancelled \<Rightarrow> DISCONNECTED | _ \<Rightarrow> transport_state.ERROR)"
    "x_protocol (snd (esp32_connect out x)) =
       (if out = Success then Some (connection_made (create_protocol x)) else None)"
    "x_config (snd (esp32_connect out x)) = config"
    "x_endpoint (snd (esp32_connect out x)) = x_endpoint x"
  unfolding assms
  by (cases out; simp add: esp32_connect_def new_ESP32Connection_def new_CBusTransport_def connect_call_def add_agent_def
      connect_locked_def at_phase_def set_phase_def Let_def agent_result_ends do_connect_def create_protocol_def)+

lemma disconnected: "t_state (x_transport (esp32_disconnect x)) = DISCONNECTED" "x_protocol (esp32_disconnect x) = None"
  by (simp_all add: esp32_disconnect_def disconnect_end_def disconnect_begin_def Let_def)

section \<open>Reading addresses\<close>

lemma split_last_append:
  assumes "c \<notin> set b"
  shows "split_last c (a @ c # b) = Some (a, b)"
proof -
  have "takeWhile (\<lambda>x. x \<noteq> c) (rev b @ c # rev a) = rev b" using assms by (induction b rule: rev_induct) auto
  then show ?thesis by (simp add: split_last_def split_first_def Let_def)
qed

lemma colon_free: "0 \<le> x \<Longrightarrow> CHR '':'' \<notin> set (py_str x)"
proof -
  assume "0 \<le> x"
  then have "all_digits (py_str x)" by (rule all_digits_formats)
  moreover have "digit_val (CHR '':'') = None" by (simp add: digit_val_def)
  ultimately show ?thesis by (auto simp: all_digits_def list_all_iff)
qed

lemma from_address_printed:
  assumes "0 \<le> port" "port < 65536"
  shows "from_address (host @ '':'' @ py_str port) = Inr (host, port)"
proof -
  have "split_last (CHR '':'') (host @ CHR '':'' # py_str port) = Some (host, port_str)" if "port_str = py_str port" for port_str
    unfolding that by (rule split_last_append [OF colon_free [OF assms(1)]])
  then show ?thesis using assms by (simp add: from_address_def py_int_str)
qed

end
