(* ===== verification/Daemon.thy ===== *)
theory Daemon
  imports Esp32
begin

text \<open>
  The daemon \<open>cmqttd\<close>, \<open>cbus/daemon/cmqttd.py\<close>: the choice of the connection, what is
  left of an exception at the end of \<open>_main\<close>, and the loop that binds the MQTT client to a new
  protocol after the connection to an ESP32 bridge was lost. The parsed command line is a record, the
  devices that discovery finds are an argument.

  In the loop a protocol is a record of what the daemon and \<open>asyncio\<close> change of it, protocols
  and futures are numbered in the order they are created, and a future is whether it is done.
  \<open>dstep\<close> interleaves the loop with the sections of the transport. The code has no call of
  \<open>handle_connection_lost\<close> outside its tests; whether something calls it is a parameter.

  The lemmas give the reachable states of the loop without such calls, and an invariant of the loop
  with them.
\<close>

section \<open>Start\<close>

record options =
  o_tcp :: "string option"
  o_esp32_wifi :: "string option"
  o_esp32_serial :: "string option"
  o_esp32_discover :: bool
  o_esp32_baudrate :: int
  o_esp32_reconnect_interval :: int
  o_esp32_max_reconnect :: int
  o_timesync :: int
  o_no_clock :: bool
  o_broker_port :: int
  o_broker_disable_tls :: bool
  o_broker_client_cert :: "string option"
  o_broker_client_key :: "string option"

text \<open>The truth value of an option with a string.\<close>

definition given :: "string option \<Rightarrow> bool" where
  "given opt \<longleftrightarrow> opt \<noteq> None \<and> opt \<noteq> Some []"

datatype link = LegacyTcp string int | Esp32Link esp32_config | NoLink

definition with_options :: "options \<Rightarrow> esp32_config \<Rightarrow> esp32_config" where
  "with_options opts c =
     c\<lparr>ec_reconnect_interval := of_int (o_esp32_reconnect_interval opts),
       ec_max_reconnect_attempts := o_esp32_max_reconnect opts, ec_timesync_frequency := o_timesync opts,
       ec_handle_clock_requests := \<not> o_no_clock opts\<rparr>"

definition choose_link :: "(string \<times> int) list \<Rightarrow> options \<Rightarrow> link result" where
  "choose_link devices opts =
     (if given (o_tcp opts) then
        case split_first (CHR '':'') (the (o_tcp opts)) of
          None \<Rightarrow> Inl ValueError
        | Some (addr_host, addr_port) \<Rightarrow> rmap (LegacyTcp addr_host) (py_int addr_port)
      else if o_esp32_discover opts then
        case devices of
          [] \<Rightarrow> Inl SystemExit
        | (host, port) # _ \<Rightarrow> Inr (Esp32Link (with_options opts (ESP32Config_wifi host port)))
      else if given (o_esp32_wifi opts) then
        rmap (\<lambda>(host, port). Esp32Link (with_options opts (ESP32Config_wifi host port)))
          (case split_last (CHR '':'') (the (o_esp32_wifi opts)) of
             None \<Rightarrow> Inr (the (o_esp32_wifi opts), 10001)
           | Some (host, port) \<Rightarrow> rmap (\<lambda>p. (host, p)) (py_int port))
      else if given (o_esp32_serial opts) then
        Inr (Esp32Link (with_options opts (ESP32Config_serial (the (o_esp32_serial opts)) (o_esp32_baudrate opts))))
      else Inr NoLink)"

definition broker_port :: "options \<Rightarrow> int" where
  "broker_port opts =
     (if o_broker_port opts \<noteq> 0 then o_broker_port opts else if o_broker_disable_tls opts then 1883 else 8883)"

section \<open>The end of the daemon\<close>

text \<open>
  What leaves \<open>_main\<close> when its \<open>try\<close> block raises or ends, and whether the throttler was
  cleaned up. The \<open>finally\<close> block reads \<open>esp32_conn\<close>, which may not have been assigned.
\<close>

definition main_exit :: "bool \<Rightarrow> exn option \<Rightarrow> exn option \<times> bool" where
  "main_exit assigned raised =
     (if \<not> assigned then (Some UnboundLocalError, False)
      else (if raised = Some SystemExit then raised else None, True))"

definition main_run :: "'l result \<Rightarrow> options \<Rightarrow> ('l \<Rightarrow> exn option) \<Rightarrow> exn option \<times> bool" where
  "main_run labels opts connected_part =
     (case labels of
        Inl e \<Rightarrow> main_exit False (Some e)
      | Inr l \<Rightarrow>
          if given (o_broker_client_cert opts) \<noteq> given (o_broker_client_key opts)
          then main_exit False (Some SystemExit)
          else main_exit True (connected_part l))"

section \<open>The reconnection loop\<close>

record bound_protocol =
  lp_connected :: bool
  lp_future :: nat
  lp_attached :: bool

datatype supervisor = Awaiting nat | Polling nat | Shut

record daemon =
  d_max_reconnect :: int
  d_transport :: transport
  d_protocol :: "nat option"
  d_protocols :: "bound_protocol list"
  d_futures :: "bool list"
  d_holder :: nat
  d_userdata :: "nat option"
  d_phase :: supervisor

text \<open>\<open>factory\<close>, called by a connection that comes up.\<close>

definition link_up :: "daemon \<Rightarrow> daemon" where
  "link_up d =
     d\<lparr>d_protocols := d_protocols d @ [\<lparr>lp_connected = True, lp_future = d_holder d, lp_attached = False\<rparr>],
       d_protocol := Some (length (d_protocols d))\<rparr>"

definition link_result :: "nat \<Rightarrow> outcome \<Rightarrow> daemon \<Rightarrow> daemon" where
  "link_result i out d =
     (let d = (if out = Success then link_up d else d) in d\<lparr>d_transport := agent_result i out (d_transport d)\<rparr>)"

text \<open>\<open>connection_lost\<close>, which \<open>asyncio\<close> calls once for a protocol.\<close>

definition lose_protocol :: "nat \<Rightarrow> daemon \<Rightarrow> daemon" where
  "lose_protocol p d =
     d\<lparr>d_protocols := (d_protocols d)[p := (d_protocols d ! p)\<lparr>lp_connected := False, lp_attached := False\<rparr>],
       d_futures := (d_futures d)[lp_future (d_protocols d ! p) := True]\<rparr>"

definition max_wait :: "daemon \<Rightarrow> nat" where
  "max_wait d = (if d_max_reconnect d = 0 then 999 else nat (d_max_reconnect d))"

definition rebind :: "daemon \<Rightarrow> daemon" where
  "rebind d =
     (let f = length (d_futures d); d = d\<lparr>d_futures := d_futures d @ [False], d_holder := f\<rparr> in
      case d_protocol d of
        None \<Rightarrow> d\<lparr>d_phase := Shut\<rparr>
      | Some p \<Rightarrow>
          d\<lparr>d_protocols := (d_protocols d)[p := (d_protocols d ! p)\<lparr>lp_future := f, lp_attached := True\<rparr>],
            d_userdata := Some p, d_phase := Awaiting f\<rparr>)"

definition supervise :: "daemon \<Rightarrow> daemon option" where
  "supervise d =
     (case d_phase d of
        Awaiting f \<Rightarrow> if d_futures d ! f then Some (d\<lparr>d_phase := Polling (max_wait d)\<rparr>) else None
      | Polling 0 \<Rightarrow> Some (d\<lparr>d_phase := Shut\<rparr>)
      | Polling (Suc n) \<Rightarrow> Some (if is_connected (d_transport d) then rebind d else d\<lparr>d_phase := Polling n\<rparr>)
      | Shut \<Rightarrow> None)"

text \<open>The daemon when the loop starts: connected, and the MQTT client entered.\<close>

definition daemon_start :: "esp32_config \<Rightarrow> daemon" where
  "daemon_start config =
     \<lparr>d_max_reconnect = ec_max_reconnect_attempts config,
      d_transport = x_transport (snd (esp32_connect Success (new_ESP32Connection config))), d_protocol = Some 0,
      d_protocols = [\<lparr>lp_connected = True, lp_future = 0, lp_attached = True\<rparr>], d_futures = [False], d_holder = 0,
      d_userdata = Some 0, d_phase = Awaiting 0\<rparr>"

inductive dstep :: "bool \<Rightarrow> daemon \<Rightarrow> daemon \<Rightarrow> bool" for reported :: bool where
  lock: "at_phase AwaitLock i (d_transport d) \<Longrightarrow> t_lock (d_transport d) = None \<Longrightarrow>
    dstep reported d (d\<lparr>d_transport := connect_locked i (d_transport d)\<rparr>)"
| result: "at_phase Connecting i (d_transport d) \<Longrightarrow> dstep reported d (link_result i out d)"
| start: "at_phase Created i (d_transport d) \<Longrightarrow>
    dstep reported d (d\<lparr>d_transport := reconnect_start i (d_transport d)\<rparr>)"
| wake: "at_phase Sleeping i (d_transport d) \<Longrightarrow>
    dstep reported d (d\<lparr>d_transport := reconnect_wake i (d_transport d)\<rparr>)"
| lose: "p < length (d_protocols d) \<Longrightarrow> lp_connected (d_protocols d ! p) \<Longrightarrow> dstep reported d (lose_protocol p d)"
| report: "reported \<Longrightarrow> dstep reported d (d\<lparr>d_transport := handle_connection_lost (d_transport d)\<rparr>)"
| supervise: "supervise d = Some d' \<Longrightarrow> dstep reported d d'"

inductive_cases dstepE: "dstep reported d d'"

abbreviation dsteps :: "bool \<Rightarrow> daemon \<Rightarrow> daemon \<Rightarrow> bool" where
  "dsteps reported \<equiv> (dstep reported)\<^sup>*\<^sup>*"

section \<open>Without reports\<close>

text \<open>The transport of a daemon that has connected: every activation is finished.\<close>

lemma started_transport:
  "at_phase ph i (d_transport (daemon_start config)) \<Longrightarrow> ph = Finished"
  "is_connected (d_transport (daemon_start config))"
  by (auto simp: daemon_start_def esp32_connect_def new_ESP32Connection_def new_CBusTransport_def connect_call_def
      add_agent_def connect_locked_def at_phase_def set_phase_def Let_def agent_result_ends do_connect_def
      is_connected_def split: if_splits)

text \<open>The states after the connection is lost.\<close>

definition after_loss :: "esp32_config \<Rightarrow> daemon" where
  "after_loss config = lose_protocol 0 (daemon_start config)"

definition after_wakeup :: "esp32_config \<Rightarrow> daemon" where
  "after_wakeup config = (after_loss config)\<lparr>d_phase := Polling (max_wait (daemon_start config))\<rparr>"

definition after_rebinding :: "esp32_config \<Rightarrow> daemon" where
  "after_rebinding config = rebind (after_wakeup config)"

lemmas after_defs = after_rebinding_def after_wakeup_def after_loss_def

lemma after_transport [simp]:
  "d_transport (after_loss config) = d_transport (daemon_start config)"
  "d_transport (after_wakeup config) = d_transport (daemon_start config)"
  "d_transport (after_rebinding config) = d_transport (daemon_start config)"
  by (simp_all add: after_defs lose_protocol_def rebind_def Let_def daemon_start_def)

lemma unreported_step:
  assumes "d_transport d = d_transport (daemon_start config)"
  shows "dstep False d d' \<longleftrightarrow>
    (\<exists>p < length (d_protocols d). lp_connected (d_protocols d ! p) \<and> d' = lose_protocol p d) \<or> supervise d = Some d'"
proof -
  have "\<not> at_phase ph i (d_transport d)" if "ph \<noteq> Finished" for ph i
    using that started_transport(1) assms by metis
  note no_section = this
  show ?thesis
  proof
    assume "dstep False d d'"
    then show "(\<exists>p < length (d_protocols d). lp_connected (d_protocols d ! p) \<and> d' = lose_protocol p d) \<or>
        supervise d = Some d'"
      by cases (use no_section in auto)
  qed (auto intro: dstep.lose dstep.supervise)
qed

lemma max_wait_lose [simp]: "max_wait (lose_protocol p d) = max_wait d"
  by (simp add: max_wait_def lose_protocol_def)

lemma max_wait_pos: "0 \<le> ec_max_reconnect_attempts config \<Longrightarrow> \<exists>n. max_wait (daemon_start config) = Suc n"
  by (simp add: max_wait_def daemon_start_def) presburger

lemma loop_steps:
  assumes "0 \<le> ec_max_reconnect_attempts config"
  shows "dstep False (daemon_start config) d \<longleftrightarrow> d = after_loss config"
    "dstep False (after_loss config) d \<longleftrightarrow> d = after_wakeup config"
    "dstep False (after_wakeup config) d \<longleftrightarrow> d = after_rebinding config"
    "\<not> dstep False (after_rebinding config) d"
proof -
  obtain n where n: "max_wait (daemon_start config) = Suc n" using max_wait_pos [OF assms] by blast
  have m: "max_wait (after_loss config) = Suc n" using n by (simp add: after_loss_def)
  show "dstep False (daemon_start config) d \<longleftrightarrow> d = after_loss config"
    by (auto simp: unreported_step [of _ config] supervise_def daemon_start_def after_loss_def)
  show "dstep False (after_loss config) d \<longleftrightarrow> d = after_wakeup config"
    using m n unfolding unreported_step [OF after_transport(1)]
    by (auto simp: supervise_def after_wakeup_def) 
      (auto simp: after_loss_def lose_protocol_def daemon_start_def)
  show "dstep False (after_wakeup config) d \<longleftrightarrow> d = after_rebinding config"
    using started_transport(2) [of config] n unfolding unreported_step [OF after_transport(2)]
    by (auto simp: supervise_def after_rebinding_def)
      (auto simp: after_wakeup_def after_loss_def lose_protocol_def daemon_start_def)
  show "\<not> dstep False (after_rebinding config) d"
    unfolding unreported_step [OF after_transport(3)]
    by (auto simp: supervise_def after_defs rebind_def Let_def lose_protocol_def daemon_start_def)
qed

lemma unreported_states:
  assumes "0 \<le> ec_max_reconnect_attempts config" "dsteps False (daemon_start config) d"
  shows "d \<in> {daemon_start config, after_loss config, after_wakeup config, after_rebinding config}"
  using assms(2)
proof (induction rule: rtranclp_induct)
  case (step d d')
  then show ?case using loop_steps [OF assms(1)] by auto
qed simp

section \<open>The binding\<close>

text \<open>
  While the loop awaits a future, it is the one new protocols are given, and the one of the protocol
  the MQTT client is bound to.
\<close>

definition binding_inv :: "daemon \<Rightarrow> bool" where
  "binding_inv d \<longleftrightarrow>
     (\<forall>p. d_protocol d = Some p \<longrightarrow> p < length (d_protocols d)) \<and>
     (\<forall>f. d_phase d = Awaiting f \<longrightarrow> f = d_holder d \<and> f < length (d_futures d) \<and>
        (\<exists>p < length (d_protocols d). d_userdata d = Some p \<and> lp_future (d_protocols d ! p) = f))"

lemma binding_transport [simp]: "binding_inv (d\<lparr>d_transport := t\<rparr>) = binding_inv d"
  by (simp add: binding_inv_def)

lemma binding_link_up: "binding_inv d \<Longrightarrow> binding_inv (link_up d)"
  by (fastforce simp: binding_inv_def link_up_def nth_append)

lemma binding_lose: "binding_inv d \<Longrightarrow> binding_inv (lose_protocol p d)"
proof -
  have "lp_future (d_protocols (lose_protocol p d) ! q) = lp_future (d_protocols d ! q)" for q
    by (cases "q = p"; cases "p < length (d_protocols d)") (simp_all add: lose_protocol_def list_update_beyond)
  moreover assume "binding_inv d"
  ultimately show ?thesis by (simp add: binding_inv_def) (simp add: lose_protocol_def)
qed

lemma binding_rebind: "binding_inv d \<Longrightarrow> binding_inv (rebind d)"
  by (auto simp: binding_inv_def rebind_def Let_def split: option.split)

lemma binding_supervise:
  assumes "binding_inv d" "supervise d = Some d'"
  shows "binding_inv d'"
proof -
  have "binding_inv (d\<lparr>d_phase := ph\<rparr>)" if "\<And>f. ph \<noteq> Awaiting f" for ph
    using that assms(1) by (simp add: binding_inv_def)
  with assms show ?thesis
    by (auto simp: supervise_def binding_rebind split: supervisor.splits nat.splits if_splits)
qed

lemma binding_reachable:
  assumes "dsteps reported (daemon_start config) d"
  shows "binding_inv d"
  using assms
proof (induction rule: rtranclp_induct)
  case base
  show ?case by (simp add: binding_inv_def daemon_start_def)
next
  case (step d d')
  from step(2) show ?case
  proof cases
    case (result i out)
    with step.IH show ?thesis by (simp add: link_result_def Let_def binding_link_up)
  qed (use step.IH binding_supervise binding_lose in auto)
qed

section \<open>With reports\<close>

text \<open>
  When the loss is reported and the bridge answers the attempt to reconnect, the loop finds the
  transport connected and binds the MQTT client to the new protocol.
\<close>

lemma start_transport:
  "d_transport (daemon_start config) =
     \<lparr>t_config = \<lparr>c_reconnect = ec_reconnect config, c_max_reconnect_attempts = ec_max_reconnect_attempts config\<rparr>,
      t_state = CONNECTED, t_asyncio_transport = True, t_reconnect_task = None, t_reconnect_attempts = 0, t_lock = None,
      t_agents = [\<lparr>a_reconnector = False, a_phase = Finished, a_attempts = 0\<rparr>],
      t_changes = [(DISCONNECTED, CONNECTING), (CONNECTING, CONNECTED)], t_lost_calls = 0\<rparr>"
  by (simp add: daemon_start_def esp32_connect_def new_ESP32Connection_def new_CBusTransport_def connect_call_def
      add_agent_def connect_locked_def at_phase_def set_phase_def Let_def agent_result_ends do_connect_def set_state_def)

definition reconnected :: "esp32_config \<Rightarrow> daemon" where
  "reconnected config =
     link_result 1 Success ((after_loss config)\<lparr>d_transport :=
       connect_locked 1 (reconnect_wake 1 (reconnect_start 1 (handle_connection_lost (d_transport (daemon_start config)))))\<rparr>)"

lemma reconnected_reachable:
  assumes "ec_reconnect config" "ec_max_reconnect_attempts config = 0"
  shows "dsteps True (daemon_start config) (reconnected config)"
proof -
  define t where "t = handle_connection_lost (d_transport (daemon_start config))"
  have t: "at_phase Created 1 t" "at_phase Sleeping 1 (reconnect_start 1 t)"
    "at_phase AwaitLock 1 (reconnect_wake 1 (reconnect_start 1 t))" "t_lock (reconnect_wake 1 (reconnect_start 1 t)) = None"
    "at_phase Connecting 1 (connect_locked 1 (reconnect_wake 1 (reconnect_start 1 t)))"
    using assms
    by (simp_all add: t_def start_transport handle_connection_lost_def add_agent_def Let_def at_phase_def reconnect_start_def
        reconnect_top_def set_state_def set_phase_def reconnect_wake_def connect_locked_def)
  let ?d = "after_loss config"
  have s1: "dstep True (daemon_start config) ?d"
    unfolding after_loss_def by (rule dstep.lose) (simp_all add: daemon_start_def)
  have s2: "dstep True ?d (?d\<lparr>d_transport := t\<rparr>)" using dstep.report [of True ?d] by (simp add: t_def)
  have s3: "dstep True (?d\<lparr>d_transport := t\<rparr>) (?d\<lparr>d_transport := reconnect_start 1 t\<rparr>)"
    using dstep.start [of 1 "?d\<lparr>d_transport := t\<rparr>" True] t(1) by simp
  have s4: "dstep True (?d\<lparr>d_transport := reconnect_start 1 t\<rparr>) (?d\<lparr>d_transport := reconnect_wake 1 (reconnect_start 1 t)\<rparr>)"
    using dstep.wake [of 1 "?d\<lparr>d_transport := reconnect_start 1 t\<rparr>" True] t(2) by simp
  have s5: "dstep True (?d\<lparr>d_transport := reconnect_wake 1 (reconnect_start 1 t)\<rparr>)
      (?d\<lparr>d_transport := connect_locked 1 (reconnect_wake 1 (reconnect_start 1 t))\<rparr>)"
    using dstep.lock [of 1 "?d\<lparr>d_transport := reconnect_wake 1 (reconnect_start 1 t)\<rparr>" True] t(3,4) by simp
  have s6: "dstep True (?d\<lparr>d_transport := connect_locked 1 (reconnect_wake 1 (reconnect_start 1 t))\<rparr>) (reconnected config)"
    using dstep.result [of 1 "?d\<lparr>d_transport := connect_locked 1 (reconnect_wake 1 (reconnect_start 1 t))\<rparr>" True Success] t(5)
    by (simp add: reconnected_def t_def)
  note step = converse_rtranclp_into_rtranclp [where r = "dstep True"]
  show ?thesis
    by (rule step [OF s1], rule step [OF s2], rule step [OF s3], rule step [OF s4], rule step [OF s5],
        rule r_into_rtranclp [where r = "dstep True", OF s6])
qed

lemma reported_loss_recovered:
  assumes "ec_reconnect config" "ec_max_reconnect_attempts config = 0"
  shows "\<exists>d. dsteps True (daemon_start config) d \<and> d_userdata d = Some 1 \<and> lp_connected (d_protocols d ! 1) \<and>
    lp_attached (d_protocols d ! 1) \<and> is_connected (d_transport d) \<and> d_phase d = Awaiting 1 \<and> \<not> d_futures d ! 1"
proof -
  let ?d = "reconnected config"
  have r: "d_phase ?d = Awaiting 0" "d_futures ?d = [True]" "d_protocol ?d = Some 1" "is_connected (d_transport ?d)"
    "length (d_protocols ?d) = 2" "lp_connected (d_protocols ?d ! 1)" "d_max_reconnect ?d = 0"
    by (simp_all add: reconnected_def link_result_def link_up_def after_loss_def lose_protocol_def Let_def agent_result_ends
        is_connected_def assms(2) daemon_start_def nth_append)
  have "supervise ?d = Some (?d\<lparr>d_phase := Polling (Suc 998)\<rparr>)"
    using r by (simp add: supervise_def max_wait_def)
  moreover have "supervise (?d\<lparr>d_phase := Polling (Suc 998)\<rparr>) = Some (rebind (?d\<lparr>d_phase := Polling (Suc 998)\<rparr>))"
    using r(4) by (simp add: supervise_def)
  ultimately have "dsteps True (daemon_start config) (rebind (?d\<lparr>d_phase := Polling (Suc 998)\<rparr>))"
    using reconnected_reachable [OF assms] dstep.supervise by (meson rtranclp.rtrancl_into_rtrancl)
  then show ?thesis
    using r by (intro exI conjI) (assumption | simp add: rebind_def Let_def nth_append)+
qed

section \<open>Properties\<close>

text \<open>
  C13: The daemon never recovers a lost connection to a bridge. Nothing reports the loss to the
  transport, which stays connected in name. So the reachable states are four: connected; connection
  lost; woken; and, after one interval, bound again to the protocol that was lost, awaiting a future
  nobody completes. From there no step leads on: there is no further connection, the daemon has not
  shut down, and the MQTT client stays bound to a dead protocol.
\<close>

theorem lost_bridge_never_recovered:
  assumes "0 \<le> ec_max_reconnect_attempts config"
  shows "(dsteps False (daemon_start config) d \<longleftrightarrow>
      d \<in> {daemon_start config, after_loss config, after_wakeup config, after_rebinding config}) \<and>
    (let d = after_rebinding config in
     (\<forall>d'. \<not> dstep False d d') \<and> is_connected (d_transport d) \<and> d_userdata d = Some 0 \<and>
     map lp_connected (d_protocols d) = [False] \<and> d_phase d = Awaiting 1)"
proof (intro conjI iffI)
  show "d \<in> {daemon_start config, after_loss config, after_wakeup config, after_rebinding config}"
    if "dsteps False (daemon_start config) d"
    using unreported_states [OF assms that] .
  show "dsteps False (daemon_start config) d"
    if "d \<in> {daemon_start config, after_loss config, after_wakeup config, after_rebinding config}"
    using that loop_steps(1-3) [OF assms] by (metis empty_iff insert_iff rtranclp.simps)
  show "let d = after_rebinding config in
     (\<forall>d'. \<not> dstep False d d') \<and> is_connected (d_transport d) \<and> d_userdata d = Some 0 \<and>
     map lp_connected (d_protocols d) = [False] \<and> d_phase d = Awaiting 1"
    using loop_steps(4) [OF assms] started_transport(2) [of config]
    by (simp add: Let_def) (simp add: after_defs rebind_def Let_def lose_protocol_def daemon_start_def)
qed

theorem lost_bridge_never_recovered_witness:
  "let config = ESP32Config_wifi ''10.0.0.9'' 10001 in
   dsteps False (daemon_start config) (after_rebinding config) \<and> (\<forall>d'. \<not> dstep False (after_rebinding config) d')"
  using lost_bridge_never_recovered [of "ESP32Config_wifi ''10.0.0.9'' 10001" "after_rebinding (ESP32Config_wifi ''10.0.0.9'' 10001)"]
  by (simp add: Let_def ESP32Config_wifi_def new_ESP32Config_def)

text \<open>
  C28: The loop does not miss a loss of the protocol it is bound to, whether losses are reported to
  the transport or not and in every interleaving. While it awaits a future, the MQTT client is bound
  to a protocol with that future, and if this protocol is still connected and then lost, the next
  step of the loop begins to poll the transport.
\<close>

theorem loss_wakes_loop:
  assumes "dsteps reported (daemon_start config) d" "d_phase d = Awaiting f"
  shows "\<exists>p < length (d_protocols d). d_userdata d = Some p \<and> lp_future (d_protocols d ! p) = f \<and> d_holder d = f \<and>
    (lp_connected (d_protocols d ! p) \<longrightarrow> dstep reported d (lose_protocol p d)) \<and>
    supervise (lose_protocol p d) = Some ((lose_protocol p d)\<lparr>d_phase := Polling (max_wait d)\<rparr>)"
proof -
  obtain p where p: "p < length (d_protocols d)" "d_userdata d = Some p" "lp_future (d_protocols d ! p) = f"
    "d_holder d = f" "f < length (d_futures d)"
    using binding_reachable [OF assms(1)] assms(2) unfolding binding_inv_def by metis
  have "d_phase (lose_protocol p d) = Awaiting f" "d_futures (lose_protocol p d) ! f"
    using p assms(2) by (simp_all add: lose_protocol_def)
  then have "supervise (lose_protocol p d) = Some ((lose_protocol p d)\<lparr>d_phase := Polling (max_wait d)\<rparr>)"
    by (simp add: supervise_def)
  with p dstep.lose [OF p(1)] show ?thesis by blast
qed

theorem loss_wakes_loop_witness:
  "let d = daemon_start (ESP32Config_serial ''/dev/ttyUSB0'' 9600) in
   supervise (lose_protocol 0 d) = Some ((lose_protocol 0 d)\<lparr>d_phase := Polling (max_wait d)\<rparr>)"
proof -
  define d where "d = daemon_start (ESP32Config_serial ''/dev/ttyUSB0'' 9600)"
  have r: "dsteps False (daemon_start (ESP32Config_serial ''/dev/ttyUSB0'' 9600)) d" by (simp add: d_def)
  have d: "d_phase d = Awaiting 0" "d_userdata d = Some 0" by (simp_all add: d_def daemon_start_def)
  obtain p where "d_userdata d = Some p"
    "supervise (lose_protocol p d) = Some ((lose_protocol p d)\<lparr>d_phase := Polling (max_wait d)\<rparr>)"
    using loss_wakes_loop [OF r d(1)] by (elim exE conjE) (rule that)
  with d(2) show ?thesis unfolding Let_def d_def [symmetric] by simp
qed

text \<open>
  An error before the connection is chosen hides behind another one. If the labels cannot be read,
  or only one of the client certificate and key is given, \<open>_main\<close> ends with the
  \<open>UnboundLocalError\<close> of its own clean-up and the throttler is not cleaned up, so the message of
  \<open>SystemExit\<close> is never shown. Otherwise the throttler is cleaned up and nothing but
  \<open>SystemExit\<close> leaves \<open>_main\<close>.
\<close>

lemma early_errors_masked:
  "main_run labels opts connected_part =
     (case labels of
        Inl e \<Rightarrow> (Some UnboundLocalError, False)
      | Inr l \<Rightarrow>
          if given (o_broker_client_cert opts) \<noteq> given (o_broker_client_key opts) then (Some UnboundLocalError, False)
          else (if connected_part l = Some SystemExit then Some SystemExit else None, True))"
  by (simp add: main_run_def main_exit_def split: sum.split)

end
