(* ===== verification/Web_Server.thy ===== *)
theory Web_Server
  imports Bridge Emulator_Link Esp32 "HOL-Library.AList"
begin

text \<open>
  The REST interface of \<open>cbus/web/server.py\<close>: its configuration, the connection to a bridge and
  the emulator it may have, one definition per handler; \<open>w_closed\<close> logs the connections that were closed. A handler is an action whose exceptions become
  error responses; the text of an error is not modelled. The body of a request, as the framework
  parses it, is an argument, and so is how an attempt to connect ends. Handlers run from start to end.

  \<open>connect\<close> takes the values of the configuration as they are. It is modelled where they have the
  types of the defaults; \<open>None\<close> stands for any other configuration, with which the attempt to
  connect may fail in ways that depend on \<open>asyncio\<close>.

  The lemmas follow a request for a level to the wire and to an emulated bridge at its other end, and
  describe what a request may change of the configuration.
\<close>

section \<open>State\<close>

record web_server =
  w_config :: "(string \<times> json) list"
  w_connection :: "esp32_connection option"
  w_emulator :: "emulator option"
  w_closed :: "esp32_connection list"

definition default_config :: "(string \<times> json) list" where
  "default_config =
     [(''connection_mode'', JString ''wifi''), (''wifi_host'', JString []), (''wifi_port'', JInt 10001),
      (''serial_device'', JString ''/dev/ttyUSB0''), (''serial_baudrate'', JInt 9600), (''reconnect'', JBool True),
      (''reconnect_interval'', JInt 5), (''max_reconnect_attempts'', JInt 0), (''connect_timeout'', JInt 10),
      (''timesync_frequency'', JInt 300), (''handle_clock_requests'', JBool True), (''mqtt_broker'', JString ''localhost''),
      (''mqtt_port'', JInt 1883), (''mqtt_use_tls'', JBool False)]"

definition new_WebConfigServer :: "esp32_connection option \<Rightarrow> emulator option \<Rightarrow> web_server" where
  "new_WebConfigServer connection emu = \<lparr>w_config = default_config, w_connection = connection, w_emulator = emu, w_closed = []\<rparr>"

text \<open>A response: its value, or the status code of an error.\<close>

datatype response = Answer json | ErrorAnswer nat

fun answer_of :: "nat \<Rightarrow> json result \<times> web_server \<Rightarrow> response \<times> web_server" where
  "answer_of status (Inr v, w) = (Answer v, w)"
| "answer_of status (Inl e, w) = (ErrorAnswer status, w)"

section \<open>Configuration\<close>

definition handle_get_config :: "web_server \<Rightarrow> response \<times> web_server" where
  "handle_get_config w = (Answer (JObject (w_config w)), w)"

text \<open>One turn of \<open>for key in data\<close>; lists and objects cannot be keys.\<close>

fun set_config_key :: "json \<Rightarrow> json \<Rightarrow> (web_server, unit) act" where
  "set_config_key data (JString key) w =
     (if key \<in> set (map fst (w_config w))
      then abind (alift (jget data key)) (\<lambda>v. amodify (\<lambda>w. w\<lparr>w_config := AList.update key v (w_config w)\<rparr>)) w
      else areturn () w)"
| "set_config_key data (JList xs) w = araise TypeError w"
| "set_config_key data (JObject ms) w = araise TypeError w"
| "set_config_key data _ w = areturn () w"

definition handle_set_config :: "json result \<Rightarrow> web_server \<Rightarrow> response \<times> web_server" where
  "handle_set_config body w =
     answer_of 400
       (abind (alift body) (\<lambda>data. abind (alift (elements data)) (\<lambda>keys.
          athen (foreach (set_config_key data) keys)
            (\<lambda>w. (Inr (JObject [(''status'', JString ''ok''), (''config'', JObject (w_config w))]), w)))) w)"

section \<open>Status\<close>

fun state_value :: "transport_state \<Rightarrow> string" where
  "state_value DISCONNECTED = ''disconnected''"
| "state_value CONNECTING = ''connecting''"
| "state_value CONNECTED = ''connected''"
| "state_value RECONNECTING = ''reconnecting''"
| "state_value transport_state.ERROR = ''error''"

text \<open>
  The part of \<open>/api/status\<close> about the connection. The emulator's part is about its TCP server and
  is not modelled.
\<close>

definition connection_status :: "web_server \<Rightarrow> (string \<times> json) list" where
  "connection_status w =
     (case w_connection w of
        None \<Rightarrow>
          [(''connected'', JBool False), (''transport_type'', JNull), (''transport_state'', JString ''disconnected''),
           (''esp32_info'', JObject []), (''connection_info'', JObject [])]
      | Some x \<Rightarrow>
          [(''connected'', JBool (is_connected (x_transport x))),
           (''transport_type'', JString (transport_type (x_endpoint x))),
           (''transport_state'', JString (state_value (t_state (x_transport x)))),
           (''esp32_info'', JObject
             [(''firmware_version'', JString ''unknown''), (''device_type'', JString ''ESP32''),
              (''mac_address'', JString []), (''ip_address'', JString (x_ip_address x))]),
           (''connection_info'', connection_info x)])"

section \<open>Groups\<close>

definition handle_get_groups :: "web_server \<Rightarrow> response \<times> web_server" where
  "handle_get_groups w =
     (Answer (JList (case w_emulator w of
        None \<Rightarrow> []
      | Some e \<Rightarrow>
          map (\<lambda>(i, level). JObject [(''id'', JInt (int i)), (''name'', JString (''Group '' @ py_str (int i))),
                 (''level'', JInt level), (''is_on'', JBool (level > 0))])
            (zip [0..<256] (take 256 (e_groups e))))), w)"

text \<open>\<open>int(data.get("level", 0))\<close>.\<close>

fun int_of_json :: "json \<Rightarrow> int result" where
  "int_of_json (JString s) = py_int s"
| "int_of_json v = int_of_number v"

fun requested_level :: "json \<Rightarrow> int result" where
  "requested_level (JObject ms) = int_of_json (case map_of ms ''level'' of None \<Rightarrow> JInt 0 | Some v \<Rightarrow> v)"
| "requested_level _ = Inl AttributeError"

definition send_level :: "int \<Rightarrow> int \<Rightarrow> int \<Rightarrow> pci_state \<Rightarrow> byte option result \<times> pci_state" where
  "send_level now group_id level =
     (if level = 255 then lighting_group_on now [group_id] 0x38
      else if level = 0 then lighting_group_off now [group_id] 0x38
      else lighting_group_ramp now group_id 0x38 0 level)"

definition on_connection :: "(pci_state \<Rightarrow> byte option result \<times> pci_state) \<Rightarrow> (web_server, unit) act" where
  "on_connection cmd w =
     (case w_connection w of
        None \<Rightarrow> areturn () w
      | Some x \<Rightarrow>
          (case x_protocol x of
             None \<Rightarrow> areturn () w
           | Some st \<Rightarrow>
               (case cmd st of (r, st) \<Rightarrow> (rmap (\<lambda>_. ()) r, w\<lparr>w_connection := Some (x\<lparr>x_protocol := Some st\<rparr>)\<rparr>))))"

definition request_level :: "int \<Rightarrow> int \<Rightarrow> json result \<Rightarrow> (web_server, json) act" where
  "request_level now group_id body =
     abind (alift (rbind body requested_level)) (\<lambda>v.
       let level = max 0 (min 255 v) in
       athen (amodify (\<lambda>w. w\<lparr>w_emulator := map_option (set_group_level group_id level) (w_emulator w)\<rparr>))
         (athen (on_connection (send_level now group_id level))
           (areturn (JObject [(''status'', JString ''ok''), (''group_id'', JInt group_id), (''level'', JInt level)]))))"

definition handle_set_group :: "int \<Rightarrow> string \<Rightarrow> json result \<Rightarrow> web_server \<Rightarrow> response \<times> web_server" where
  "handle_set_group now group_text body w =
     answer_of 400
       (abind (alift (py_int group_text)) (\<lambda>group_id.
          if 0 \<le> group_id \<and> group_id \<le> 255 then request_level now group_id body else araise ValueError) w)"

definition handle_get_logs :: "web_server \<Rightarrow> response \<times> web_server" where
  "handle_get_logs w =
     (Answer (JList (case w_emulator w of
        None \<Rightarrow> []
      | Some e \<Rightarrow>
          map (\<lambda>l. JObject [(''type'', JString (l_type l)),
                 (''group'', case l_group l of None \<Rightarrow> JNull | Some g \<Rightarrow> JInt g),
                 (''level'', case l_level l of None \<Rightarrow> JNull | Some v \<Rightarrow> JInt v)])
            (drop (length (e_command_log e) - 100) (e_command_log e)))), w)"

section \<open>Connecting\<close>

fun text_value :: "json \<Rightarrow> string option" where
  "text_value (JString s) = Some s"
| "text_value _ = None"

fun int_value :: "json \<Rightarrow> int option" where
  "int_value (JInt i) = Some i"
| "int_value _ = None"

fun bool_value :: "json \<Rightarrow> bool option" where
  "bool_value (JBool b) = Some b"
| "bool_value _ = None"

definition conf :: "(json \<Rightarrow> 'a option) \<Rightarrow> string \<Rightarrow> (string \<times> json) list \<Rightarrow> 'a option" where
  "conf typ key cfg = Option.bind (map_of cfg key) typ"

definition common_arguments :: "(string \<times> json) list \<Rightarrow> esp32_config \<Rightarrow> esp32_config option" where
  "common_arguments cfg c =
     (case (conf bool_value ''reconnect'' cfg, conf number_of_json ''reconnect_interval'' cfg,
            conf int_value ''max_reconnect_attempts'' cfg, conf number_of_json ''connect_timeout'' cfg,
            conf int_value ''timesync_frequency'' cfg, conf bool_value ''handle_clock_requests'' cfg) of
        (Some reconnect, Some interval, Some attempts, Some timeout, Some timesync, Some clocks) \<Rightarrow>
          Some (c\<lparr>ec_reconnect := reconnect, ec_reconnect_interval := interval, ec_max_reconnect_attempts := attempts,
                  ec_connect_timeout := timeout, ec_timesync_frequency := timesync, ec_handle_clock_requests := clocks\<rparr>)
      | _ \<Rightarrow> None)"

definition configured :: "(string \<times> json) list \<Rightarrow> esp32_config option" where
  "configured cfg =
     Option.bind
       (if map_of cfg ''connection_mode'' = Some (JString ''wifi'')
        then case (conf text_value ''wifi_host'' cfg, conf int_value ''wifi_port'' cfg) of
               (Some host, Some port) \<Rightarrow> Some (ESP32Config_wifi host port) | _ \<Rightarrow> None
        else case (conf text_value ''serial_device'' cfg, conf int_value ''serial_baudrate'' cfg) of
               (Some device, Some baudrate) \<Rightarrow> Some (ESP32Config_serial device baudrate) | _ \<Rightarrow> None)
       (common_arguments cfg)"

definition close_connection :: "web_server \<Rightarrow> web_server" where
  "close_connection w =
     (case w_connection w of None \<Rightarrow> w | Some x \<Rightarrow> w\<lparr>w_closed := w_closed w @ [esp32_disconnect x]\<rparr>)"

definition handle_connect :: "outcome \<Rightarrow> web_server \<Rightarrow> (response \<times> web_server) option" where
  "handle_connect out w =
     map_option (\<lambda>config.
       case esp32_connect out (new_ESP32Connection config) of
         (r, x) \<Rightarrow> answer_of 500 (rmap (\<lambda>_. JObject [(''status'', JString ''ok''), (''message'', JString ''Connected'')]) r,
                     (close_connection w)\<lparr>w_connection := Some x\<rparr>))
       (configured (w_config w))"

definition handle_disconnect :: "web_server \<Rightarrow> response \<times> web_server" where
  "handle_disconnect w =
     (Answer (JObject [(''status'', JString ''ok''), (''message'', JString ''Disconnected'')]),
      (close_connection w)\<lparr>w_connection := None\<rparr>)"

section \<open>Requests for a level\<close>

lemma send_level_sal:
  assumes "is_byte ga" "is_byte level"
  shows "send_level now ga level = send_sals now (Inr [Lighting (command_sal ga 0x38 (level \<noteq> 0) level 0)])"
proof -
  have "(0x38 :: int) \<in> set lighting_applications" by (simp add: lighting_applications_def)
  with assms show ?thesis
    by (auto simp: send_level_def command_sal_def lighting_group_on_def [abs_def] lighting_group_off_def [abs_def]
        lighting_group_ramp_def [abs_def] lighting_sals_def normalize_group_addrs_def new_lighting_defs)
qed

text \<open>One lighting command on the wire, and what an emulator that receives it does.\<close>

lemma send_lighting_wire:
  assumes "conf_inv st" "connected st" "lighting_ok 0x38 s"
  obtains code st' line where "send_sals now (Inr [Lighting s]) st = (Inr (Some code), st')"
    "written st' = written st @ [line]" "map_of (pending st') code = Some (line, 1, now)"
    "\<And>e. \<exists>e'. emu_process_buffer line e = (Inr [], e') \<and> e_groups e' = e_groups (obey s e) \<and>
       e_out e' = e_out e @ [[code, 0x2E] @ END_RESPONSE]"
proof -
  have cls: "get_application 0x38 = Inr LightingApplication"
    by (simp add: application_ids(1) [symmetric] lighting_applications_def)
  define p where "p = \<lparr>p_checksum = True, p_dat = POINT_TO_MULTIPOINT, p_rc = 0, p_dp = False,
    p_priority = CLASS_4, p_confirmation = None, p_source = None, pm_application = Some 0x38, pm_sals = [Lighting s]\<rparr>"
  have new: "new_PointToMultipointPacket True CLASS_4 None [Lighting s] = Inr p"
    using new_pm_packet [of "[Lighting s]" "0x38"] assms(3) by (simp add: p_def lighting_applications_def)
  have p: "pm_wf p" "p_source p = None" "p_priority p = CLASS_4" "pm_application p = Some 0x38" "pm_sals p = Lighting s # []"
    using assms(3) cls by (simp_all add: pm_wf_def p_def lighting_applications_def)
  obtain code st' line wire where s: "send_seq now (PointToMultipointPacket p) True False st = (Inr (Some code), st')"
    "code \<in> set CONFIRMATION_CODES" "encode_packet (PointToMultipointPacket p) = Inr wire"
    "line = 0x5C # wire @ [code] @ END_COMMAND" "written st' = written st @ [line]"
    "map_of (pending st') code = Some (line, 1, now)"
    using send_reaches_pci [OF assms(1,2) p(1,2), of now] by blast
  have "send_sals now (Inr [Lighting s]) st = (Inr (Some code), st')"
    using new s(1) by (simp add: send_sals_def)
  from that [OF this s(5,6)] lighting_line [OF p s(3,2)] show thesis unfolding s(4) by blast
qed

lemma obey_level: "is_byte ga \<Longrightarrow> e_groups (obey (command_sal ga 0x38 (level \<noteq> 0) level 0) e) = e_groups (set_group_level ga level e)"
  by (auto simp: obey_def command_sal_def)

section \<open>Attempts to connect\<close>

text \<open>
  An attempt closes the connection there was, and leaves a new one in its place whether it succeeds or
  not; only a successful one has a protocol.
\<close>

lemma handle_connect_outcome:
  assumes "configured (w_config w) = Some config"
  shows "\<exists>r w' x. handle_connect out w = Some (r, w') \<and> w_connection w' = Some x \<and> x_config x = config \<and>
    (is_connected (x_transport x) \<longleftrightarrow> out = Success) \<and> (x_protocol x = None \<longleftrightarrow> out \<noteq> Success) \<and>
    (r = ErrorAnswer 500 \<longleftrightarrow> out \<noteq> Success) \<and>
    w_closed w' = w_closed w @ (case w_connection w of None \<Rightarrow> [] | Some x \<Rightarrow> [esp32_disconnect x])"
proof -
  obtain r x where rx: "esp32_connect out (new_ESP32Connection config) = (r, x)" by fastforce
  have "r = fst (connect_end out (x_transport (new_ESP32Connection config)))" "x_config x = config"
    "is_connected (x_transport x) \<longleftrightarrow> out = Success" "x_protocol x = None \<longleftrightarrow> out \<noteq> Success"
    using fresh_connect [OF refl, of out config] unfolding rx by (cases out; simp add: is_connected_def)+
  moreover have "closed (close_connection w) = closed w @ (case w_connection w of None \<Rightarrow> [] | Some x \<Rightarrow> [esp32_disconnect x])"
    if "closed = w_closed" for closed
    unfolding that by (simp add: close_connection_def split: option.split)
  ultimately show ?thesis using assms rx
    by (cases out) (simp_all add: handle_connect_def rmap_def)
qed

section \<open>Configuration changes\<close>

lemma set_config_key_keys:
  "map fst (w_config (snd (set_config_key data key w))) = map fst (w_config w)"
  by (cases key) (auto simp: act_simps alift_def update_keys split: sum.splits)

lemma set_config_keys:
  "map fst (w_config (snd (foreach (set_config_key data) keys w))) = map fst (w_config w)"
proof (induction keys arbitrary: w)
  case (Cons key keys)
  show ?case using Cons.IH [of "snd (set_config_key data key w)"] set_config_key_keys [of data key w]
    by (auto simp: act_simps split: prod.splits sum.splits)
qed (simp add: act_simps)

lemma set_config_values:
  assumes "list_all (\<lambda>key. \<exists>k v. key = JString k \<and> map_of ms k = Some v) keys"
  shows "\<exists>w'. foreach (set_config_key (JObject ms)) keys w = (Inr (), w') \<and>
    (\<forall>k. map_of (w_config w') k =
      (if JString k \<in> set keys \<and> map_of (w_config w) k \<noteq> None then map_of ms k else map_of (w_config w) k)) \<and>
    w' = w\<lparr>w_config := w_config w'\<rparr>"
  using assms
proof (induction keys arbitrary: w)
  case (Cons key keys)
  then obtain k v where k: "key = JString k" "map_of ms k = Some v" by auto
  obtain w1 where w1: "set_config_key (JObject ms) key w = (Inr (), w1)" "w1 = w\<lparr>w_config := w_config w1\<rparr>"
    "\<And>k'. map_of (w_config w1) k' =
      (if k' = k \<and> map_of (w_config w) k \<noteq> None then map_of ms k else map_of (w_config w) k')"
    using k by (cases "k \<in> set (map fst (w_config w))")
      (auto simp: act_simps alift_def jget_def update_conv' map_of_eq_None_iff)
  obtain w' where w': "foreach (set_config_key (JObject ms)) keys w1 = (Inr (), w')"
    "\<And>k'. map_of (w_config w') k' =
      (if JString k' \<in> set keys \<and> map_of (w_config w1) k' \<noteq> None then map_of ms k' else map_of (w_config w1) k')"
    "w' = w1\<lparr>w_config := w_config w'\<rparr>"
    using Cons.IH [of w1] Cons.prems by auto
  have "w' = w\<lparr>w_config := w_config w'\<rparr>" by (subst w'(3), subst w1(2)) simp
  moreover have "foreach (set_config_key (JObject ms)) (key # keys) w = (Inr (), w')"
    using w1(1) w'(1) by (simp add: act_simps)
  ultimately show ?case using w1(3) w'(2) k by (intro exI [of _ w']) auto
qed (simp add: act_simps)

section \<open>Properties\<close>

text \<open>
  C6: A request for a level through the REST interface reaches the lights. With a connected protocol
  and a valid request, the server answers with the level cut to 0 to 255, its own emulator takes that
  level, and the protocol writes one confirmed line. A bridge that receives the line, here the
  emulated one in any state, sets exactly that group to that level and confirms.
\<close>

theorem web_level_reaches_bridge:
  assumes "py_int group_text = Inr ga" and "is_byte ga"
    and "map_of ms ''level'' = Some v" and "int_of_json v = Inr n" and "level = max 0 (min 255 n)"
    and "w_connection w = Some x" and "x_protocol x = Some st" and "conf_inv st" and "connected st"
  shows "\<exists>st' line code. handle_set_group now group_text (Inr (JObject ms)) w =
      (Answer (JObject [(''status'', JString ''ok''), (''group_id'', JInt ga), (''level'', JInt level)]),
       w\<lparr>w_emulator := map_option (set_group_level ga level) (w_emulator w),
         w_connection := Some (x\<lparr>x_protocol := Some st'\<rparr>)\<rparr>) \<and>
    written st' = written st @ [line] \<and> map_of (pending st') code = Some (line, 1, now) \<and>
    (\<forall>bridge. \<exists>bridge'. emu_process_buffer line bridge = (Inr [], bridge') \<and>
       e_out bridge' = e_out bridge @ [[code, 0x2E] @ END_RESPONSE] \<and>
       (\<forall>g. get_group_level g bridge' =
          (if g = ga \<and> ga < int (length (e_groups bridge)) then level else get_group_level g bridge)))"
proof -
  have level: "is_byte level" using assms(5) by (simp add: is_byte_def)
  have ok: "lighting_ok 0x38 (command_sal ga 0x38 (level \<noteq> 0) level 0)"
    using assms(2) level by (auto simp: command_sal_def lighting_applications_def LIGHT_RAMP_RATES_def)
  obtain code st' line where s: "send_level now ga level st = (Inr (Some code), st')" "written st' = written st @ [line]"
    "map_of (pending st') code = Some (line, 1, now)"
    and e: "\<And>e. \<exists>e'. emu_process_buffer line e = (Inr [], e') \<and>
       e_groups e' = e_groups (obey (command_sal ga 0x38 (level \<noteq> 0) level 0) e) \<and>
       e_out e' = e_out e @ [[code, 0x2E] @ END_RESPONSE]"
    unfolding send_level_sal [OF assms(2) level] using send_lighting_wire [OF assms(8,9) ok, of now] by metis
  have "get_group_level g e' = (if g = ga \<and> ga < int (length (e_groups e)) then level else get_group_level g e)"
    if "e_groups e' = e_groups (set_group_level ga level e)" for g e e'
    using that assms(2) level by (auto simp: get_group_level_def set_group_level_def is_byte_def nth_list_update nat_eq_iff)
  with e have "\<forall>bridge. \<exists>bridge'. emu_process_buffer line bridge = (Inr [], bridge') \<and>
       e_out bridge' = e_out bridge @ [[code, 0x2E] @ END_RESPONSE] \<and>
       (\<forall>g. get_group_level g bridge' =
          (if g = ga \<and> ga < int (length (e_groups bridge)) then level else get_group_level g bridge))"
    unfolding obey_level [OF assms(2)] by blast
  moreover have "handle_set_group now group_text (Inr (JObject ms)) w =
      (Answer (JObject [(''status'', JString ''ok''), (''group_id'', JInt ga), (''level'', JInt level)]),
       w\<lparr>w_emulator := map_option (set_group_level ga level) (w_emulator w),
         w_connection := Some (x\<lparr>x_protocol := Some st'\<rparr>)\<rparr>)"
    using assms s(1)
    by (simp add: handle_set_group_def request_level_def act_simps alift_def on_connection_def is_byte_def Let_def rmap_def)
  ultimately show ?thesis using s(2,3) by blast
qed

theorem web_level_reaches_bridge_witness:
  "let st = connection_made (new_PCIProtocol 300 (Some False));
       x = (new_ESP32Connection new_ESP32Config)\<lparr>x_protocol := Some st\<rparr>;
       w = new_WebConfigServer (Some x) None in
   \<exists>w' line bridge. handle_set_group 0 ''10'' (Inr (JObject [(''level'', JInt 300)])) w =
       (Answer (JObject [(''status'', JString ''ok''), (''group_id'', JInt 10), (''level'', JInt 255)]), w') \<and>
     emu_process_buffer line (new_ESP32Emulator 256) = (Inr [], bridge) \<and> get_group_level 10 bridge = 255"
proof -
  let ?st = "connection_made (new_PCIProtocol 300 (Some False))"
  let ?x = "(new_ESP32Connection new_ESP32Config)\<lparr>x_protocol := Some ?st\<rparr>"
  let ?w = "new_WebConfigServer (Some ?x) None"
  have g: "py_int ''10'' = Inr 10" by code_simp
  have w: "w_connection ?w = Some ?x" "x_protocol ?x = Some ?st" "conf_inv ?st" "connected ?st"
    by (simp_all add: new_WebConfigServer_def rotated_connection)
  have l: "map_of [(''level'', JInt 300)] ''level'' = Some (JInt 300)" "int_of_json (JInt 300) = Inr 300"
    "is_byte 10" "(255 :: int) = max 0 (min 255 300)" by (simp_all add: is_byte_def)
  obtain st' line code where r: "handle_set_group 0 ''10'' (Inr (JObject [(''level'', JInt 300)])) ?w =
      (Answer (JObject [(''status'', JString ''ok''), (''group_id'', JInt 10), (''level'', JInt 255)]),
       ?w\<lparr>w_emulator := map_option (set_group_level 10 255) (w_emulator ?w),
         w_connection := Some (?x\<lparr>x_protocol := Some st'\<rparr>)\<rparr>)"
    and b: "\<And>bridge. \<exists>bridge'. emu_process_buffer line bridge = (Inr [], bridge') \<and>
       e_out bridge' = e_out bridge @ [[code, 0x2E] @ END_RESPONSE] \<and>
       (\<forall>g. get_group_level g bridge' =
          (if g = 10 \<and> 10 < int (length (e_groups bridge)) then 255 else get_group_level g bridge))"
    using web_level_reaches_bridge [OF g l(3,1,2,4) w, of 0] by blast
  obtain bridge where "emu_process_buffer line (new_ESP32Emulator 256) = (Inr [], bridge)" "get_group_level 10 bridge = 255"
    using b [of "new_ESP32Emulator 256"] by (auto simp: new_ESP32Emulator_def)
  with r show ?thesis unfolding Let_def by blast
qed

text \<open>
  An update of the configuration sets the known keys it names, to the values it gives, and nothing
  else: no key is added or removed, and other values and the rest of the server stay.
\<close>

lemma config_update:
  "\<exists>w'. handle_set_config (Inr (JObject ms)) w =
       (Answer (JObject [(''status'', JString ''ok''), (''config'', JObject (w_config w'))]), w') \<and>
     map fst (w_config w') = map fst (w_config w) \<and> w' = w\<lparr>w_config := w_config w'\<rparr> \<and>
     (\<forall>k. map_of (w_config w') k =
        (case map_of ms k of
           None \<Rightarrow> map_of (w_config w) k
         | Some v \<Rightarrow> if k \<in> set (map fst (w_config w)) then Some v else None))"
proof -
  have "list_all (\<lambda>key. \<exists>k v. key = JString k \<and> map_of ms k = Some v) (map (JString \<circ> fst) ms)"
    by (auto simp: list_all_iff) (metis map_of_eq_None_iff image_eqI fst_conv option.exhaust)
  from set_config_values [OF this] obtain w' where w': "foreach (set_config_key (JObject ms)) (map (JString \<circ> fst) ms) w = (Inr (), w')"
    "\<forall>k. map_of (w_config w') k = (if JString k \<in> set (map (JString \<circ> fst) ms) \<and> map_of (w_config w) k \<noteq> None
       then map_of ms k else map_of (w_config w) k)" "w' = w\<lparr>w_config := w_config w'\<rparr>" by blast
  have "JString k \<in> set (map (JString \<circ> fst) ms) \<longleftrightarrow> map_of ms k \<noteq> None" for k
    by (auto simp: map_of_eq_None_iff image_iff)
  moreover have "map_of (w_config w) k \<noteq> None \<longleftrightarrow> k \<in> set (map fst (w_config w))" for k
    by (simp add: map_of_eq_None_iff)
  ultimately have "map_of (w_config w') k = (case map_of ms k of None \<Rightarrow> map_of (w_config w) k
      | Some v \<Rightarrow> if k \<in> set (map fst (w_config w)) then Some v else None)" for k
    using w'(2) by (cases "map_of ms k"; cases "map_of (w_config w) k") (simp_all, metis)
  moreover have "map fst (w_config w') = map fst (w_config w)"
    using set_config_keys [of "JObject ms" "map (JString \<circ> fst) ms" w] w'(1) by simp
  moreover have "handle_set_config (Inr (JObject ms)) w =
       (Answer (JObject [(''status'', JString ''ok''), (''config'', JObject (w_config w'))]), w')"
    using w'(1) by (simp add: handle_set_config_def act_simps alift_def)
  ultimately show ?thesis using w'(3) by blast
qed

end
