(* ===== verification/Project_File.thy ===== *)
theory Project_File
  imports Py_Text "HOL-Library.AList"
begin

text \<open>
  The reader of Toolkit project files, \<open>cbus/toolkit/cbz.py\<close>, the labels that
  \<open>read_cbz_labels\<close> of \<open>cbus/daemon/cmqttd.py\<close> takes from one, and the structure that
  \<open>cbus/toolkit/dump_labels.py\<close> prints. Every element class of \<open>cbz.py\<close> is a list of field
  names and types, and \<open>from_element\<close> follows it, as the code follows the fields of the data class.

  The archive and the XML document are read by the standard library; a document is a tree of
  elements with a tag, attributes, the text before the first child (\<open>None\<close> if there is none) and
  children. What \<open>datetime.fromisoformat\<close> accepts differs between versions of Python, so it is the
  parameter \<open>isodate\<close>.

  The lemmas show that a project that is written as XML, with any spelling of the names that the reader
  identifies, is read back as it was.
\<close>

section \<open>Python text\<close>

definition py_lower :: "string \<Rightarrow> string" where
  "py_lower s = map (\<lambda>c. let n = of_char c :: nat in
     if 65 \<le> n \<and> n \<le> 90 \<or> 0xC0 \<le> n \<and> n \<le> 0xDE \<and> n \<noteq> 0xD7 then char_of (n + 32) else c) s"

definition strip_right :: "char \<Rightarrow> string \<Rightarrow> string" where
  "strip_right c s = rev (dropWhile (\<lambda>x. x = c) (rev s))"

text \<open>\<open>s.replace(pat, '')\<close>.\<close>

function remove_all :: "string \<Rightarrow> string \<Rightarrow> string" where
  "remove_all pat s =
     (if s = [] \<or> pat = [] then s
      else if take (length pat) s = pat then remove_all pat (drop (length pat) s)
      else hd s # remove_all pat (tl s))"
  by pat_completeness auto
termination by (relation "measure (length \<circ> snd)") auto

declare remove_all.simps [simp del]

text \<open>The constructor of \<open>uuid.UUID\<close>.\<close>

definition brace :: "char \<Rightarrow> bool" where
  "brace c \<longleftrightarrow> c = CHR ''{'' \<or> c = CHR ''}''"

definition py_uuid :: "string \<Rightarrow> int result" where
  "py_uuid s =
     (let s = remove_all ''uuid:'' (remove_all ''urn:'' s);
          s = filter (\<lambda>c. c \<noteq> CHR ''-'') (rev (dropWhile brace (rev (dropWhile brace s)))) in
      if length s \<noteq> 32 then Inl ValueError
      else rbind (py_int16 s) (\<lambda>n. if 0 \<le> n \<and> n < 2 ^ 128 then Inr n else Inl ValueError))"

section \<open>Element classes\<close>

datatype cbz_class =
  PP | Interface | Unit | Level | Group | Application | Network | Project | Installer | InstallationDetail | Installation

datatype field_type = TStr | TInt | TUuid | TDatetime | TElement cbz_class | TSequence cbz_class

definition base_fields :: "(string \<times> field_type) list" where
  "base_fields = [(''oid'', TUuid)]"

definition network_fields :: "(string \<times> field_type) list" where
  "network_fields = base_fields @ [(''tag_name'', TStr), (''address'', TInt), (''description'', TStr)]"

fun fields :: "cbz_class \<Rightarrow> (string \<times> field_type) list" where
  "fields PP = [(''name'', TStr), (''value'', TStr)]"
| "fields Interface = base_fields @ [(''interface_type'', TStr), (''interface_address'', TStr)]"
| "fields Unit = network_fields @
     [(''unit_type'', TStr), (''unit_name'', TStr), (''serial_number'', TStr), (''firmware_version'', TStr),
      (''catalog_number'', TStr), (''pp'', TSequence PP)]"
| "fields Level = network_fields @ [(''value'', TInt)]"
| "fields Group = network_fields @ [(''levels'', TSequence Level)]"
| "fields Application = network_fields @ [(''groups'', TSequence Group)]"
| "fields Network = network_fields @
     [(''network_number'', TInt), (''interface'', TElement Interface), (''applications'', TSequence Application),
      (''units'', TSequence Unit)]"
| "fields Project = base_fields @
     [(''tag_name'', TStr), (''address'', TStr), (''description'', TStr), (''network'', TSequence Network)]"
| "fields Installer = base_fields @ [(''name'', TStr)]"
| "fields InstallationDetail = base_fields @
     [(''system_location'', TStr), (''hardware_platform'', TStr), (''hostname'', TStr), (''os_name'', TStr),
      (''os_version'', TStr), (''hardware_location'', TStr), (''installer'', TElement Installer)]"
| "fields Installation = base_fields @
     [(''db_version'', TStr), (''version'', TStr), (''modified'', TDatetime),
      (''installation_detail'', TElement InstallationDetail), (''project'', TElement Project)]"

definition normalise_name :: "string \<Rightarrow> string" where
  "normalise_name name = strip_right (CHR ''s'') (filter (\<lambda>c. c \<noteq> CHR ''_'') (py_lower name))"

definition field_of :: "cbz_class \<Rightarrow> string \<Rightarrow> (string \<times> field_type) option" where
  "field_of cls key = find (\<lambda>(n, t). normalise_name n = normalise_name key) (fields cls)"

section \<open>Reading elements\<close>

datatype xml = Element (tag: string) (attributes: "(string \<times> string) list") (xtext: "string option") (children: "xml list")

text \<open>The value of a field. An object lists its fields in the order of its class.\<close>

datatype 'd cval =
    VNone
  | VStr string
  | VInt int
  | VUuid int
  | VDatetime 'd
  | VObj cbz_class "(string \<times> 'd cval) list"
  | VList "'d cval list"

fun new_value :: "field_type \<Rightarrow> 'd cval" where
  "new_value (TSequence cls) = VList []"
| "new_value _ = VNone"

definition new_params :: "cbz_class \<Rightarrow> string \<Rightarrow> 'd cval" where
  "new_params cls n = (case map_of (fields cls) n of None \<Rightarrow> VNone | Some t \<Rightarrow> new_value t)"

text \<open>The type of a field called with an attribute.\<close>

fun attribute_value :: "field_type \<Rightarrow> string \<Rightarrow> 'd cval result" where
  "attribute_value TStr v = Inr (VStr v)"
| "attribute_value TInt v = rmap VInt (py_int v)"
| "attribute_value TUuid v = rmap VUuid (py_uuid v)"
| "attribute_value _ v = Inl TypeError"

fun read_attributes :: "cbz_class \<Rightarrow> (string \<times> string) list \<Rightarrow> (string \<Rightarrow> 'd cval) \<Rightarrow> (string \<Rightarrow> 'd cval) result" where
  "read_attributes cls [] params = Inr params"
| "read_attributes cls ((key, value) # rest) params =
     (case field_of cls key of
        None \<Rightarrow> read_attributes cls rest params
      | Some (n, t) \<Rightarrow> rbind (attribute_value t value) (\<lambda>v. read_attributes cls rest (params(n := v))))"

text \<open>The text of a child as a value; the constructors are called with \<open>None\<close> if there is no text.\<close>

fun text_child :: "(string \<Rightarrow> 'd result) \<Rightarrow> field_type \<Rightarrow> string option \<Rightarrow> 'd cval result" where
  "text_child isodate TStr t = Inr (VStr (case t of None \<Rightarrow> ''None'' | Some s \<Rightarrow> s))"
| "text_child isodate TInt t = (case t of None \<Rightarrow> Inl TypeError | Some s \<Rightarrow> rmap VInt (py_int s))"
| "text_child isodate TUuid t = (case t of None \<Rightarrow> Inl TypeError | Some s \<Rightarrow> rmap VUuid (py_uuid s))"
| "text_child isodate TDatetime t = (case t of None \<Rightarrow> Inl TypeError | Some s \<Rightarrow> rmap VDatetime (isodate s))"
| "text_child isodate _ t = Inl TypeError"

definition store :: "string \<Rightarrow> 'd cval \<Rightarrow> (string \<Rightarrow> 'd cval) \<Rightarrow> string \<Rightarrow> 'd cval" where
  "store n v params = (case params n of VList vs \<Rightarrow> params(n := VList (vs @ [v])) | _ \<Rightarrow> params(n := v))"

fun from_element :: "(string \<Rightarrow> 'd result) \<Rightarrow> cbz_class \<Rightarrow> xml \<Rightarrow> 'd cval result"
and read_children ::
  "(string \<Rightarrow> 'd result) \<Rightarrow> cbz_class \<Rightarrow> xml list \<Rightarrow> (string \<Rightarrow> 'd cval) \<Rightarrow> (string \<Rightarrow> 'd cval) result" where
  "from_element isodate cls (Element tg attrs txt cs) =
     rbind (read_attributes cls attrs (new_params cls)) (\<lambda>params.
       rmap (\<lambda>params. VObj cls (map (\<lambda>(n, t). (n, params n)) (fields cls))) (read_children isodate cls cs params))"
| "read_children isodate cls [] params = Inr params"
| "read_children isodate cls (c # cs) params =
     (case field_of cls (tag c) of
        None \<Rightarrow> read_children isodate cls cs params
      | Some (n, t) \<Rightarrow>
          rbind (case t of TElement k \<Rightarrow> from_element isodate k c | TSequence k \<Rightarrow> from_element isodate k c
                   | _ \<Rightarrow> text_child isodate t (xtext c))
            (\<lambda>v. read_children isodate cls cs (store n v params)))"

section \<open>Opening a file\<close>

text \<open>
  \<open>CBZ(fh)\<close>: the argument is an open file or the name of one; the archive is the names of its files,
  or \<open>None\<close> if it is not one. \<open>parse_xml\<close> says what the XML parser makes of the content.
\<close>

definition open_cbz :: "(string \<Rightarrow> 'd result) \<Rightarrow> bool \<Rightarrow> string list option \<Rightarrow> xml result \<Rightarrow> 'd cval result" where
  "open_cbz isodate is_name archive parse_xml =
     rbind (case archive of
              None \<Rightarrow> if is_name then Inl AttributeError else Inr ()
            | Some files \<Rightarrow>
                if length files \<noteq> 1 then Inl CBZException
                else if \<not> ends_with ''.xml'' (hd files) then Inl CBZException else Inr ())
       (\<lambda>_. rbind parse_xml (from_element isodate Installation))"

section \<open>Labels\<close>

fun get_field :: "string \<Rightarrow> 'd cval \<Rightarrow> 'd cval result" where
  "get_field n (VObj cls ps) = (case map_of ps n of None \<Rightarrow> Inl AttributeError | Some v \<Rightarrow> Inr v)"
| "get_field n _ = Inl AttributeError"

fun items :: "'d cval \<Rightarrow> 'd cval list result" where
  "items (VList vs) = Inr vs"
| "items _ = Inl TypeError"

definition get_items :: "string \<Rightarrow> 'd cval \<Rightarrow> 'd cval list result" where
  "get_items n v = rbind (get_field n v) items"

text \<open>The first element whose field has the value.\<close>

fun find_field :: "string \<Rightarrow> 'd cval \<Rightarrow> 'd cval list \<Rightarrow> 'd cval option result" where
  "find_field n x [] = Inr None"
| "find_field n x (v # vs) = rbind (get_field n v) (\<lambda>y. if y = x then Inr (Some v) else find_field n x vs)"

definition asked_network :: "string list option \<Rightarrow> string option" where
  "asked_network opt =
     (case opt of
        None \<Rightarrow> None
      | Some ws \<Rightarrow>
          (let s = concat (map (\<lambda>w. CHR '' '' # w) ws) in if s = [] \<or> tl s = [] then None else Some (tl s)))"

definition choose_network :: "string option \<Rightarrow> 'd cval list \<Rightarrow> 'd cval result" where
  "choose_network name networks =
     (case name of
        Some s \<Rightarrow> rbind (find_field ''tag_name'' (VStr s) networks)
                    (\<lambda>r. case r of None \<Rightarrow> Inl ValueError | Some v \<Rightarrow> Inr v)
      | None \<Rightarrow> (case networks of [] \<Rightarrow> Inl ValueError | v # _ \<Rightarrow> Inr v))"

text \<open>A dictionary filled in a loop: the key and the value of each element.\<close>

fun dict_of :: "('a \<Rightarrow> ('k \<times> 'v) result) \<Rightarrow> 'a list \<Rightarrow> ('k \<times> 'v) list \<Rightarrow> ('k \<times> 'v) list result" where
  "dict_of f [] d = Inr d"
| "dict_of f (x # xs) d = rbind (f x) (\<lambda>(k, v). dict_of f xs (AList.update k v d))"

definition group_entry :: "'d cval \<Rightarrow> ('d cval \<times> 'd cval) result" where
  "group_entry g = rbind (get_field ''address'' g) (\<lambda>a. rmap (Pair a) (get_field ''tag_name'' g))"

definition application_entry :: "'d cval \<Rightarrow> ('d cval \<times> 'd cval \<times> ('d cval \<times> 'd cval) list) result" where
  "application_entry app =
     rbind (rbind (get_items ''groups'' app) (\<lambda>gs. dict_of group_entry gs [])) (\<lambda>group_labels.
     rbind (get_field ''tag_name'' app) (\<lambda>nm.
     rmap (\<lambda>a. (a, nm, group_labels)) (get_field ''address'' app)))"

definition read_cbz_labels ::
  "string list option \<Rightarrow> 'd cval \<Rightarrow> ('d cval \<times> 'd cval \<times> ('d cval \<times> 'd cval) list) list result" where
  "read_cbz_labels cbus_network installation =
     rbind (rbind (get_field ''project'' installation) (get_items ''network'')) (\<lambda>networks.
     rbind (choose_network (asked_network cbus_network) networks) (\<lambda>network.
     rbind (get_items ''applications'' network) (\<lambda>apps. dict_of application_entry apps [])))"

section \<open>Writing elements\<close>

text \<open>
  A value as XML, for the statements below: tags and attribute names are \<open>spell\<close> of the field's
  name, the fields in \<open>attr\<close> that have a text are attributes, and a missing value is left out.
\<close>

definition xdigit :: "nat \<Rightarrow> char" where
  "xdigit d = char_of (if d < 10 then 48 + d else 87 + d)"

fun xdigits :: "nat \<Rightarrow> nat \<Rightarrow> string" where
  "xdigits 0 n = []"
| "xdigits (Suc k) n = xdigits k (n div 16) @ [xdigit (n mod 16)]"

definition show_uuid :: "int \<Rightarrow> string" where
  "show_uuid n =
     (let s = xdigits 32 (nat n) in
      take 8 s @ ''-'' @ take 4 (drop 8 s) @ ''-'' @ take 4 (drop 12 s) @ ''-'' @ take 4 (drop 16 s) @ ''-'' @ drop 20 s)"

fun simple_text :: "'d cval \<Rightarrow> string option" where
  "simple_text (VStr s) = Some s"
| "simple_text (VInt i) = Some (py_str i)"
| "simple_text (VUuid n) = Some (show_uuid n)"
| "simple_text _ = None"

fun write_attributes :: "(string \<Rightarrow> string) \<Rightarrow> (string \<Rightarrow> bool) \<Rightarrow> (string \<times> 'd cval) list \<Rightarrow> (string \<times> string) list" where
  "write_attributes spell attr [] = []"
| "write_attributes spell attr ((n, v) # ps) =
     (case simple_text v of Some s \<Rightarrow> if attr n then [(spell n, s)] else [] | None \<Rightarrow> []) @ write_attributes spell attr ps"

fun write_element ::
  "(string \<Rightarrow> string) \<Rightarrow> (string \<Rightarrow> bool) \<Rightarrow> ('d \<Rightarrow> string) \<Rightarrow> string \<Rightarrow> 'd cval \<Rightarrow> xml"
and write_children ::
  "(string \<Rightarrow> string) \<Rightarrow> (string \<Rightarrow> bool) \<Rightarrow> ('d \<Rightarrow> string) \<Rightarrow> (string \<times> 'd cval) list \<Rightarrow> xml list"
and write_field ::
  "(string \<Rightarrow> string) \<Rightarrow> (string \<Rightarrow> bool) \<Rightarrow> ('d \<Rightarrow> string) \<Rightarrow> string \<Rightarrow> 'd cval \<Rightarrow> xml list"
and write_items ::
  "(string \<Rightarrow> string) \<Rightarrow> (string \<Rightarrow> bool) \<Rightarrow> ('d \<Rightarrow> string) \<Rightarrow> string \<Rightarrow> 'd cval list \<Rightarrow> xml list" where
  "write_element spell attr show t (VObj cls ps) =
     Element t (write_attributes spell attr ps) None (write_children spell attr show ps)"
| "write_element spell attr show t _ = Element t [] None []"
| "write_children spell attr show [] = []"
| "write_children spell attr show ((n, v) # ps) = write_field spell attr show n v @ write_children spell attr show ps"
| "write_field spell attr show n (VList vs) = write_items spell attr show n vs"
| "write_field spell attr show n (VObj cls ps) = [write_element spell attr show (spell n) (VObj cls ps)]"
| "write_field spell attr show n (VDatetime d) = [Element (spell n) [] (Some (show d)) []]"
| "write_field spell attr show n v =
     (case simple_text v of Some s \<Rightarrow> if attr n then [] else [Element (spell n) [] (Some s) []] | None \<Rightarrow> [])"
| "write_items spell attr show n [] = []"
| "write_items spell attr show n (v # vs) = write_element spell attr show (spell n) v # write_items spell attr show n vs"

text \<open>
  Values of a type. A string is not empty: an empty element has no text, and the reader takes it for
  the string \<open>None\<close>.
\<close>

fun well_typed :: "field_type \<Rightarrow> 'd cval \<Rightarrow> bool"
and typed_fields :: "(string \<times> field_type) list \<Rightarrow> (string \<times> 'd cval) list \<Rightarrow> bool"
and typed_items :: "cbz_class \<Rightarrow> 'd cval list \<Rightarrow> bool" where
  "well_typed t VNone \<longleftrightarrow> (case t of TSequence k \<Rightarrow> False | _ \<Rightarrow> True)"
| "well_typed t (VStr s) \<longleftrightarrow> t = TStr \<and> s \<noteq> []"
| "well_typed t (VInt i) \<longleftrightarrow> t = TInt \<and> 0 \<le> i \<and> i < 10 ^ 9"
| "well_typed t (VUuid n) \<longleftrightarrow> t = TUuid \<and> 0 \<le> n \<and> n < 2 ^ 128"
| "well_typed t (VDatetime d) \<longleftrightarrow> t = TDatetime"
| "well_typed t (VObj cls ps) \<longleftrightarrow> t = TElement cls \<and> typed_fields (fields cls) ps"
| "well_typed t (VList vs) \<longleftrightarrow> (case t of TSequence k \<Rightarrow> typed_items k vs | _ \<Rightarrow> False)"
| "typed_fields [] [] \<longleftrightarrow> True"
| "typed_fields ((n, t) # fs) ((m, v) # ps) \<longleftrightarrow> m = n \<and> well_typed t v \<and> typed_fields fs ps"
| "typed_fields [] (p # ps) \<longleftrightarrow> False"
| "typed_fields (f # fs) [] \<longleftrightarrow> False"
| "typed_items k [] \<longleftrightarrow> True"
| "typed_items k (v # vs) \<longleftrightarrow> v \<noteq> VNone \<and> well_typed (TElement k) v \<and> typed_items k vs"

section \<open>Reading back\<close>

lemma fields_distinct: "distinct (map (normalise_name \<circ> fst) (fields cls))" "distinct (map fst (fields cls))"
  by (cases cls; simp add: normalise_name_def py_lower_def strip_right_def base_fields_def network_fields_def)+

lemma field_of_member:
  assumes "(n, t) \<in> set (fields cls)" "normalise_name key = normalise_name n"
  shows "field_of cls key = Some (n, t)"
proof -
  have "find (\<lambda>(m, u). normalise_name m = normalise_name n) fs = Some (n, t)"
    if "distinct (map (normalise_name \<circ> fst) fs)" "(n, t) \<in> set fs" for fs :: "(string \<times> field_type) list"
    using that by (induction fs) (force simp: image_iff)+
  from this [OF fields_distinct(1) assms(1)] show ?thesis by (simp add: field_of_def assms(2))
qed

lemma xdigit_val: "d < 16 \<Longrightarrow> hexdigit_val (xdigit d) = Some d"
  by (simp add: hexdigit_val_def xdigit_def Let_def)

lemma xdigit_plain:
  assumes "d < 16" "c \<in> {CHR ''u'', CHR ''-'', CHR ''{'', CHR ''}'', CHR ''x'', CHR ''X'', CHR ''+'', CHR ''_'', CHR '' ''}"
  shows "xdigit d \<noteq> c"
proof -
  have "hexdigit_val c = None" using assms(2) by (auto simp: hexdigit_val_def)
  with xdigit_val [OF assms(1)] show ?thesis by auto
qed

lemma xdigits_chars: "c \<in> set (xdigits k n) \<Longrightarrow> \<exists>d < 16. c = xdigit d"
  by (induction k arbitrary: n) (auto, metis mod_less_divisor zero_less_numeral)

lemma xdigits_length [simp]: "length (xdigits k n) = k"
  by (induction k arbitrary: n) simp_all

lemma hex_digits_all:
  "list_all (\<lambda>c. hexdigit_val c \<noteq> None) s \<Longrightarrow> s \<noteq> [] \<or> b \<Longrightarrow>
    hex_digits acc b s = Some (foldl (\<lambda>a c. 16 * a + the (hexdigit_val c)) acc s)"
  by (induction acc b s rule: hex_digits.induct) (auto split: option.splits)

lemma xdigits_value: "foldl (\<lambda>a c. 16 * a + the (hexdigit_val c)) acc (xdigits k n) = acc * 16 ^ k + n mod 16 ^ k"
  by (induction k arbitrary: n) (simp_all add: xdigit_val mod_mult2_eq algebra_simps)

lemma xdigits_all: "list_all (\<lambda>c. hexdigit_val c \<noteq> None) (xdigits k n)"
  by (auto simp: list_all_iff xdigit_val dest!: xdigits_chars)

lemma xdigits_plain:
  "c \<in> {CHR ''u'', CHR ''-'', CHR ''{'', CHR ''}'', CHR ''x'', CHR ''X'', CHR ''+'', CHR ''_'', CHR '' ''} \<Longrightarrow>
    c \<notin> set (xdigits k n)"
  using xdigit_plain xdigits_chars by metis

lemma remove_all_absent: "c \<notin> set s \<Longrightarrow> remove_all (c # pat) s = s"
proof (induction s)
  case (Cons x s)
  then show ?case by (subst remove_all.simps) auto
qed (simp add: remove_all.simps)

lemma strip_xdigits: "list_all (\<lambda>c. hexdigit_val c \<noteq> None) s \<Longrightarrow> py_strip s = s"
proof -
  have sp: "hexdigit_val c = None" if "is_space c" for c
    using that by (auto simp: is_space_def hexdigit_val_def Let_def)
  have "dropWhile is_space t = t" if "list_all (\<lambda>c. hexdigit_val c \<noteq> None) t" for t
    using that sp by (cases t) auto
  moreover assume "list_all (\<lambda>c. hexdigit_val c \<noteq> None) s"
  ultimately show ?thesis by (simp add: py_strip_def list_all_rev)
qed

lemma py_int16_text:
  assumes "n < 16 ^ k" "0 < k"
  shows "py_int16 (xdigits k n) = Inr (int n)"
proof -
  let ?s = "xdigits k n"
  have s: "py_strip ?s = ?s" by (rule strip_xdigits [OF xdigits_all])
  obtain c cs where c: "?s = c # cs" using assms(2) by (cases ?s) (auto dest: arg_cong [where f = length])
  have "hexdigit_val (CHR ''-'') = None" "hexdigit_val (CHR ''+'') = None" "hexdigit_val (CHR ''x'') = None" "hexdigit_val (CHR ''X'') = None"
    by (simp_all add: hexdigit_val_def)
  then have h: "c \<noteq> CHR ''-''" "c \<noteq> CHR ''+''" "take 2 ?s \<notin> {''0x'', ''0X''}"
    using xdigits_all [of k n] unfolding c by (cases cs; auto)+
  have "\<not> starts_with ''0x'' ?s" "\<not> starts_with ''0X'' ?s" using h(3) by (auto simp: starts_with_def numeral_2_eq_2)
  moreover have "hex_digits 0 False ?s = Some n"
    using hex_digits_all [OF xdigits_all [of k n], of False 0] xdigits_value [of 0 k n] assms c by simp
  ultimately show ?thesis using h(1,2) s c by (auto simp: py_int16_def Let_def simp del: hex_digits.simps)
qed

lemma uuid_text:
  assumes "0 \<le> n" "n < 2 ^ 128"
  shows "py_uuid (show_uuid n) = Inr n"
proof -
  define s where "s = xdigits 32 (nat n)"
  have plain: "CHR ''u'' \<notin> set (show_uuid n)" "CHR ''{'' \<notin> set (show_uuid n)" "CHR ''}'' \<notin> set (show_uuid n)"
    using xdigits_plain [of _ 32 "nat n"] by (auto simp: show_uuid_def Let_def dest!: in_set_takeD in_set_dropD)
  have "dropWhile brace t = t" if "CHR ''{'' \<notin> set t" "CHR ''}'' \<notin> set t" for t
    using that by (cases t) (auto simp: brace_def)
  with plain have "dropWhile brace (show_uuid n) = show_uuid n" "dropWhile brace (rev (show_uuid n)) = rev (show_uuid n)"
    by simp_all
  moreover have "filter (\<lambda>c. c \<noteq> CHR ''-'') (show_uuid n) = s"
  proof -
    have "CHR ''-'' \<notin> set s" using xdigits_plain by (simp add: s_def)
    then have f: "filter (\<lambda>c. c \<noteq> CHR ''-'') (take a (drop b s)) = take a (drop b s)"
      "filter (\<lambda>c. c \<noteq> CHR ''-'') (take a s) = take a s" "filter (\<lambda>c. c \<noteq> CHR ''-'') (drop b s) = drop b s" for a b
      by (auto intro!: filter_True dest!: in_set_takeD in_set_dropD)
    have j: "take a (drop b s) @ drop (a + b) s = drop b s" for a b
      by (metis append_take_drop_id drop_drop)
    show ?thesis
      using j [of 4 16] j [of 4 12] j [of 4 8] by (simp add: show_uuid_def Let_def s_def [symmetric] f)
  qed
  moreover have "nat n < 16 ^ 32" using assms by (simp add: nat_less_iff)
  ultimately show ?thesis
    using remove_all_absent [OF plain(1)] py_int16_text [of "nat n" 32] assms
    by (simp add: py_uuid_def Let_def s_def)
qed

text \<open>What the attributes and the children of a value do to the parameters.\<close>

fun attribute_step :: "(string \<Rightarrow> bool) \<Rightarrow> string \<times> 'd cval \<Rightarrow> (string \<Rightarrow> 'd cval) \<Rightarrow> string \<Rightarrow> 'd cval" where
  "attribute_step attr (n, v) params = (if simple_text v \<noteq> None \<and> attr n then params(n := v) else params)"

fun child_step :: "(string \<Rightarrow> bool) \<Rightarrow> string \<times> 'd cval \<Rightarrow> (string \<Rightarrow> 'd cval) \<Rightarrow> string \<Rightarrow> 'd cval" where
  "child_step attr (n, v) params = (if v = VNone \<or> simple_text v \<noteq> None \<and> attr n then params else params(n := v))"

lemma typed_names: "typed_fields fs ps \<Longrightarrow> map fst ps = map fst fs"
proof (induction ps arbitrary: fs)
  case (Cons p ps)
  then show ?case by (cases p; cases fs) auto
qed (metis list.simps(8) typed_fields.simps(4) list.exhaust)

lemma typed_member: "typed_fields fs ps \<Longrightarrow> (n, v) \<in> set ps \<Longrightarrow> \<exists>t. (n, t) \<in> set fs \<and> well_typed t v"
proof (induction ps arbitrary: fs)
  case (Cons p ps)
  obtain m w where p: "p = (m, w)" by fastforce
  with Cons.prems(1) obtain t fs' where fs: "fs = (m, t) # fs'" "well_typed t w" "typed_fields fs' ps" by (cases fs) auto
  show ?case using Cons.IH [OF fs(3)] Cons.prems(2) fs(1,2) p by auto
qed simp

lemma attribute_written:
  assumes "well_typed t v" "simple_text v = Some s"
  shows "attribute_value t s = Inr v"
  using assms py_int_str uuid_text by (cases v) auto

lemma read_written_attributes:
  assumes "\<And>n. normalise_name (spell n) = normalise_name n"
    and "typed_fields fs ps" "set fs \<subseteq> set (fields cls)"
  shows "read_attributes cls (write_attributes spell attr ps) params = Inr (fold (attribute_step attr) ps params)"
  using assms(2,3)
proof (induction ps arbitrary: fs params)
  case (Cons p ps)
  obtain n v where p: "p = (n, v)" by fastforce
  with Cons.prems obtain t fs' where fs: "fs = (n, t) # fs'" "well_typed t v" "typed_fields fs' ps"
    by (cases fs) auto
  have f: "field_of cls (spell n) = Some (n, t)"
    using Cons.prems(2) fs(1) assms(1) by (intro field_of_member) auto
  have "read_attributes cls (write_attributes spell attr ps) params' = Inr (fold (attribute_step attr) ps params')" for params'
    using Cons.IH [OF fs(3)] Cons.prems(2) fs(1) by auto
  then show ?case
    using f attribute_written [OF fs(2)] by (cases "simple_text v") (simp_all add: p)
qed simp

lemma fold_attributes:
  assumes "distinct (map fst ps)"
  shows "fold (attribute_step attr) ps params n =
      (case map_of ps n of Some v \<Rightarrow> if simple_text v \<noteq> None \<and> attr n then v else params n | None \<Rightarrow> params n)"
  using assms
proof (induction ps arbitrary: params)
  case (Cons p ps)
  obtain m v where p: "p = (m, v)" by fastforce
  with Cons.prems have "map_of ps m = None" by (simp add: map_of_eq_None_iff)
  then show ?case using Cons.IH [of "attribute_step attr p params"] Cons.prems by (auto simp: p split: option.split)
qed simp

lemma fold_children:
  assumes "distinct (map fst ps)"
  shows "fold (child_step attr) ps params n =
      (case map_of ps n of Some v \<Rightarrow> if v = VNone \<or> simple_text v \<noteq> None \<and> attr n then params n else v | None \<Rightarrow> params n)"
  using assms
proof (induction ps arbitrary: params)
  case (Cons p ps)
  obtain m v where p: "p = (m, v)" by fastforce
  with Cons.prems have "map_of ps m = None" by (simp add: map_of_eq_None_iff)
  then show ?case using Cons.IH [of "child_step attr p params"] Cons.prems by (auto simp: p split: option.split)
qed simp

text \<open>An element that is read back as the value, whatever its tag.\<close>

definition reads_back ::
  "(string \<Rightarrow> 'd result) \<Rightarrow> (string \<Rightarrow> string) \<Rightarrow> (string \<Rightarrow> bool) \<Rightarrow> ('d \<Rightarrow> string) \<Rightarrow> 'd cval \<Rightarrow> bool" where
  "reads_back isodate spell attr show v \<longleftrightarrow>
     (\<forall>k t. well_typed (TElement k) v \<and> v \<noteq> VNone \<longrightarrow> from_element isodate k (write_element spell attr show t v) = Inr v)"

lemma read_written_items:
  assumes "\<And>n. normalise_name (spell n) = normalise_name n"
    and "\<And>v. v \<in> set vs \<Longrightarrow> reads_back isodate spell attr show v"
    and "typed_items k vs" "(n, TSequence k) \<in> set (fields cls)" "params n = VList us"
  shows "read_children isodate cls (write_items spell attr show n vs @ rest) params =
    read_children isodate cls rest (params(n := VList (us @ vs)))"
  using assms(2,3,5)
proof (induction vs arbitrary: us params)
  case Nil
  then have "params(n := VList us) = params" by auto
  then show ?case by simp
next
  case (Cons v vs)
  have f: "field_of cls (spell n) = Some (n, TSequence k)" using assms(1,4) by (rule field_of_member [rotated])
  have v: "from_element isodate k (write_element spell attr show (spell n) v) = Inr v"
    using Cons.prems(1,2) by (auto simp: reads_back_def)
  have "tag (write_element spell attr show (spell n) v) = spell n" by (cases v) simp_all
  moreover have "store n v params = params(n := VList (us @ [v]))" using Cons.prems(3) by (simp add: store_def)
  moreover have "read_children isodate cls (write_items spell attr show n vs @ rest) (params(n := VList (us @ [v]))) =
      read_children isodate cls rest (params(n := VList (us @ [v]), n := VList ((us @ [v]) @ vs)))"
    by (rule Cons.IH) (use Cons.prems in auto)
  ultimately show ?case using f v
    by (simp only: write_items.simps append_Cons read_children.simps option.case prod.case field_type.case rbind.simps
        fun_upd_upd append_assoc append_Nil)
qed

lemma text_written:
  assumes "well_typed t v" "simple_text v = Some s"
  shows "text_child isodate t (Some s) = Inr v"
  using assms py_int_str uuid_text by (cases v) auto

text \<open>The elements of a list, and the value of a field.\<close>

fun parts :: "'d cval \<Rightarrow> 'd cval list" where
  "parts (VList vs) = vs"
| "parts v = [v]"

definition unset :: "'d cval \<Rightarrow> 'd cval" where
  "unset v = (case v of VList _ \<Rightarrow> VList [] | _ \<Rightarrow> VNone)"

lemma read_written_field:
  assumes spell: "\<And>n. normalise_name (spell n) = normalise_name n" and date: "\<And>d. isodate (show d) = Inr d"
    and again: "\<And>u. u \<in> set (parts v) \<Longrightarrow> reads_back isodate spell attr show u"
    and "well_typed t v" "(n, t) \<in> set (fields cls)" "simple_text v \<noteq> None \<and> attr n \<or> params n = unset v"
  shows "read_children isodate cls (write_field spell attr show n v @ rest) params =
    read_children isodate cls rest (child_step attr (n, v) params)"
proof -
  have f: "field_of cls (spell n) = Some (n, t)" using assms(5) spell by (rule field_of_member)
  have simple: ?thesis if "simple_text v = Some s" for s
  proof -
    have w: "write_field spell attr show n v = (if attr n then [] else [Element (spell n) [] (Some s) []])"
      using that by (cases v) auto
    have "v \<noteq> VNone" "unset v = VNone" "case t of TElement _ \<Rightarrow> False | TSequence _ \<Rightarrow> False | _ \<Rightarrow> True"
      using that assms(4) by (cases v; auto simp: unset_def)+
    then show ?thesis using f that assms(6) text_written [OF assms(4) that, of isodate]
      unfolding w by (cases t) (auto simp: store_def)
  qed
  show ?thesis
  proof (cases v)
    case (VDatetime d)
    then show ?thesis using f assms(4,6) date by (simp add: store_def unset_def)
  next
    case (VObj c ps)
    then have "from_element isodate c (write_element spell attr show (spell n) v) = Inr v"
      using again [of v] assms(4) by (simp add: reads_back_def)
    then show ?thesis using f assms(4,6) VObj by (simp add: store_def unset_def)
  next
    case (VList vs)
    then obtain k where k: "t = TSequence k" "typed_items k vs" using assms(4) by (cases t) auto
    have "read_children isodate cls (write_items spell attr show n vs @ rest) params =
        read_children isodate cls rest (params(n := VList ([] @ vs)))"
      using again assms(5,6) VList k by (intro read_written_items [OF spell]) (auto simp: unset_def)
    then show ?thesis using VList by simp
  qed (use simple in \<open>simp_all del: write_field.simps\<close>, simp)
qed

lemma read_written_children:
  assumes spell: "\<And>n. normalise_name (spell n) = normalise_name n" and date: "\<And>d. isodate (show d) = Inr d"
    and "\<And>n v u. (n, v) \<in> set ps \<Longrightarrow> u \<in> set (parts v) \<Longrightarrow> reads_back isodate spell attr show u"
    and "typed_fields fs ps" "set fs \<subseteq> set (fields cls)" "distinct (map fst ps)"
    and "\<And>n v. (n, v) \<in> set ps \<Longrightarrow> simple_text v \<noteq> None \<and> attr n \<or> params n = unset v"
  shows "read_children isodate cls (write_children spell attr show ps) params = Inr (fold (child_step attr) ps params)"
  using assms(3-7)
proof (induction ps arbitrary: fs params)
  case (Cons p ps)
  obtain n v where p: "p = (n, v)" by fastforce
  with Cons.prems(2) obtain t fs' where fs: "fs = (n, t) # fs'" "well_typed t v" "typed_fields fs' ps" by (cases fs) auto
  have "read_children isodate cls (write_field spell attr show n v @ write_children spell attr show ps) params =
      read_children isodate cls (write_children spell attr show ps) (child_step attr (n, v) params)"
    by (rule read_written_field [OF spell date _ fs(2)]) (use Cons.prems p fs(1) in auto)
  moreover have "read_children isodate cls (write_children spell attr show ps) (child_step attr (n, v) params) =
      Inr (fold (child_step attr) ps (child_step attr (n, v) params))"
  proof (rule Cons.IH [OF _ fs(3)])
    fix m w assume "(m, w) \<in> set ps"
    with Cons.prems(4) p have "m \<noteq> n" by force
    with Cons.prems(5) \<open>(m, w) \<in> set ps\<close> show "simple_text w \<noteq> None \<and> attr m \<or> child_step attr (n, v) params m = unset w"
      by (metis child_step.simps fun_upd_other list.set_intros(2))
  qed (use Cons.prems p fs(1) in auto)
  ultimately show ?case by (simp add: p)
qed simp

lemma reads_back_object:
  assumes spell: "\<And>n. normalise_name (spell n) = normalise_name n" and date: "\<And>d. isodate (show d) = Inr d"
    and again: "\<And>n v u. (n, v) \<in> set ps \<Longrightarrow> u \<in> set (parts v) \<Longrightarrow> reads_back isodate spell attr show u"
    and well_typed: "typed_fields (fields cls) ps"
  shows "from_element isodate cls (write_element spell attr show t (VObj cls ps)) = Inr (VObj cls ps)"
proof -
  have names: "map fst ps = map fst (fields cls)" by (rule typed_names [OF well_typed])
  then have dist: "distinct (map fst ps)" using fields_distinct(2) [of cls] by simp
  let ?p0 = "new_params cls" and ?p1 = "fold (attribute_step attr) ps (new_params cls)"
  have unset: "new_params cls n = unset v \<and> map_of ps n = Some v" if nv: "(n, v) \<in> set ps" for n v
  proof -
    obtain u where u: "(n, u) \<in> set (fields cls)" "well_typed u v" using typed_member [OF well_typed nv] by blast
    then have "map_of (fields cls) n = Some u" using fields_distinct(2) by (intro map_of_is_SomeI)
    moreover have "new_value u = unset v" using u(2) by (cases v; cases u) (auto simp: unset_def)
    ultimately show ?thesis using nv dist by (simp add: new_params_def)
  qed
  have "read_children isodate cls (write_children spell attr show ps) ?p1 = Inr (fold (child_step attr) ps ?p1)"
  proof (rule read_written_children [OF spell date again well_typed order_refl dist])
    fix n v assume "(n, v) \<in> set ps"
    then show "simple_text v \<noteq> None \<and> attr n \<or> ?p1 n = unset v"
      using unset [of n v] by (auto simp: fold_attributes [OF dist])
  qed
  moreover have "fold (child_step attr) ps ?p1 n = v" if "(n, v) \<in> set ps" for n v
    using unset [OF that] by (cases v) (auto simp: fold_attributes [OF dist] fold_children [OF dist] unset_def)
  then have "map (\<lambda>(n, v). (n, fold (child_step attr) ps ?p1 n)) ps = ps" by (intro map_idI) auto
  then have "map (\<lambda>n. (n, fold (child_step attr) ps ?p1 n)) (map fst ps) = ps" by (simp add: comp_def case_prod_unfold)
  then have "map (\<lambda>(n, t). (n, fold (child_step attr) ps ?p1 n)) (fields cls) = ps"
    unfolding names by (simp add: comp_def case_prod_unfold)
  ultimately show ?thesis
    using read_written_attributes [OF spell well_typed order_refl, of attr "new_params cls"] by simp
qed

lemma written_reads_back:
  assumes spell: "\<And>n. normalise_name (spell n) = normalise_name n" and date: "\<And>d. isodate (show d) = Inr d"
  shows "u \<in> set (parts v) \<Longrightarrow> reads_back isodate spell attr show u"
proof (induction v arbitrary: u)
  case (VObj cls ps)
  have "reads_back isodate spell attr show u'" if "(n, w) \<in> set ps" "u' \<in> set (parts w)" for n w u'
    using VObj.IH [OF that(1) _ that(2)] by simp
  then show ?case using VObj.prems reads_back_object [OF spell date] by (auto simp: reads_back_def)
next
  case (VList vs)
  show ?case
  proof (cases "\<exists>ws. u = VList ws")
    case False
    then have "u \<in> set (parts u)" by (cases u) auto
    with VList show ?thesis by simp
  qed (auto simp: reads_back_def)
qed (auto simp: reads_back_def)

section \<open>Projects\<close>

text \<open>
  A network as the statement below gives it: its name, and for every application an address, a name
  and the labels of its groups. The other fields of the elements are missing.
\<close>

type_synonym network_labels = "string \<times> (int \<times> string \<times> (int \<times> string) list) list"

definition element_of :: "cbz_class \<Rightarrow> (string \<times> 'd cval) list \<Rightarrow> 'd cval" where
  "element_of cls given = VObj cls (map (\<lambda>(n, t). (n, case map_of given n of Some v \<Rightarrow> v | None \<Rightarrow> new_value t)) (fields cls))"

definition group_element :: "int \<times> string \<Rightarrow> 'd cval" where
  "group_element g = element_of Group [(''address'', VInt (fst g)), (''tag_name'', VStr (snd g))]"

definition application_element :: "int \<times> string \<times> (int \<times> string) list \<Rightarrow> 'd cval" where
  "application_element a = element_of Application
     [(''address'', VInt (fst a)), (''tag_name'', VStr (fst (snd a))), (''groups'', VList (map group_element (snd (snd a))))]"

definition network_element :: "network_labels \<Rightarrow> 'd cval" where
  "network_element w = element_of Network
     [(''tag_name'', VStr (fst w)), (''applications'', VList (map application_element (snd w)))]"

definition installation_of :: "network_labels list \<Rightarrow> 'd cval" where
  "installation_of ws = element_of Installation
     [(''project'', element_of Project [(''network'', VList (map network_element ws))])]"

definition label_ok :: "int \<times> string \<Rightarrow> bool" where
  "label_ok g \<longleftrightarrow> 0 \<le> fst g \<and> fst g < 10 ^ 9 \<and> snd g \<noteq> []"

definition network_ok :: "network_labels \<Rightarrow> bool" where
  "network_ok w \<longleftrightarrow> fst w \<noteq> [] \<and> distinct (map fst (snd w)) \<and>
     list_all (\<lambda>a. label_ok (fst a, fst (snd a)) \<and> list_all label_ok (snd (snd a)) \<and>
       distinct (map fst (snd (snd a)))) (snd w)"

lemma typed_items_iff: "typed_items k vs \<longleftrightarrow> list_all (\<lambda>v. v \<noteq> VNone \<and> well_typed (TElement k) v) vs"
  by (induction vs) auto

lemmas element_defs = element_of_def base_fields_def network_fields_def

lemma typed_group: "label_ok g \<Longrightarrow> well_typed (TElement Group) (group_element g) \<and> group_element g \<noteq> VNone"
  by (simp add: group_element_def element_defs label_ok_def)

lemma typed_application:
  "label_ok (fst a, fst (snd a)) \<Longrightarrow> list_all label_ok (snd (snd a)) \<Longrightarrow>
    well_typed (TElement Application) (application_element a) \<and> application_element a \<noteq> VNone"
  using typed_group
  by (auto simp: application_element_def element_defs label_ok_def typed_items_iff list_all_iff)

lemma typed_network:
  assumes "network_ok w"
  shows "well_typed (TElement Network) (network_element w :: 'd cval) \<and> (network_element w :: 'd cval) \<noteq> VNone"
proof -
  have "list_all (\<lambda>a. (application_element a :: 'd cval) \<noteq> VNone \<and> well_typed (TElement Application) (application_element a :: 'd cval))
      (snd w)"
    using assms typed_application unfolding network_ok_def list_all_iff by blast
  then show ?thesis using assms
    by (simp add: network_element_def element_defs typed_items_iff list.pred_map comp_def network_ok_def)
qed

lemma typed_installation:
  assumes "list_all network_ok ws"
  shows "well_typed (TElement Installation) (installation_of ws :: 'd cval)"
proof -
  have "list_all (\<lambda>w. (network_element w :: 'd cval) \<noteq> VNone \<and> well_typed (TElement Network) (network_element w :: 'd cval)) ws"
    using assms typed_network unfolding list_all_iff by blast
  then show ?thesis
    by (simp add: installation_of_def element_defs typed_items_iff list.pred_map comp_def)
qed

text \<open>A dictionary whose keys are distinct lists its entries in order.\<close>

lemma dict_of_distinct:
  assumes "\<And>x. x \<in> set xs \<Longrightarrow> f x = Inr (g x)" "distinct (map fst d @ map (fst \<circ> g) xs)"
  shows "dict_of f xs d = Inr (d @ map g xs)"
  using assms
proof (induction xs arbitrary: d)
  case (Cons x xs)
  obtain k v where g: "g x = (k, v)" by fastforce
  with Cons.prems(2) have "k \<notin> set (map fst d)" by auto
  then have "AList.update k v d = d @ [(k, v)]" by (induction d) auto
  then show ?case using Cons.IH [of "d @ [(k, v)]"] Cons.prems g by (simp add: comp_def)
qed simp

lemma read_group: "group_entry (group_element g) = Inr (VInt (fst g), VStr (snd g))"
  by (simp add: group_entry_def group_element_def element_defs)

lemma read_groups:
  assumes "distinct (map fst gs)"
  shows "dict_of group_entry (map group_element gs) [] = Inr (map (\<lambda>g. (VInt (fst g), VStr (snd g))) gs)"
proof -
  have "dict_of group_entry (map group_element gs) [] =
      Inr ([] @ map (\<lambda>e. projr (group_entry e)) (map group_element gs))"
    by (rule dict_of_distinct) (use assms in \<open>auto simp: read_group distinct_map inj_on_def\<close>)
  then show ?thesis by (simp add: read_group comp_def)
qed

definition value_entry :: "int \<times> string \<times> (int \<times> string) list \<Rightarrow> 'd cval \<times> 'd cval \<times> ('d cval \<times> 'd cval) list" where
  "value_entry a = (VInt (fst a), VStr (fst (snd a)), map (\<lambda>g. (VInt (fst g), VStr (snd g))) (snd (snd a)))"

lemma read_application:
  "distinct (map fst (snd (snd a))) \<Longrightarrow> application_entry (application_element a) = Inr (value_entry a)"
  by (simp add: application_entry_def application_element_def element_defs get_items_def read_groups value_entry_def)

lemma read_applications:
  assumes "network_ok w"
  shows "rbind (get_items ''applications'' (network_element w)) (\<lambda>apps. dict_of application_entry apps []) =
    Inr (map value_entry (snd w))"
proof -
  have d: "distinct (map fst (snd (snd a)))" if "a \<in> set (snd w)" for a
    using assms that by (auto simp: network_ok_def list_all_iff)
  have "dict_of application_entry (map application_element (snd w)) [] =
      Inr ([] @ map (\<lambda>e. projr (application_entry e)) (map application_element (snd w)))"
    by (rule dict_of_distinct)
      (use assms d in \<open>auto simp: read_application network_ok_def distinct_map inj_on_def value_entry_def\<close>)
  also have "map (\<lambda>e. projr (application_entry e)) (map application_element (snd w)) = map value_entry (snd w)"
    using d by (simp add: read_application)
  finally show ?thesis by (simp add: get_items_def network_element_def element_defs)
qed

text \<open>The network that is chosen: the first of the name, or the first of all.\<close>

definition chosen :: "string option \<Rightarrow> network_labels list \<Rightarrow> network_labels option" where
  "chosen name ws = (case name of None \<Rightarrow> (case ws of [] \<Rightarrow> None | w # _ \<Rightarrow> Some w) | Some s \<Rightarrow> find (\<lambda>w. fst w = s) ws)"

lemma find_network:
  "find_field ''tag_name'' (VStr s) (map network_element ws) = Inr (map_option network_element (find (\<lambda>w. fst w = s) ws))"
  by (induction ws) (simp_all add: network_element_def element_defs)

lemma choose_network_element:
  "choose_network name (map network_element ws) =
     (case chosen name ws of None \<Rightarrow> Inl ValueError | Some w \<Rightarrow> Inr (network_element w))"
proof (cases name)
  case (Some s)
  show ?thesis by (simp add: Some choose_network_def chosen_def find_network split: option.split)
qed (simp add: choose_network_def chosen_def split: list.split)

lemma chosen_member: "chosen name ws = Some w \<Longrightarrow> w \<in> set ws"
  by (auto simp: chosen_def find_Some_iff split: option.splits list.splits)

lemma read_installation:
  assumes "list_all network_ok ws"
  shows "read_cbz_labels opt (installation_of ws) =
    (case chosen (asked_network opt) ws of None \<Rightarrow> Inl ValueError | Some w \<Rightarrow> Inr (map value_entry (snd w)))"
proof -
  have n: "rbind (get_field ''project'' (installation_of ws)) (get_items ''network'') = Inr (map network_element ws)"
    by (simp add: installation_of_def element_defs get_items_def)
  show ?thesis
  proof (cases "chosen (asked_network opt) ws")
    case (Some w)
    then have "network_ok w" using assms chosen_member [OF Some] by (simp add: list_all_iff)
    then show ?thesis using Some by (simp add: read_cbz_labels_def n choose_network_element read_applications)
  qed (simp add: read_cbz_labels_def n choose_network_element)
qed

section \<open>Properties\<close>

text \<open>
  C15: Whatever well-well_typed element is written as XML is read back as it was: fields as attributes or as
  children, in any spelling of their names with capitals, underscores or a plural s, with missing
  values left out, and nested elements to any depth.
\<close>

theorem element_roundtrip:
  assumes "\<And>n. normalise_name (spell n) = normalise_name n" and "\<And>d. isodate (show_date d) = Inr d"
    and "well_typed (TElement cls) v" and "v \<noteq> VNone"
  shows "from_element isodate cls (write_element spell attr show_date t v) = Inr v"
proof -
  have "v \<in> set (parts v)" using assms(3) by (cases v) auto
  from written_reads_back [OF assms(1,2) this] show ?thesis using assms(3,4) by (simp add: reads_back_def)
qed

theorem element_roundtrip_witness:
  "from_element Inr Interface (write_element (map (\<lambda>c. if c = CHR ''t'' then CHR ''T'' else c)) (\<lambda>n. n = ''oid'') id ''Interface''
     (VObj Interface [(''oid'', VUuid 5), (''interface_type'', VStr ''CNI''), (''interface_address'', VNone)])) =
   Inr (VObj Interface [(''oid'', VUuid 5), (''interface_type'', VStr ''CNI''), (''interface_address'', VNone)])"
proof -
  let ?spell = "map (\<lambda>c. if c = CHR ''t'' then CHR ''T'' else c)"
  have "normalise_name (?spell n) = normalise_name n" for n
  proof -
    have "char_of (116 :: nat) = CHR ''t''" by code_simp
    then have "py_lower (?spell n) = py_lower n" by (auto simp: py_lower_def)
    then show ?thesis by (simp add: normalise_name_def)
  qed
  moreover have "Inr (id d) = Inr d" for d :: string by simp
  moreover have "well_typed (TElement Interface) (VObj Interface [(''oid'', VUuid 5), (''interface_type'', VStr ''CNI''),
      (''interface_address'', VNone)])" by (simp add: base_fields_def)
  ultimately show ?thesis by (rule element_roundtrip) simp
qed

text \<open>
  C21: The labels of a project file are those of the network that was asked for. When networks with
  their applications and labelled groups are written as a project, opened and read, the result is the
  labels of the first network with the name, or of the first one when no name is given, in order; if
  there is none, \<open>ValueError\<close>.
\<close>

theorem project_labels:
  fixes isodate :: "string \<Rightarrow> 'd result"
  assumes "\<And>n. normalise_name (spell n) = normalise_name n" and "\<And>d. isodate (show_date d) = Inr d"
    and "list_all network_ok ws"
  shows "rbind (open_cbz isodate is_name (Some [''project.xml'']) (Inr (write_element spell attr show_date t (installation_of ws))))
      (read_cbz_labels opt) =
    (case chosen (asked_network opt) ws of None \<Rightarrow> Inl ValueError | Some w \<Rightarrow> Inr (map value_entry (snd w)))"
proof -
  let ?v = "installation_of ws :: 'd cval"
  have "?v \<in> set (parts ?v)" "?v \<noteq> VNone"
    by (simp_all add: installation_of_def element_of_def)
  then have "from_element isodate Installation (write_element spell attr show_date t ?v) = Inr ?v"
    using written_reads_back [OF assms(1,2), of ?v ?v attr] typed_installation [where 'd = 'd, OF assms(3)]
    by (simp add: reads_back_def)
  moreover have "ends_with ''.xml'' ''project.xml''" by (simp add: ends_with_def)
  ultimately show ?thesis by (simp add: open_cbz_def read_installation [OF assms(3)])
qed

theorem project_labels_witness:
  "rbind (open_cbz Inr False (Some [''project.xml'']) (Inr (write_element id (\<lambda>n. True) id ''Installation''
       (installation_of [(''Shed'', []), (''Home'', [(56, ''Lighting'', [(1, ''Kitchen''), (2, ''Hall'')])])]))))
     (read_cbz_labels (Some [''Home''])) =
   Inr [(VInt 56, VStr ''Lighting'', [(VInt 1, VStr ''Kitchen''), (VInt 2, VStr ''Hall'')])]"
proof -
  let ?ws = "[(''Shed'', []), (''Home'', [(56, ''Lighting'', [(1, ''Kitchen''), (2, ''Hall'')])])] :: network_labels list"
  have "list_all network_ok ?ws" by (simp add: network_ok_def label_ok_def)
  moreover have "normalise_name (id n) = normalise_name n" "Inr (id d) = Inr d" for n and d :: string by simp_all
  moreover have "chosen (asked_network (Some [''Home''])) ?ws = Some (''Home'', [(56, ''Lighting'', [(1, ''Kitchen''), (2, ''Hall'')])])"
    by (simp add: asked_network_def chosen_def)
  ultimately show ?thesis
    using project_labels [of id Inr id ?ws False "\<lambda>n. True" "''Installation''" "Some [''Home'']"]
    by (simp add: value_entry_def del: open_cbz_def)
qed

section \<open>Limits\<close>

text \<open>
  Two differences between what is written and what is read. An empty element has no text, which the
  reader turns into the string \<open>None\<close>; and a plain XML file that is given by its name, as
  \<open>dump_labels\<close> does, cannot be opened.
\<close>

lemma empty_element_reads_None: "text_child isodate TStr None = Inr (VStr ''None'')"
  by simp

lemma xml_by_name_fails: "open_cbz isodate True None parse_xml = Inl AttributeError"
  by (simp add: open_cbz_def)

end
