(* ===== verification/Dump_Labels.thy ===== *)
theory Dump_Labels
  imports Project_File Json
begin

text \<open>
  The tools \<open>cbus/toolkit/dump_labels.py\<close> and \<open>cbus/toolkit/graph.py\<close>: the structure of a
  project that the first prints as JSON, and the nodes and edges that the second draws from it. JSON
  is written and read by the standard library; \<open>key_text\<close> is what \<open>json.dump\<close> makes of a
  key. Text and numbers of a project are JSON values as they are.

  The lemmas show that the group addresses of a unit, which a project holds as hexadecimal text, are
  the ones the graph connects it to.
\<close>

section \<open>The structure of a project\<close>

fun json_of :: "'d cval \<Rightarrow> json" where
  "json_of (VStr s) = JString s"
| "json_of (VInt i) = JInt i"
| "json_of _ = JNull"

fun key_text :: "'d cval \<Rightarrow> string" where
  "key_text (VStr s) = s"
| "key_text (VInt i) = py_str i"
| "key_text _ = ''null''"

text \<open>A dictionary as an object, its keys printed.\<close>

definition json_dict :: "('d cval \<times> json) list \<Rightarrow> json" where
  "json_dict d = JObject (map (\<lambda>(k, v). (key_text k, v)) d)"

definition json_field :: "string \<Rightarrow> 'd cval \<Rightarrow> json result" where
  "json_field n v = rmap json_of (get_field n v)"

text \<open>An object with members that are fields of an element.\<close>

definition json_fields :: "(string \<times> string) list \<Rightarrow> 'd cval \<Rightarrow> (string \<times> json) list result" where
  "json_fields names v = rmapM (\<lambda>(k, n). rmap (Pair k) (json_field n v)) names"

fun text_of_value :: "'d cval \<Rightarrow> string result" where
  "text_of_value (VStr s) = Inr s"
| "text_of_value _ = Inl AttributeError"

definition channels_of :: "string \<Rightarrow> int list result" where
  "channels_of value = rmapM (\<lambda>c. py_int16 (drop 2 c)) (split_on (CHR '' '') value)"

definition unit_channels :: "'d cval \<Rightarrow> int list result" where
  "unit_channels u =
     rbind (get_items ''pp'' u) (rconcat (\<lambda>p.
       rbind (get_field ''name'' p) (\<lambda>nm.
         if nm = VStr ''GroupAddress'' then rbind (rbind (get_field ''value'' p) text_of_value) channels_of
         else Inr [])))"

definition dump_group :: "'d cval \<Rightarrow> ('d cval \<times> json) result" where
  "dump_group g = rbind (get_field ''address'' g) (\<lambda>a. rmap (Pair a) (json_field ''tag_name'' g))"

definition dump_application :: "'d cval \<Rightarrow> ('d cval \<times> json) result" where
  "dump_application app =
     rbind (json_fields [(''name'', ''tag_name''), (''address'', ''address''), (''description'', ''description'')] app) (\<lambda>ms.
     rbind (rbind (get_items ''groups'' app) (\<lambda>gs. dict_of dump_group gs [])) (\<lambda>groups.
     rmap (\<lambda>a. (a, JObject (ms @ [(''groups'', json_dict groups)]))) (get_field ''address'' app)))"

definition dump_unit :: "'d cval \<Rightarrow> ('d cval \<times> json) result" where
  "dump_unit u =
     rbind (unit_channels u) (\<lambda>channels.
     rbind (json_fields [(''name'', ''tag_name''), (''address'', ''address''), (''unittype'', ''unit_type''),
         (''unitname'', ''unit_name''), (''serial'', ''serial_number''), (''catalog'', ''catalog_number'')] u) (\<lambda>ms.
     rmap (\<lambda>a. (a, JObject (ms @ [(''groups'', JList (map JInt channels))]))) (get_field ''address'' u)))"

definition dump_network :: "'d cval \<Rightarrow> ('d cval \<times> json) result" where
  "dump_network w =
     rbind (json_fields [(''name'', ''tag_name''), (''address'', ''address''), (''networknumber'', ''network_number'')] w) (\<lambda>ms.
     rbind (rbind (get_items ''applications'' w) (\<lambda>apps. dict_of dump_application apps [])) (\<lambda>apps.
     rbind (rbind (get_items ''units'' w) (\<lambda>us. dict_of dump_unit us [])) (\<lambda>us.
     rmap (\<lambda>a. (a, JObject (ms @ [(''applications'', json_dict apps), (''units'', json_dict us)]))) (get_field ''address'' w))))"

definition dump_labels :: "'d cval \<Rightarrow> json result" where
  "dump_labels installation =
     rbind (rbind (get_field ''project'' installation) (get_items ''network'')) (\<lambda>ws.
       rmap json_dict (dict_of dump_network ws []))"

section \<open>The graph\<close>

text \<open>The graph of one network: its nodes in the order they are added, and its edges.\<close>

record network_graph =
  gr_units :: "string list"
  gr_loads :: "int set"
  gr_edges :: "(string \<times> string) list"

fun text_json :: "json \<Rightarrow> string result" where
  "text_json (JString s) = Inr s"
| "text_json _ = Inl TypeError"

fun int_json :: "json \<Rightarrow> int result" where
  "int_json (JInt i) = Inr i"
| "int_json _ = Inl TypeError"

fun members_json :: "json \<Rightarrow> (string \<times> json) list result" where
  "members_json (JObject ms) = Inr ms"
| "members_json _ = Inl AttributeError"

definition draw_unit :: "json \<Rightarrow> network_graph \<Rightarrow> network_graph result" where
  "draw_unit u g =
     rbind (rbind (jget u ''name'') text_json) (\<lambda>nm.
     rbind (rbind (rbind (jget u ''groups'') elements) (rmapM int_json)) (\<lambda>groups.
     Inr (g\<lparr>gr_units := gr_units g @ [nm], gr_loads := gr_loads g \<union> set groups,
            gr_edges := gr_edges g @ map (\<lambda>x. (nm, ''GA '' @ py_str x)) (filter (\<lambda>x. x \<noteq> 255) groups)\<rparr>)))"

fun draw_units :: "json list \<Rightarrow> network_graph \<Rightarrow> network_graph result" where
  "draw_units [] g = Inr g"
| "draw_units (u # us) g = rbind (draw_unit u g) (draw_units us)"

definition network_graph_of :: "json \<Rightarrow> network_graph result" where
  "network_graph_of network =
     rbind (rbind (jget network ''units'') members_json)
       (\<lambda>us. draw_units (map snd us) \<lparr>gr_units = [], gr_loads = {}, gr_edges = []\<rparr>)"

definition generate_graph :: "json \<Rightarrow> (string \<times> network_graph) list result" where
  "generate_graph networks =
     rbind (members_json networks) (rmapM (\<lambda>(i, n). rmap (Pair (''Network_'' @ i)) (network_graph_of n)))"

section \<open>Group addresses\<close>

text \<open>The text of group addresses in a project: numbers with the prefix \<open>0x\<close>, between spaces.\<close>

fun address_text :: "int list \<Rightarrow> string" where
  "address_text [] = []"
| "address_text [a] = ''0x'' @ xdigits 2 (nat a)"
| "address_text (a # as) = ''0x'' @ xdigits 2 (nat a) @ CHR '' '' # address_text as"

lemma read_address:
  assumes "is_byte a"
  shows "py_int16 (xdigits 2 (nat a)) = Inr a"
  using py_int16_text [of "nat a" 2] assms by (simp add: is_byte_def nat_less_iff)

lemma channels_text:
  assumes "as \<noteq> []" "list_all is_byte as"
  shows "channels_of (address_text as) = Inr as"
  using assms
proof (induction as rule: address_text.induct)
  case (2 a)
  have "CHR '' '' \<notin> set (xdigits 2 (nat a))" by (rule xdigits_plain) simp
  then show ?case using 2 read_address by (simp add: channels_of_def split_on_none)
next
  case (3 a b as)
  have "CHR '' '' \<notin> set (''0x'' @ xdigits 2 (nat a))" using xdigits_plain [of "CHR '' ''" 2 "nat a"] by simp
  then have "split_on (CHR '' '') (address_text (a # b # as)) =
      (''0x'' @ xdigits 2 (nat a)) # split_on (CHR '' '') (address_text (b # as))"
    using split_on_append [of "CHR '' ''" "''0x'' @ xdigits 2 (nat a)" "address_text (b # as)"] by simp
  then show ?case using 3 read_address by (simp add: channels_of_def)
qed simp

section \<open>From a project to its graph\<close>

text \<open>Networks as the statement gives them: an address, and for every unit an address, a name and groups.\<close>

type_synonym network_units = "int \<times> (int \<times> string \<times> int list) list"

definition parameter_element :: "string \<Rightarrow> string \<Rightarrow> 'd cval" where
  "parameter_element nm value = element_of PP [(''name'', VStr nm), (''value'', VStr value)]"

definition unit_element :: "int \<times> string \<times> int list \<Rightarrow> 'd cval" where
  "unit_element u = element_of Unit
     [(''address'', VInt (fst u)), (''tag_name'', VStr (fst (snd u))),
      (''pp'', VList [parameter_element ''Application'' ''0x38'', parameter_element ''GroupAddress'' (address_text (snd (snd u)))])]"

definition units_element :: "network_units \<Rightarrow> 'd cval" where
  "units_element w = element_of Network [(''address'', VInt (fst w)), (''units'', VList (map unit_element (snd w)))]"

definition project_of :: "network_units list \<Rightarrow> 'd cval" where
  "project_of ws = element_of Installation [(''project'', element_of Project [(''network'', VList (map units_element ws))])]"

definition units_ok :: "network_units \<Rightarrow> bool" where
  "units_ok w \<longleftrightarrow> distinct (map fst (snd w)) \<and> list_all (\<lambda>u. snd (snd u) \<noteq> [] \<and> list_all is_byte (snd (snd u))) (snd w)"

definition unit_json :: "int \<times> string \<times> int list \<Rightarrow> json" where
  "unit_json u = JObject
     [(''name'', JString (fst (snd u))), (''address'', JInt (fst u)), (''unittype'', JNull), (''unitname'', JNull),
      (''serial'', JNull), (''catalog'', JNull), (''groups'', JList (map JInt (snd (snd u))))]"

definition network_json :: "network_units \<Rightarrow> json" where
  "network_json w = JObject
     [(''name'', JNull), (''address'', JInt (fst w)), (''networknumber'', JNull), (''applications'', JObject []),
      (''units'', JObject (map (\<lambda>u. (py_str (fst u), unit_json u)) (snd w)))]"

lemma dump_unit_element:
  assumes "snd (snd u) \<noteq> []" "list_all is_byte (snd (snd u))"
  shows "dump_unit (unit_element u :: 'd cval) = Inr (VInt (fst u), unit_json u)"
proof -
  have "unit_channels (unit_element u :: 'd cval) = Inr (snd (snd u))"
    using channels_text [OF assms]
    by (simp add: unit_channels_def unit_element_def parameter_element_def element_defs get_items_def)
  then show ?thesis
    by (simp add: dump_unit_def unit_json_def json_fields_def json_field_def unit_element_def element_defs)
qed

lemma dump_units_element:
  assumes "units_ok w"
  shows "dump_network (units_element w :: 'd cval) = Inr (VInt (fst w), network_json w)"
proof -
  have u: "dump_unit (unit_element u :: 'd cval) = Inr (VInt (fst u), unit_json u)" if "u \<in> set (snd w)" for u
    using assms that by (intro dump_unit_element) (auto simp: units_ok_def list_all_iff)
  have "dict_of dump_unit (map unit_element (snd w) :: 'd cval list) [] =
      Inr ([] @ map (\<lambda>e. projr (dump_unit e)) (map unit_element (snd w)))"
    by (rule dict_of_distinct) (use assms u in \<open>auto simp: units_ok_def distinct_map inj_on_def\<close>)
  also have "map (\<lambda>e. projr (dump_unit e)) (map unit_element (snd w) :: 'd cval list) =
      map (\<lambda>u. (VInt (fst u), unit_json u)) (snd w)" using u by simp
  finally show ?thesis
    by (simp add: dump_network_def network_json_def json_fields_def json_field_def units_element_def element_defs
        get_items_def json_dict_def comp_def)
qed

lemma dump_project:
  assumes "distinct (map fst ws)" "list_all units_ok ws"
  shows "dump_labels (project_of ws :: 'd cval) = Inr (JObject (map (\<lambda>w. (py_str (fst w), network_json w)) ws))"
proof -
  have w: "dump_network (units_element w :: 'd cval) = Inr (VInt (fst w), network_json w)" if "w \<in> set ws" for w
    using assms(2) that by (intro dump_units_element) (auto simp: list_all_iff)
  have "dict_of dump_network (map units_element ws :: 'd cval list) [] =
      Inr ([] @ map (\<lambda>e. projr (dump_network e)) (map units_element ws))"
    by (rule dict_of_distinct) (use assms w in \<open>auto simp: distinct_map inj_on_def\<close>)
  also have "map (\<lambda>e. projr (dump_network e)) (map units_element ws :: 'd cval list) =
      map (\<lambda>w. (VInt (fst w), network_json w)) ws" using w by simp
  finally show ?thesis
    by (simp add: dump_labels_def project_of_def element_defs get_items_def json_dict_def comp_def)
qed

definition graph_spec :: "network_units \<Rightarrow> network_graph" where
  "graph_spec w =
     \<lparr>gr_units = map (fst \<circ> snd) (snd w), gr_loads = (\<Union>u \<in> set (snd w). set (snd (snd u))),
      gr_edges = concat (map (\<lambda>u. map (\<lambda>x. (fst (snd u), ''GA '' @ py_str x)) (filter (\<lambda>x. x \<noteq> 255) (snd (snd u)))) (snd w))\<rparr>"

lemma draw_units_json:
  "draw_units (map unit_json us) g =
     Inr \<lparr>gr_units = gr_units g @ map (fst \<circ> snd) us, gr_loads = gr_loads g \<union> (\<Union>u \<in> set us. set (snd (snd u))),
       gr_edges = gr_edges g @
         concat (map (\<lambda>u. map (\<lambda>x. (fst (snd u), ''GA '' @ py_str x)) (filter (\<lambda>x. x \<noteq> 255) (snd (snd u)))) us)\<rparr>"
proof (induction us arbitrary: g)
  case (Cons u us)
  have "rmapM int_json (map JInt xs) = Inr xs" for xs by (induction xs) simp_all
  then show ?case using Cons.IH by (simp add: draw_unit_def unit_json_def jget_def Un_assoc)
qed simp

lemma graph_of_network: "network_graph_of (network_json w) = Inr (graph_spec w)"
  using draw_units_json [of "snd w"]
  by (simp add: network_graph_of_def network_json_def graph_spec_def jget_def comp_def)

text \<open>
  C39: The graph of a project connects every unit to its groups. From the hexadecimal group addresses in
  the parameters of the units of a project, through the printed structure, the tools draw one graph for
  every network, with a node for each unit and each group, and an edge from a unit to each of its
  groups except the unused address 255.
\<close>

theorem project_graph:
  assumes "distinct (map fst ws)" and "list_all units_ok ws"
  shows "rbind (dump_labels (project_of ws :: 'd cval)) generate_graph =
    Inr (map (\<lambda>w. (''Network_'' @ py_str (fst w), graph_spec w)) ws)"
proof -
  have "rmapM (\<lambda>w. rmap (Pair (''Network_'' @ py_str (fst w))) (network_graph_of (network_json w))) ws =
      Inr (map (\<lambda>w. (''Network_'' @ py_str (fst w), graph_spec w)) ws)"
    by (rule rmapM_Inr) (simp add: graph_of_network)
  then show ?thesis by (simp add: dump_project [OF assms] generate_graph_def rmapM_map)
qed

theorem project_graph_witness:
  "rbind (dump_labels (project_of [(254, [(1, ''RELAY'', [1, 255]), (2, ''KEY'', [1, 2])])] :: string cval)) generate_graph =
   Inr [(''Network_254'', \<lparr>gr_units = [''RELAY'', ''KEY''], gr_loads = {1, 2, 255},
     gr_edges = [(''RELAY'', ''GA 1''), (''KEY'', ''GA 1''), (''KEY'', ''GA 2'')]\<rparr>)]"
proof -
  have "py_str 254 = ''254''" "py_str 1 = ''1''" "py_str 2 = ''2''" by code_simp+
  moreover have set: "{1, 2, 1, 255} = {1, 2, 255 :: int}" by auto
  moreover have "distinct (map fst [(254, [(1, ''RELAY'', [1, 255]), (2, ''KEY'', [1, 2])])] :: int list)"
    "list_all units_ok [(254, [(1, ''RELAY'', [1, 255]), (2, ''KEY'', [1, 2])])]"
    by (simp_all add: units_ok_def is_byte_def)
  ultimately show ?thesis
    using set project_graph [where 'd = string, of "[(254, [(1, ''RELAY'', [1, 255]), (2, ''KEY'', [1, 2])])]"]
    by (auto simp: graph_spec_def)
qed

end
