(* ===== verification/Spec2Isabelle.thy ===== *)
theory Spec2Isabelle
  imports Bridge Emulator_Link Transport Simulator_Link Proxy_Link Fake_Pci Ha_Discovery Daemon Web_Server Dump_Labels
begin

text \<open>
  A verification development for the Python implementation of C-Bus in
  \<open>python-legacy\<close>: the wire protocol of a PCI (the serial interface of a C-Bus network), the
  client and the emulated PCI that speak it, the bridge to MQTT, the connection state machine, the
  emulator and interrogator of bus units, the daemon, its web interface and its project files, the
  simulator and the proxy; and for the harness in
  \<open>rust-migration-harness\<close> that pins its behaviour down. Paths below are relative to
  \<open>python-legacy/cbus\<close>, those that begin with \<open>cbus-\<close> to \<open>python-legacy\<close>, those of the
  harness to its directory.

  \<^bold>\<open>The program.\<close> Bytes arrive at a \<open>BufferedProtocol\<close>, which cuts them into messages with
  \<open>decode_packet\<close> and hands each to \<open>handle_cbus_packet\<close>. The client \<open>PCIProtocol\<close> turns
  packets into events and commands into packets; every command carries a confirmation code from a
  pool of twenty and is resent until the PCI confirms it. \<open>PCIServerProtocol\<close> is the other end.
  The daemon's \<open>CBusHandler\<close> is a client that relays events to MQTT, and \<open>MqttClient\<close> queues
  C-Bus commands for MQTT messages in a throttler. \<open>ESP32Emulator\<close> is a second, simpler PCI with
  bus units, which \<open>UnitInterrogator\<close> queries. \<open>CBusTransport\<close> keeps a connection up, and
  \<open>ESP32Connection\<close> one to a bridge; \<open>cmqttd\<close> binds the MQTT client to it again after a loss, and
  \<open>WebConfigServer\<close> drives it by HTTP. Labels come from Toolkit project files or, for the discovery
  override, from a JSON file.
  The simulator is a third PCI, with an installation of networks, applications and groups that
  text commands read and write; the proxy stands between one PCI and several clients and relays and
  analyses what they exchange. The harness describes packets in JSON, records golden vectors of how
  they are decoded and encoded, and runs a client between a scripted PCI and a small MQTT broker.

  \<^bold>\<open>The theories.\<close> Each follows the order of its source file.
  \<^item> \<open>Prelude\<close>, \<open>Base16\<close>, \<open>Py_Text\<close>, \<open>Utf8\<close>, \<open>Json\<close>: bytes as lists of 8-bit words,
    exceptions as values, the action monad for code that updates an object and may raise, with
    triples for its invariants; base16, the Python text functions the daemon uses, UTF-8, and JSON
    values with Python's equality.
  \<^item> \<open>Cbus_Common\<close> (\<open>common.py\<close>): enumerations, ramp rates, checksums.
  \<^item> \<open>Status_Report\<close>, \<open>Cal\<close> (\<open>protocol/cal\<close>): status reports with their Manchester
    code, and the command abstraction layer messages.
  \<^item> \<open>Lighting\<close>, \<open>Clock\<close>, \<open>Enable\<close>, \<open>Temperature\<close>, \<open>Status_Request\<close>,
    \<open>Applications\<close> (\<open>protocol/application\<close>): one theory per application with its SALs
    and decode loop, and the registry. The locale \<open>stream_codec\<close> states what a SAL coder
    promises; each application interprets it, and the round trip of sequences is proved in it once.
  \<^item> \<open>Packets\<close>, \<open>Decode\<close> (\<open>protocol/*_packet.py\<close>, \<open>protocol/packet.py\<close>): the
    packet classes and \<open>decode_packet\<close> in its stages, including the exceptions that escape.
  \<^item> \<open>Buffered\<close> (\<open>protocol/buffered_protocol.py\<close>, \<open>protocol/cbus_protocol.py\<close>): the
    receive buffer. The locale \<open>framed_handler\<close> is what makes chunking irrelevant; the client's
    handler interprets it.
  \<^item> \<open>Confirmation\<close>, \<open>Pci_Protocol\<close>, \<open>Pci_Steps\<close> (\<open>protocol/pciprotocol.py\<close>): the
    pool of codes and pending packets, the client run without interruption, and its coroutines as
    an interleaving step relation with the abstract life of a packet that it refines.
  \<^item> \<open>Pci_Server\<close>, \<open>Link\<close> (\<open>protocol/pciserverprotocol.py\<close>): the emulated PCI, and client
    and server joined by a line.
  \<^item> \<open>Topics\<close>, \<open>Periodic\<close>, \<open>Mqtt_Gateway\<close>, \<open>Bridge\<close> (\<open>daemon/topics.py\<close>,
    \<open>toolkit/periodic.py\<close>, \<open>daemon/mqtt_gateway.py\<close>): topic names, the throttled queue
    (locale \<open>task_queue\<close>), the bridge as a record with an event log, and a command's way from
    MQTT to the line.
  \<^item> \<open>Transport\<close> (\<open>transport/base.py\<close>): the connection state machine cut at its awaits.
  \<^item> \<open>Esp32\<close>, \<open>Daemon\<close> (\<open>esp32/connection.py\<close>, \<open>transport/tcp.py\<close>, \<open>transport/serial.py\<close>,
    \<open>daemon/cmqttd.py\<close>): connections to bridges, and the daemon's choice of one, its end and its
    reconnection loop as a step relation over the transport.
  \<^item> \<open>Web_Server\<close> (\<open>web/server.py\<close>): the handlers of the REST interface over an emulator and a connection.
  \<^item> \<open>Project_File\<close>, \<open>Dump_Labels\<close> (\<open>toolkit/cbz.py\<close>, \<open>toolkit/dump_labels.py\<close>,
    \<open>toolkit/graph.py\<close>, and \<open>read_cbz_labels\<close> of \<open>daemon/cmqttd.py\<close>): the reader of XML elements by
    the fields of their classes, the labels, and what the two tools print and draw.
  \<^item> \<open>Ha_Discovery\<close> (\<open>esp32/ha_discovery.py\<close>): the discovery messages and the topics it clears.
  \<^item> \<open>Emulator\<close>, \<open>Interrogator\<close>, \<open>Emulator_Link\<close> (\<open>esp32/emulator/device.py\<close>,
    \<open>protocol/interrogator.py\<close>): the second PCI, the interrogator over a peer (locale
    \<open>attribute_server\<close>, interpreted by the emulator), and the two joined.
  \<^item> \<open>Level_Store\<close>: the contract of a table of group levels (locale \<open>level_store\<close>), interpreted
    by the emulator and by the simulated installation.
  \<^item> \<open>Simulator_State\<close>, \<open>Patterns\<close>, \<open>Simulator\<close>, \<open>Simulator_Link\<close>
    (\<open>cbus-simulator/simulator\<close>): the installation with its configuration (\<open>models.py\<close>,
    \<open>state.py\<close>, \<open>applications/lighting.py\<close>), the regular expressions of its commands, the
    session and the server (\<open>protocol.py\<close>, \<open>server.py\<close>), and the client talking to it.
  \<^item> \<open>Proxy\<close>, \<open>Proxy_Link\<close> (\<open>cbus-proxy/proxy.py\<close>): the reader of the CNI, the forwarding loops
    of the clients and the analyzer's books as one state with a step relation (locales
    \<open>stream_cutter\<close> and \<open>stable_cutter\<close> for the two ways a stream is cut), and clients behind it.
  \<^item> \<open>Packet_Json\<close>, \<open>Vectors\<close> (\<open>lib/pyjson.py\<close>, \<open>generate_vectors.py\<close>,
    \<open>suites/verify_vectors.py\<close>): packets as JSON and back, and how a vector is made and checked.
  \<^item> \<open>Fake_Pci\<close>, \<open>Broker\<close> (\<open>lib/wire.py\<close>, \<open>lib/fake_pci.py\<close>, \<open>lib/mini_broker.py\<close>):
    the scripted PCI with its own framing, and the sessions of the MQTT broker.

  \<^bold>\<open>What is shown.\<close> Packets survive encoding and decoding in both directions, whatever
  application they carry, and a decision of the decoder is final.
  The pool of codes stays well formed and no packet is attempted more than three times in any
  interleaving, which refines an abstract machine of packet lives where every change has its cause (a
  send, a confirmation, a retry about to be written); an unconfirmed packet is given up. A command of the client reaches the emulated PCI and its confirmation frees the code; the
  reset sequence configures the server. A light command received over MQTT is written to the bus as
  the command it means; the bridge announces a light before its state and never reacts to its own
  messages. The transport's state changes form a path and connecting is exclusive. Interrogating
  an emulated unit returns its attributes however the stream is cut. A level requested by HTTP reaches
  an emulated bridge. The reachable states of the daemon's reconnection loop are four, and its loop
  misses no loss of the protocol it is bound to. A project written as XML is read back, its labels are
  those of the chosen network, and its graph connects units to their groups. The simulator keeps its
  installation and its ranges whatever clients send, its commands are the regular expressions they
  are written as, and what one client sets another reads. The proxy loses, adds and reorders nothing
  in either direction and holds back incomplete messages only; its books follow a switch or a ramp to
  its confirmation. The JSON of a packet determines it, and of all decoders the golden vector of a
  packet is passed by those that read this packet off its whole line and by none that reads another. A command the scripted PCI does not acknowledge is sent three times and
  given up, and the broker delivers to a bridge the commands of its own lights and no others.
  Several theorems state
  behaviour the code cannot mean, and are listed as findings in the manifest: the echo that hides
  confirmations, the bare CAL that overshoots, payloads that end the message loop, the reconnection
  that gives up after one attempt, the daemon that binds itself to a lost connection again, command
  topics that are announced and not subscribed to, the emulator's status replies, the simulator's misreading of the
  client's commands and its shared table of levels, the proxy's reader that is never restarted and
  the confirmations its clients take from each other.

  \<^bold>\<open>Choices and bounds.\<close> Loops of the source that end are functions with a termination proof
  (the receive loops on the length of the buffer, the decode loops on the data left); endless loops
  (the retry task, the throttler's worker, the message dispatcher) appear as their turns. No model
  depends on fuel: \<open>loop_turns\<close>, the receive loop cut off after a number of turns, only states how many
  turns are enough (one more than the buffer has bytes). Time is an integer number of microseconds given to each operation. Outcomes of input and
  output, \<open>json.loads\<close>, \<open>datetime.fromisoformat\<close>, the XML of a project, the result of opening a connection and the answers of an interrogated
  peer are parameters. Locks are not modelled where no code suspends while holding them.

  \<^bold>\<open>Not modelled.\<close> Argument parsing (\<open>daemon/cli.py\<close>, the \<open>main\<close> functions), opening
  sockets, serial ports and files, TLS, logging, network discovery (\<open>esp32/discovery.py\<close>), the page of
  the web server and its handlers for discovery and for the emulator's status, the handlers that only
  log, and the tables of samples from which the harness makes its vectors. Of the proxy the text of the
  analyzer's reports is left out, of the simulator its random pauses. Both handle one read without
  interruption; interleavings are those of whole reads.
\<close>

section \<open>Properties\<close>

text \<open>
  C3: A light command reaches the bus. When a message on the command topic of a group of a lighting
  application carries a JSON object whose fields give a state, a brightness and a transition that
  is one of the ramp times of C-Bus, the handler accepts it; the next turn of the otherwise idle
  throttler writes one line; the PCI side decodes that line into the off, on or ramp command for
  that group, with the confirmation code under which the client keeps it pending; and the bridge
  ends by publishing the commanded state and the binary sensor of the group.
\<close>

theorem mqtt_to_wire:
  assumes "is_byte ga" and "app \<in> set lighting_applications"
    and "jl payload = Inr (JObject obj)" and "command_fields obj = Inr (on, b, t)"
    and "t \<in> set (map snd LIGHT_RAMP_RATES)"
    and "q_running (g_throttler g)" and "q_items (g_throttler g) = []"
    and "conf_inv (g_pci g)" and "connected (g_pci g)" and "g_client g"
  shows "\<exists>g' g'' line p code ann. handle_message jl (set_topic ga app) payload g = (Inr True, g') \<and>
    throttler_turn now g' = (Inr (), g'') \<and> written (g_pci g'') = written (g_pci g) @ [line] \<and>
    decode_packet True True False line = Inr (Some (Packet (PointToMultipointPacket p)), length line) \<and>
    pm_application p = Some app \<and> pm_sals p = [Lighting (command_sal ga app on b t)] \<and>
    p_confirmation p = Some [code] \<and> map_of (pending (g_pci g'')) code = Some (line, 1, now) \<and>
    g_log g'' = g_log g @ ann @ [Publish (state_topic ga app) (command_state on b t) 1 True,
      Publish (bin_sensor_state_topic ga app) (PText (if on \<and> b > 0 then ''ON'' else ''OFF'')) 1 True]"
proof -
  define g1 where "g1 = g\<lparr>g_throttler := enqueue (SwitchLight ga app on b t) (g_throttler g)\<rparr>"
  define g2 where "g2 = g1\<lparr>g_throttler := (g_throttler g1)\<lparr>q_items := []\<rparr>\<rparr>"
  have app: "is_byte app" using assms(2) by (simp add: application_ids get_application_byte)
  have h: "handle_message jl (set_topic ga app) payload g = (Inr True, g1)"
    using handle_message_object [where jl = jl and payload = payload, OF assms(1) app assms(3), of g] assms(4)
    by (simp add: g1_def)
  have w: "throttler_turn now g1 = switchLight now ga app on b t g2"
    using assms(6,7) by (auto simp: g1_def g2_def throttler_turn_def periodic_work_def enqueue_def queue_full_def)
  have b: "is_byte b" using command_fields_ok [OF assms(4)] by (simp add: is_byte_def)
  have g2: "g_pci g2 = g_pci g" "g_client g2 = g_client g" "g_log g2 = g_log g" by (simp_all add: g2_def g1_def)
  have "conf_inv (g_pci g2)" "connected (g_pci g2)" "g_client g2" using assms(8-10) by (simp_all add: g2)
  from switchLight_runs [OF assms(2,1) b assms(5) this, of now on] show ?thesis
    by (rule, unfold g2 w [symmetric]) (intro exI conjI, rule h, assumption+)
qed

theorem mqtt_to_wire_witness:
  "\<exists>g' g'' line p. handle_message (\<lambda>_. Inr (JObject [(''state'', JString ''ON''), (''brightness'', JInt 128),
       (''transition'', JInt 4)])) (set_topic 7 0x38) []
       ((new_gateway None 0 None (new_Periodic 1000))\<lparr>g_pci := connection_made (new_PCIProtocol 0 None), g_client := True\<rparr>) =
     (Inr True, g') \<and> throttler_turn 5 g' = (Inr (), g'') \<and> written (g_pci g'') = [line] \<and>
     decode_packet True True False line = Inr (Some (Packet (PointToMultipointPacket p)), length line) \<and>
     pm_sals p = [Lighting (LightingRampSAL 7 0x38 4 128)]"
proof -
  define obj where "obj = [(''state'', JString ''ON''), (''brightness'', JInt 128), (''transition'', JInt 4)]"
  define g where "g = (new_gateway None 0 None (new_Periodic 1000))\<lparr>g_pci := connection_made (new_PCIProtocol 0 None), g_client := True\<rparr>"
  have u: "py_upper ''ON'' = ''ON''" by code_simp
  have f: "command_fields obj = Inr (True, 128, 4)"
    by (simp add: obj_def command_fields_def number_field_def u)
  have g: "q_running (g_throttler g)" "q_items (g_throttler g) = []" "conf_inv (g_pci g)" "connected (g_pci g)" "g_client g"
    "written (g_pci g) = []"
    by (simp_all add: g_def new_gateway_def new_Periodic_def rotated_connection connection_made_def new_PCIProtocol_def
        cleanup_state_def conf_inv_def codes_facts)
  have "is_byte 7" "(0x38 :: int) \<in> set lighting_applications" "(4 :: int) \<in> set (map snd LIGHT_RAMP_RATES)"
    by (simp_all add: lighting_applications_def LIGHT_RAMP_RATES_def)
  from mqtt_to_wire [where jl = "\<lambda>_. Inr (JObject obj)", OF this(1,2) refl f this(3) g(1-5), of "[]" 5] g(6)
  show ?thesis unfolding g_def obj_def command_sal_def by fastforce
qed

text \<open>
  C4: A lighting command makes the round trip between the client and the emulated PCI. For on,
  off and terminate-ramp commands of one to nine groups on any lighting application, the client
  writes one line; the server in smart mode with checksums accepts it and answers with the
  confirmation code the client chose and a dot, leaving its buffer empty; and when the client
  receives that answer and runs the tasks it creates, the code is free again and nothing is
  pending under it, while every other code is untouched.
\<close>

theorem lighting_command_confirmed:
  assumes "(cmd, mk) \<in> {(lighting_group_on, new_LightingOnSAL), (lighting_group_off, new_LightingOffSAL),
        (lighting_group_terminate_ramp, new_LightingTerminateRampSAL)}"
    and "app \<in> set lighting_applications" and "\<forall>ga \<in> set gas. is_byte ga" and "gas \<noteq> []" and "length gas \<le> 9"
    and "conf_inv cst" and "connected cst" and "tasks cst = []"
    and "s_checksum sst" and "\<not> s_basic_mode sst" and "s_send_queue sst = []"
  shows "\<exists>code cst' line. cmd now gas app cst = (Inr (Some code), cst') \<and> written cst' = written cst @ [line] \<and>
    data_received server_handle_data line (new_BufferedProtocol MAX_BUFFER_SIZE sst) =
      new_BufferedProtocol MAX_BUFFER_SIZE (sst\<lparr>s_out := s_out sst @ [[code, 0x2E]]\<rparr>) \<and>
    map_of (pending cst') code = Some (line, 1, now) \<and>
    (let st = b_state (data_received pci_handle_data [code, 0x2E] (new_BufferedProtocol MAX_BUFFER_SIZE cst'));
         st' = fold run_task (tasks st) st in
     map_of (in_use st') = (map_of (in_use cst'))(code := None) \<and>
     map_of (pending st') = (map_of (pending cst'))(code := None))"
  using lighting_exchange [OF assms] .

theorem lighting_command_confirmed_witness:
  "\<exists>code cst' line. lighting_group_on 5 [1, 2] 0x38 ((connection_made (new_PCIProtocol 0 None))\<lparr>tasks := []\<rparr>) =
       (Inr (Some code), cst') \<and> written cst' = [line] \<and>
     b_buf (data_received server_handle_data line (new_BufferedProtocol MAX_BUFFER_SIZE
       (set_interface_options 0x79 new_PCIServerProtocol))) = []"
proof -
  define cst where "cst = (connection_made (new_PCIProtocol 0 None))\<lparr>tasks := []\<rparr>"
  have c: "conf_inv cst" "connected cst" "tasks cst = []" "written cst = []"
    by (simp_all add: cst_def connection_made_def new_PCIProtocol_def cleanup_state_def conf_inv_def codes_facts)
  have s: "s_checksum (set_interface_options 0x79 new_PCIServerProtocol)"
    "\<not> s_basic_mode (set_interface_options 0x79 new_PCIServerProtocol)"
    "s_send_queue (set_interface_options 0x79 new_PCIServerProtocol) = []"
    by (simp_all add: set_interface_options_bits bits_79 new_PCIServerProtocol_def)
  have "(0x38 :: int) \<in> set lighting_applications" "\<forall>ga \<in> set [1, 2]. is_byte ga"
    by (simp_all add: lighting_applications_def)
  from lighting_command_confirmed [OF _ this _ _ c(1-3) s, of lighting_group_on new_LightingOnSAL 5] c(4)
  show ?thesis unfolding cst_def [symmetric] by (auto simp: new_BufferedProtocol_def)
qed

text \<open>
  C12: The reset sequence of a newly connected client leaves the emulated PCI in smart mode, with
  connect, checksum, monitor and idmon on, whatever modes it was in before; it consumes all the
  client wrote, and confirms the four management commands with the codes the client attached, in
  order, as the last thing it writes.
\<close>

theorem reset_configures_server:
  assumes "s_send_queue sst = []"
  shows "\<exists>cst sst' pre. pci_reset_seq now (connection_made st) = (Inr (), cst) \<and>
    process_buffer server_handle_data (concat (drop (length (written st)) (written cst))) sst = (Inr (), [], sst') \<and>
    \<not> s_basic_mode sst' \<and> s_connect sst' \<and> s_checksum sst' \<and> s_monitor sst' \<and> s_idmon sst' \<and>
    s_out sst' = pre @ [ascii ''h.'', ascii ''i.'', ascii ''j.'', ascii ''k.'']"
  using reset_written [of now st] server_after_reset [OF assms] by metis

theorem reset_configures_server_witness:
  "\<exists>cst sst' pre. pci_reset_seq 0 (connection_made (new_PCIProtocol 0 None)) = (Inr (), cst) \<and>
     process_buffer server_handle_data (concat (written cst)) new_PCIServerProtocol = (Inr (), [], sst') \<and>
     s_checksum sst' \<and> s_out sst' = pre @ [ascii ''h.'', ascii ''i.'', ascii ''j.'', ascii ''k.'']"
  using reset_configures_server [of new_PCIServerProtocol 0 "new_PCIProtocol 0 None"]
  by (simp add: new_PCIServerProtocol_def new_PCIProtocol_def) blast

text \<open>
  The echo hides the confirmations. A server in basic mode, as it is after power-up, echoes
  the client's reset commands; the client's decoder finds no message in that echo and no line
  ending after it, so all that the server writes during the reset sequence stays in the client's
  buffer and none of the four confirmations is seen.
\<close>

lemma reset_echo_blocks_client:
  assumes "s_basic_mode sst" and "s_send_queue sst = []" and "s_out sst = []"
  shows "\<exists>sst' reply. process_buffer server_handle_data reset_stream sst = (Inr (), [], sst') \<and>
    reply = concat (s_out sst') \<and> data_received pci_handle_data reply (new_BufferedProtocol MAX_BUFFER_SIZE cst) =
      (new_BufferedProtocol MAX_BUFFER_SIZE cst)\<lparr>b_buf := reply\<rparr>"
  using reset_echo_waits [OF assms] by blast

end
